(* ===== verification/Prelude.thy ===== *)
theory Prelude
  imports Main "HOL-Library.Finite_Map" "HOL-Library.Sublist"
begin

text \<open>
  What every component of the model shares: the types that stand for Go's run-time errors
  (\<open>panic\<close>), error values and clock readings, Go maps as finite maps, the order in which
  \<open>range\<close> visits a Go map, and runs of a panicking step function.

  Conventions.  A Go \<open>string\<close> is a byte string, here a \<^typ>\<open>string\<close>.  A Go error value is
  its \<open>Error()\<close> text; a pair \<open>(T, error)\<close> is \<open>error + 'a\<close> unless the code returns a
  value together with an error, when it is a pair.  A run-time panic is a value of
  \<open>panic + 'a\<close>.  A nil map reads as the empty map.
\<close>

section \<open>Errors, panics, time\<close>

type_synonym error = string
type_synonym addr = nat

text \<open>A reading of the clock in nanoseconds since the Unix epoch; durations are nanoseconds too.\<close>

type_synonym time = int

datatype panic =
    SliceOutOfRange
  | SendOnClosedChannel
  | CloseOfClosedChannel

definition second_ns :: int where
  "second_ns = 1000000000"

section \<open>Collections of facts\<close>

named_theorems go_strings \<open>characterisations of the string routines\<close>
named_theorems chan_simps \<open>channel operations\<close>
named_theorems store_simps \<open>the container store\<close>
named_theorems job_simps \<open>deploy jobs and their registry\<close>

section \<open>Go maps\<close>

text \<open>
  \<open>range\<close> over a Go map visits every key once, in an order the language leaves open.  A
  loop over a map takes that order as an argument; its properties hold for every order.
\<close>

definition range_order :: "'k list \<Rightarrow> ('k, 'v) fmap \<Rightarrow> bool" where
  "range_order ks m \<longleftrightarrow> distinct ks \<and> set ks = fmdom' m"

fun range_values :: "'k list \<Rightarrow> ('k, 'v) fmap \<Rightarrow> 'v list" where
  "range_values [] m = []"
| "range_values (k # ks) m =
     (case fmlookup m k of None \<Rightarrow> range_values ks m | Some v \<Rightarrow> v # range_values ks m)"

lemma range_values_append [simp]:
  "range_values (ks @ ls) m = range_values ks m @ range_values ls m"
  by (induction ks) (auto split: option.splits)

lemma in_range_valuesD: "v \<in> set (range_values ks m) \<Longrightarrow> \<exists>k \<in> set ks. fmlookup m k = Some v"
  by (induction ks) (auto split: option.splits)

lemma in_range_valuesI: "fmlookup m k = Some v \<Longrightarrow> k \<in> set ks \<Longrightarrow> v \<in> set (range_values ks m)"
  by (induction ks) (auto split: option.splits)

lemma range_values_iff:
  "range_order ks m \<Longrightarrow> v \<in> set (range_values ks m) \<longleftrightarrow> (\<exists>k. fmlookup m k = Some v)"
  using in_range_valuesD in_range_valuesI fmdom'I unfolding range_order_def by metis

lemma length_range_values: "range_order ks m \<Longrightarrow> length (range_values ks m) = card (fmdom' m)"
proof -
  have "set ks \<subseteq> fmdom' m \<Longrightarrow> length (range_values ks m) = length ks"
    by (induction ks) (auto simp: fmlookup_dom'_iff split: option.splits)
  then show "range_order ks m \<Longrightarrow> length (range_values ks m) = card (fmdom' m)"
    by (auto simp: range_order_def distinct_card [symmetric])
qed

definition map_get :: "('k, string) fmap \<Rightarrow> 'k \<Rightarrow> string" where
  "map_get m k = (case fmlookup m k of None \<Rightarrow> [] | Some v \<Rightarrow> v)"

lemma map_get_simps [simp]:
  "map_get fmempty k = []"
  "map_get (fmupd k v m) k' = (if k = k' then v else map_get m k')"
  by (auto simp: map_get_def)

section \<open>Runs of a step function that may panic\<close>

fun run_steps :: "('s \<Rightarrow> 'e \<Rightarrow> panic + 's) \<Rightarrow> 's \<Rightarrow> 'e list \<Rightarrow> panic + 's" where
  "run_steps step s [] = Inr s"
| "run_steps step s (e # es) =
     (case step s e of Inl p \<Rightarrow> Inl p | Inr s' \<Rightarrow> run_steps step s' es)"

lemma run_steps_append:
  "run_steps step s (es @ fs) =
     (case run_steps step s es of Inl p \<Rightarrow> Inl p | Inr s' \<Rightarrow> run_steps step s' fs)"
  by (induction es arbitrary: s) (auto split: sum.splits)

lemma run_steps_ConsE:
  assumes "run_steps step s (e # es) = Inr t"
  obtains s' where "step s e = Inr s'" "run_steps step s' es = Inr t"
  using assms by (auto split: sum.splits)

text \<open>What is observed of the steps of a run, in order.\<close>

fun observe :: "('s \<Rightarrow> 'e \<Rightarrow> 'b list) \<Rightarrow> ('s \<Rightarrow> 'e \<Rightarrow> panic + 's) \<Rightarrow> 's \<Rightarrow> 'e list \<Rightarrow> 'b list" where
  "observe f step s [] = []"
| "observe f step s (e # es) =
     f s e @ (case step s e of Inl p \<Rightarrow> [] | Inr s' \<Rightarrow> observe f step s' es)"

lemma observe_set: "\<forall>s. \<forall>e \<in> set es. \<forall>x \<in> set (f s e). P x \<Longrightarrow> \<forall>x \<in> set (observe f step s es). P x"
  by (induction es arbitrary: s) (auto split: sum.splits)

lemma observe_length:
  assumes "\<And>s e. length (f s e) \<le> 1" shows "length (observe f step s es) \<le> length es"
proof (induction es arbitrary: s)
  case (Cons e es)
  show ?case
  proof (cases "step s e")
    case (Inr s')
    with assms [of s e] Cons.IH [of s'] show ?thesis by simp
  qed (use assms [of s e] in simp)
qed simp

lemma fmdrop_fmupd_empty [simp]: "fmdrop k (fmupd k v fmempty) = fmempty"
  by (rule fmap_ext) simp

section \<open>Heap updates behind a lookup\<close>

lemma map_option_upd_other [simp]:
  "x \<noteq> Some a \<Longrightarrow> map_option (f(a := v)) x = map_option f x"
  by (cases x) auto

section \<open>Lists\<close>

lemma takeWhile_neq_all [simp]: "c \<notin> set xs \<Longrightarrow> takeWhile (\<lambda>x. x \<noteq> c) xs = xs"
  by (induction xs) auto

lemma dropWhile_neq_all [simp]: "c \<notin> set xs \<Longrightarrow> dropWhile (\<lambda>x. x \<noteq> c) xs = []"
  by (induction xs) auto

lemma takeWhile_neq_append [simp]:
  "c \<notin> set xs \<Longrightarrow> takeWhile (\<lambda>x. x \<noteq> c) (xs @ c # ys) = xs"
  by (induction xs) auto

lemma dropWhile_neq_append [simp]:
  "c \<notin> set xs \<Longrightarrow> dropWhile (\<lambda>x. x \<noteq> c) (xs @ c # ys) = c # ys"
  by (induction xs) auto

lemma notin_takeWhile [simp]: "c \<notin> set (takeWhile (\<lambda>x. x \<noteq> c) xs)"
  by (auto dest: set_takeWhileD)

lemma take_append_take: "take n (take n xs @ ys) = take n (xs @ ys)"
  by (cases "n \<le> length xs") auto

lemma split_first: "c \<in> set xs \<Longrightarrow> \<exists>a b. xs = a @ c # b \<and> c \<notin> set a"
  by (meson split_list_first)

lemma split_last: "c \<in> set xs \<Longrightarrow> \<exists>a b. xs = a @ c # b \<and> c \<notin> set b"
  by (meson split_list_last)

end
