(* ===== verification/Go_Strings.thy ===== *)
theory Go_Strings
  imports Prelude
begin

text \<open>
  The routines of Go's \<open>strings\<close> and \<open>strconv\<close> packages that the program calls, on byte
  strings.  \<open>Index\<close> and \<open>LastIndex\<close> are only ever called with a one-character
  needle, so the needle is a character and the result is the byte index, or \<open>-1\<close>.
  \<open>slice_to s i\<close> is \<open>s[:i]\<close> and \<open>slice_from s i\<close> is \<open>s[i:]\<close> where the
  code has checked the bounds; \<open>checked_slice_to\<close> is the slice that panics.
\<close>

section \<open>Searching and slicing\<close>

definition Index :: "string \<Rightarrow> char \<Rightarrow> int" where
  "Index s c = (if c \<in> set s then int (length (takeWhile (\<lambda>x. x \<noteq> c) s)) else - 1)"

definition LastIndex :: "string \<Rightarrow> char \<Rightarrow> int" where
  "LastIndex s c =
     (if c \<in> set s then int (length s) - 1 - int (length (takeWhile (\<lambda>x. x \<noteq> c) (rev s)))
      else - 1)"

definition slice_to :: "string \<Rightarrow> int \<Rightarrow> string" where
  "slice_to s i = take (nat i) s"

definition slice_from :: "string \<Rightarrow> int \<Rightarrow> string" where
  "slice_from s i = drop (nat i) s"

definition checked_slice_to :: "string \<Rightarrow> nat \<Rightarrow> panic + string" where
  "checked_slice_to s n = (if n \<le> length s then Inr (take n s) else Inl SliceOutOfRange)"

definition Cut :: "string \<Rightarrow> char \<Rightarrow> string \<times> string \<times> bool" where
  "Cut s c =
     (if c \<in> set s
      then (takeWhile (\<lambda>x. x \<noteq> c) s, tl (dropWhile (\<lambda>x. x \<noteq> c) s), True)
      else (s, [], False))"

definition TrimPrefix :: "string \<Rightarrow> string \<Rightarrow> string" where
  "TrimPrefix s p = (if prefix p s then drop (length p) s else s)"

definition CutPrefix :: "string \<Rightarrow> string \<Rightarrow> string \<times> bool" where
  "CutPrefix s p = (if prefix p s then (drop (length p) s, True) else (s, False))"

definition TrimSuffix :: "string \<Rightarrow> string \<Rightarrow> string" where
  "TrimSuffix s p = (if suffix p s then take (length s - length p) s else s)"

definition ContainsAny :: "string \<Rightarrow> string \<Rightarrow> bool" where
  "ContainsAny s cs \<longleftrightarrow> list_ex (\<lambda>c. c \<in> set cs) s"

definition Trim1 :: "string \<Rightarrow> char \<Rightarrow> string" where
  "Trim1 s c = rev (dropWhile (\<lambda>x. x = c) (rev (dropWhile (\<lambda>x. x = c) s)))"

text \<open>\<open>SplitN s sep n\<close> gives at most \<open>n\<close> pieces, the last one unsplit; \<open>Split\<close> has no limit.\<close>

fun SplitN :: "string \<Rightarrow> char \<Rightarrow> nat \<Rightarrow> string list" where
  "SplitN s c 0 = []"
| "SplitN s c (Suc 0) = [s]"
| "SplitN s c (Suc (Suc n)) =
     (if c \<in> set s
      then takeWhile (\<lambda>x. x \<noteq> c) s # SplitN (tl (dropWhile (\<lambda>x. x \<noteq> c) s)) c (Suc n)
      else [s])"

fun Split :: "string \<Rightarrow> char \<Rightarrow> string list" where
  "Split [] c = [[]]"
| "Split (x # xs) c =
     (if x = c then [] # Split xs c
      else (case Split xs c of [] \<Rightarrow> [[x]] | p # ps \<Rightarrow> (x # p) # ps))"

text \<open>
  \<open>TrimSpace\<close> removes white space as Unicode defines it: the six ASCII characters and the
  UTF-8 encodings of the others.
\<close>

definition spaces :: "string list" where
  "spaces =
     [[CHR 0x09], [CHR 0x0A], [CHR 0x0B], [CHR 0x0C], [CHR 0x0D], [CHR 0x20],
      [CHR 0xC2, CHR 0x85], [CHR 0xC2, CHR 0xA0], [CHR 0xE1, CHR 0x9A, CHR 0x80],
      [CHR 0xE2, CHR 0x80, CHR 0x80], [CHR 0xE2, CHR 0x80, CHR 0x81],
      [CHR 0xE2, CHR 0x80, CHR 0x82], [CHR 0xE2, CHR 0x80, CHR 0x83],
      [CHR 0xE2, CHR 0x80, CHR 0x84], [CHR 0xE2, CHR 0x80, CHR 0x85],
      [CHR 0xE2, CHR 0x80, CHR 0x86], [CHR 0xE2, CHR 0x80, CHR 0x87],
      [CHR 0xE2, CHR 0x80, CHR 0x88], [CHR 0xE2, CHR 0x80, CHR 0x89],
      [CHR 0xE2, CHR 0x80, CHR 0x8A], [CHR 0xE2, CHR 0x80, CHR 0xA8],
      [CHR 0xE2, CHR 0x80, CHR 0xA9], [CHR 0xE2, CHR 0x80, CHR 0xAF],
      [CHR 0xE2, CHR 0x81, CHR 0x9F], [CHR 0xE3, CHR 0x80, CHR 0x80]]"

definition leading :: "string list \<Rightarrow> string \<Rightarrow> nat" where
  "leading ws s = (case find (\<lambda>w. prefix w s) ws of None \<Rightarrow> 0 | Some w \<Rightarrow> length w)"

function trim_left :: "string list \<Rightarrow> string \<Rightarrow> string" where
  "trim_left ws s = (if leading ws s = 0 then s else trim_left ws (drop (leading ws s) s))"
  by pat_completeness auto
termination
proof (relation "measure (\<lambda>(ws, s). length s)")
  fix ws s assume a: "leading ws s \<noteq> 0"
  then obtain w where w: "find (\<lambda>w. prefix w s) ws = Some w" "w \<noteq> []"
    by (auto simp: leading_def split: option.splits)
  then have "prefix w s" by (auto simp: find_Some_iff)
  with w have "s \<noteq> []" by auto
  with a show "((ws, drop (leading ws s) s), (ws, s)) \<in> measure (\<lambda>(ws, s). length s)"
    by (cases s) auto
qed simp

declare trim_left.simps [simp del]

definition TrimSpace :: "string \<Rightarrow> string" where
  "TrimSpace s = rev (trim_left (map rev spaces) (rev (trim_left spaces s)))"

section \<open>Decimal numbers\<close>

text \<open>
  \<open>strconv.Atoi\<close>: an optional sign, then decimal digits, within the 64 bits of an \<open>int\<close>.
  \<open>None\<close> is an error (syntax or range); no caller reads the number returned with an error.
\<close>

definition is_digit :: "char \<Rightarrow> bool" where
  "is_digit c \<longleftrightarrow> 48 \<le> (of_char c :: nat) \<and> (of_char c :: nat) \<le> 57"

definition digit_val :: "char \<Rightarrow> int" where
  "digit_val c = int (of_char c) - 48"

definition decimal :: "string \<Rightarrow> int" where
  "decimal s = foldl (\<lambda>n c. 10 * n + digit_val c) 0 s"

definition atoi_digits :: "string \<Rightarrow> int option" where
  "atoi_digits s = (if s \<noteq> [] \<and> list_all is_digit s then Some (decimal s) else None)"

definition in_int64 :: "int \<Rightarrow> bool" where
  "in_int64 n \<longleftrightarrow> - (2 ^ 63) \<le> n \<and> n < 2 ^ 63"

definition Atoi :: "string \<Rightarrow> int option" where
  "Atoi s =
     (case (case s of
        [] \<Rightarrow> None
      | c # cs \<Rightarrow>
          (if c = CHR ''-'' then map_option uminus (atoi_digits cs)
           else if c = CHR ''+'' then atoi_digits cs
           else atoi_digits s)) of
        None \<Rightarrow> None
      | Some n \<Rightarrow> (if in_int64 n then Some n else None))"

text \<open>Decimal text of a natural number, as \<open>fmt\<close>'s \<open>%d\<close> prints it.\<close>

definition digit_char :: "nat \<Rightarrow> char" where
  "digit_char d = char_of (48 + d)"

fun show_nat :: "nat \<Rightarrow> string" where
  "show_nat n = (if n < 10 then [digit_char n] else show_nat (n div 10) @ [digit_char (n mod 10)])"

declare show_nat.simps [simp del]

section \<open>Characterisations\<close>

lemma Index_eq_minus1 [simp]: "Index s c = - 1 \<longleftrightarrow> c \<notin> set s"
  by (auto simp: Index_def)

lemma LastIndex_ge: "LastIndex s c \<ge> - 1"
proof -
  have "length (takeWhile (\<lambda>x. x \<noteq> c) (rev s)) \<le> length s"
    by (metis length_rev length_takeWhile_le)
  then show ?thesis by (auto simp: LastIndex_def)
qed

lemma Index_append: "c \<notin> set a \<Longrightarrow> Index (a @ c # b) c = int (length a)"
  by (simp add: Index_def)

lemma LastIndex_append: "c \<notin> set b \<Longrightarrow> LastIndex (a @ c # b) c = int (length a)"
  by (simp add: LastIndex_def)

lemma LastIndex_eq_minus1 [simp]: "LastIndex s c = - 1 \<longleftrightarrow> c \<notin> set s"
proof
  assume "LastIndex s c = - 1"
  show "c \<notin> set s"
  proof
    assume "c \<in> set s"
    then obtain a b where "s = a @ c # b" "c \<notin> set b" by (auto dest: split_last)
    with \<open>LastIndex s c = - 1\<close> show False by (simp add: LastIndex_append)
  qed
qed (simp add: LastIndex_def)

lemma slice_to_append [simp]: "slice_to (a @ b) (int (length a)) = a"
  by (simp add: slice_to_def)

lemma slice_from_append [simp]: "slice_from (a @ c # b) (int (length a) + 1) = b"
  by (simp add: slice_from_def nat_add_distrib)

lemma slice_to_Index [go_strings]:
  "slice_to s (Index s c) = (if c \<in> set s then takeWhile (\<lambda>x. x \<noteq> c) s else [])"
  by (simp add: slice_to_def Index_def flip: takeWhile_eq_take)

lemma slice_from_Index [go_strings]:
  "c \<in> set s \<Longrightarrow> slice_from s (Index s c) = dropWhile (\<lambda>x. x \<noteq> c) s"
  by (simp add: slice_from_def Index_def flip: dropWhile_eq_drop)

lemma Cut_append: "c \<notin> set a \<Longrightarrow> Cut (a @ c # b) c = (a, b, True)"
  by (simp add: Cut_def)

lemma Cut_notin [simp]: "c \<notin> set s \<Longrightarrow> Cut s c = (s, [], False)"
  by (simp add: Cut_def)

lemma SplitN_not_Nil: "n > 0 \<Longrightarrow> SplitN s c n \<noteq> []"
  by (cases "(s, c, n)" rule: SplitN.cases) auto

lemma Split_not_Nil [simp]: "Split s c \<noteq> []"
  by (induction s) (auto split: list.splits)

lemma Split_no_sep: "p \<in> set (Split s c) \<Longrightarrow> c \<notin> set p"
  by (induction s arbitrary: p) (auto split: if_splits list.splits)

lemma TrimPrefix_append [simp]: "TrimPrefix (p @ s) p = s"
  by (simp add: TrimPrefix_def)

section \<open>Decimal round trip\<close>

lemma of_char_digit: "d < 10 \<Longrightarrow> of_char (digit_char d) = 48 + d"
  by (simp add: digit_char_def)

lemma is_digit_digit_char: "d < 10 \<Longrightarrow> is_digit (digit_char d)"
  by (simp add: is_digit_def of_char_digit)

lemma digit_val_digit_char: "d < 10 \<Longrightarrow> digit_val (digit_char d) = int d"
  by (simp add: digit_val_def of_char_digit)

lemma show_nat_digits: "list_all is_digit (show_nat n)"
proof (induction n rule: show_nat.induct)
  case (1 n)
  then show ?case by (subst show_nat.simps) (auto simp: is_digit_digit_char)
qed

lemma show_nat_not_Nil [simp]: "show_nat n \<noteq> []"
  by (subst show_nat.simps) auto

lemma decimal_snoc: "decimal (s @ [c]) = 10 * decimal s + digit_val c"
  by (simp add: decimal_def)

lemma decimal_show_nat: "decimal (show_nat n) = int n"
proof (induction n rule: show_nat.induct)
  case (1 n)
  show ?case
  proof (cases "n < 10")
    case True
    then show ?thesis by (subst show_nat.simps) (simp add: decimal_def digit_val_digit_char)
  next
    case False
    have "int n = 10 * int (n div 10) + int (n mod 10)" by presburger
    with 1 False show ?thesis
      by (subst show_nat.simps) (simp add: decimal_snoc digit_val_digit_char)
  qed
qed

lemma digit_not_sign:
  "is_digit c \<Longrightarrow> c \<noteq> CHR ''-'' \<and> c \<noteq> CHR ''+'' \<and> c \<noteq> CHR ''.'' \<and> c \<noteq> CHR ''v'' \<and> c \<noteq> CHR '':''
    \<and> c \<noteq> CHR ''@''"
  by (auto simp: is_digit_def)

lemma notin_digits: "list_all is_digit s \<Longrightarrow> \<not> is_digit c \<Longrightarrow> c \<notin> set s"
  by (auto simp: list_all_iff)

lemma not_digits [simp]:
  "\<not> is_digit CHR ''.''" "\<not> is_digit CHR ''-''" "\<not> is_digit CHR ''v''"
  "\<not> is_digit CHR '':''" "\<not> is_digit CHR ''@''"
  by (simp_all add: is_digit_def)

lemma Atoi_show_nat:
  assumes "int n < 2 ^ 63"
  shows "Atoi (show_nat n) = Some (int n)"
proof -
  obtain c cs where s: "show_nat n = c # cs" by (cases "show_nat n") auto
  then have "c \<noteq> CHR ''-''" "c \<noteq> CHR ''+''"
    using show_nat_digits [of n] digit_not_sign [of c] by auto
  moreover have "atoi_digits (show_nat n) = Some (int n)"
    by (simp add: atoi_digits_def show_nat_digits decimal_show_nat)
  moreover have "in_int64 (int n)" using assms by (simp add: in_int64_def)
  ultimately show ?thesis by (simp add: Atoi_def s)
qed

lemma show_nat_inj: "show_nat m = show_nat n \<Longrightarrow> m = n"
  by (metis decimal_show_nat of_nat_eq_iff)

lemma length_show_nat: "n < 10 ^ k \<Longrightarrow> 0 < k \<Longrightarrow> length (show_nat n) \<le> k"
proof (induction k arbitrary: n)
  case (Suc k)
  show ?case
  proof (cases "n < 10")
    case True
    then show ?thesis by (simp add: show_nat.simps [of n])
  next
    case False
    with Suc.prems have "0 < k" by (cases k) auto
    moreover have "n div 10 < 10 ^ k" using Suc.prems by simp
    ultimately have "length (show_nat (n div 10)) \<le> k" by (intro Suc.IH)
    with False show ?thesis by (simp add: show_nat.simps [of n])
  qed
qed simp

lemma Split_append: "c \<notin> set a \<Longrightarrow> Split (a @ c # b) c = a # Split b c"
  by (induction a) (auto split: list.splits)

lemma Split_single: "c \<notin> set a \<Longrightarrow> Split a c = [a]"
  by (induction a) auto

end
