(* ===== verification/Interfaces.thy ===== *)
theory Interfaces
  imports Prelude
begin

text \<open>
  The contracts components share, as locales.  \<open>safe_machine\<close>: operations that keep an
  invariant and never panic from it, so no sequence of them does; \<open>checked_machine\<close>: the same for
  operations whose arguments must pass a check; \<open>flow_machine\<close>: operations that keep an invariant or
  panic for a known reason.  \<open>guarded_machine\<close>: some
  states are final, and no operation changes what is observed of a final state.
  \<open>keyed_registry\<close>: a table under a lock, with the laws of lookup after insertion and
  removal; \<open>fifo_machine\<close>: a queue inside the state loses and reorders nothing;
  \<open>machine_simulation\<close>: one machine's runs are runs of another.  Each is interpreted in the theories of the components that provide it.
\<close>

section \<open>Operations that never panic\<close>

locale safe_machine =
  fixes step :: "'s \<Rightarrow> 'e \<Rightarrow> panic + 's"
    and inv :: "'s \<Rightarrow> bool"
  assumes step_safe: "inv s \<Longrightarrow> \<exists>s'. step s e = Inr s' \<and> inv s'"
begin

lemma step_inv: "inv s \<Longrightarrow> step s e = Inr s' \<Longrightarrow> inv s'"
  using step_safe [of s e] by auto

lemma step_no_panic: "inv s \<Longrightarrow> step s e \<noteq> Inl p"
  using step_safe [of s e] by auto

end

text \<open>
  Operations that keep an invariant if what they are given passes a check, and otherwise panic only
  for a reason; if there is no such reason, they are safe.
\<close>

locale flow_machine =
  fixes step :: "'s \<Rightarrow> 'e \<Rightarrow> panic + 's"
    and inv :: "'s \<Rightarrow> bool" and ok :: "'e \<Rightarrow> bool" and reason :: "panic \<Rightarrow> bool"
  assumes flow_step: "inv s \<Longrightarrow> ok e \<Longrightarrow> (case step s e of Inl p \<Rightarrow> reason p | Inr s' \<Rightarrow> inv s')"
begin

lemma flow_run:
  "inv s \<Longrightarrow> \<forall>e \<in> set es. ok e \<Longrightarrow> (case run_steps step s es of Inl p \<Rightarrow> reason p | Inr s' \<Rightarrow> inv s')"
proof (induction es arbitrary: s)
  case (Cons e es)
  with flow_step [of s e] show ?case by (cases "step s e") auto
qed simp

end

locale checked_machine =
  fixes step :: "'s \<Rightarrow> 'e \<Rightarrow> panic + 's"
    and inv :: "'s \<Rightarrow> bool" and ok :: "'e \<Rightarrow> bool"
  assumes checked_step: "inv s \<Longrightarrow> ok e \<Longrightarrow> \<exists>s'. step s e = Inr s' \<and> inv s'"

sublocale checked_machine \<subseteq> flow: flow_machine step inv ok "\<lambda>_. False"
proof
  fix s e assume "inv s" "ok e"
  from checked_step [OF this] show "case step s e of Inl p \<Rightarrow> False | Inr s' \<Rightarrow> inv s'" by auto
qed

context checked_machine
begin

lemma checked_run: "inv s \<Longrightarrow> \<forall>e \<in> set es. ok e \<Longrightarrow> \<exists>s'. run_steps step s es = Inr s' \<and> inv s'"
  using flow.flow_run [of s es] by (cases "run_steps step s es") auto

end

sublocale safe_machine \<subseteq> anytime: checked_machine step inv "\<lambda>_. True"
  by unfold_locales (simp add: step_safe)

context safe_machine
begin

lemma run_safe: "inv s \<Longrightarrow> \<exists>s'. run_steps step s es = Inr s' \<and> inv s'"
  by (rule anytime.checked_run) simp_all

lemma run_inv: "inv s \<Longrightarrow> run_steps step s es = Inr s' \<Longrightarrow> inv s'"
  using run_safe [of s es] by auto

end

text \<open>Final states: what is observed of them no longer changes.\<close>

locale guarded_machine = safe_machine step inv
  for step :: "'s \<Rightarrow> 'e \<Rightarrow> panic + 's" and inv :: "'s \<Rightarrow> bool" +
  fixes final :: "'s \<Rightarrow> bool" and view :: "'s \<Rightarrow> 'v"
  assumes final_step: "final s \<Longrightarrow> step s e = Inr s' \<Longrightarrow> final s' \<and> view s' = view s"
begin

lemma final_run:
  "final s \<Longrightarrow> run_steps step s es = Inr s' \<Longrightarrow> final s' \<and> view s' = view s"
proof (induction es arbitrary: s)
  case (Cons e es)
  obtain u where "step s e = Inr u" "run_steps step u es = Inr s'"
    using Cons.prems(2) by (rule run_steps_ConsE)
  with Cons show ?case by (metis final_step)
qed simp

end

section \<open>Queues\<close>

text \<open>
  A queue inside a machine's state: while the state is \<open>live\<close> and the events are \<open>ok\<close>, what a step
  puts in comes after what was waiting, and what it takes out comes from the front.
\<close>

locale fifo_machine = safe_machine step inv
  for step :: "'s \<Rightarrow> 'e \<Rightarrow> panic + 's" and inv :: "'s \<Rightarrow> bool" +
  fixes live :: "'s \<Rightarrow> bool" and ok :: "'e \<Rightarrow> bool" and buf :: "'s \<Rightarrow> 'm list"
    and put :: "'s \<Rightarrow> 'e \<Rightarrow> 'm list" and get :: "'s \<Rightarrow> 'e \<Rightarrow> 'm list"
  assumes fifo_step: "inv s \<Longrightarrow> live s \<Longrightarrow> ok e \<Longrightarrow> step s e = Inr s' \<Longrightarrow>
    live s' \<and> buf s @ put s e = get s e @ buf s'"
begin

lemma fifo_run:
  assumes "inv s" "live s" "\<forall>e \<in> set es. ok e" "run_steps step s es = Inr s'"
  shows "live s' \<and> buf s @ observe put step s es = observe get step s es @ buf s'"
  using assms
proof (induction es arbitrary: s)
  case (Cons e es)
  obtain s1 where s1: "step s e = Inr s1" "run_steps step s1 es = Inr s'"
    using Cons.prems(4) by (rule run_steps_ConsE)
  have q: "live s1" "buf s @ put s e = get s e @ buf s1"
    using fifo_step [OF Cons.prems(1,2) _ s1(1)] Cons.prems(3) by auto
  have i: "inv s1" by (rule step_inv [OF Cons.prems(1) s1(1)])
  have "live s' \<and> buf s1 @ observe put step s1 es = observe get step s1 es @ buf s'"
    using Cons.IH [OF i q(1) _ s1(2)] Cons.prems(3) by simp
  with q(2) s1(1) show ?case by simp (metis append.assoc)
qed simp

end

section \<open>Keyed tables\<close>

locale keyed_registry =
  fixes lookup :: "'r \<Rightarrow> 'k \<Rightarrow> 'v option"
    and insert :: "'k \<Rightarrow> 'v \<Rightarrow> 'r \<Rightarrow> 'r"
    and remove :: "'k \<Rightarrow> 'r \<Rightarrow> 'r"
  assumes lookup_insert: "lookup (insert k v r) k' = (if k' = k then Some v else lookup r k')"
    and lookup_remove: "lookup (remove k r) k' = (if k' = k then None else lookup r k')"
begin

text \<open>A connection that is inserted twice and removed once is gone: removal is by key.\<close>

lemma remove_drops_newer: "lookup (remove k (insert k w (insert k v r))) k = None"
  by (simp add: lookup_remove)

lemma insert_other: "k' \<noteq> k \<Longrightarrow> lookup (insert k v r) k' = lookup r k'"
  by (simp add: lookup_insert)

lemma remove_idem: "lookup (remove k (remove k r)) = lookup (remove k r)"
  by (rule ext) (simp add: lookup_remove)

lemma insert_all:
  "distinct (map fst kvs) \<Longrightarrow>
   lookup (fold (\<lambda>(k, v). insert k v) kvs r) k =
     (case map_of kvs k of Some v \<Rightarrow> Some v | None \<Rightarrow> lookup r k)"
proof (induction kvs arbitrary: r)
  case (Cons kv kvs)
  obtain k' v' where kv: "kv = (k', v')" by fastforce
  have "map_of kvs k' = None" using Cons.prems by (simp add: kv map_of_eq_None_iff)
  with Cons show ?case by (auto simp: kv lookup_insert split: option.splits)
qed simp

end

section \<open>Machines that do the steps of another\<close>

text \<open>Up to an abstraction, each step of one machine is the steps \<open>moves\<close> of the other.\<close>

locale machine_simulation =
  fixes step :: "'s \<Rightarrow> 'e \<Rightarrow> panic + 's" and abs_step :: "'t \<Rightarrow> 'a \<Rightarrow> panic + 't"
    and abs :: "'s \<Rightarrow> 't" and moves :: "'s \<Rightarrow> 'e \<Rightarrow> 'a list" and inv :: "'s \<Rightarrow> bool"
  assumes sim_step: "inv s \<Longrightarrow> run_steps abs_step (abs s) (moves s e) = map_sum id abs (step s e)"
    and sim_inv: "inv s \<Longrightarrow> step s e = Inr s' \<Longrightarrow> inv s'"
begin

lemma sim_run: "inv s \<Longrightarrow> run_steps abs_step (abs s) (observe moves step s es) = map_sum id abs (run_steps step s es)"
proof (induction es arbitrary: s)
  case (Cons e es)
  show ?case
  proof (cases "step s e")
    case (Inl p)
    with sim_step [OF Cons.prems, of e] show ?thesis by (simp add: run_steps_append)
  next
    case (Inr s')
    with sim_step [OF Cons.prems, of e] Cons.IH [OF sim_inv [OF Cons.prems Inr]] show ?thesis
      by (simp add: run_steps_append)
  qed
qed simp

lemma sim_inv_run: "inv s \<Longrightarrow> run_steps step s es = Inr s' \<Longrightarrow> inv s'"
  by (induction es arbitrary: s) (auto split: sum.splits intro: sim_inv)

end

end
