(* ===== verification/Go_Chan.thy ===== *)
theory Go_Chan
  imports Interfaces
begin

text \<open>
  Buffered Go channels: a capacity, the values sent and not yet received (oldest first), and
  whether the channel has been closed.  \<open>try_send\<close> is the \<open>select\<close> with one send case and
  a \<open>default\<close>, which every sender of the program uses; a send on a closed channel and a second
  close panic.
\<close>

record 'a chan =
  ch_cap :: nat
  ch_buf :: "'a list"
  ch_closed :: bool

datatype 'a received = Received 'a | Closed | Blocked

definition make_chan :: "nat \<Rightarrow> 'a chan" where
  "make_chan n = \<lparr>ch_cap = n, ch_buf = [], ch_closed = False\<rparr>"

definition offer :: "'a \<Rightarrow> 'a chan \<Rightarrow> 'a chan" where
  "offer v c = (if length (ch_buf c) < ch_cap c then c\<lparr>ch_buf := ch_buf c @ [v]\<rparr> else c)"

definition try_send :: "'a \<Rightarrow> 'a chan \<Rightarrow> panic + 'a chan" where
  "try_send v c = (if ch_closed c then Inl SendOnClosedChannel else Inr (offer v c))"

definition close_chan :: "'a chan \<Rightarrow> panic + 'a chan" where
  "close_chan c =
     (if ch_closed c then Inl CloseOfClosedChannel else Inr (c\<lparr>ch_closed := True\<rparr>))"

definition receive :: "'a chan \<Rightarrow> 'a received \<times> 'a chan" where
  "receive c =
     (case ch_buf c of
        v # vs \<Rightarrow> (Received v, c\<lparr>ch_buf := vs\<rparr>)
      | [] \<Rightarrow> (if ch_closed c then Closed else Blocked, c))"

definition wf_chan :: "'a chan \<Rightarrow> bool" where
  "wf_chan c \<longleftrightarrow> length (ch_buf c) \<le> ch_cap c"

lemma make_chan_sel [chan_simps, simp]:
  "ch_cap (make_chan n) = n" "ch_buf (make_chan n) = []" "\<not> ch_closed (make_chan n)"
  by (simp_all add: make_chan_def)

lemma wf_make_chan [chan_simps, simp]: "wf_chan (make_chan n)"
  by (simp add: wf_chan_def)

lemma offer_sel [chan_simps, simp]:
  "ch_cap (offer v c) = ch_cap c" "ch_closed (offer v c) = ch_closed c"
  by (simp_all add: offer_def)

lemma wf_offer [simp]: "wf_chan c \<Longrightarrow> wf_chan (offer v c)"
  by (auto simp: wf_chan_def offer_def)

lemma wf_receive: "wf_chan c \<Longrightarrow> wf_chan (snd (receive c))"
  by (auto simp: wf_chan_def receive_def split: list.splits)

lemma receive_sel [simp]:
  "ch_cap (snd (receive c)) = ch_cap c" "ch_closed (snd (receive c)) = ch_closed c"
  by (auto simp: receive_def split: list.splits)

lemma try_send_open [chan_simps]: "\<not> ch_closed c \<Longrightarrow> try_send v c = Inr (offer v c)"
  by (simp add: try_send_def)

text \<open>Offering a list of values keeps as many as there is room for, in order, and drops the rest.\<close>

lemma fold_offer_sel [simp]:
  "ch_cap (fold offer vs c) = ch_cap c" "ch_closed (fold offer vs c) = ch_closed c"
  by (induction vs arbitrary: c) auto

lemma fold_offer_buf:
  "ch_buf (fold offer vs c) = ch_buf c @ take (ch_cap c - length (ch_buf c)) vs"
proof (induction vs arbitrary: c)
  case (Cons v vs)
  show ?case
  proof (cases "length (ch_buf c) < ch_cap c")
    case True
    then obtain k where "ch_cap c - length (ch_buf c) = Suc k"
      by (metis Suc_diff_Suc)
    moreover from this have "ch_cap c - Suc (length (ch_buf c)) = k" by simp
    ultimately show ?thesis using Cons [of "offer v c"] True by (simp add: offer_def)
  next
    case False
    then show ?thesis using Cons [of c] by (simp add: offer_def)
  qed
qed simp

end
