(* ===== verification/Bus.thy ===== *)
theory Bus
  imports Go_Strings Go_Chan
begin

text \<open>
  The in-memory event bus, \<open>internal/bus/bus.go\<close>, and the payloads of
  \<open>internal/bus/payloads.go\<close>.  A subscriber is an id and the address of its channel; the
  channels live in \<open>bs_chans\<close>, because the bus and the component that reads the channel share
  it.  \<open>Subscribe\<close>, the unsubscribe function it returns and \<open>Publish\<close> are the operations;
  \<open>bus_receive\<close> is a component's read of its channel.  \<open>Publish\<close> reads the subscriber slice
  under the lock and sends after releasing it: \<open>publish_loop\<close> is the sending loop over the
  slice that was read, so a bus that changed in between can be given to it.
\<close>

section \<open>Payloads\<close>

record image_updated =
  iu_ContainerID :: string
  iu_ContainerName :: string
  iu_Image :: string
  iu_OldDigest :: string
  iu_NewDigest :: string
  iu_DetectedAt :: time

record container_unhealthy =
  cu_ContainerID :: string
  cu_ContainerName :: string
  cu_Image :: string
  cu_AppliedDigest :: string
  cu_PrevDigest :: string
  cu_FailedAt :: time

record update_applied =
  ua_ContainerID :: string
  ua_ContainerName :: string
  ua_Image :: string
  ua_OldDigest :: string
  ua_NewDigest :: string
  ua_AppliedAt :: time

record update_skipped =
  us_ContainerID :: string
  us_ContainerName :: string
  us_Image :: string
  us_NewDigest :: string
  us_Reason :: string
  us_BreakingChange :: bool
  us_ReleaseNotes :: "string list"
  us_SkippedAt :: time

record rollback_done =
  rd_ContainerID :: string
  rd_ContainerName :: string
  rd_Image :: string
  rd_RestoredDigest :: string
  rd_RolledBackAt :: time

datatype payload =
    ImageUpdatedPayload image_updated
  | ContainerUnhealthyPayload container_unhealthy
  | UpdateAppliedPayload update_applied
  | UpdateSkippedPayload update_skipped
  | RollbackDonePayload rollback_done

type_synonym topic = string

definition TopicImageUpdated :: topic where "TopicImageUpdated = ''image.updated''"
definition TopicContainerUnhealthy :: topic where
  "TopicContainerUnhealthy = ''container.unhealthy''"
definition TopicUpdateApplied :: topic where "TopicUpdateApplied = ''update.applied''"
definition TopicUpdateSkipped :: topic where "TopicUpdateSkipped = ''update.skipped''"
definition TopicRollbackDone :: topic where "TopicRollbackDone = ''rollback.done''"

lemma topics_distinct [simp]:
  "TopicImageUpdated \<noteq> TopicContainerUnhealthy" "TopicImageUpdated \<noteq> TopicUpdateApplied"
  "TopicImageUpdated \<noteq> TopicUpdateSkipped" "TopicImageUpdated \<noteq> TopicRollbackDone"
  "TopicContainerUnhealthy \<noteq> TopicImageUpdated" "TopicContainerUnhealthy \<noteq> TopicUpdateApplied"
  "TopicContainerUnhealthy \<noteq> TopicUpdateSkipped" "TopicContainerUnhealthy \<noteq> TopicRollbackDone"
  "TopicUpdateApplied \<noteq> TopicImageUpdated" "TopicUpdateApplied \<noteq> TopicContainerUnhealthy"
  "TopicUpdateApplied \<noteq> TopicUpdateSkipped" "TopicUpdateApplied \<noteq> TopicRollbackDone"
  "TopicUpdateSkipped \<noteq> TopicImageUpdated" "TopicUpdateSkipped \<noteq> TopicContainerUnhealthy"
  "TopicUpdateSkipped \<noteq> TopicUpdateApplied" "TopicUpdateSkipped \<noteq> TopicRollbackDone"
  "TopicRollbackDone \<noteq> TopicImageUpdated" "TopicRollbackDone \<noteq> TopicContainerUnhealthy"
  "TopicRollbackDone \<noteq> TopicUpdateApplied" "TopicRollbackDone \<noteq> TopicUpdateSkipped"
  by (simp_all add: TopicImageUpdated_def
      TopicContainerUnhealthy_def
      TopicUpdateApplied_def
      TopicUpdateSkipped_def
      TopicRollbackDone_def)

record event =
  ev_Topic :: topic
  ev_Payload :: payload

section \<open>The bus\<close>

record subscriber =
  sub_id :: string
  sub_ch :: addr

record bus =
  bs_subscribers :: "(topic, subscriber list) fmap"
  bs_counter :: nat
  bs_chans :: "addr \<Rightarrow> event chan"
  bs_next :: addr

definition New_bus :: bus where
  "New_bus = \<lparr>bs_subscribers = fmempty, bs_counter = 0, bs_chans = (\<lambda>_. make_chan 0), bs_next = 0\<rparr>"

text \<open>A missing key reads as the nil slice.\<close>

definition subs_of :: "bus \<Rightarrow> topic \<Rightarrow> subscriber list" where
  "subs_of b t = (case fmlookup (bs_subscribers b) t of None \<Rightarrow> [] | Some ss \<Rightarrow> ss)"

fun itoa_loop :: "nat \<Rightarrow> string \<Rightarrow> string" where
  "itoa_loop n buf = (if n > 0 then itoa_loop (n div 10) (char_of (48 + n mod 10) # buf) else buf)"

declare itoa_loop.simps [simp del]

definition itoa :: "nat \<Rightarrow> string" where
  "itoa n = (if n = 0 then ''0'' else itoa_loop n [])"

definition Subscribe :: "topic \<Rightarrow> bus \<Rightarrow> subscriber \<times> bus" where
  "Subscribe topic b =
     (let n = bs_counter b + 1;
          sub = \<lparr>sub_id = topic @ '':'' @ itoa n, sub_ch = bs_next b\<rparr>
      in (sub, b\<lparr>bs_counter := n,
                 bs_chans := (bs_chans b)(bs_next b := make_chan 64),
                 bs_next := Suc (bs_next b),
                 bs_subscribers := fmupd topic (subs_of b topic @ [sub]) (bs_subscribers b)\<rparr>))"

text \<open>The unsubscribe function: close and remove the first subscriber with the captured id.\<close>

fun unsub_loop :: "string \<Rightarrow> subscriber list \<Rightarrow> (subscriber \<times> subscriber list) option" where
  "unsub_loop i [] = None"
| "unsub_loop i (s # ss) =
     (if sub_id s = i then Some (s, ss)
      else map_option (\<lambda>(r, rest). (r, s # rest)) (unsub_loop i ss))"

definition unsub :: "topic \<Rightarrow> string \<Rightarrow> bus \<Rightarrow> panic + bus" where
  "unsub topic i b =
     (case unsub_loop i (subs_of b topic) of
        None \<Rightarrow> Inr b
      | Some (s, rest) \<Rightarrow>
          (case close_chan (bs_chans b (sub_ch s)) of
             Inl p \<Rightarrow> Inl p
           | Inr c \<Rightarrow> Inr (b\<lparr>bs_chans := (bs_chans b)(sub_ch s := c),
                            bs_subscribers := fmupd topic rest (bs_subscribers b)\<rparr>)))"

fun publish_loop :: "event \<Rightarrow> subscriber list \<Rightarrow> bus \<Rightarrow> panic + bus" where
  "publish_loop ev [] b = Inr b"
| "publish_loop ev (s # ss) b =
     (case try_send ev (bs_chans b (sub_ch s)) of
        Inl p \<Rightarrow> Inl p
      | Inr c \<Rightarrow> publish_loop ev ss (b\<lparr>bs_chans := (bs_chans b)(sub_ch s := c)\<rparr>))"

definition Publish :: "topic \<Rightarrow> payload \<Rightarrow> bus \<Rightarrow> panic + bus" where
  "Publish topic payload b =
     publish_loop \<lparr>ev_Topic = topic, ev_Payload = payload\<rparr> (subs_of b topic) b"

definition bus_receive :: "addr \<Rightarrow> bus \<Rightarrow> event received \<times> bus" where
  "bus_receive a b =
     (let (r, c) = receive (bs_chans b a) in (r, b\<lparr>bs_chans := (bs_chans b)(a := c)\<rparr>))"

section \<open>Subscriber ids\<close>

lemma itoa_loop_show_nat: "n > 0 \<Longrightarrow> itoa_loop n buf = show_nat n @ buf"
proof (induction n arbitrary: buf rule: less_induct)
  case (less n)
  show ?case
  proof (cases "n < 10")
    case True
    with less.prems show ?thesis
      by (simp add: itoa_loop.simps [of n] itoa_loop.simps [of 0] show_nat.simps [of n] digit_char_def)
  next
    case False
    then have "n div 10 < n" "n div 10 > 0" by auto
    with less False show ?thesis
      by (simp add: itoa_loop.simps [of n] show_nat.simps [of n] digit_char_def)
  qed
qed

lemma char_of_48: "char_of (48 :: nat) = CHR ''0''"
  using char_of_char [of "CHR ''0''", where ?'a = nat] by simp

lemma itoa_show_nat: "itoa n = show_nat n"
  by (simp add: itoa_def itoa_loop_show_nat show_nat.simps [of 0] digit_char_def char_of_48)

lemma itoa_inj: "itoa m = itoa n \<Longrightarrow> m = n"
  by (simp add: itoa_show_nat show_nat_inj)

text \<open>The digits fit the 20 byte buffer for every value of a 64-bit counter.\<close>

lemma itoa_fits: "n < 2 ^ 63 \<Longrightarrow> length (itoa n) \<le> 19"
  by (simp add: itoa_show_nat length_show_nat)

section \<open>Invariant\<close>

text \<open>
  Ids are pairwise different within a topic and come from counter values already used; every
  subscribed channel is allocated, open and within its capacity; no two subscribers share one.
\<close>

definition bus_inv :: "bus \<Rightarrow> bool" where
  "bus_inv b \<longleftrightarrow>
     (\<forall>t. distinct (map sub_id (subs_of b t))) \<and>
     (\<forall>t. \<forall>s \<in> set (subs_of b t).
        (\<exists>k \<le> bs_counter b. sub_id s = t @ '':'' @ itoa k) \<and>
        sub_ch s < bs_next b \<and> \<not> ch_closed (bs_chans b (sub_ch s))) \<and>
     (\<forall>t t' s s'. s \<in> set (subs_of b t) \<longrightarrow> s' \<in> set (subs_of b t') \<longrightarrow>
        sub_ch s = sub_ch s' \<longrightarrow> t = t' \<and> s = s') \<and>
     (\<forall>a. wf_chan (bs_chans b a))"

lemma bus_invD:
  assumes "bus_inv b"
  shows "distinct (map sub_id (subs_of b t))"
    and "s \<in> set (subs_of b t) \<Longrightarrow> \<exists>k \<le> bs_counter b. sub_id s = t @ '':'' @ itoa k"
    and "s \<in> set (subs_of b t) \<Longrightarrow> sub_ch s < bs_next b"
    and "s \<in> set (subs_of b t) \<Longrightarrow> \<not> ch_closed (bs_chans b (sub_ch s))"
    and "s \<in> set (subs_of b t) \<Longrightarrow> s' \<in> set (subs_of b t') \<Longrightarrow> sub_ch s = sub_ch s' \<Longrightarrow> t = t' \<and> s = s'"
    and "wf_chan (bs_chans b a)"
  using assms unfolding bus_inv_def by blast+

lemma distinct_subs: "bus_inv b \<Longrightarrow> distinct (subs_of b t)"
  using bus_invD(1) [of b t] by (simp add: distinct_map)

lemma subs_of_New [simp]: "subs_of New_bus t = []"
  by (simp add: subs_of_def New_bus_def)

lemma New_bus_inv: "bus_inv New_bus"
  by (simp add: bus_inv_def) (simp add: New_bus_def)

lemma subs_of_fmupd [simp]:
  "subs_of (b\<lparr>bs_subscribers := fmupd t ss m\<rparr>) t' =
     (if t' = t then ss else subs_of (b\<lparr>bs_subscribers := m\<rparr>) t')"
  by (auto simp: subs_of_def)

lemma subs_of_frame [simp]:
  "subs_of (b\<lparr>bs_chans := f\<rparr>) t = subs_of b t"
  "subs_of (b\<lparr>bs_counter := n\<rparr>) t = subs_of b t"
  "subs_of (b\<lparr>bs_next := a\<rparr>) t = subs_of b t"
  "subs_of (b\<lparr>bs_subscribers := bs_subscribers b\<rparr>) t = subs_of b t"
  by (simp_all add: subs_of_def)

section \<open>Subscribing and unsubscribing\<close>

lemma Subscribe_sel:
  "subs_of (snd (Subscribe t b)) t' =
     (if t' = t then subs_of b t @ [fst (Subscribe t b)] else subs_of b t')"
  "fst (Subscribe t b) =
     \<lparr>sub_id = t @ '':'' @ itoa (Suc (bs_counter b)), sub_ch = bs_next b\<rparr>"
  "bs_counter (snd (Subscribe t b)) = Suc (bs_counter b)"
  "bs_next (snd (Subscribe t b)) = Suc (bs_next b)"
  "bs_chans (snd (Subscribe t b)) = (bs_chans b)(bs_next b := make_chan 64)"
  by (auto simp: Subscribe_def Let_def subs_of_def)

lemma fresh_id:
  assumes "bus_inv b" "s \<in> set (subs_of b t)"
  shows "sub_id s \<noteq> t @ '':'' @ itoa (Suc (bs_counter b))"
  using bus_invD(2) [OF assms] itoa_inj [of "Suc (bs_counter b)"] by fastforce

lemma Subscribe_inv:
  assumes "bus_inv b" shows "bus_inv (snd (Subscribe t b))"
proof -
  let ?b = "snd (Subscribe t b)"
  note sel = Subscribe_sel [of t b]
  have old: "s \<in> set (subs_of b t') \<Longrightarrow> sub_ch s < bs_next b" for s t'
    using assms by (rule bus_invD(3))
  have "distinct (map sub_id (subs_of ?b t'))" for t'
    using bus_invD(1) [OF assms, of t'] fresh_id [OF assms, of _ t] by (fastforce simp: sel)
  moreover have "(\<exists>k \<le> bs_counter ?b. sub_id s = t' @ '':'' @ itoa k) \<and>
      sub_ch s < bs_next ?b \<and> \<not> ch_closed (bs_chans ?b (sub_ch s))"
    if "s \<in> set (subs_of ?b t')" for s t'
  proof (cases "s \<in> set (subs_of b t')")
    case True
    with bus_invD(2-4) [OF assms True] show ?thesis
      by (auto simp: sel(2-5) intro: le_SucI)
  next
    case False
    with that show ?thesis by (auto simp: sel split: if_splits)
  qed
  moreover have "t1 = t2 \<and> s1 = s2"
    if "s1 \<in> set (subs_of ?b t1)" "s2 \<in> set (subs_of ?b t2)" "sub_ch s1 = sub_ch s2"
    for s1 s2 t1 t2
    using that old [of s1 t1] old [of s2 t2] bus_invD(5) [OF assms, of s1 t1 s2 t2]
    by (auto simp: sel split: if_splits)
  moreover have "wf_chan (bs_chans ?b a)" for a
    using bus_invD(6) [OF assms] by (simp add: sel)
  ultimately show ?thesis unfolding bus_inv_def by blast
qed

lemma unsub_loop_Some:
  "unsub_loop i ss = Some (s, rest) \<Longrightarrow>
     sub_id s = i \<and> (\<exists>x y. ss = x @ s # y \<and> rest = x @ y)"
proof (induction ss arbitrary: rest)
  case (Cons u us)
  show ?case
  proof (cases "sub_id u = i")
    case False
    with Cons.prems obtain r where r: "unsub_loop i us = Some (s, r)" "rest = u # r"
      by auto
    from Cons.IH [OF r(1)] obtain x y where "sub_id s = i" "us = x @ s # y" "r = x @ y" by blast
    with r show ?thesis by (intro conjI exI [of _ "u # x"] exI [of _ y]) auto
  qed (use Cons.prems in auto)
qed simp

lemma unsub_loop_None: "unsub_loop i ss = None \<longleftrightarrow> i \<notin> sub_id ` set ss"
  by (induction ss) auto

lemma unsub_cases:
  assumes "bus_inv b"
  obtains (absent) "i \<notin> sub_id ` set (subs_of b t)" "unsub t i b = Inr b"
  | (present) s x y b' where "subs_of b t = x @ s # y" "sub_id s = i" "unsub t i b = Inr b'"
      "subs_of b' t = x @ y" "\<And>t'. t' \<noteq> t \<Longrightarrow> subs_of b' t' = subs_of b t'"
      "bs_chans b' = (bs_chans b)(sub_ch s := (bs_chans b (sub_ch s))\<lparr>ch_closed := True\<rparr>)"
      "bs_counter b' = bs_counter b" "bs_next b' = bs_next b"
proof (cases "unsub_loop i (subs_of b t)")
  case None
  show ?thesis by (rule absent) (use None in \<open>auto simp: unsub_def simp flip: unsub_loop_None\<close>)
next
  case (Some r)
  then obtain s rest where r: "unsub_loop i (subs_of b t) = Some (s, rest)" by (cases r) auto
  then obtain x y where xy: "sub_id s = i" "subs_of b t = x @ s # y" "rest = x @ y"
    by (auto dest: unsub_loop_Some)
  then have "\<not> ch_closed (bs_chans b (sub_ch s))" using bus_invD(4) [OF assms, of s t] by simp
  then have "unsub t i b = Inr (b\<lparr>bs_chans := (bs_chans b)(sub_ch s := (bs_chans b (sub_ch s))\<lparr>ch_closed := True\<rparr>),
                bs_subscribers := fmupd t rest (bs_subscribers b)\<rparr>)"
    (is "_ = Inr ?b'")
    by (simp add: unsub_def r close_chan_def)
  then show ?thesis
    by (rule present [of x s y ?b', OF xy(2,1)]) (use xy in \<open>simp_all add: subs_of_def\<close>)
qed

lemma unsub_safe:
  assumes "bus_inv b" shows "\<exists>b'. unsub t i b = Inr b' \<and> bus_inv b'"
  using assms
proof (cases rule: unsub_cases [where i = i and t = t])
  case absent
  with assms show ?thesis by simp
next
  case (present s x y b')
  have sub: "set (subs_of b' t') \<subseteq> set (subs_of b t')" for t'
    using present by (cases "t' = t") auto
  have d: "distinct (map sub_id (subs_of b' t'))" for t'
    using present bus_invD(1) [OF assms, of t'] by (cases "t' = t") auto
  have other: "sub_ch u \<noteq> sub_ch s" if "u \<in> set (subs_of b' t')" for u t'
  proof
    assume "sub_ch u = sub_ch s"
    then have "t' = t \<and> u = s"
      using that sub present(1) by (intro bus_invD(5) [OF assms]) auto
    with that present(4) have "s \<in> set (x @ y)" by simp
    with distinct_subs [OF assms, of t] present(1) show False by auto
  qed
  have "bus_inv b'"
    unfolding bus_inv_def
  proof (intro conjI allI impI ballI)
    fix t' u assume u: "u \<in> set (subs_of b' t')"
    with sub have u': "u \<in> set (subs_of b t')" by blast
    show "\<exists>k \<le> bs_counter b'. sub_id u = t' @ '':'' @ itoa k"
      using bus_invD(2) [OF assms u'] present(7) by simp
    show "sub_ch u < bs_next b'" using bus_invD(3) [OF assms u'] present(8) by simp
    show "\<not> ch_closed (bs_chans b' (sub_ch u))"
      using bus_invD(4) [OF assms u'] other [OF u] present(6) by simp
  next
    fix t1 t2 s1 s2
    assume "s1 \<in> set (subs_of b' t1)" "s2 \<in> set (subs_of b' t2)" "sub_ch s1 = sub_ch s2"
    then have "t1 = t2 \<and> s1 = s2" using sub by (intro bus_invD(5) [OF assms]) auto
    then show "t1 = t2" "s1 = s2" by auto
  next
    show "wf_chan (bs_chans b' a)" for a
      using bus_invD(6) [OF assms, of a] bus_invD(6) [OF assms, of "sub_ch s"] present(6)
      by (simp add: wf_chan_def)
  qed (rule d)
  with present(3) show ?thesis by blast
qed

section \<open>Publishing\<close>

text \<open>What a publication does to a bus whose subscribed channels are open.\<close>

definition deliver :: "topic \<Rightarrow> payload \<Rightarrow> bus \<Rightarrow> bus" where
  "deliver t p b =
     b\<lparr>bs_chans := (\<lambda>a. if a \<in> sub_ch ` set (subs_of b t)
                       then offer \<lparr>ev_Topic = t, ev_Payload = p\<rparr> (bs_chans b a)
                       else bs_chans b a)\<rparr>"

lemma deliver_sel [simp]:
  "subs_of (deliver t p b) = subs_of b" "bs_counter (deliver t p b) = bs_counter b"
  "bs_next (deliver t p b) = bs_next b" "bs_subscribers (deliver t p b) = bs_subscribers b"
  by (auto simp: deliver_def fun_eq_iff)

lemma deliver_chan:
  "bs_chans (deliver t p b) a =
     (if a \<in> sub_ch ` set (subs_of b t) then offer \<lparr>ev_Topic = t, ev_Payload = p\<rparr> (bs_chans b a)
      else bs_chans b a)"
  by (simp add: deliver_def)

lemma publish_loop_open:
  assumes "distinct (map sub_ch ss)" "\<forall>s \<in> set ss. \<not> ch_closed (bs_chans b (sub_ch s))"
  shows "publish_loop ev ss b =
    Inr (b\<lparr>bs_chans := (\<lambda>a. if a \<in> sub_ch ` set ss then offer ev (bs_chans b a) else bs_chans b a)\<rparr>)"
  using assms
proof (induction ss arbitrary: b)
  case (Cons s ss)
  let ?b = "b\<lparr>bs_chans := (bs_chans b)(sub_ch s := offer ev (bs_chans b (sub_ch s)))\<rparr>"
  have "publish_loop ev (s # ss) b = publish_loop ev ss ?b"
    using Cons.prems by (simp add: try_send_open)
  also have "\<dots> = Inr (?b\<lparr>bs_chans := (\<lambda>a. if a \<in> sub_ch ` set ss then offer ev (bs_chans ?b a)
      else bs_chans ?b a)\<rparr>)"
    using Cons.prems by (intro Cons.IH) auto
  also have "?b\<lparr>bs_chans := (\<lambda>a. if a \<in> sub_ch ` set ss then offer ev (bs_chans ?b a)
      else bs_chans ?b a)\<rparr> =
    b\<lparr>bs_chans := (\<lambda>a. if a \<in> sub_ch ` set (s # ss) then offer ev (bs_chans b a)
      else bs_chans b a)\<rparr>"
    using Cons.prems(1) by (simp add: fun_eq_iff image_iff)
  finally show ?case .
qed simp

lemma distinct_sub_ch: "bus_inv b \<Longrightarrow> distinct (map sub_ch (subs_of b t))"
  by (auto simp: distinct_map inj_on_def distinct_subs dest: bus_invD(5))

lemma Publish_deliver: "bus_inv b \<Longrightarrow> Publish t p b = Inr (deliver t p b)"
  unfolding Publish_def deliver_def
  by (rule publish_loop_open) (auto simp: distinct_sub_ch dest: bus_invD(4))

lemma deliver_closed [simp]:
  "ch_closed (bs_chans (deliver t p b) a) = ch_closed (bs_chans b a)"
  by (simp add: deliver_chan)

lemma deliver_inv: "bus_inv b \<Longrightarrow> bus_inv (deliver t p b)"
  by (simp add: bus_inv_def) (simp add: deliver_chan)

lemma bus_receive_inv: "bus_inv b \<Longrightarrow> bus_inv (snd (bus_receive a b))"
  by (auto simp: bus_inv_def bus_receive_def case_prod_beta Let_def wf_receive)

section \<open>Contracts\<close>

text \<open>
  What a component that publishes relies on: a publication never panics, reaches every channel
  that listens to the topic (or drops the event there if the buffer is full), and changes
  nothing else.  A loop of publications then leaves each channel with the events of its topics
  in the order they were published, as far as there was room.
\<close>

locale publisher =
  fixes publish :: "topic \<Rightarrow> payload \<Rightarrow> 'b \<Rightarrow> panic + 'b"
    and inv :: "'b \<Rightarrow> bool"
    and channel :: "'b \<Rightarrow> addr \<Rightarrow> event chan"
    and listens :: "'b \<Rightarrow> topic \<Rightarrow> addr \<Rightarrow> bool"
  assumes publish_law:
    "inv b \<Longrightarrow> \<exists>b'. publish t p b = Inr b' \<and> inv b' \<and> listens b' = listens b \<and>
       (\<forall>a. channel b' a =
          (if listens b t a then offer \<lparr>ev_Topic = t, ev_Payload = p\<rparr> (channel b a)
           else channel b a))"
begin

lemma publish_all:
  "inv b \<Longrightarrow> \<exists>b'. run_steps (\<lambda>b (t, p). publish t p b) b evs = Inr b' \<and> inv b' \<and>
     listens b' = listens b \<and>
     (\<forall>a. channel b' a =
        fold offer (map (\<lambda>(t, p). \<lparr>ev_Topic = t, ev_Payload = p\<rparr>)
                      (filter (\<lambda>(t, p). listens b t a) evs)) (channel b a))"
proof (induction evs arbitrary: b)
  case (Cons ev evs)
  obtain t p where ev: "ev = (t, p)" by fastforce
  from publish_law [OF Cons.prems, of t p] obtain b1 where b1: "publish t p b = Inr b1" "inv b1"
    "listens b1 = listens b"
    "\<And>a. channel b1 a = (if listens b t a then offer \<lparr>ev_Topic = t, ev_Payload = p\<rparr> (channel b a)
      else channel b a)"
    by blast
  from Cons.IH [OF b1(2)] show ?case by (auto simp: ev b1)
qed simp

end

definition bus_listens :: "bus \<Rightarrow> topic \<Rightarrow> addr \<Rightarrow> bool" where
  "bus_listens b t a \<longleftrightarrow> a \<in> sub_ch ` set (subs_of b t)"

interpretation pub: publisher Publish bus_inv bs_chans bus_listens
  by unfold_locales
    (auto simp: Publish_deliver deliver_inv bus_listens_def deliver_chan fun_eq_iff)

datatype bus_op =
    DoSubscribe topic
  | DoUnsub topic string
  | DoPublish topic payload
  | DoReceive addr

fun bus_step :: "bus \<Rightarrow> bus_op \<Rightarrow> panic + bus" where
  "bus_step b (DoSubscribe t) = Inr (snd (Subscribe t b))"
| "bus_step b (DoUnsub t i) = unsub t i b"
| "bus_step b (DoPublish t p) = Publish t p b"
| "bus_step b (DoReceive a) = Inr (snd (bus_receive a b))"

interpretation bus_ops: safe_machine bus_step bus_inv
proof
  fix b e assume "bus_inv b"
  then show "\<exists>b'. bus_step b e = Inr b' \<and> bus_inv b'"
    by (cases e) (auto simp: Subscribe_inv Publish_deliver deliver_inv bus_receive_inv unsub_safe)
qed

section \<open>A publication overlapping an unsubscription\<close>

text \<open>
  \<open>Publish\<close> takes the slice under the lock but sends without it.  If an unsubscription runs in
  between, \<open>append(subs[:i], subs[i+1:]...)\<close> has moved the later subscribers down in the array
  both slices share, and the slice \<open>Publish\<close> holds still has its old length: its last cell
  repeats the last subscriber.
\<close>

definition stale_slice :: "string \<Rightarrow> subscriber list \<Rightarrow> subscriber list" where
  "stale_slice i ss = (case unsub_loop i ss of None \<Rightarrow> ss | Some (_, rest) \<Rightarrow> rest @ [last ss])"

definition publish_around_unsub :: "topic \<Rightarrow> payload \<Rightarrow> string \<Rightarrow> bus \<Rightarrow> panic + bus" where
  "publish_around_unsub topic payload i b =
     (case unsub topic i b of
        Inl p \<Rightarrow> Inl p
      | Inr b' \<Rightarrow> publish_loop \<lparr>ev_Topic = topic, ev_Payload = payload\<rparr>
                   (stale_slice i (subs_of b topic)) b')"

lemma publish_loop_append:
  "publish_loop ev (xs @ ys) b =
     (case publish_loop ev xs b of Inl p \<Rightarrow> Inl p | Inr b' \<Rightarrow> publish_loop ev ys b')"
  by (induction xs arbitrary: b) (auto split: sum.splits)

lemma unsub_loop_split:
  "i \<notin> sub_id ` set x \<Longrightarrow> sub_id s = i \<Longrightarrow> unsub_loop i (x @ s # y) = Some (s, x @ y)"
  by (induction x) auto

section \<open>Properties\<close>

text \<open>No sequence of subscriptions, unsubscriptions, publications and reads, each run under
  the bus's lock, panics: every send goes to an open channel and no channel is closed twice.  The
  bus stays well formed, so no buffer exceeds its capacity.\<close>

theorem bus_never_panics:
  "\<exists>b. run_steps bus_step New_bus ops = Inr b \<and> bus_inv b"
  by (rule bus_ops.run_safe [OF New_bus_inv])

text \<open>A loop of publications, as the watcher, the webhook and the poller run it, leaves in
  each channel the events of the topic it listens to, in order, up to the free room; a full
  channel drops events and delays nobody, and channels that do not listen are untouched.\<close>

theorem publications_reach_listeners:
  assumes "bus_inv b"
  shows "\<exists>b'. run_steps (\<lambda>b (t, p). Publish t p b) b evs = Inr b' \<and> bus_inv b' \<and>
    ch_buf (bs_chans b' a) =
      ch_buf (bs_chans b a) @
      take (ch_cap (bs_chans b a) - length (ch_buf (bs_chans b a)))
        (map (\<lambda>(t, p). \<lparr>ev_Topic = t, ev_Payload = p\<rparr>) (filter (\<lambda>(t, p). bus_listens b t a) evs))"
  using pub.publish_all [OF assms, of evs] by (auto simp: fold_offer_buf)

definition demo_bus :: bus where
  "demo_bus = snd (Subscribe TopicRollbackDone (snd (Subscribe TopicImageUpdated New_bus)))"

definition demo_payload :: payload where
  "demo_payload = RollbackDonePayload
     \<lparr>rd_ContainerID = ''id'', rd_ContainerName = ''web'', rd_Image = ''web:1'',
      rd_RestoredDigest = ''sha256:a'', rd_RolledBackAt = 0\<rparr>"

lemma demo_bus_inv: "bus_inv demo_bus"
  by (simp add: demo_bus_def Subscribe_inv New_bus_inv)

theorem publications_reach_listeners_witness:
  "\<exists>b'. run_steps (\<lambda>b (t, p). Publish t p b) demo_bus [(TopicRollbackDone, demo_payload)] = Inr b' \<and>
     ch_buf (bs_chans b' 1) = [\<lparr>ev_Topic = TopicRollbackDone, ev_Payload = demo_payload\<rparr>]"
proof -
  have "bus_listens demo_bus TopicRollbackDone 1" "ch_buf (bs_chans demo_bus 1) = []"
    "ch_cap (bs_chans demo_bus 1) = 64"
    by (simp_all add: bus_listens_def demo_bus_def Subscribe_sel New_bus_def)
  then show ?thesis
    using publications_reach_listeners [OF demo_bus_inv,
        of "[(TopicRollbackDone, demo_payload)]" 1] by auto
qed

text \<open>\<open>Publish\<close> sends after releasing the lock.  When the last subscriber of a topic
  unsubscribes between the two, the publication sends on the channel just closed and panics.\<close>

theorem publish_races_with_unsub:
  assumes "bus_inv b" and "subs_of b t = xs @ [s]"
  shows "publish_around_unsub t p (sub_id s) b = Inl SendOnClosedChannel"
proof -
  let ?ev = "\<lparr>ev_Topic = t, ev_Payload = p\<rparr>"
  have i: "sub_id s \<notin> sub_id ` set xs" using bus_invD(1) [OF assms(1), of t] assms(2) by auto
  have u: "unsub_loop (sub_id s) (subs_of b t) = Some (s, xs)"
    using unsub_loop_split [OF i, of s "[]"] assms(2) by simp
  let ?b = "b\<lparr>bs_chans := (bs_chans b)(sub_ch s := (bs_chans b (sub_ch s))\<lparr>ch_closed := True\<rparr>),
      bs_subscribers := fmupd t xs (bs_subscribers b)\<rparr>"
  have o: "\<not> ch_closed (bs_chans b (sub_ch s'))" if "s' \<in> set (xs @ [s])" for s'
    using bus_invD(4) [OF assms(1), of s' t] that assms(2) by simp
  then have un: "unsub t (sub_id s) b = Inr ?b" by (simp add: unsub_def u close_chan_def)
  have d: "distinct (map sub_ch (xs @ [s]))" using distinct_sub_ch [OF assms(1), of t] assms(2) by simp
  have "publish_loop ?ev xs ?b = Inr (?b\<lparr>bs_chans := (\<lambda>a. if a \<in> sub_ch ` set xs
      then offer ?ev (bs_chans ?b a) else bs_chans ?b a)\<rparr>)"
    using d o by (intro publish_loop_open) (auto simp: image_iff)
  then have "publish_loop ?ev (xs @ [s]) ?b = Inl SendOnClosedChannel"
    using d by (simp add: publish_loop_append try_send_def)
  then show ?thesis
    by (simp add: publish_around_unsub_def un stale_slice_def u) (simp add: assms(2))
qed

theorem publish_races_with_unsub_witness:
  "publish_around_unsub TopicRollbackDone demo_payload (TopicRollbackDone @ '':'' @ itoa 2) demo_bus
     = Inl SendOnClosedChannel"
proof -
  have "subs_of demo_bus TopicRollbackDone =
      [] @ [\<lparr>sub_id = TopicRollbackDone @ '':'' @ itoa 2, sub_ch = 1\<rparr>]"
    by (simp add: demo_bus_def Subscribe_sel) (simp add: New_bus_def numeral_2_eq_2)
  from publish_races_with_unsub [OF demo_bus_inv this, of demo_payload] show ?thesis by simp
qed

end
