(* ===== verification/Image_Ref.thy ===== *)
theory Image_Ref
  imports Go_Strings
begin

text \<open>
  Image references, \<open>[host/]name[:tag][@digest]\<close>, as the packages read and write them:
  \<open>imageTag\<close> and \<open>imageRef\<close> of the executor, \<open>parseImageTag\<close> of the history,
  \<open>replaceTag\<close> of the compose updater, \<open>parseImageRef\<close> of the registry client and
  \<open>registryHost\<close> of the Docker client.  The step all of them start with, cutting the digest
  at the first \<open>@\<close>, is \<open>strip_digest\<close>.
\<close>

section \<open>Definitions\<close>

definition strip_digest :: "string \<Rightarrow> string" where
  "strip_digest img =
     (let idx = Index img CHR ''@'' in if idx \<noteq> - 1 then slice_to img idx else img)"

definition imageTag :: "string \<Rightarrow> string" where
  "imageTag img =
     (let img = strip_digest img; idx = LastIndex img CHR '':'' in
      if idx \<noteq> - 1 then slice_from img (idx + 1) else [])"

definition parseImageTag :: "string \<Rightarrow> string" where
  "parseImageTag img =
     (let img = strip_digest img; idx = LastIndex img CHR '':'' in
      if idx \<noteq> - 1 then slice_from img (idx + 1) else [])"

definition imageRef :: "string \<Rightarrow> string \<Rightarrow> string" where
  "imageRef img digest = (if digest = [] then img else img @ ''@'' @ digest)"

definition replaceTag :: "string \<Rightarrow> string \<Rightarrow> string" where
  "replaceTag img newTag =
     (let at = Index img CHR ''@'';
          digest = (if at \<noteq> - 1 then slice_from img at else []);
          img = (if at \<noteq> - 1 then slice_to img at else img);
          idx = LastIndex img CHR '':'';
          img = (if idx \<noteq> - 1 then slice_to img (idx + 1) @ newTag
                   else img @ '':'' @ newTag)
      in img @ digest)"

text \<open>The tag is what follows the last colon, when that colon is after the last slash.\<close>

definition tag_split :: "string \<Rightarrow> string \<times> string option" where
  "tag_split ref =
     (let lastSlash = LastIndex ref CHR ''/''; idx = LastIndex ref CHR '':'' in
      if idx > lastSlash then (slice_to ref idx, Some (slice_from ref (idx + 1)))
      else (ref, None))"

definition isHost :: "string \<Rightarrow> bool" where
  "isHost first \<longleftrightarrow> ContainsAny first ''.:'' \<or> first = ''localhost''"

definition hubHost :: string where "hubHost = ''registry-1.docker.io''"
definition dockerIo :: string where "dockerIo = ''docker.io''"
definition libraryPrefix :: string where "libraryPrefix = ''library/''"
definition latestTag :: string where "latestTag = ''latest''"

definition parseImageRef :: "string \<Rightarrow> string \<times> string \<times> string" where
  "parseImageRef img =
     (let (ref, t) = tag_split (strip_digest img);
          tag = (case t of Some tg \<Rightarrow> tg | None \<Rightarrow> latestTag);
          (first, rest, hasSlash) = Cut ref CHR ''/'';
          (host, name) =
            (if hasSlash \<and> isHost first
             then (if first = dockerIo then hubHost else first, rest)
             else (hubHost, ref));
          name = (if host = hubHost \<and> CHR ''/'' \<notin> set name
                  then libraryPrefix @ name else name)
      in (host, name, tag))"

definition registryHost :: "string \<Rightarrow> string" where
  "registryHost ref =
     (let (ref, _) = tag_split (strip_digest ref);
          (first, _, hasSlash) = Cut ref CHR ''/''
      in if hasSlash \<and> isHost first then first else hubHost)"

definition shortDigest :: "string \<Rightarrow> string" where
  "shortDigest d = (if length d > 16 then take 16 d else d)"

definition short :: "string \<Rightarrow> string" where
  "short i = (if length i > 12 then take 12 i else i)"

section \<open>Digests and tags\<close>

lemma strip_digest_eq [go_strings]: "strip_digest img = takeWhile (\<lambda>x. x \<noteq> CHR ''@'') img"
  by (simp add: strip_digest_def Let_def slice_to_Index)

lemma at_notin_strip_digest [simp]: "CHR ''@'' \<notin> set (strip_digest img)"
  by (simp add: strip_digest_eq)

lemma strip_digest_id [simp]: "CHR ''@'' \<notin> set img \<Longrightarrow> strip_digest img = img"
  by (simp add: strip_digest_eq)

lemma strip_digest_append [simp]:
  "CHR ''@'' \<notin> set img \<Longrightarrow> strip_digest (img @ CHR ''@'' # d) = img"
  by (simp add: strip_digest_eq)

lemma parseImageTag_imageTag: "parseImageTag img = imageTag img"
  by (simp add: parseImageTag_def imageTag_def)

lemma imageTag_colon:
  "CHR ''@'' \<notin> set (n @ t) \<Longrightarrow> CHR '':'' \<notin> set t \<Longrightarrow> imageTag (n @ CHR '':'' # t) = t"
  by (simp add: imageTag_def Let_def LastIndex_append)

lemma imageTag_digest [simp]:
  "imageTag (strip_digest img) = imageTag img"
  by (simp add: imageTag_def)

lemma imageTag_imageRef:
  "CHR ''@'' \<notin> set img \<Longrightarrow> imageTag (imageRef img d) = imageTag img"
  by (simp add: imageRef_def imageTag_def)

lemma colon_notin_imageTag: "CHR '':'' \<notin> set (imageTag img)"
proof (cases "CHR '':'' \<in> set (strip_digest img)")
  case True
  then obtain a b where s: "strip_digest img = a @ CHR '':'' # b" "CHR '':'' \<notin> set b"
    by (auto dest: split_last)
  then show ?thesis by (simp add: imageTag_def s LastIndex_append)
qed (simp add: imageTag_def)

text \<open>The two ways \<open>replaceTag\<close> goes, on the reference without its digest.\<close>

lemma replaceTag_eq:
  "replaceTag img t =
     (let s = strip_digest img; d = dropWhile (\<lambda>x. x \<noteq> CHR ''@'') img in
      (if CHR '':'' \<in> set s then slice_to s (LastIndex s CHR '':'' + 1) @ t @ d
       else s @ '':'' @ t @ d))"
  by (auto simp: replaceTag_def Let_def strip_digest_eq slice_to_Index slice_from_Index)

lemma replaceTag_tagged:
  assumes "CHR ''@'' \<notin> set n" "CHR ''@'' \<notin> set old" "CHR '':'' \<notin> set old"
    and "d = [] \<or> (\<exists>e. d = CHR ''@'' # e)"
  shows "replaceTag (n @ CHR '':'' # old @ d) t = n @ CHR '':'' # t @ d"
proof -
  have s: "strip_digest (n @ CHR '':'' # old @ d) = n @ CHR '':'' # old"
    using assms strip_digest_append [of "n @ CHR '':'' # old"] by auto
  have dr: "dropWhile (\<lambda>x. x \<noteq> CHR ''@'') (n @ CHR '':'' # old @ d) = d"
    using assms dropWhile_neq_append [of "CHR ''@''" "n @ CHR '':'' # old"] by auto
  have "slice_to (n @ CHR '':'' # old) (int (length n) + 1) = n @ '':''"
    by (simp add: slice_to_def nat_add_distrib)
  with assms(3) show ?thesis
    by (simp add: replaceTag_eq s dr LastIndex_append)
qed

lemma replaceTag_untagged:
  assumes "CHR ''@'' \<notin> set n" "CHR '':'' \<notin> set n"
    and "d = [] \<or> (\<exists>e. d = CHR ''@'' # e)"
  shows "replaceTag (n @ d) t = n @ CHR '':'' # t @ d"
proof -
  have s: "strip_digest (n @ d) = n" using assms by auto
  have "dropWhile (\<lambda>x. x \<noteq> CHR ''@'') (n @ d) = d" using assms by auto
  with assms(2) show ?thesis by (simp add: replaceTag_eq s)
qed

text \<open>Every reference has one of the two shapes.\<close>

lemma ref_shapes:
  obtains (tagged) n old d where "img = n @ CHR '':'' # old @ d" "CHR ''@'' \<notin> set n"
      "CHR ''@'' \<notin> set old" "CHR '':'' \<notin> set old" "d = [] \<or> (\<exists>e. d = CHR ''@'' # e)"
  | (untagged) n d where "img = n @ d" "CHR ''@'' \<notin> set n" "CHR '':'' \<notin> set n"
      "d = [] \<or> (\<exists>e. d = CHR ''@'' # e)"
proof -
  define s d where "s = takeWhile (\<lambda>x. x \<noteq> CHR ''@'') img"
    and "d = dropWhile (\<lambda>x. x \<noteq> CHR ''@'') img"
  have im: "img = s @ d" and at: "CHR ''@'' \<notin> set s" by (simp_all add: s_def d_def)
  have d: "d = [] \<or> (\<exists>e. d = CHR ''@'' # e)"
    unfolding d_def by (induction img) auto
  show ?thesis
  proof (cases "CHR '':'' \<in> set s")
    case True
    then obtain n old where s: "s = n @ CHR '':'' # old" "CHR '':'' \<notin> set old"
      by (auto dest: split_last)
    with im at d show ?thesis by (intro tagged [of n old d]) auto
  next
    case False
    with im at d show ?thesis by (intro untagged [of s d]) auto
  qed
qed

lemma imageTag_shape:
  assumes "CHR ''@'' \<notin> set n" "CHR ''@'' \<notin> set t" "CHR '':'' \<notin> set t"
    and "d = [] \<or> (\<exists>e. d = CHR ''@'' # e)"
  shows "imageTag (n @ CHR '':'' # t @ d) = t"
proof -
  have "strip_digest (n @ CHR '':'' # t @ d) = n @ CHR '':'' # t"
    using assms strip_digest_append [of "n @ CHR '':'' # t"] by auto
  then show ?thesis using assms imageTag_colon [of n t] by (simp add: imageTag_def)
qed

lemma imageTag_replaceTag:
  assumes "CHR ''@'' \<notin> set t" "CHR '':'' \<notin> set t"
  shows "imageTag (replaceTag img t) = t"
  using assms
  by (cases img rule: ref_shapes) (auto simp: replaceTag_tagged replaceTag_untagged imageTag_shape)

lemma replaceTag_overwrite:
  assumes "CHR ''@'' \<notin> set t" "CHR '':'' \<notin> set t"
  shows "replaceTag (replaceTag img t) u = replaceTag img u"
  using assms
  by (cases img rule: ref_shapes) (auto simp: replaceTag_tagged replaceTag_untagged)

section \<open>Registry host, repository and tag\<close>

lemma LastIndex_upper: "LastIndex s c < int (length s)"
  by (auto simp: LastIndex_def)

lemma LastIndex_append_notin:
  assumes "c \<notin> set b" shows "LastIndex (a @ b) c = LastIndex a c"
proof (cases "c \<in> set a")
  case True
  then obtain x y where "a = x @ c # y" "c \<notin> set y" by (auto dest: split_last)
  with assms show ?thesis
    using LastIndex_append [of c "y @ b" x] LastIndex_append [of c y x] by simp
next
  case False
  with assms show ?thesis by (simp add: LastIndex_def)
qed

lemma tag_split_colon:
  assumes "CHR ''/'' \<notin> set t" "CHR '':'' \<notin> set t"
  shows "tag_split (r @ CHR '':'' # t) = (r, Some t)"
proof -
  have "LastIndex (r @ CHR '':'' # t) CHR ''/'' = LastIndex r CHR ''/''"
    using assms(1) by (intro LastIndex_append_notin) simp
  with LastIndex_upper [of r "CHR ''/''"] show ?thesis
    using assms(2) by (simp add: tag_split_def LastIndex_append)
qed

lemma tag_split_Some:
  assumes "tag_split ref = (r, Some t)"
  shows "ref = r @ CHR '':'' # t \<and> CHR ''/'' \<notin> set t \<and> CHR '':'' \<notin> set t"
proof -
  have lt: "LastIndex ref CHR ''/'' < LastIndex ref CHR '':''"
    and r: "r = slice_to ref (LastIndex ref CHR '':'')"
    and t: "t = slice_from ref (LastIndex ref CHR '':'' + 1)"
    using assms by (auto simp: tag_split_def Let_def split: if_splits)
  from lt LastIndex_ge [of ref "CHR ''/''"] have "CHR '':'' \<in> set ref"
    using LastIndex_eq_minus1 [of ref "CHR '':''"] by linarith
  then obtain a b where ref: "ref = a @ CHR '':'' # b" "CHR '':'' \<notin> set b"
    by (auto dest: split_last)
  have "CHR ''/'' \<notin> set b"
  proof
    assume "CHR ''/'' \<in> set b"
    then obtain x y where b: "b = x @ CHR ''/'' # y" "CHR ''/'' \<notin> set y"
      by (auto dest: split_last)
    then have "LastIndex ref CHR ''/'' = int (length (a @ CHR '':'' # x))"
      using LastIndex_append [of "CHR ''/''" y "a @ CHR '':'' # x"] ref(1) by simp
    with lt ref show False by (simp add: LastIndex_append)
  qed
  with ref r t show ?thesis by (simp add: LastIndex_append)
qed

lemma tag_split_None: "tag_split ref = (r, None) \<Longrightarrow> r = ref"
  by (auto simp: tag_split_def Let_def split: if_splits)

lemma tag_split_set: "tag_split ref = (r, t) \<Longrightarrow> set r \<subseteq> set ref"
  by (cases t) (auto dest: tag_split_None tag_split_Some)

lemma tag_split_set_tag: "tag_split ref = (r, Some tg) \<Longrightarrow> set tg \<subseteq> set ref"
  by (auto dest: tag_split_Some)

lemma at_notin_tag_split:
  assumes "tag_split (strip_digest img) = (r, t)"
  shows "CHR ''@'' \<notin> set r"
  using tag_split_set [OF assms] at_notin_strip_digest by blast

lemma at_notin_tag_split_tag:
  assumes "tag_split (strip_digest img) = (r, Some tg)"
  shows "CHR ''@'' \<notin> set tg"
  using tag_split_set_tag [OF assms] at_notin_strip_digest by blast

text \<open>What is needed of the four literals; they stay folded in proofs.\<close>

lemma literals [simp]:
  "isHost hubHost" "isHost dockerIo" "hubHost \<noteq> dockerIo"
  "CHR ''/'' \<notin> set hubHost" "CHR ''@'' \<notin> set hubHost"
  "CHR ''/'' \<in> set libraryPrefix" "CHR ''@'' \<notin> set libraryPrefix"
  "CHR ''@'' \<notin> set latestTag" "CHR ''/'' \<notin> set latestTag" "CHR '':'' \<notin> set latestTag"
  by (simp_all add: isHost_def ContainsAny_def hubHost_def dockerIo_def libraryPrefix_def
      latestTag_def)

text \<open>The printed form of a parsed reference, and what parsing makes of such a form.\<close>

definition showImageRef :: "string \<times> string \<times> string \<Rightarrow> string" where
  "showImageRef p = (case p of (host, name, tag) \<Rightarrow> host @ ''/'' @ name @ '':'' @ tag)"

definition canonical_ref :: "string \<times> string \<times> string \<Rightarrow> bool" where
  "canonical_ref p \<longleftrightarrow>
     (case p of (host, name, tag) \<Rightarrow>
        CHR ''@'' \<notin> set (host @ name @ tag) \<and> CHR ''/'' \<notin> set host \<and> isHost host \<and>
        host \<noteq> dockerIo \<and> CHR ''/'' \<notin> set tag \<and> CHR '':'' \<notin> set tag \<and>
        (host = hubHost \<longrightarrow> CHR ''/'' \<in> set name))"

lemma parse_canonical:
  assumes "canonical_ref (host, name, tag)"
  shows "parseImageRef (showImageRef (host, name, tag)) = (host, name, tag)"
proof -
  let ?r = "host @ CHR ''/'' # name"
  have at: "strip_digest (?r @ CHR '':'' # tag) = ?r @ CHR '':'' # tag"
    using assms by (intro strip_digest_id) (auto simp: canonical_ref_def)
  have "tag_split (?r @ CHR '':'' # tag) = (?r, Some tag)"
    using assms by (intro tag_split_colon) (auto simp: canonical_ref_def)
  then have "tag_split (strip_digest (?r @ CHR '':'' # tag)) = (?r, Some tag)"
    by (simp only: at)
  moreover have "Cut ?r CHR ''/'' = (host, name, True)"
    using assms by (intro Cut_append) (auto simp: canonical_ref_def)
  ultimately show ?thesis
    using assms by (auto simp: parseImageRef_def showImageRef_def canonical_ref_def)
qed

lemma Cut_cases:
  obtains (found) a b where "s = a @ c # b" "c \<notin> set a" "Cut s c = (a, b, True)"
  | (missing) "c \<notin> set s" "Cut s c = (s, [], False)"
proof (cases "c \<in> set s")
  case True
  then obtain a b where "s = a @ c # b" "c \<notin> set a" by (auto dest: split_first)
  then show ?thesis using found Cut_append by blast
next
  case False
  then show ?thesis using missing by simp
qed

lemma parse_is_canonical: "canonical_ref (parseImageRef img)"
proof -
  obtain r t where sp: "tag_split (strip_digest img) = (r, t)" by fastforce
  let ?tag = "case t of Some tg \<Rightarrow> tg | None \<Rightarrow> latestTag"
  have at: "CHR ''@'' \<notin> set r" "CHR ''@'' \<notin> set ?tag"
    using at_notin_tag_split [OF sp] at_notin_tag_split_tag [of img r] sp by (cases t; simp)+
  have tg: "CHR ''/'' \<notin> set ?tag" "CHR '':'' \<notin> set ?tag"
    using tag_split_Some [of "strip_digest img" r] sp by (cases t; simp)+
  note defs = parseImageRef_def sp canonical_ref_def Let_def
  show ?thesis
  proof (cases r "CHR ''/''" rule: Cut_cases)
    case (found a b)
    then have "CHR ''@'' \<notin> set a" "CHR ''@'' \<notin> set b" "CHR ''@'' \<notin> set r" using at by auto
    with found at tg show ?thesis
      by (cases "isHost a"; cases "a = dockerIo"; cases "a = hubHost"; cases "CHR ''/'' \<in> set b")
        (simp_all add: defs)
  next
    case missing
    with at tg show ?thesis by (simp add: defs)
  qed
qed

text \<open>\<open>registryHost\<close> finds the same host as \<open>parseImageRef\<close>, but for one alias.\<close>

lemma parse_host_registryHost:
  "fst (parseImageRef img) =
     (if registryHost img = dockerIo then hubHost else registryHost img)"
  by (auto simp: parseImageRef_def registryHost_def Let_def split: prod.splits)

section \<open>Properties\<close>

text \<open>Patching a compose file's image sets exactly the tag: whatever the reference was, the
  reference \<open>replaceTag\<close> writes has the new tag, keeps the digest suffix, and a second
  replacement forgets the first.\<close>

theorem replaceTag_sets_tag:
  assumes "CHR ''@'' \<notin> set t" "CHR '':'' \<notin> set t"
  shows "imageTag (replaceTag img t) = t \<and>
    (\<exists>n. replaceTag img t = n @ '':'' @ t @ dropWhile (\<lambda>x. x \<noteq> CHR ''@'') img) \<and>
    replaceTag (replaceTag img t) u = replaceTag img u"
proof (intro conjI)
  show "\<exists>n. replaceTag img t = n @ '':'' @ t @ dropWhile (\<lambda>x. x \<noteq> CHR ''@'') img"
  proof (cases img rule: ref_shapes)
    case (tagged n old d)
    then show ?thesis
      using replaceTag_tagged [of n old d t] dropWhile_neq_append [of "CHR ''@''" "n @ CHR '':'' # old"]
      by auto
  next
    case (untagged n d)
    then show ?thesis using replaceTag_untagged [of n d t] by auto
  qed
qed (use assms in \<open>simp_all add: imageTag_replaceTag replaceTag_overwrite\<close>)

theorem replaceTag_sets_tag_witness:
  "imageTag (replaceTag ''nginx:alpine@sha256:ab'' ''1.25'') = ''1.25''"
proof -
  have "CHR ''@'' \<notin> set ''1.25''" "CHR '':'' \<notin> set ''1.25''" by simp_all
  from replaceTag_sets_tag [OF this, of "''nginx:alpine@sha256:ab''" "[]"] show ?thesis by blast
qed

text \<open>Where the image names a registry port and no tag, \<open>replaceTag\<close> takes the colon of the
  port for the colon of the tag: the patched reference loses the port and the repository.\<close>

theorem replaceTag_eats_port:
  assumes "CHR ''@'' \<notin> set host" "CHR ''@'' \<notin> set rest" "CHR '':'' \<notin> set rest"
  shows "replaceTag (host @ '':'' @ rest) t = host @ '':'' @ t"
  using replaceTag_tagged [of host rest "[]" t] assms by simp

theorem replaceTag_eats_port_witness:
  "replaceTag ''localhost:5000/app'' ''2.0'' = ''localhost:2.0''"
proof -
  have h: "CHR ''@'' \<notin> set ''localhost''" "CHR ''@'' \<notin> set ''5000/app''" "CHR '':'' \<notin> set ''5000/app''"
    by simp_all
  from replaceTag_eats_port [OF h, of "''2.0''"] show ?thesis by simp
qed

text \<open>Parsing is a normalisation: printing the parsed host, repository and tag of any image
  reference and parsing again gives the same three parts.\<close>

theorem parseImageRef_normal_form:
  "parseImageRef (showImageRef (parseImageRef img)) = parseImageRef img"
proof -
  obtain host name tag where p: "parseImageRef img = (host, name, tag)" by (cases "parseImageRef img")
  then have "canonical_ref (host, name, tag)" using parse_is_canonical [of img] by simp
  then show ?thesis by (simp add: p parse_canonical)
qed

text \<open>The Docker client and the registry client find the same registry for an image, except
  that the Docker client does not know the alias \<open>docker.io\<close>; it then looks up the credentials of
  a host that has none of its own.\<close>

theorem registryHost_agrees:
  "fst (parseImageRef img) =
     (if registryHost img = dockerIo then hubHost else registryHost img) \<and>
   registryHost ''docker.io/library/nginx:1.25'' = dockerIo"
proof
  show "registryHost ''docker.io/library/nginx:1.25'' = dockerIo"
    by (simp add: registryHost_def strip_digest_eq tag_split_def LastIndex_def slice_to_def Cut_def
        isHost_def ContainsAny_def dockerIo_def Let_def)
qed (rule parse_host_registryHost)

end
