(* ===== verification/Semver.thy ===== *)
theory Semver
  imports Image_Ref
begin

text \<open>
  The update policy of \<open>internal/executor/executor.go\<close>: the strategy a container's labels
  select, the numeric reading of version tags, and the decision \<open>evaluate\<close> takes.  A
  \<open>Strategy\<close> is a string in the code and here; any string that is none of the four constants
  falls into the \<open>default\<close> branch.
\<close>

section \<open>Definitions\<close>

type_synonym labels = "(string, string) fmap"
type_synonym strategy = string

definition StrategyAuto :: strategy where "StrategyAuto = ''auto''"
definition StrategyMinor :: strategy where "StrategyMinor = ''minor''"
definition StrategyPatch :: strategy where "StrategyPatch = ''patch''"
definition StrategyNotify :: strategy where "StrategyNotify = ''notify''"

definition labelKey :: string where "labelKey = ''dockwatch.update''"
definition labelWatch :: string where "labelWatch = ''dockwatch.watch''"
definition labelComposeUpdate :: string where "labelComposeUpdate = ''dockwatch.compose.update''"

definition strategyFromLabels :: "labels \<Rightarrow> strategy" where
  "strategyFromLabels labels =
     (case fmlookup labels labelKey of Some v \<Rightarrow> v | None \<Rightarrow> StrategyAuto)"

definition watchEnabled :: "labels \<Rightarrow> bool" where
  "watchEnabled labels \<longleftrightarrow> map_get labels labelWatch \<noteq> ''false''"

text \<open>\<open>None\<close> is \<open>ok = false\<close>; no caller reads the numbers then.\<close>

definition parseSemver :: "string \<Rightarrow> (int \<times> int \<times> int) option" where
  "parseSemver tag =
     (let tag = TrimPrefix tag ''v''; parts = SplitN tag CHR ''.'' 3 in
      case Atoi (parts ! 0) of None \<Rightarrow> None
      | Some major \<Rightarrow>
        (case (if length parts \<ge> 2 then Atoi (parts ! 1) else Some 0) of None \<Rightarrow> None
         | Some minor \<Rightarrow>
           (case (if length parts \<ge> 3 then Atoi (fst (Cut (parts ! 2) CHR ''-'')) else Some 0) of
              None \<Rightarrow> None
            | Some patch \<Rightarrow> Some (major, minor, patch))))"

definition semverAllow :: "string \<Rightarrow> string \<Rightarrow> bool \<Rightarrow> bool" where
  "semverAllow oldImage newImage allowMinor =
     (case (parseSemver (imageTag oldImage), parseSemver (imageTag newImage)) of
        (Some (oldMaj, oldMin, _), Some (newMaj, newMin, _)) \<Rightarrow>
          (if newMaj \<noteq> oldMaj then False
           else if newMin \<noteq> oldMin then allowMinor
           else True)
      | _ \<Rightarrow> True)"

definition isMajorBump :: "string \<Rightarrow> string \<Rightarrow> bool" where
  "isMajorBump oldImage newImage =
     (case (parseSemver (imageTag oldImage), parseSemver (imageTag newImage)) of
        (Some (oldMaj, _, _), Some (newMaj, _, _)) \<Rightarrow> newMaj > oldMaj
      | _ \<Rightarrow> False)"

definition evaluate :: "strategy \<Rightarrow> string \<Rightarrow> string \<Rightarrow> bool" where
  "evaluate strategy newImage currentImage =
     (if strategy = StrategyNotify then False
      else if strategy = StrategyAuto then True
      else if strategy = StrategyPatch then semverAllow currentImage newImage False
      else if strategy = StrategyMinor then semverAllow currentImage newImage True
      else True)"

section \<open>Version tags\<close>

text \<open>The tag of a released version.\<close>

definition showVersion :: "nat \<Rightarrow> nat \<Rightarrow> nat \<Rightarrow> string" where
  "showVersion major minor patch =
     show_nat major @ ''.'' @ show_nat minor @ ''.'' @ show_nat patch"

lemma SplitN_digits:
  assumes "list_all is_digit a" "list_all is_digit b"
  shows "SplitN (a @ CHR ''.'' # b @ CHR ''.'' # c) CHR ''.'' 3 = [a, b, c]"
  using notin_digits [OF assms(1)] notin_digits [OF assms(2)]
  by (simp add: numeral_3_eq_3)

lemma parseSemver_showVersion:
  assumes "int major < 2 ^ 63" "int minor < 2 ^ 63" "int patch < 2 ^ 63"
  shows "parseSemver (showVersion major minor patch) = Some (int major, int minor, int patch)"
proof -
  obtain c cs where s: "show_nat major = c # cs" by (cases "show_nat major") auto
  then have "c \<noteq> CHR ''v''"
    using show_nat_digits [of major] digit_not_sign [of c] by auto
  then have tp: "TrimPrefix (showVersion major minor patch) ''v'' = showVersion major minor patch"
    by (simp add: TrimPrefix_def showVersion_def s)
  have sp: "SplitN (showVersion major minor patch) CHR ''.'' 3 =
      [show_nat major, show_nat minor, show_nat patch]"
    using SplitN_digits [OF show_nat_digits show_nat_digits] by (simp add: showVersion_def)
  have "Cut (show_nat patch) CHR ''-'' = (show_nat patch, [], False)"
    using notin_digits [OF show_nat_digits] by simp
  then show ?thesis
    using assms by (simp add: parseSemver_def tp sp Atoi_show_nat)
qed

lemma imageTag_version:
  assumes "CHR ''@'' \<notin> set name"
  shows "imageTag (name @ '':'' @ showVersion a b c) = showVersion a b c"
  using assms notin_digits [OF show_nat_digits]
  by (simp add: imageTag_colon showVersion_def)

section \<open>The policy\<close>

lemma isMajorBump_not_allowed: "isMajorBump old new \<Longrightarrow> \<not> semverAllow old new m"
  by (auto simp: isMajorBump_def semverAllow_def split: option.splits)

lemma semverAllow_mono: "semverAllow old new False \<Longrightarrow> semverAllow old new True"
  by (auto simp: semverAllow_def split: option.splits if_splits)

lemma strategies [simp]:
  "StrategyNotify \<noteq> StrategyAuto" "StrategyNotify \<noteq> StrategyPatch" "StrategyNotify \<noteq> StrategyMinor"
  "StrategyAuto \<noteq> StrategyPatch" "StrategyAuto \<noteq> StrategyMinor" "StrategyPatch \<noteq> StrategyMinor"
  "StrategyAuto \<noteq> StrategyNotify" "StrategyPatch \<noteq> StrategyNotify" "StrategyMinor \<noteq> StrategyNotify"
  "StrategyPatch \<noteq> StrategyAuto" "StrategyMinor \<noteq> StrategyAuto" "StrategyMinor \<noteq> StrategyPatch"
  by (simp_all add: StrategyNotify_def StrategyAuto_def StrategyPatch_def StrategyMinor_def)

section \<open>Properties\<close>

text \<open>C11: For two released versions of an image, each strategy admits exactly the updates it is
  documented to admit, and the breaking-change flag is set exactly when the major number grows.
  The versions go through the code's own tag extraction and decimal parser.\<close>

theorem strategy_on_versions:
  assumes "CHR ''@'' \<notin> set name"
    and "int a < 2 ^ 63" "int b < 2 ^ 63" "int c < 2 ^ 63"
    and "int a' < 2 ^ 63" "int b' < 2 ^ 63" "int c' < 2 ^ 63"
  defines "old \<equiv> name @ '':'' @ showVersion a b c" and "new \<equiv> name @ '':'' @ showVersion a' b' c'"
  shows "(evaluate StrategyAuto new old \<longleftrightarrow> True) \<and>
    (evaluate StrategyMinor new old \<longleftrightarrow> a' = a) \<and>
    (evaluate StrategyPatch new old \<longleftrightarrow> a' = a \<and> b' = b) \<and>
    (evaluate StrategyNotify new old \<longleftrightarrow> False) \<and>
    (isMajorBump old new \<longleftrightarrow> a < a')"
proof -
  have "imageTag old = showVersion a b c" "imageTag new = showVersion a' b' c'"
    using assms(1) imageTag_version by (simp_all add: old_def new_def del: append_Cons)
  then show ?thesis
    using assms(2-7)
    by (auto simp: evaluate_def semverAllow_def isMajorBump_def parseSemver_showVersion)
qed

theorem strategy_on_versions_witness:
  "evaluate StrategyMinor (''nginx'' @ '':'' @ showVersion 1 3 0) (''nginx'' @ '':'' @ showVersion 1 2 7)"
proof -
  have "CHR ''@'' \<notin> set ''nginx''" by simp
  from strategy_on_versions [OF this, of 1 2 7 1 3 0] show ?thesis by simp
qed

text \<open>A detected major bump is never applied under the \<open>patch\<close> or \<open>minor\<close> strategy, and a
  stricter strategy never applies what a looser one blocks, for any two references.\<close>

theorem major_bump_blocked:
  "(isMajorBump old new \<longrightarrow>
      \<not> evaluate StrategyPatch new old \<and> \<not> evaluate StrategyMinor new old) \<and>
   (evaluate StrategyPatch new old \<longrightarrow> evaluate StrategyMinor new old) \<and>
   (evaluate StrategyMinor new old \<longrightarrow> evaluate StrategyAuto new old)"
  by (auto simp: evaluate_def isMajorBump_not_allowed semverAllow_mono)

theorem major_bump_blocked_witness:
  "\<not> evaluate StrategyMinor (''app'' @ '':'' @ showVersion 2 0 0) (''app'' @ '':'' @ showVersion 1 9 9)"
proof -
  have "parseSemver (imageTag (''app'' @ '':'' @ showVersion 2 0 0)) = Some (2, 0, 0)"
    "parseSemver (imageTag (''app'' @ '':'' @ showVersion 1 9 9)) = Some (1, 9, 9)"
    using imageTag_version [of "''app''"] parseSemver_showVersion [of 2 0 0]
      parseSemver_showVersion [of 1 9 9] by simp_all
  then have "isMajorBump (''app'' @ '':'' @ showVersion 1 9 9) (''app'' @ '':'' @ showVersion 2 0 0)"
    by (simp add: isMajorBump_def)
  with major_bump_blocked [of "''app'' @ '':'' @ showVersion 1 9 9" "''app'' @ '':'' @ showVersion 2 0 0"]
  show ?thesis by blast
qed

end
