(* ===== verification/Store.thy ===== *)
theory Store
  imports Go_Strings Interfaces Semver
begin

text \<open>
  The in-memory container store, \<open>internal/store/store.go\<close>.  The code shares
  \<open>*ContainerState\<close> pointers between the store and its callers and updates the states
  through them, so the states live in a heap \<open>st_heap\<close> and the map \<open>st_containers\<close> holds
  addresses: an address stays valid after the map has dropped it.  \<open>digestHistory\<close> is newest
  first.  Each operation runs under the store's or the state's lock, so it is one step.
\<close>

section \<open>States and operations\<close>

record digest_entry =
  de_Digest :: string
  de_Image :: string
  de_RecordedAt :: time

record container_state =
  cs_ID :: string
  cs_Name :: string
  cs_Image :: string
  cs_Labels :: labels
  cs_digestHistory :: "digest_entry list"

definition digestHistorySize :: nat where
  "digestHistorySize = 5"

definition CurrentDigest :: "container_state \<Rightarrow> string" where
  "CurrentDigest c = (case cs_digestHistory c of [] \<Rightarrow> [] | e # _ \<Rightarrow> de_Digest e)"

definition PreviousDigest :: "container_state \<Rightarrow> string" where
  "PreviousDigest c = (case cs_digestHistory c of _ # e # _ \<Rightarrow> de_Digest e | _ \<Rightarrow> [])"

definition PushDigest :: "string \<Rightarrow> string \<Rightarrow> time \<Rightarrow> container_state \<Rightarrow> container_state" where
  "PushDigest img digest now c =
     (let entry = \<lparr>de_Digest = digest, de_Image = img, de_RecordedAt = now\<rparr>;
          hist = entry # cs_digestHistory c
      in c\<lparr>cs_digestHistory :=
             (if length hist > digestHistorySize then take digestHistorySize hist else hist)\<rparr>)"

record store =
  st_heap :: "addr \<Rightarrow> container_state"
  st_next :: addr
  st_containers :: "(string, addr) fmap"

definition no_state :: container_state where
  "no_state = \<lparr>cs_ID = [], cs_Name = [], cs_Image = [], cs_Labels = fmempty, cs_digestHistory = []\<rparr>"

definition New_store :: store where
  "New_store = \<lparr>st_heap = (\<lambda>_. no_state), st_next = 0, st_containers = fmempty\<rparr>"

definition Upsert :: "string \<Rightarrow> string \<Rightarrow> string \<Rightarrow> labels \<Rightarrow> store \<Rightarrow> addr \<times> store" where
  "Upsert i name img labels s =
     (case fmlookup (st_containers s) i of
        None \<Rightarrow>
          (st_next s,
           s\<lparr>st_heap := (st_heap s)(st_next s :=
               \<lparr>cs_ID = i, cs_Name = name, cs_Image = img, cs_Labels = labels, cs_digestHistory = []\<rparr>),
             st_next := Suc (st_next s),
             st_containers := fmupd i (st_next s) (st_containers s)\<rparr>)
      | Some a \<Rightarrow>
          (a, s\<lparr>st_heap := (st_heap s)(a := (st_heap s a)
               \<lparr>cs_Name := name, cs_Image := img, cs_Labels := labels\<rparr>)\<rparr>))"

definition Get :: "string \<Rightarrow> store \<Rightarrow> addr option" where
  "Get i s = fmlookup (st_containers s) i"

definition GetByName :: "string list \<Rightarrow> string \<Rightarrow> store \<Rightarrow> addr option" where
  "GetByName order name s =
     find (\<lambda>a. cs_Name (st_heap s a) = name) (range_values order (st_containers s))"

definition Rekey :: "string \<Rightarrow> string \<Rightarrow> store \<Rightarrow> addr option \<times> store" where
  "Rekey oldID newID s =
     (case fmlookup (st_containers s) oldID of
        None \<Rightarrow> (None, s)
      | Some a \<Rightarrow>
          (Some a,
           s\<lparr>st_containers := fmupd newID a (fmdrop oldID (st_containers s)),
             st_heap := (st_heap s)(a := (st_heap s a)\<lparr>cs_ID := newID\<rparr>)\<rparr>))"

definition Remove :: "string \<Rightarrow> store \<Rightarrow> store" where
  "Remove i s = s\<lparr>st_containers := fmdrop i (st_containers s)\<rparr>"

definition All :: "string list \<Rightarrow> store \<Rightarrow> addr list" where
  "All order s = range_values order (st_containers s)"

text \<open>\<open>PushDigest\<close> through a pointer.\<close>

definition push_at :: "addr \<Rightarrow> string \<Rightarrow> string \<Rightarrow> time \<Rightarrow> store \<Rightarrow> store" where
  "push_at a img digest now s =
     s\<lparr>st_heap := (st_heap s)(a := PushDigest img digest now (st_heap s a))\<rparr>"

text \<open>The state the store holds under an id.\<close>

definition state_of :: "store \<Rightarrow> string \<Rightarrow> container_state option" where
  "state_of s i = map_option (st_heap s) (fmlookup (st_containers s) i)"

section \<open>The ring buffer\<close>

text \<open>Digests only, newest first: what the ring is for.\<close>

definition digests :: "container_state \<Rightarrow> string list" where
  "digests c = map de_Digest (cs_digestHistory c)"

lemma digests_PushDigest:
  "digests (PushDigest img d now c) = take digestHistorySize (d # digests c)"
  by (auto simp: digests_def PushDigest_def Let_def take_Cons' take_map)

lemma CurrentDigest_digests: "CurrentDigest c = (case digests c of [] \<Rightarrow> [] | d # _ \<Rightarrow> d)"
  by (simp add: CurrentDigest_def digests_def split: list.splits)

lemma PreviousDigest_digests: "PreviousDigest c = (case digests c of _ # d # _ \<Rightarrow> d | _ \<Rightarrow> [])"
  by (simp add: PreviousDigest_def digests_def split: list.splits)

lemma PushDigest_frame [simp]:
  "cs_ID (PushDigest img d now c) = cs_ID c"
  "cs_Name (PushDigest img d now c) = cs_Name c"
  "cs_Image (PushDigest img d now c) = cs_Image c"
  "cs_Labels (PushDigest img d now c) = cs_Labels c"
  by (simp_all add: PushDigest_def Let_def)

lemma CurrentDigest_PushDigest [simp]: "CurrentDigest (PushDigest img d now c) = d"
  by (simp add: CurrentDigest_digests digests_PushDigest digestHistorySize_def numeral_eq_Suc)

lemma PreviousDigest_PushDigest [simp]:
  "PreviousDigest (PushDigest img d now c) = CurrentDigest c"
  by (simp add: PreviousDigest_digests CurrentDigest_digests digests_PushDigest digestHistorySize_def
      numeral_eq_Suc split: list.splits)

lemma length_PushDigest: "length (cs_digestHistory (PushDigest img d now c)) \<le> digestHistorySize"
  by (simp add: PushDigest_def Let_def)

lemma digests_push_run:
  "length (digests c) \<le> digestHistorySize \<Longrightarrow>
   digests (fold (\<lambda>(img, d, now). PushDigest img d now) ps c) =
     take digestHistorySize (rev (map (fst \<circ> snd) ps) @ digests c)"
proof (induction ps arbitrary: c)
  case (Cons p ps)
  obtain img d now where p: "p = (img, d, now)" by (cases p)
  have "length (digests (PushDigest img d now c)) \<le> digestHistorySize"
    by (simp add: digests_PushDigest)
  from Cons.IH [OF this] show ?case
    by (simp add: p digests_PushDigest)
qed simp

section \<open>Invariant\<close>

text \<open>
  Every id maps to an allocated state that carries that id; no two ids share a state; no ring
  is longer than \<open>digestHistorySize\<close>.
\<close>

definition store_inv :: "store \<Rightarrow> bool" where
  "store_inv s \<longleftrightarrow>
     (\<forall>i a. fmlookup (st_containers s) i = Some a \<longrightarrow> a < st_next s \<and> cs_ID (st_heap s a) = i) \<and>
     (\<forall>a. length (cs_digestHistory (st_heap s a)) \<le> digestHistorySize)"

lemma store_invD:
  assumes "store_inv s"
  shows "fmlookup (st_containers s) i = Some a \<Longrightarrow> a < st_next s"
    and "fmlookup (st_containers s) i = Some a \<Longrightarrow> cs_ID (st_heap s a) = i"
    and "length (cs_digestHistory (st_heap s a)) \<le> digestHistorySize"
  using assms by (auto simp: store_inv_def)

lemma store_inv_inj:
  "store_inv s \<Longrightarrow> fmlookup (st_containers s) i = Some a \<Longrightarrow> fmlookup (st_containers s) j = Some a
    \<Longrightarrow> i = j"
  by (metis store_invD(2))

lemma New_store_inv: "store_inv New_store"
  by (simp add: store_inv_def New_store_def no_state_def)

lemma Upsert_inv: "store_inv s \<Longrightarrow> store_inv (snd (Upsert i name img labels s))"
  by (auto simp: store_inv_def Upsert_def split: option.splits) (metis less_Suc_eq)+

lemma Rekey_inv: "store_inv s \<Longrightarrow> store_inv (snd (Rekey oldID newID s))"
  by (auto simp: store_inv_def Rekey_def split: option.splits) metis+

lemma Remove_inv: "store_inv s \<Longrightarrow> store_inv (Remove i s)"
  by (auto simp: store_inv_def Remove_def split: if_splits)

lemma push_at_inv: "store_inv s \<Longrightarrow> store_inv (push_at a img d now s)"
  using length_PushDigest [of img d now "st_heap s a"]
  by (auto simp: store_inv_def push_at_def)

section \<open>What each operation does to the tracked states\<close>

lemma state_of_New [store_simps]: "state_of New_store i = None"
  by (simp add: state_of_def New_store_def)

lemma state_of_cs_ID: "store_inv s \<Longrightarrow> state_of s i = Some c \<Longrightarrow> cs_ID c = i"
  by (auto simp: state_of_def dest: store_invD(2))

lemma state_of_ring:
  "store_inv s \<Longrightarrow> state_of s i = Some c \<Longrightarrow> length (cs_digestHistory c) \<le> digestHistorySize"
  by (auto simp: state_of_def dest: store_invD(3))

lemma state_of_Upsert [store_simps]:
  assumes "store_inv s"
  shows "state_of (snd (Upsert i name img labels s)) j =
     (if j = i
      then Some (case state_of s i of
             None \<Rightarrow> \<lparr>cs_ID = i, cs_Name = name, cs_Image = img, cs_Labels = labels, cs_digestHistory = []\<rparr>
           | Some c \<Rightarrow> c\<lparr>cs_Name := name, cs_Image := img, cs_Labels := labels\<rparr>)
      else state_of s j)"
proof (cases "fmlookup (st_containers s) i")
  case None
  have "fmlookup (st_containers s) j \<noteq> Some (st_next s)"
    using store_invD(1) [OF assms, of j "st_next s"] by auto
  with None show ?thesis by (auto simp: state_of_def Upsert_def split: option.splits)
next
  case (Some a)
  then have "j \<noteq> i \<Longrightarrow> fmlookup (st_containers s) j \<noteq> Some a"
    using assms store_inv_inj by blast
  with Some show ?thesis by (cases "j = i") (simp_all add: state_of_def Upsert_def)
qed

lemma state_of_Rekey [store_simps]:
  assumes "store_inv s"
  shows "state_of (snd (Rekey old new s)) j =
     (case state_of s old of
        None \<Rightarrow> state_of s j
      | Some c \<Rightarrow> if j = new then Some (c\<lparr>cs_ID := new\<rparr>) else if j = old then None
                 else state_of s j)"
proof (cases "fmlookup (st_containers s) old")
  case None
  then show ?thesis by (simp add: state_of_def Rekey_def)
next
  case (Some a)
  then have "j \<noteq> old \<Longrightarrow> fmlookup (st_containers s) j \<noteq> Some a"
    using assms store_inv_inj by blast
  with Some show ?thesis
    by (cases "j = new"; cases "j = old") (simp_all add: state_of_def Rekey_def)
qed

lemma state_of_Remove [store_simps]:
  "state_of (Remove i s) j = (if j = i then None else state_of s j)"
  by (simp add: state_of_def Remove_def)

lemma state_of_push_at [store_simps]:
  assumes "store_inv s"
  shows "state_of (push_at a img d now s) j =
     (if fmlookup (st_containers s) j = Some a
      then map_option (PushDigest img d now) (state_of s j) else state_of s j)"
  by (simp add: state_of_def push_at_def)

lemma Get_state: "Get i s = Some a \<Longrightarrow> state_of s i = Some (st_heap s a)"
  by (simp add: Get_def state_of_def)

lemma Get_None: "Get i s = None \<longleftrightarrow> state_of s i = None"
  by (simp add: Get_def state_of_def)

lemma Rekey_result: "fst (Rekey old new s) = Get old s"
  by (auto simp: Rekey_def Get_def split: option.splits)

lemma Rekey_lookup:
  "fmlookup (st_containers s) old = Some a \<Longrightarrow>
   fmlookup (st_containers (snd (Rekey old new s))) new = Some a"
  by (simp add: Rekey_def)

lemma GetByName_state:
  assumes "range_order order (st_containers s)"
  shows "GetByName order name s = Some a \<Longrightarrow>
      cs_Name (st_heap s a) = name \<and> (\<exists>i. Get i s = Some a)"
    and "GetByName order name s = None \<longleftrightarrow>
      (\<nexists>i c. state_of s i = Some c \<and> cs_Name c = name)"
  using range_values_iff [OF assms]
  by (auto simp: GetByName_def find_Some_iff find_None_iff Get_def state_of_def in_set_conv_nth)

lemma All_states:
  assumes "range_order order (st_containers s)"
  shows "c \<in> st_heap s ` set (All order s) \<longleftrightarrow> (\<exists>i. state_of s i = Some c)"
  using range_values_iff [OF assms] by (auto simp: All_def state_of_def image_iff) metis+

section \<open>Operations as steps\<close>

datatype store_op =
    DoUpsert string string string labels
  | DoRekey string string
  | DoRemove string
  | DoPush addr string string time

fun store_step :: "store \<Rightarrow> store_op \<Rightarrow> panic + store" where
  "store_step s (DoUpsert i name img labels) = Inr (snd (Upsert i name img labels s))"
| "store_step s (DoRekey old new) = Inr (snd (Rekey old new s))"
| "store_step s (DoRemove i) = Inr (Remove i s)"
| "store_step s (DoPush a img d now) = Inr (push_at a img d now s)"

interpretation store_ops: safe_machine store_step store_inv
proof
  fix s e assume "store_inv s"
  then show "\<exists>s'. store_step s e = Inr s' \<and> store_inv s'"
    by (cases e) (auto simp: Upsert_inv Rekey_inv Remove_inv push_at_inv)
qed

section \<open>Properties\<close>

text \<open>C16: The store is a map from container ids to states: seen through \<open>state_of\<close>, each of its
  operations is the corresponding map update and keeps every other container.  In particular
  updating a known container keeps its digest history, and re-keying moves the history to the new
  id, overwriting whatever was tracked there.\<close>

theorem store_refines_map:
  assumes "store_inv s"
  shows "state_of (snd (Upsert i name img labels s)) =
      (state_of s)(i \<mapsto> (case state_of s i of
             None \<Rightarrow> \<lparr>cs_ID = i, cs_Name = name, cs_Image = img, cs_Labels = labels, cs_digestHistory = []\<rparr>
           | Some c \<Rightarrow> c\<lparr>cs_Name := name, cs_Image := img, cs_Labels := labels\<rparr>)) \<and>
    state_of (snd (Rekey old new s)) =
      (case state_of s old of
         None \<Rightarrow> state_of s
       | Some c \<Rightarrow> (state_of s)(old := None, new \<mapsto> c\<lparr>cs_ID := new\<rparr>)) \<and>
    state_of (Remove i s) = (state_of s)(i := None) \<and>
    (Get i s = None \<longleftrightarrow> state_of s i = None)"
  using assms by (auto simp: store_simps fun_eq_iff Get_None split: option.splits)

definition demo_store :: store where
  "demo_store = push_at 0 ''web:1'' ''sha256:old'' 5
     (snd (Upsert ''c1'' ''web'' ''web:1'' fmempty New_store))"

lemma demo_store_inv: "store_inv demo_store"
  by (simp add: demo_store_def push_at_inv Upsert_inv New_store_inv)

lemma demo_state:
  "state_of demo_store ''c1'' =
     Some (PushDigest ''web:1'' ''sha256:old'' 5
       \<lparr>cs_ID = ''c1'', cs_Name = ''web'', cs_Image = ''web:1'', cs_Labels = fmempty, cs_digestHistory = []\<rparr>)"
  by (simp add: demo_store_def state_of_push_at Upsert_inv New_store_inv state_of_Upsert state_of_New)
    (simp add: Upsert_def New_store_def)

theorem store_refines_map_witness:
  "map_option CurrentDigest (state_of (snd (Rekey ''c1'' ''c2'' demo_store)) ''c2'') = Some ''sha256:old''"
proof -
  have "state_of (snd (Rekey ''c1'' ''c2'' demo_store)) ''c2'' =
      map_option (\<lambda>c. c\<lparr>cs_ID := ''c2''\<rparr>) (state_of demo_store ''c1'')"
    using store_refines_map [OF demo_store_inv, of _ _ _ _ "''c1''" "''c2''"]
    by (simp add: demo_state)
  then show ?thesis by (simp add: demo_state PushDigest_def CurrentDigest_def Let_def digestHistorySize_def)
qed

text \<open>The digest ring of a container holds the five most recently pushed digests, newest
  first, after any sequence of pushes; the current digest is the last one pushed and the previous
  digest the one before it.\<close>

theorem ring_keeps_newest:
  fixes pushes :: "(string \<times> string \<times> time) list"
  assumes "length (cs_digestHistory c) \<le> digestHistorySize"
  defines "c' \<equiv> fold (\<lambda>(img, d, now). PushDigest img d now) pushes c"
  shows "digests c' = take 5 (rev (map (fst \<circ> snd) pushes) @ digests c) \<and>
    CurrentDigest (PushDigest img d now c') = d \<and>
    PreviousDigest (PushDigest img d now c') = CurrentDigest c'"
  using digests_push_run [of c pushes] assms by (simp add: digests_def digestHistorySize_def)

theorem ring_keeps_newest_witness:
  "digests (fold (\<lambda>(img, d, now). PushDigest img d now)
      [(''i'', ''1'', 0), (''i'', ''2'', 0), (''i'', ''3'', 0), (''i'', ''4'', 0), (''i'', ''5'', 0), (''i'', ''6'', 0)]
      no_state) = [''6'', ''5'', ''4'', ''3'', ''2'']"
proof -
  have "length (cs_digestHistory no_state) \<le> digestHistorySize" by (simp add: no_state_def)
  from ring_keeps_newest [OF this, of "[(''i'', ''1'', 0), (''i'', ''2'', 0), (''i'', ''3'', 0),
      (''i'', ''4'', 0), (''i'', ''5'', 0), (''i'', ''6'', 0)]"]
  show ?thesis by simp
qed

end
