(* ===== verification/Deploy_Job.thy ===== *)
theory Deploy_Job
  imports Go_Strings Go_Chan "HOL-Library.Word"
begin

unbundle bit_operations_syntax

text \<open>
  A deploy job, \<open>internal/deploy/job.go\<close>: an id, a status that moves from queued to a final
  one, a bounded log, and a channel that carries the log lines and is closed when the job ends.
  Every method runs under the job's mutex, so a concurrent history of a job is a list of
  \<open>job_op\<close>s.  \<open>dj_once\<close> is the \<open>sync.Once\<close> around the close.  The line counter is a
  natural number: it stays far below the range of a 64-bit \<open>int\<close>.
\<close>

section \<open>State and operations\<close>

datatype job_status = StatusQueued | StatusRunning | StatusSuccess | StatusFailed

definition maxLogLines :: nat where
  "maxLogLines = 500"

record log_line =
  ll_Seq :: nat
  ll_Ts :: time
  ll_Source :: string
  ll_Text :: string

record deploy_job =
  dj_ID :: string
  dj_ContainerName :: string
  dj_Image :: string
  dj_TriggerSource :: string
  dj_LogCh :: "log_line chan"
  dj_status :: job_status
  dj_started :: time
  dj_ended :: "time option"
  dj_logs :: "log_line list"
  dj_seq :: nat
  dj_chDone :: bool
  dj_once :: bool

type_synonym byte = "8 word"

definition hex_digit :: "nat \<Rightarrow> char" where
  "hex_digit d = (if d < 10 then char_of (48 + d) else char_of (87 + d))"

definition hex_byte :: "byte \<Rightarrow> string" where
  "hex_byte w = [hex_digit (unat w div 16), hex_digit (unat w mod 16)]"

definition hex_bytes :: "byte list \<Rightarrow> string" where
  "hex_bytes bs = concat (map hex_byte bs)"

text \<open>\<open>rand\<close> is what \<open>crypto/rand\<close> put into the 16 byte array.\<close>

definition newUUID :: "byte list \<Rightarrow> string" where
  "newUUID rand =
     (let b = rand;
          b = b[6 := (b ! 6 AND 0x0f) OR 0x40];
          b = b[8 := (b ! 8 AND 0x3f) OR 0x80]
      in hex_bytes (take 4 b) @ ''-'' @ hex_bytes (take 2 (drop 4 b)) @ ''-'' @
         hex_bytes (take 2 (drop 6 b)) @ ''-'' @ hex_bytes (take 2 (drop 8 b)) @ ''-'' @
         hex_bytes (take 6 (drop 10 b)))"

definition NewJob :: "byte list \<Rightarrow> time \<Rightarrow> string \<Rightarrow> string \<Rightarrow> string \<Rightarrow> deploy_job" where
  "NewJob rand now containerName img triggerSource =
     \<lparr>dj_ID = newUUID rand, dj_ContainerName = containerName, dj_Image = img,
      dj_TriggerSource = triggerSource, dj_LogCh = make_chan 256, dj_status = StatusQueued,
      dj_started = now, dj_ended = None, dj_logs = [], dj_seq = 0, dj_chDone = False,
      dj_once = False\<rparr>"

definition AppendLog :: "string \<Rightarrow> string \<Rightarrow> time \<Rightarrow> deploy_job \<Rightarrow> panic + deploy_job" where
  "AppendLog source msg now j =
     (let seq = dj_seq j + 1;
          line = \<lparr>ll_Seq = seq, ll_Ts = now, ll_Source = source, ll_Text = msg\<rparr>;
          j = j\<lparr>dj_seq := seq\<rparr>;
          j = (if length (dj_logs j) < maxLogLines then j\<lparr>dj_logs := dj_logs j @ [line]\<rparr> else j)
      in if \<not> dj_chDone j
         then (case try_send line (dj_LogCh j) of
                 Inl p \<Rightarrow> Inl p
               | Inr c \<Rightarrow> Inr (j\<lparr>dj_LogCh := c\<rparr>))
         else Inr j)"

definition terminal :: "job_status \<Rightarrow> bool" where
  "terminal st \<longleftrightarrow> st = StatusSuccess \<or> st = StatusFailed"

definition Transition :: "job_status \<Rightarrow> time \<Rightarrow> deploy_job \<Rightarrow> panic + deploy_job" where
  "Transition status now j =
     (if terminal (dj_status j) then Inr j
      else
        let j = j\<lparr>dj_status := status\<rparr> in
        if terminal status then
          (let j = j\<lparr>dj_ended := Some now, dj_chDone := True\<rparr> in
           if dj_once j then Inr j
           else (case close_chan (dj_LogCh j) of
                   Inl p \<Rightarrow> Inl p
                 | Inr c \<Rightarrow> Inr (j\<lparr>dj_once := True, dj_LogCh := c\<rparr>)))
        else Inr j)"

record job_snapshot =
  sn_ID :: string
  sn_ContainerName :: string
  sn_Image :: string
  sn_TriggerSource :: string
  sn_Status :: job_status
  sn_StartedAt :: time
  sn_EndedAt :: "time option"
  sn_LogCount :: nat

definition Snap :: "deploy_job \<Rightarrow> job_snapshot" where
  "Snap j =
     \<lparr>sn_ID = dj_ID j, sn_ContainerName = dj_ContainerName j, sn_Image = dj_Image j,
      sn_TriggerSource = dj_TriggerSource j, sn_Status = dj_status j, sn_StartedAt = dj_started j,
      sn_EndedAt = dj_ended j, sn_LogCount = length (dj_logs j)\<rparr>"

definition Logs :: "deploy_job \<Rightarrow> log_line list" where
  "Logs j = dj_logs j"

text \<open>A reader of the log channel takes one line.\<close>

definition recv_log :: "deploy_job \<Rightarrow> log_line received \<times> deploy_job" where
  "recv_log j = (let (r, c) = receive (dj_LogCh j) in (r, j\<lparr>dj_LogCh := c\<rparr>))"

datatype job_op =
    Append string string time
  | MoveTo job_status time
  | RecvLog

fun job_step :: "deploy_job \<Rightarrow> job_op \<Rightarrow> panic + deploy_job" where
  "job_step j (Append source msg now) = AppendLog source msg now j"
| "job_step j (MoveTo status now) = Transition status now j"
| "job_step j RecvLog = Inr (snd (recv_log j))"

section \<open>Identifiers\<close>

lemma length_hex_bytes [simp]: "length (hex_bytes bs) = 2 * length bs"
  by (induction bs) (auto simp: hex_bytes_def hex_byte_def)

lemma hex_bytes_Cons: "hex_bytes (w # ws) = hex_byte w @ hex_bytes ws"
  by (simp add: hex_bytes_def)

lemma unat_drop_bit_div: "unat (drop_bit n w) = unat (w :: byte) div 2 ^ n"
  unfolding unat_drop_bit_eq by (rule drop_bit_eq_div)

lemma unat_high_nibble: "unat (w :: byte) div 16 = unat (drop_bit 4 w)"
  by (subst unat_drop_bit_div) simp

lemma version_nibble: "unat ((w AND 0x0f) OR 0x40 :: byte) div 16 = 4"
proof -
  have "drop_bit 4 ((w AND 0x0f) OR 0x40 :: byte) = 4"
    by (rule bit_word_eqI) (auto simp: bit_simps)
  then show ?thesis by (simp only: unat_high_nibble) simp
qed

lemma variant_nibble:
  "8 \<le> unat ((w AND 0x3f) OR 0x80 :: byte) div 16 \<and> unat ((w AND 0x3f) OR 0x80 :: byte) div 16 < 12"
proof -
  let ?w = "(w AND 0x3f) OR 0x80 :: byte"
  have "drop_bit 6 ?w = 2"
    by (rule bit_word_eqI) (auto simp: bit_simps)
  moreover have "unat (drop_bit 6 ?w) = unat ?w div 2 ^ 6"
    by (rule unat_drop_bit_div)
  ultimately have "unat ?w div 64 = 2" by simp
  then show ?thesis by linarith
qed

lemma hex_digit_cases: "8 \<le> d \<and> d < 12 \<Longrightarrow> hex_digit d \<in> set ''89ab''"
proof -
  assume "8 \<le> d \<and> d < 12"
  then have "d = 8 \<or> d = 9 \<or> d = 10 \<or> d = 11" by linarith
  moreover have "char_of (56 :: nat) = CHR ''8''" "char_of (57 :: nat) = CHR ''9''"
    "char_of (97 :: nat) = CHR ''a''" "char_of (98 :: nat) = CHR ''b''"
    by code_simp+
  ultimately show ?thesis by (auto simp: hex_digit_def)
qed

text \<open>The five groups of a UUID, from the sixteen bytes.\<close>

lemma newUUID_bytes:
  assumes "rand = [b0, b1, b2, b3, b4, b5, b6, b7, b8, b9, b10, b11, b12, b13, b14, b15]"
  shows "newUUID rand =
    hex_bytes [b0, b1, b2, b3] @ ''-'' @ hex_bytes [b4, b5] @ ''-'' @
    hex_bytes [(b6 AND 0x0f) OR 0x40, b7] @ ''-'' @
    hex_bytes [(b8 AND 0x3f) OR 0x80, b9] @ ''-'' @ hex_bytes [b10, b11, b12, b13, b14, b15]"
  by (simp add: assms newUUID_def Let_def numeral_eq_Suc)

lemma sixteen:
  assumes "length xs = 16"
  obtains b0 b1 b2 b3 b4 b5 b6 b7 b8 b9 b10 b11 b12 b13 b14 b15
  where "xs = [b0, b1, b2, b3, b4, b5, b6, b7, b8, b9, b10, b11, b12, b13, b14, b15]"
  using assms by (auto simp: length_Suc_conv numeral_eq_Suc)

lemma newUUID_shape:
  assumes "length rand = 16"
  shows "length (newUUID rand) = 36 \<and> newUUID rand ! 14 = CHR ''4'' \<and>
    newUUID rand ! 19 \<in> set ''89ab''"
  using assms
proof (cases rule: sixteen)
  case (1 b0 b1 b2 b3 b4 b5 b6 b7 b8 b9 b10 b11 b12 b13 b14 b15)
  have c4: "char_of (52 :: nat) = CHR ''4''" by code_simp
  have "newUUID rand ! 14 = hex_digit (unat ((b6 AND 0x0f) OR 0x40) div 16)"
    by (simp add: newUUID_bytes [OF 1] hex_bytes_def hex_byte_def)
  then have "newUUID rand ! 14 = CHR ''4''"
    by (simp only: version_nibble) (simp add: hex_digit_def c4)
  moreover have "newUUID rand ! 19 = hex_digit (unat ((b8 AND 0x3f) OR 0x80) div 16)"
    by (simp add: newUUID_bytes [OF 1] hex_bytes_def hex_byte_def)
  then have "newUUID rand ! 19 \<in> set ''89ab''"
    by (simp only:) (rule hex_digit_cases [OF variant_nibble])
  moreover have "length (newUUID rand) = 36"
    by (simp add: newUUID_bytes [OF 1])
  ultimately show ?thesis by blast
qed

section \<open>Invariant\<close>

text \<open>
  The log holds the first \<open>maxLogLines\<close> lines, numbered from 1; the channel holds a strictly
  increasing selection of the lines numbered so far; the job is done exactly when its channel
  is closed, its end time set and its \<open>Once\<close> spent.
\<close>

definition job_inv :: "deploy_job \<Rightarrow> bool" where
  "job_inv j \<longleftrightarrow>
     map ll_Seq (dj_logs j) = [1..<Suc (min (dj_seq j) maxLogLines)] \<and>
     sorted_wrt (<) (map ll_Seq (ch_buf (dj_LogCh j))) \<and>
     (\<forall>l \<in> set (ch_buf (dj_LogCh j)). ll_Seq l \<le> dj_seq j) \<and>
     wf_chan (dj_LogCh j) \<and> ch_cap (dj_LogCh j) = 256 \<and>
     (dj_chDone j \<longleftrightarrow> terminal (dj_status j)) \<and>
     (dj_once j \<longleftrightarrow> terminal (dj_status j)) \<and>
     (ch_closed (dj_LogCh j) \<longleftrightarrow> terminal (dj_status j)) \<and>
     (dj_ended j \<noteq> None \<longleftrightarrow> terminal (dj_status j))"

lemma NewJob_inv: "job_inv (NewJob rand now n img src)"
  by (simp add: job_inv_def NewJob_def terminal_def)

lemma job_inv_length: "job_inv j \<Longrightarrow> length (dj_logs j) = min (dj_seq j) maxLogLines"
  by (metis job_inv_def length_map diff_Suc_1 length_upt)

lemma sorted_wrt_snoc: "sorted_wrt P xs \<Longrightarrow> \<forall>x \<in> set xs. P x y \<Longrightarrow> sorted_wrt P (xs @ [y])"
  by (simp add: sorted_wrt_append)

text \<open>What \<open>AppendLog\<close> does, on an invariant state.\<close>

definition next_line :: "deploy_job \<Rightarrow> string \<Rightarrow> string \<Rightarrow> time \<Rightarrow> log_line" where
  "next_line j source msg now =
     \<lparr>ll_Seq = Suc (dj_seq j), ll_Ts = now, ll_Source = source, ll_Text = msg\<rparr>"

lemma AppendLog_eq:
  assumes "job_inv j"
  shows "AppendLog source msg now j =
    Inr (j\<lparr>dj_seq := Suc (dj_seq j),
           dj_logs := (if dj_seq j < maxLogLines then dj_logs j @ [next_line j source msg now] else dj_logs j),
           dj_LogCh := (if terminal (dj_status j) then dj_LogCh j else offer (next_line j source msg now) (dj_LogCh j))\<rparr>)"
proof -
  have "length (dj_logs j) < maxLogLines \<longleftrightarrow> dj_seq j < maxLogLines"
    using job_inv_length [OF assms] by auto
  moreover have "dj_chDone j \<longleftrightarrow> terminal (dj_status j)" "ch_closed (dj_LogCh j) \<longleftrightarrow> terminal (dj_status j)"
    using assms by (auto simp: job_inv_def)
  ultimately show ?thesis by (auto simp: AppendLog_def Let_def next_line_def try_send_def)
qed

lemma AppendLog_inv:
  assumes "job_inv j" and "AppendLog source msg now j = Inr j'"
  shows "job_inv j'"
proof -
  define line where "line = next_line j source msg now"
  have j': "j' = j\<lparr>dj_seq := Suc (dj_seq j),
           dj_logs := (if dj_seq j < maxLogLines then dj_logs j @ [line] else dj_logs j),
           dj_LogCh := (if terminal (dj_status j) then dj_LogCh j else offer line (dj_LogCh j))\<rparr>"
    using AppendLog_eq [OF assms(1), of source msg now] assms(2) unfolding line_def
    by (metis sum.inject(2))
  have le: "\<forall>l \<in> set (ch_buf (dj_LogCh j)). ll_Seq l \<le> dj_seq j"
    using assms(1) by (simp add: job_inv_def)
  have sq: "ll_Seq line = Suc (dj_seq j)" by (simp add: line_def next_line_def)
  have "map ll_Seq (dj_logs j') = [1..<Suc (min (dj_seq j') maxLogLines)]"
  proof (cases "dj_seq j < maxLogLines")
    case True
    then have "min (dj_seq j) maxLogLines = dj_seq j" "min (Suc (dj_seq j)) maxLogLines = Suc (dj_seq j)"
      by simp_all
    with True assms(1) show ?thesis by (simp add: job_inv_def j' sq)
  next
    case False
    then have "min (dj_seq j) maxLogLines = maxLogLines" "min (Suc (dj_seq j)) maxLogLines = maxLogLines"
      by simp_all
    with False assms(1) show ?thesis by (simp add: job_inv_def j')
  qed
  moreover have "sorted_wrt (<) (map ll_Seq (ch_buf (dj_LogCh j')))"
    using assms(1) le by (auto simp: job_inv_def j' sq offer_def sorted_wrt_append less_Suc_eq_le)
  moreover have "\<forall>l \<in> set (ch_buf (dj_LogCh j')). ll_Seq l \<le> dj_seq j'"
    using le by (auto simp: j' offer_def sq)
  ultimately show ?thesis
    using assms(1) by (auto simp: job_inv_def j')
qed

lemma Transition_eq:
  assumes "job_inv j"
  shows "Transition status now j =
    Inr (if terminal (dj_status j) then j
         else if terminal status
         then j\<lparr>dj_status := status, dj_ended := Some now, dj_chDone := True, dj_once := True,
                dj_LogCh := (dj_LogCh j)\<lparr>ch_closed := True\<rparr>\<rparr>
         else j\<lparr>dj_status := status\<rparr>)"
  using assms by (simp add: Transition_def job_inv_def Let_def close_chan_def)

lemma Transition_inv: "job_inv j \<Longrightarrow> Transition status now j = Inr j' \<Longrightarrow> job_inv j'"
  by (auto simp: Transition_eq) (auto simp: job_inv_def wf_chan_def)

lemma set_recv: "set (ch_buf (snd (receive c))) \<subseteq> set (ch_buf c)"
  by (auto simp: receive_def split: list.splits)

lemma sorted_recv:
  "sorted_wrt (<) (map ll_Seq (ch_buf c)) \<Longrightarrow> sorted_wrt (<) (map ll_Seq (ch_buf (snd (receive c))))"
  by (auto simp: receive_def split: list.splits)

lemma recv_log_sel: "snd (recv_log j) = j\<lparr>dj_LogCh := snd (receive (dj_LogCh j))\<rparr>"
  by (simp add: recv_log_def case_prod_beta Let_def)

lemma recv_log_inv: "job_inv j \<Longrightarrow> job_inv (snd (recv_log j))"
  using set_recv [of "dj_LogCh j"]
  by (auto simp: job_inv_def recv_log_sel wf_receive sorted_recv)

lemma job_step_safe: "job_inv j \<Longrightarrow> \<exists>j'. job_step j e = Inr j' \<and> job_inv j'"
proof (cases e)
  case (Append source msg now)
  assume "job_inv j"
  with Append show ?thesis
    using AppendLog_eq [of j source msg now] AppendLog_inv [of j source msg now] by auto
next
  case (MoveTo status now)
  assume "job_inv j"
  with MoveTo show ?thesis
    using Transition_eq [of j status now] Transition_inv [of j status now] by auto
qed (simp add: recv_log_inv)

text \<open>Once final, status and end time stay what they are.\<close>

definition job_final :: "deploy_job \<Rightarrow> bool" where
  "job_final j \<longleftrightarrow> terminal (dj_status j)"

definition job_outcome :: "deploy_job \<Rightarrow> job_status \<times> time option" where
  "job_outcome j = (dj_status j, dj_ended j)"

lemma job_final_step:
  "job_final j \<Longrightarrow> job_step j e = Inr j' \<Longrightarrow> job_final j' \<and> job_outcome j' = job_outcome j"
  by (cases e)
    (auto simp: job_final_def job_outcome_def AppendLog_def Transition_def recv_log_sel Let_def
      split: if_splits sum.splits)

interpretation job: guarded_machine job_step job_inv job_final job_outcome
  by unfold_locales (use job_step_safe job_final_step in \<open>auto\<close>)

text \<open>Identity fields never change.\<close>

lemma job_step_frame:
  "job_step j e = Inr j' \<Longrightarrow>
     dj_ID j' = dj_ID j \<and> dj_ContainerName j' = dj_ContainerName j \<and> dj_Image j' = dj_Image j \<and>
     dj_TriggerSource j' = dj_TriggerSource j \<and> dj_started j' = dj_started j"
  by (cases e)
    (auto simp: AppendLog_def Transition_def recv_log_sel Let_def split: if_splits sum.splits)

section \<open>Properties\<close>

text \<open>C15: Whatever the interleaving of log lines, transitions and channel reads on a new job, no
  method panics: the channel is closed at most once and never written after.  The invariant says
  the rest: at most 500 lines are kept, they are the first ones in order, and the channel is
  closed exactly when the job has ended.\<close>

theorem job_methods_never_panic:
  "\<exists>j. run_steps job_step (NewJob rand now n img src) ops = Inr j \<and> job_inv j \<and>
     length (dj_logs j) \<le> 500 \<and> (ch_closed (dj_LogCh j) \<longleftrightarrow> terminal (dj_status j))"
proof -
  obtain j where "run_steps job_step (NewJob rand now n img src) ops = Inr j" "job_inv j"
    using job.run_safe [OF NewJob_inv] by blast
  moreover from this job_inv_length [of j] have "length (dj_logs j) \<le> 500"
    by (simp add: maxLogLines_def)
  moreover have "ch_closed (dj_LogCh j) \<longleftrightarrow> terminal (dj_status j)"
    using \<open>job_inv j\<close> by (simp add: job_inv_def)
  ultimately show ?thesis by blast
qed

text \<open>The first final status wins: after a job has reached success or failure, no later
  sequence of method calls changes its status or its end time.\<close>

theorem job_outcome_is_final:
  assumes "job_inv j" and "\<not> terminal (dj_status j)" and "terminal st"
  shows "\<exists>j'. run_steps job_step j (MoveTo st now # ops) = Inr j' \<and>
    dj_status j' = st \<and> dj_ended j' = Some now"
proof -
  obtain j1 where j1: "Transition st now j = Inr j1" "dj_status j1 = st" "dj_ended j1 = Some now"
    using Transition_eq [OF assms(1), of st now] assms(2,3) by auto
  then have "job_inv j1" "job_final j1"
    using Transition_inv [OF assms(1) j1(1)] assms(3) by (simp_all add: job_final_def)
  then obtain j2 where "run_steps job_step j1 ops = Inr j2" using job.run_safe by blast
  moreover from this \<open>job_final j1\<close> have "job_outcome j2 = job_outcome j1"
    using job.final_run by blast
  ultimately show ?thesis using j1 by (auto simp: job_outcome_def)
qed

theorem job_outcome_is_final_witness:
  "\<exists>j'. run_steps job_step (NewJob (replicate 16 0) 1 ''web'' ''web:2'' ''poll'')
      [MoveTo StatusFailed 7, MoveTo StatusSuccess 9, Append ''stdout'' ''late'' 10] = Inr j' \<and>
    dj_status j' = StatusFailed \<and> dj_ended j' = Some 7"
proof -
  let ?j = "NewJob (replicate 16 0) 1 ''web'' ''web:2'' ''poll''"
  have "job_inv ?j" "\<not> terminal (dj_status ?j)" "terminal StatusFailed"
    by (simp_all add: NewJob_inv) (simp_all add: NewJob_def terminal_def)
  from job_outcome_is_final [OF this] show ?thesis by blast
qed

text \<open>A job id has the form of a version 4 UUID: 36 characters, version digit 4, and a
  variant digit in \<open>89ab\<close>, whatever bytes the random source yields.\<close>

theorem newUUID_is_v4:
  assumes "length rand = 16"
  shows "length (newUUID rand) = 36 \<and> newUUID rand ! 14 = CHR ''4'' \<and>
    newUUID rand ! 19 \<in> set ''89ab''"
  by (rule newUUID_shape [OF assms])

theorem newUUID_is_v4_witness: "newUUID (replicate 16 0xFF) ! 14 = CHR ''4''"
  using newUUID_is_v4 [of "replicate 16 0xFF"] by simp

end
