(* ===== verification/Deploy_Registry.thy ===== *)
theory Deploy_Registry
  imports Deploy_Job
begin

text \<open>
  The job registry, \<open>internal/deploy/registry.go\<close>: jobs by id, and the id of the job that is
  active for each container.  Jobs are shared by pointer between the registry, the component
  that runs the deploy and the API, so they live in the heap \<open>jr_heap\<close> and \<open>jr_jobs\<close> holds
  addresses.
\<close>

section \<open>State and operations\<close>

record job_registry =
  jr_heap :: "addr \<Rightarrow> deploy_job"
  jr_next :: addr
  jr_jobs :: "(string, addr) fmap"
  jr_byContainer :: "(string, string) fmap"

definition no_job :: deploy_job where
  "no_job = NewJob (replicate 16 0) 0 [] [] []"

definition NewRegistry :: job_registry where
  "NewRegistry = \<lparr>jr_heap = (\<lambda>_. no_job), jr_next = 0, jr_jobs = fmempty, jr_byContainer = fmempty\<rparr>"

definition alloc_job :: "deploy_job \<Rightarrow> job_registry \<Rightarrow> addr \<times> job_registry" where
  "alloc_job j r = (jr_next r, r\<lparr>jr_heap := (jr_heap r)(jr_next r := j), jr_next := Suc (jr_next r)\<rparr>)"

definition set_active :: "string \<Rightarrow> string \<Rightarrow> job_registry \<Rightarrow> job_registry" where
  "set_active n i r = r\<lparr>jr_byContainer := fmupd n i (jr_byContainer r)\<rparr>"

definition drop_active :: "string \<Rightarrow> job_registry \<Rightarrow> job_registry" where
  "drop_active n r = r\<lparr>jr_byContainer := fmdrop n (jr_byContainer r)\<rparr>"

definition active_job :: "job_registry \<Rightarrow> string \<Rightarrow> string option" where
  "active_job r n = fmlookup (jr_byContainer r) n"

text \<open>\<open>Register\<close> returns an error value that is always nil.\<close>

definition Register :: "addr \<Rightarrow> job_registry \<Rightarrow> error option \<times> job_registry" where
  "Register a r =
     (let j = jr_heap r a;
          r = r\<lparr>jr_jobs := fmupd (dj_ID j) a (jr_jobs r)\<rparr>
      in (None, set_active (dj_ContainerName j) (dj_ID j) r))"

definition GetJob :: "string \<Rightarrow> job_registry \<Rightarrow> addr option" where
  "GetJob i r = fmlookup (jr_jobs r) i"

definition IsRunning :: "string \<Rightarrow> job_registry \<Rightarrow> bool" where
  "IsRunning n r \<longleftrightarrow> active_job r n \<noteq> None"

definition Finish :: "string \<Rightarrow> job_registry \<Rightarrow> job_registry" where
  "Finish i r =
     (case fmlookup (jr_jobs r) i of
        Some a \<Rightarrow> drop_active (dj_ContainerName (jr_heap r a)) r
      | None \<Rightarrow> r)"

definition ActiveCount :: "job_registry \<Rightarrow> nat" where
  "ActiveCount r = card (fmdom' (jr_byContainer r))"

text \<open>A job method called through a pointer.\<close>

definition job_at :: "addr \<Rightarrow> job_op \<Rightarrow> job_registry \<Rightarrow> panic + job_registry" where
  "job_at a e r =
     (case job_step (jr_heap r a) e of
        Inl p \<Rightarrow> Inl p
      | Inr j \<Rightarrow> Inr (r\<lparr>jr_heap := (jr_heap r)(a := j)\<rparr>))"

section \<open>Contracts\<close>

interpretation active: keyed_registry active_job set_active drop_active
  by unfold_locales (auto simp: active_job_def set_active_def drop_active_def)

text \<open>
  Every job of the heap satisfies its invariant, the index by id agrees with the jobs' ids, and
  an active entry names a registered job of that container.
\<close>

definition registry_inv :: "job_registry \<Rightarrow> bool" where
  "registry_inv r \<longleftrightarrow>
     (\<forall>a. job_inv (jr_heap r a)) \<and>
     (\<forall>i a. fmlookup (jr_jobs r) i = Some a \<longrightarrow> a < jr_next r \<and> dj_ID (jr_heap r a) = i) \<and>
     (\<forall>n i. active_job r n = Some i \<longrightarrow> fmlookup (jr_jobs r) i \<noteq> None)"

lemma registry_invD:
  assumes "registry_inv r"
  shows "job_inv (jr_heap r a)"
    and "fmlookup (jr_jobs r) i = Some a \<Longrightarrow> a < jr_next r"
    and "fmlookup (jr_jobs r) i = Some a \<Longrightarrow> dj_ID (jr_heap r a) = i"
    and "active_job r n = Some i \<Longrightarrow> \<exists>a. fmlookup (jr_jobs r) i = Some a"
  using assms by (auto simp: registry_inv_def)

lemma NewRegistry_inv: "registry_inv NewRegistry"
  by (simp add: registry_inv_def NewRegistry_def no_job_def NewJob_inv active_job_def)

lemma alloc_job_inv: "registry_inv r \<Longrightarrow> job_inv j \<Longrightarrow> registry_inv (snd (alloc_job j r))"
  unfolding registry_inv_def alloc_job_def active_job_def
  by (auto simp: less_Suc_eq)

lemma active_job_frame [simp]:
  "active_job (r\<lparr>jr_jobs := m\<rparr>) n = active_job r n"
  "active_job (r\<lparr>jr_heap := h\<rparr>) n = active_job r n"
  by (simp_all add: active_job_def)

lemma active_sel [simp]:
  "jr_heap (set_active n i r) = jr_heap r" "jr_jobs (set_active n i r) = jr_jobs r"
  "jr_next (set_active n i r) = jr_next r"
  "jr_heap (drop_active n r) = jr_heap r" "jr_jobs (drop_active n r) = jr_jobs r"
  "jr_next (drop_active n r) = jr_next r"
  by (simp_all add: set_active_def drop_active_def)

lemma Register_inv:
  "registry_inv r \<Longrightarrow> a < jr_next r \<Longrightarrow> registry_inv (snd (Register a r))"
  by (auto simp: registry_inv_def Register_def Let_def active.lookup_insert split: if_splits)

lemma Finish_inv: "registry_inv r \<Longrightarrow> registry_inv (Finish i r)"
  by (auto simp: registry_inv_def Finish_def active.lookup_remove split: option.splits if_splits)

lemma job_at_safe:
  assumes "registry_inv r" shows "\<exists>r'. job_at a e r = Inr r' \<and> registry_inv r'"
proof -
  from job.step_safe [OF registry_invD(1) [OF assms]]
  obtain j where j: "job_step (jr_heap r a) e = Inr j" "job_inv j" by blast
  from job_step_frame [OF j(1)] have "dj_ID j = dj_ID (jr_heap r a)" by simp
  with j assms show ?thesis by (auto simp: registry_inv_def job_at_def)
qed

section \<open>Properties\<close>

text \<open>What registering and finishing do to the two indexes.\<close>

lemma Register_sel [job_simps]:
  "active_job (snd (Register a r)) n =
     (if n = dj_ContainerName (jr_heap r a) then Some (dj_ID (jr_heap r a)) else active_job r n)"
  "GetJob i (snd (Register a r)) = (if i = dj_ID (jr_heap r a) then Some a else GetJob i r)"
  "jr_heap (snd (Register a r)) = jr_heap r" "jr_next (snd (Register a r)) = jr_next r"
  "fst (Register a r) = None"
  by (auto simp: Register_def Let_def active.lookup_insert GetJob_def)

lemma Finish_sel [job_simps]:
  "active_job (Finish i r) n =
     (case GetJob i r of
        Some a \<Rightarrow> if n = dj_ContainerName (jr_heap r a) then None else active_job r n
      | None \<Rightarrow> active_job r n)"
  "GetJob k (Finish i r) = GetJob k r"
  "jr_heap (Finish i r) = jr_heap r" "jr_next (Finish i r) = jr_next r"
  by (auto simp: Finish_def GetJob_def active.lookup_remove split: option.splits)

text \<open>A new job, registered.\<close>

definition registered :: "deploy_job \<Rightarrow> job_registry \<Rightarrow> job_registry" where
  "registered j r = snd (Register (jr_next r) (snd (alloc_job j r)))"

lemma registered_inv: "registry_inv r \<Longrightarrow> job_inv j \<Longrightarrow> registry_inv (registered j r)"
  unfolding registered_def using alloc_job_inv
  by (intro Register_inv) (auto simp: alloc_job_def)

lemma registered_sel:
  "jr_heap (registered j r) = (jr_heap r)(jr_next r := j)"
  "active_job (registered j r) n =
     (if n = dj_ContainerName j then Some (dj_ID j) else active_job r n)"
  "GetJob i (registered j r) = (if i = dj_ID j then Some (jr_next r) else GetJob i r)"
  "jr_next (registered j r) = Suc (jr_next r)"
  by (simp_all add: registered_def job_simps)
    (simp_all add: alloc_job_def active_job_def GetJob_def)

text \<open>A container counts as running from \<open>Register\<close> to \<open>Finish\<close>; the finished job is still
  found by its id, other containers are not affected, and finishing twice is finishing once.\<close>

theorem running_between_register_and_finish:
  assumes "jr_heap r a = j"
  defines "r1 \<equiv> snd (Register a r)"
  defines "r2 \<equiv> Finish (dj_ID j) r1"
  shows "IsRunning (dj_ContainerName j) r1 \<and> \<not> IsRunning (dj_ContainerName j) r2 \<and>
    GetJob (dj_ID j) r2 = Some a \<and> jr_heap r2 a = j \<and>
    (n \<noteq> dj_ContainerName j \<longrightarrow> IsRunning n r2 = IsRunning n r) \<and>
    (\<forall>n. active_job (Finish (dj_ID j) r2) n = active_job r2 n)"
  using assms(1) by (auto simp: r2_def r1_def IsRunning_def job_simps)

definition demo_job :: deploy_job where
  "demo_job = NewJob (replicate 16 0) 1 ''web'' ''web:2'' ''poll''"

definition demo_registry :: job_registry where
  "demo_registry = snd (alloc_job demo_job NewRegistry)"

lemma demo_registry_heap: "jr_heap demo_registry 0 = demo_job"
  by (simp add: demo_registry_def alloc_job_def NewRegistry_def)

theorem running_between_register_and_finish_witness:
  "\<not> IsRunning ''web'' (Finish (dj_ID demo_job) (snd (Register 0 demo_registry)))"
  using running_between_register_and_finish [OF demo_registry_heap, of "''db''"]
  by (simp add: demo_job_def NewJob_def)

text \<open>\<open>Register\<close> does not refuse a second deploy of a container that is running, and finishing
  the first one removes the active entry of the second: a container is reported idle while its
  deploy is still in progress.\<close>

theorem finish_hides_newer_deploy:
  assumes "jr_heap r a1 = j1" "jr_heap r a2 = j2"
    and "dj_ContainerName j1 = dj_ContainerName j2" "dj_ID j1 \<noteq> dj_ID j2"
  defines "r1 \<equiv> snd (Register a1 r)"
  defines "r2 \<equiv> snd (Register a2 r1)"
  shows "IsRunning (dj_ContainerName j2) r1 \<and> fst (Register a2 r1) = None \<and>
    active_job r2 (dj_ContainerName j2) = Some (dj_ID j2) \<and>
    \<not> IsRunning (dj_ContainerName j2) (Finish (dj_ID j1) r2) \<and>
    GetJob (dj_ID j2) (Finish (dj_ID j1) r2) = Some a2"
  using assms(1-4) by (auto simp: r1_def r2_def IsRunning_def job_simps)

definition demo_job2 :: deploy_job where
  "demo_job2 = demo_job\<lparr>dj_ID := ''second'', dj_status := StatusRunning\<rparr>"

definition demo_registry2 :: job_registry where
  "demo_registry2 = snd (alloc_job demo_job2 demo_registry)"

theorem finish_hides_newer_deploy_witness:
  "\<not> IsRunning ''web''
     (Finish (dj_ID demo_job) (snd (Register 1 (snd (Register 0 demo_registry2))))) \<and>
   dj_status (jr_heap demo_registry2 1) = StatusRunning"
proof -
  have h: "jr_heap demo_registry2 0 = demo_job" "jr_heap demo_registry2 1 = demo_job2"
    by (simp_all add: demo_registry2_def demo_registry_def alloc_job_def NewRegistry_def)
  have "length (dj_ID demo_job) = 36"
    using newUUID_shape [of "replicate 16 0"] by (simp add: demo_job_def NewJob_def)
  then have ne: "dj_ID demo_job \<noteq> dj_ID demo_job2" by (auto simp: demo_job2_def)
  have nm: "dj_ContainerName demo_job = dj_ContainerName demo_job2" "dj_ContainerName demo_job2 = ''web''"
    by (simp_all add: demo_job2_def) (simp add: demo_job_def NewJob_def)
  have "dj_status demo_job2 = StatusRunning" by (simp add: demo_job2_def)
  with finish_hides_newer_deploy [OF h nm(1) ne] show ?thesis
    unfolding nm(2) h(2) by simp
qed

end
