(* ===== verification/Auth.thy ===== *)
theory Auth
  imports Go_Strings
begin

text \<open>
  The text with which a pull is authenticated, \<open>encodeAuth\<close> of \<open>internal/dockerclient/scoped.go\<close>, and the two
  encoders of the standard library it uses: \<open>encoding/json\<close> for a structure of two strings, and the URL
  alphabet of \<open>encoding/base64\<close>.  The decoders below are what the formats say (RFC 4648, RFC 8259); the program has none.
\<close>

section \<open>Base 64\<close>

definition encodeURL :: string where
  "encodeURL = ''ABCDEFGHIJKLMNOPQRSTUVWXYZabcdefghijklmnopqrstuvwxyz0123456789-_''"

abbreviation ord :: "char \<Rightarrow> nat" where
  "ord c \<equiv> of_char c"

definition sextets :: "nat \<Rightarrow> string" where
  "sextets v = map (\<lambda>d. encodeURL ! d) [v div 262144 mod 64, v div 4096 mod 64, v div 64 mod 64, v mod 64]"

fun EncodeToString :: "string \<Rightarrow> string" where
  "EncodeToString [] = []"
| "EncodeToString [a] = take 2 (sextets (ord a * 65536)) @ ''==''"
| "EncodeToString [a, b] = take 3 (sextets (ord a * 65536 + ord b * 256)) @ ''=''"
| "EncodeToString (a # b # c # s) = sextets (ord a * 65536 + ord b * 256 + ord c) @ EncodeToString s"

text \<open>Decoding: digits to their values, four of them to three bytes.\<close>

definition digit64 :: "char \<Rightarrow> nat" where
  "digit64 c = length (takeWhile (\<lambda>d. d \<noteq> c) encodeURL)"

definition three_bytes :: "nat \<Rightarrow> string" where
  "three_bytes v = map char_of [v div 65536, v div 256 mod 256, v mod 256]"

definition value64 :: "string \<Rightarrow> nat" where
  "value64 s = foldl (\<lambda>v c. v * 64 + digit64 c) 0 s"

fun decode64 :: "string \<Rightarrow> string" where
  "decode64 (w # x # y # z # s) =
     (if y = CHR ''='' then take 1 (three_bytes (value64 [w, x] * 4096))
      else if z = CHR ''='' then take 2 (three_bytes (value64 [w, x, y] * 64))
      else three_bytes (value64 [w, x, y, z]) @ decode64 s)"
| "decode64 _ = []"

lemma digit64_encode: "n < 64 \<Longrightarrow> digit64 (encodeURL ! n) = n"
proof -
  have "\<forall>n \<in> set [0..<64]. digit64 (encodeURL ! n) = n" by code_simp
  then show "n < 64 \<Longrightarrow> digit64 (encodeURL ! n) = n" by simp
qed

lemma encode_no_pad: "n < 64 \<Longrightarrow> encodeURL ! n \<noteq> CHR ''=''"
proof -
  have "CHR ''='' \<notin> set encodeURL" "length encodeURL = 64" by code_simp+
  then show "n < 64 \<Longrightarrow> encodeURL ! n \<noteq> CHR ''=''" by (metis nth_mem)
qed

lemma value64_sextets:
  assumes "v < 16777216"
  shows "value64 (sextets v) = v" "value64 (take 3 (sextets v)) = v div 64" "value64 (take 2 (sextets v)) = v div 4096"
proof -
  have d: "v div 262144 = v div 4096 div 64" "v div 4096 = v div 64 div 64" by (simp_all flip: div_mult2_eq)
  have "v div 262144 < 64" using assms by (simp add: less_mult_imp_div_less)
  then have 2: "v div 262144 mod 64 * 64 + v div 4096 mod 64 = v div 4096" by (simp add: d(1))
  have 3: "v div 4096 * 64 + v div 64 mod 64 = v div 64" unfolding d(2) by (rule div_mult_mod_eq)
  have 4: "v div 64 * 64 + v mod 64 = v" by (rule div_mult_mod_eq)
  show "value64 (sextets v) = v" "value64 (take 3 (sextets v)) = v div 64" "value64 (take 2 (sextets v)) = v div 4096"
    by (simp_all add: value64_def sextets_def digit64_encode 2 3 4)
qed

lemma three_bytes_join:
  "three_bytes (ord a * 65536 + ord b * 256 + ord c) = [a, b, c]"
  "three_bytes (ord a * 65536 + ord b * 256) = [a, b, CHR 0x00]"
  "three_bytes (ord a * 65536) = [a, CHR 0x00, CHR 0x00]"
proof -
  have d: "(ord a * 65536 + ord b * 256 + n) div 65536 = ord a" "(ord a * 65536 + ord b * 256 + n) div 256 mod 256 = ord b"
    "(ord a * 65536 + ord b * 256 + n) mod 256 = n" if "n < 256" for n
  proof -
    have v: "ord a * 65536 + ord b * 256 + n = n + (ord b + ord a * 256) * 256" by (simp add: algebra_simps)
    have 1: "(n + (ord b + ord a * 256) * 256) div 256 = ord b + ord a * 256"
      "(n + (ord b + ord a * 256) * 256) mod 256 = n" "(ord b + ord a * 256) div 256 = ord a" "(ord b + ord a * 256) mod 256 = ord b"
      using that by (simp_all only: div_mult_self1 mod_mult_self1) simp_all
    have "m div 65536 = m div 256 div 256" for m :: nat by (simp flip: div_mult2_eq)
    with 1 show "(ord a * 65536 + ord b * 256 + n) div 65536 = ord a"
      "(ord a * 65536 + ord b * 256 + n) div 256 mod 256 = ord b" "(ord a * 65536 + ord b * 256 + n) mod 256 = n"
      unfolding v by (simp_all only:)
  qed
  show "three_bytes (ord a * 65536 + ord b * 256 + ord c) = [a, b, c]"
    by (simp add: three_bytes_def d)
  have z: "char_of (0 :: nat) = CHR 0x00" by code_simp
  show "three_bytes (ord a * 65536 + ord b * 256) = [a, b, CHR 0x00]"
    using d [of 0] by (simp add: three_bytes_def z)
  show "three_bytes (ord a * 65536) = [a, CHR 0x00, CHR 0x00]" by (simp add: three_bytes_def z)
qed

lemma sextets_digits: "\<exists>w x y z. sextets v = [w, x, y, z] \<and> y \<noteq> CHR ''='' \<and> z \<noteq> CHR ''=''"
  by (simp add: sextets_def encode_no_pad)

text \<open>Every byte string is decoded to itself.\<close>

lemma decode64_EncodeToString: "decode64 (EncodeToString s) = s"
proof (induction s rule: EncodeToString.induct)
  case (2 a)
  define v where "v = ord a * 65536"
  have "v < 16777216" using nat_of_char_less_256 [of a] unfolding v_def by linarith
  then have "value64 (take 2 (sextets v)) = v div 4096" by (rule value64_sextets)
  moreover have "v div 4096 * 4096 = v" by (simp add: v_def)
  moreover obtain w x y z where "sextets v = [w, x, y, z]" using sextets_digits by blast
  moreover have "three_bytes v = [a, CHR 0x00, CHR 0x00]" unfolding v_def by (rule three_bytes_join)
  ultimately show ?case unfolding EncodeToString.simps v_def [symmetric] by simp
next
  case (3 a b)
  define v where "v = ord a * 65536 + ord b * 256"
  have "v < 16777216" using nat_of_char_less_256 [of a] nat_of_char_less_256 [of b] unfolding v_def by linarith
  then have "value64 (take 3 (sextets v)) = v div 64" by (rule value64_sextets)
  moreover have "v div 64 * 64 = v" by (simp add: v_def)
  moreover obtain w x y z where "sextets v = [w, x, y, z]" "y \<noteq> CHR ''=''" using sextets_digits by blast
  moreover have "three_bytes v = [a, b, CHR 0x00]" unfolding v_def by (rule three_bytes_join)
  ultimately show ?case unfolding EncodeToString.simps v_def [symmetric] by simp
next
  case (4 a b c s)
  define v where "v = ord a * 65536 + ord b * 256 + ord c"
  have "v < 16777216"
    using nat_of_char_less_256 [of a] nat_of_char_less_256 [of b] nat_of_char_less_256 [of c] unfolding v_def by linarith
  then have "value64 (sextets v) = v" by (rule value64_sextets)
  moreover obtain w x y z where "sextets v = [w, x, y, z]" "y \<noteq> CHR ''=''" "z \<noteq> CHR ''=''" using sextets_digits by blast
  moreover have "three_bytes v = [a, b, c]" unfolding v_def by (rule three_bytes_join)
  ultimately show ?case using 4 unfolding EncodeToString.simps v_def [symmetric] by simp
qed simp

section \<open>JSON strings\<close>

definition dquote :: char where "dquote = CHR 0x22"
definition backslash :: char where "backslash = CHR 0x5C"

definition hexDigits :: string where "hexDigits = ''0123456789abcdef''"

text \<open>One byte below 128, with the escaping of HTML on, as it is in \<open>json.Marshal\<close>.\<close>

definition json_ascii :: "char \<Rightarrow> string" where
  "json_ascii c =
     (if c = backslash \<or> c = dquote then [backslash, c]
      else if c = CHR 0x08 then [backslash, CHR ''b'']
      else if c = CHR 0x0C then [backslash, CHR ''f'']
      else if c = CHR 0x0A then [backslash, CHR ''n'']
      else if c = CHR 0x0D then [backslash, CHR ''r'']
      else if c = CHR 0x09 then [backslash, CHR ''t'']
      else if ord c < 32 \<or> c \<in> set ''<>&'' then backslash # ''u00'' @ [hexDigits ! (ord c div 16), hexDigits ! (ord c mod 16)]
      else [c])"

text \<open>How many bytes the character at the front of a text has (\<open>utf8.DecodeRune\<close>), 0 if it is malformed.\<close>

definition continues :: "nat \<Rightarrow> nat \<Rightarrow> string \<Rightarrow> nat \<Rightarrow> bool" where
  "continues lo hi s n \<longleftrightarrow> n < length s \<and> lo \<le> ord (s ! 1) \<and> ord (s ! 1) \<le> hi \<and>
     (\<forall>i \<in> set [2..<Suc n]. 128 \<le> ord (s ! i) \<and> ord (s ! i) \<le> 191)"

definition rune_size :: "string \<Rightarrow> nat" where
  "rune_size s =
     (let b = ord (hd s) in
      if b < 128 then 1
      else if 194 \<le> b \<and> b \<le> 223 then (if continues 128 191 s 1 then 2 else 0)
      else if b = 224 then (if continues 160 191 s 2 then 3 else 0)
      else if b = 237 then (if continues 128 159 s 2 then 3 else 0)
      else if 225 \<le> b \<and> b \<le> 239 then (if continues 128 191 s 2 then 3 else 0)
      else if b = 240 then (if continues 144 191 s 3 then 4 else 0)
      else if 241 \<le> b \<and> b \<le> 243 then (if continues 128 191 s 3 then 4 else 0)
      else if b = 244 then (if continues 128 143 s 3 then 4 else 0)
      else 0)"

text \<open>The line and paragraph separators.\<close>

definition separator :: "string \<Rightarrow> bool" where
  "separator s \<longleftrightarrow> take 2 s = [CHR 0xE2, CHR 0x80] \<and> length s \<ge> 3 \<and> s ! 2 \<in> {CHR 0xA8, CHR 0xA9}"

function json_chars :: "string \<Rightarrow> string" where
  "json_chars s =
     (case s of
        [] \<Rightarrow> []
      | c # cs \<Rightarrow>
          if ord c < 128 then json_ascii c @ json_chars cs
          else if rune_size s = 0 then backslash # ''ufffd'' @ json_chars cs
          else if separator s then backslash # ''u202'' @ [hexDigits ! (ord (s ! 2) mod 16)] @ json_chars (drop 3 s)
          else take (rune_size s) s @ json_chars (drop (rune_size s) s))"
  by pat_completeness auto

termination by (relation "measure length") auto

declare json_chars.simps [simp del]

definition json_string :: "string \<Rightarrow> string" where
  "json_string s = dquote # json_chars s @ [dquote]"

definition json_auth :: "string \<Rightarrow> string \<Rightarrow> string" where
  "json_auth username password =
     CHR ''{'' # json_string ''username'' @ CHR '':'' # json_string username @ CHR '','' #
       json_string ''password'' @ CHR '':'' # json_string password @ ''}''"

definition encodeAuth :: "string \<Rightarrow> string \<Rightarrow> string" where
  "encodeAuth username password = EncodeToString (json_auth username password)"

section \<open>Reading it back\<close>

definition hex_value :: "string \<Rightarrow> nat" where
  "hex_value s = foldl (\<lambda>v c. v * 16 + length (takeWhile (\<lambda>d. d \<noteq> c) hexDigits)) 0 s"

definition utf8_of :: "nat \<Rightarrow> string" where
  "utf8_of n =
     (if n < 128 then [char_of n]
      else if n < 2048 then map char_of [192 + n div 64, 128 + n mod 64]
      else map char_of [224 + n div 4096, 128 + n div 64 mod 64, 128 + n mod 64])"

definition escaped_char :: "char \<Rightarrow> char" where
  "escaped_char e =
     (if e = CHR ''b'' then CHR 0x08 else if e = CHR ''f'' then CHR 0x0C else if e = CHR ''n'' then CHR 0x0A
      else if e = CHR ''r'' then CHR 0x0D else if e = CHR ''t'' then CHR 0x09 else e)"

text \<open>The contents of a string whose opening quote has been read, and what follows its closing one.\<close>

function json_read :: "string \<Rightarrow> string \<times> string" where
  "json_read s =
     (case s of
        [] \<Rightarrow> ([], [])
      | c # cs \<Rightarrow>
          if c = dquote then ([], cs)
          else if c \<noteq> backslash then apfst (Cons c) (json_read cs)
          else if hd cs = CHR ''u'' then apfst (append (utf8_of (hex_value (take 4 (tl cs))))) (json_read (drop 5 cs))
          else apfst (Cons (escaped_char (hd cs))) (json_read (tl cs)))"
  by pat_completeness auto

termination by (relation "measure length") auto

declare json_read.simps [simp del]

text \<open>The two members of an object, with their names.\<close>

definition read_auth :: "string \<Rightarrow> (string \<times> string) list" where
  "read_auth s =
     (let (name1, r) = json_read (drop 2 (decode64 s)); (value1, r) = json_read (drop 2 r);
          (name2, r) = json_read (drop 2 r); (value2, r) = json_read (drop 2 r)
      in [(name1, value1), (name2, value2)])"

text \<open>Well-formed texts.\<close>

function valid_utf8 :: "string \<Rightarrow> bool" where
  "valid_utf8 s =
     (case s of
        [] \<Rightarrow> True
      | c # cs \<Rightarrow> if rune_size s = 0 then False else valid_utf8 (drop (rune_size s) s))"
  by pat_completeness auto

termination by (relation "measure length") auto

declare valid_utf8.simps [simp del]

lemma json_read_end: "json_read (dquote # s) = ([], s)"
  by (subst json_read.simps) simp

lemma json_read_raw:
  "\<forall>c \<in> set xs. c \<noteq> dquote \<and> c \<noteq> backslash \<Longrightarrow> json_read (xs @ s) = apfst (append xs) (json_read s)"
proof (induction xs)
  case (Cons c xs)
  then show ?case by (subst json_read.simps) (cases "json_read s"; simp)
qed (cases "json_read s"; simp)

lemma json_read_escape:
  "e \<noteq> CHR ''u'' \<Longrightarrow> json_read (backslash # e # s) = apfst (Cons (escaped_char e)) (json_read s)"
  "json_read (backslash # CHR ''u'' # a # b # c # d # s) = apfst (append (utf8_of (hex_value [a, b, c, d]))) (json_read s)"
  by (subst json_read.simps; simp add: dquote_def backslash_def)+

lemma hex_digits: "n < 256 \<Longrightarrow> hex_value [CHR ''0'', CHR ''0'', hexDigits ! (n div 16), hexDigits ! (n mod 16)] = n"
proof -
  have h: "\<forall>d \<in> set [0..<16]. length (takeWhile (\<lambda>c. c \<noteq> hexDigits ! d) hexDigits) = d" "length (takeWhile (\<lambda>c. c \<noteq> CHR ''0'') hexDigits) = 0"
    by code_simp+
  assume "n < 256"
  then have "n div 16 \<in> set [0..<16]" "n mod 16 \<in> set [0..<16]" by (simp_all add: less_mult_imp_div_less)
  with h show ?thesis by (simp add: hex_value_def)
qed

lemma json_read_ascii:
  assumes "ord c < 128"
  shows "json_read (json_ascii c @ s) = apfst (Cons c) (json_read s)"
proof -
  consider "c \<in> {backslash, dquote, CHR 0x08, CHR 0x0C, CHR 0x0A, CHR 0x0D, CHR 0x09}"
    | "c \<notin> {backslash, dquote, CHR 0x08, CHR 0x0C, CHR 0x0A, CHR 0x0D, CHR 0x09}" "ord c < 32 \<or> c \<in> set ''<>&''"
    | "c \<notin> {backslash, dquote, CHR 0x08, CHR 0x0C, CHR 0x0A, CHR 0x0D, CHR 0x09}" "\<not> (ord c < 32 \<or> c \<in> set ''<>&'')"
    by blast
  then show ?thesis
  proof cases
    case 1
    then have "\<exists>e. json_ascii c = [backslash, e] \<and> e \<noteq> CHR ''u'' \<and> escaped_char e = c"
      by (elim insertE emptyE) (simp_all add: json_ascii_def escaped_char_def backslash_def dquote_def)
    then show ?thesis by (auto simp: json_read_escape)
  next
    case 2
    then have "json_ascii c = backslash # ''u00'' @ [hexDigits ! (ord c div 16), hexDigits ! (ord c mod 16)]" by (simp add: json_ascii_def)
    moreover have "utf8_of (hex_value [CHR ''0'', CHR ''0'', hexDigits ! (ord c div 16), hexDigits ! (ord c mod 16)]) = [c]"
      using assms by (simp add: hex_digits utf8_of_def)
    ultimately show ?thesis by (simp add: json_read_escape)
  next
    case 3
    then have "json_ascii c = [c]" "c \<noteq> dquote" "c \<noteq> backslash" by (simp_all add: json_ascii_def)
    with json_read_raw [of "[c]" s] show ?thesis by (cases "json_read s") simp
  qed
qed

lemma rune_bytes:
  assumes "rune_size s = n" "n \<noteq> 0" "128 \<le> ord (hd s)"
  shows "2 \<le> n" "n \<le> length s" "x \<in> set (take n s) \<Longrightarrow> 128 \<le> ord x"
proof -
  have m: "continues 160 191 s k \<Longrightarrow> continues 128 191 s k" "continues 128 159 s k \<Longrightarrow> continues 128 191 s k"
    "continues 144 191 s k \<Longrightarrow> continues 128 191 s k" "continues 128 143 s k \<Longrightarrow> continues 128 191 s k" for k
    by (simp_all add: continues_def)
  have c: "2 \<le> n" "continues 128 191 s (n - 1)"
    using assms m [of 2] m [of 3] unfolding rune_size_def Let_def by (simp_all split: if_splits)
  then have i: "\<forall>i \<in> set [2..<n]. 128 \<le> ord (s ! i)" "128 \<le> ord (s ! 1)" by (auto simp: continues_def)
  from c show "2 \<le> n" "n \<le> length s" by (auto simp: continues_def)
  have "128 \<le> ord (s ! i)" if "i < n" for i
  proof -
    consider "i = 0" | "i = 1" | "2 \<le> i" by linarith
    then show ?thesis
    proof cases
      case 1
      have "s \<noteq> []" using c(2) by (auto simp: continues_def)
      with 1 assms(3) show ?thesis by (simp add: hd_conv_nth)
    qed (use i that in auto)
  qed
  then show "x \<in> set (take n s) \<Longrightarrow> 128 \<le> ord x" by (auto simp: in_set_conv_nth)
qed

lemma separator_size: "separator s \<Longrightarrow> rune_size s = 3"
proof -
  assume sep: "separator s"
  then obtain a b c t where s: "s = a # b # c # t" by (cases s; cases "tl s"; cases "tl (tl s)") (auto simp: separator_def)
  with sep show ?thesis by (auto simp: separator_def rune_size_def continues_def)
qed

lemma separator_bytes:
  assumes "separator s"
  shows "utf8_of (hex_value [CHR ''2'', CHR ''0'', CHR ''2'', hexDigits ! (ord (s ! 2) mod 16)]) = take 3 s"
proof -
  obtain a b c t where s: "s = a # b # c # t"
    using assms by (cases s; cases "tl s"; cases "tl (tl s)") (auto simp: separator_def)
  have d: "hexDigits ! (ord (CHR 0xA8) mod 16) = CHR ''8''" "hexDigits ! (ord (CHR 0xA9) mod 16) = CHR ''9''" by code_simp+
  have h: "hex_value ''2028'' = 8232" "hex_value ''2029'' = 8233" by (simp_all add: hex_value_def hexDigits_def)
  have u: "utf8_of 8232 = [CHR 0xE2, CHR 0x80, CHR 0xA8]" "utf8_of 8233 = [CHR 0xE2, CHR 0x80, CHR 0xA9]"
    by (simp_all add: utf8_of_def char_of_eq_iff)
  have "utf8_of (hex_value [CHR ''2'', CHR ''0'', CHR ''2'', hexDigits ! (ord x mod 16)]) = [CHR 0xE2, CHR 0x80, x]"
    if "x \<in> {CHR 0xA8, CHR 0xA9}" for x
    using that by (elim insertE emptyE) (simp_all only: d h u)
  with assms s show ?thesis by (simp add: separator_def)
qed

lemma json_read_chars: "valid_utf8 s \<Longrightarrow> json_read (json_chars s @ dquote # t) = (s, t)"
proof (induction s rule: json_chars.induct)
  case (1 s)
  show ?case
  proof (cases s)
    case Nil
    then show ?thesis by (simp add: json_chars.simps [of "[]"] json_read_end)
  next
    case (Cons c cs)
    have size: "rune_size s \<noteq> 0" and rest: "valid_utf8 (drop (rune_size s) s)"
      using 1(5) Cons by (auto simp: valid_utf8.simps [of "c # cs"] split: if_splits)
    have split: "take (rune_size s) s @ drop (rune_size s) s = s" by simp
    show ?thesis
    proof (cases "ord c < 128")
      case True
      then have "rune_size s = 1" by (simp add: rune_size_def Cons)
      with rest have "valid_utf8 cs" by (simp add: Cons)
      from 1(1) [OF Cons True this] show ?thesis
        using True by (subst json_chars.simps) (simp add: Cons json_read_ascii)
    next
      case False
      then have big: "128 \<le> ord (hd s)" by (simp add: Cons)
      show ?thesis
      proof (cases "separator s")
        case True
        from 1(3) [OF Cons False size True] rest separator_size [OF True]
        have "json_read (json_chars (drop 3 s) @ dquote # t) = (drop 3 s, t)" by simp
        moreover have "json_chars s = backslash # ''u202'' @ [hexDigits ! (ord (s ! 2) mod 16)] @ json_chars (drop 3 s)"
          using Cons False size True by (subst json_chars.simps) simp
        ultimately show ?thesis by (simp add: json_read_escape separator_bytes [OF True])
      next
        case sep: False
        from 1(4) [OF Cons False size sep] rest
        have "json_read (json_chars (drop (rune_size s) s) @ dquote # t) = (drop (rune_size s) s, t)" by simp
        moreover have "json_chars s = take (rune_size s) s @ json_chars (drop (rune_size s) s)"
          using Cons False size sep by (subst json_chars.simps) simp
        moreover have "\<forall>x \<in> set (take (rune_size s) s). x \<noteq> dquote \<and> x \<noteq> backslash"
          using rune_bytes(3) [OF refl size big] by (force simp: dquote_def backslash_def)
        ultimately show ?thesis by (simp add: json_read_raw)
      qed
    qed
  qed
qed

lemma read_auth_encodeAuth:
  assumes "\<And>t. json_read (json_chars username @ dquote # t) = (u, t)" "\<And>t. json_read (json_chars password @ dquote # t) = (p, t)"
  shows "read_auth (encodeAuth username password) = [(''username'', u), (''password'', p)]"
proof -
  have n: "valid_utf8 ''username''" "valid_utf8 ''password''" by code_simp+
  show ?thesis unfolding read_auth_def encodeAuth_def decode64_EncodeToString json_auth_def json_string_def
    by (simp add: assms json_read_chars n)
qed

text \<open>Bytes that are not UTF-8 are lost: the daemon is sent another password.\<close>

lemma malformed_password_changed:
  assumes "valid_utf8 username"
  shows "read_auth (encodeAuth username [CHR 0xFF]) = [(''username'', username), (''password'', [CHR 0xEF, CHR 0xBF, CHR 0xBD])]"
proof (rule read_auth_encodeAuth)
  have "json_chars [CHR 0xFF] = backslash # ''ufffd''"
  proof -
    have e: "json_chars [] = []" by (subst json_chars.simps) simp
    have "rune_size [CHR 0xFF] = 0" "\<not> ord (CHR 0xFF) < 128" by (simp_all add: rune_size_def)
    then show ?thesis by (subst json_chars.simps) (simp add: e)
  qed
  moreover have "hex_value ''fffd'' = 65533" by (simp add: hex_value_def hexDigits_def)
  moreover have "utf8_of 65533 = [CHR 0xEF, CHR 0xBF, CHR 0xBD]" by (simp add: utf8_of_def char_of_eq_iff)
  ultimately show "json_read (json_chars [CHR 0xFF] @ dquote # t) = ([CHR 0xEF, CHR 0xBF, CHR 0xBD], t)" for t
    by (simp add: json_read_escape json_read_end)
qed (rule json_read_chars [OF assms])

end
