(* ===== verification/Docker_Client.thy ===== *)
theory Docker_Client
  imports Image_Ref Auth
begin

text \<open>
  The gateway to the Docker daemon, \<open>internal/dockerclient/scoped.go\<close>.  The daemon and its SDK
  are not part of the repository: a daemon state is a type variable \<open>'d\<close>, and the SDK is a
  record of functions over it, an argument of \<open>Client\<close>.  \<open>scoped\<close> is the \<open>Scoped\<close> interface
  as a record of the same kind, which is what the other components take.  SDK structures keep the
  fields the program reads or writes; what it only carries along is an uninterpreted string.
  Queries (GET requests) do not change the daemon; every other call returns its new state.
\<close>

section \<open>Types\<close>

record container_config =
  cc_Image :: string
  cc_Labels :: "(string, string) fmap"
  cc_rest :: string

text \<open>\<open>State\<close> and its \<open>Health\<close> are pointers that may be nil; the value is the health status.\<close>

record inspect_result =
  ir_Name :: string
  ir_Config :: "container_config option"
  ir_HostConfig :: "string option"
  ir_NetworkSettings :: "(string, string) fmap option"
  ir_State :: "string option option"

record create_spec =
  sp_Name :: string
  sp_Config :: container_config
  sp_HostConfig :: "string option"
  sp_Networking :: "(string, string) fmap option"

record container_summary =
  sm_ID :: string
  sm_Names :: "string list"
  sm_Image :: string
  sm_Labels :: "(string, string) fmap"

record 'd scoped =
  sc_List :: "'d \<Rightarrow> error + container_summary list"
  sc_Inspect :: "string \<Rightarrow> 'd \<Rightarrow> error + inspect_result"
  sc_Pull :: "string \<Rightarrow> 'd \<Rightarrow> error option \<times> 'd"
  sc_Stop :: "string \<Rightarrow> 'd \<Rightarrow> error option \<times> 'd"
  sc_Start :: "string \<Rightarrow> 'd \<Rightarrow> error option \<times> 'd"
  sc_Remove :: "string \<Rightarrow> 'd \<Rightarrow> error option \<times> 'd"
  sc_Create :: "create_spec \<Rightarrow> 'd \<Rightarrow> (error + string) \<times> 'd"

text \<open>
  The SDK: a list filter is the label it selects; a pull takes the encoded credentials and
  yields a stream, whose reading to the end may fail.
\<close>

record 'd sdk =
  sdk_ContainerList :: "string \<Rightarrow> 'd \<Rightarrow> error + container_summary list"
  sdk_ContainerInspect :: "string \<Rightarrow> 'd \<Rightarrow> error + inspect_result"
  sdk_ImagePull :: "string \<Rightarrow> string \<Rightarrow> 'd \<Rightarrow> (error + error option) \<times> 'd"
  sdk_ContainerStop :: "string \<Rightarrow> 'd \<Rightarrow> error option \<times> 'd"
  sdk_ContainerStart :: "string \<Rightarrow> 'd \<Rightarrow> error option \<times> 'd"
  sdk_ContainerRemove :: "string \<Rightarrow> 'd \<Rightarrow> error option \<times> 'd"
  sdk_ContainerCreate :: "create_spec \<Rightarrow> 'd \<Rightarrow> (error + string) \<times> 'd"

section \<open>The client\<close>

definition ListContainers :: "'d sdk \<Rightarrow> 'd \<Rightarrow> error + container_summary list" where
  "ListContainers cli = sdk_ContainerList cli ''dockwatch.watch=true''"

definition PullImage ::
  "'d sdk \<Rightarrow> bool \<Rightarrow> (string \<Rightarrow> string \<times> string) option \<Rightarrow> string \<Rightarrow> 'd \<Rightarrow> error option \<times> 'd" where
  "PullImage cli dryRun credsFor ref d =
     (if dryRun then (None, d)
      else
        let auth = (case credsFor of
                      None \<Rightarrow> []
                    | Some f \<Rightarrow>
                        let (user, pass) = f (registryHost ref) in
                        if user \<noteq> [] \<or> pass \<noteq> [] then encodeAuth user pass else [])
        in case sdk_ImagePull cli ref auth d of
             (Inl e, d) \<Rightarrow> (Some (''pull '' @ ref @ '': '' @ e), d)
           | (Inr (Some e), d) \<Rightarrow> (Some (''pull '' @ ref @ '': drain: '' @ e), d)
           | (Inr None, d) \<Rightarrow> (None, d))"

definition StopContainer :: "'d sdk \<Rightarrow> bool \<Rightarrow> string \<Rightarrow> 'd \<Rightarrow> error option \<times> 'd" where
  "StopContainer cli dryRun i d = (if dryRun then (None, d) else sdk_ContainerStop cli i d)"

definition StartContainer :: "'d sdk \<Rightarrow> bool \<Rightarrow> string \<Rightarrow> 'd \<Rightarrow> error option \<times> 'd" where
  "StartContainer cli dryRun i d = (if dryRun then (None, d) else sdk_ContainerStart cli i d)"

definition RemoveContainer :: "'d sdk \<Rightarrow> bool \<Rightarrow> string \<Rightarrow> 'd \<Rightarrow> error option \<times> 'd" where
  "RemoveContainer cli dryRun i d = (if dryRun then (None, d) else sdk_ContainerRemove cli i d)"

definition CreateContainer ::
  "'d sdk \<Rightarrow> bool \<Rightarrow> create_spec \<Rightarrow> 'd \<Rightarrow> (error + string) \<times> 'd" where
  "CreateContainer cli dryRun spec d =
     (if dryRun then (Inr (''dry-run-'' @ sp_Name spec), d)
      else case sdk_ContainerCreate cli spec d of
             (Inl e, d) \<Rightarrow> (Inl (''create '' @ sp_Name spec @ '': '' @ e), d)
           | (Inr i, d) \<Rightarrow> (Inr i, d))"

definition Client ::
  "'d sdk \<Rightarrow> bool \<Rightarrow> (string \<Rightarrow> string \<times> string) option \<Rightarrow> 'd scoped" where
  "Client cli dryRun credsFor =
     \<lparr>sc_List = ListContainers cli,
      sc_Inspect = sdk_ContainerInspect cli,
      sc_Pull = PullImage cli dryRun credsFor,
      sc_Stop = StopContainer cli dryRun,
      sc_Start = StartContainer cli dryRun,
      sc_Remove = RemoveContainer cli dryRun,
      sc_Create = CreateContainer cli dryRun\<rparr>"

text \<open>The construction: the SDK's client for a host, or for what its environment names if that is empty.\<close>

definition New_client ::
  "(string option \<Rightarrow> error + 'd sdk) \<Rightarrow> string \<Rightarrow> bool \<Rightarrow> (string \<Rightarrow> string \<times> string) option \<Rightarrow> error + 'd scoped" where
  "New_client newClient host dryRun credsFor =
     (case newClient (if host \<noteq> [] then Some host else None) of
        Inl e \<Rightarrow> Inl (''dockerclient: init: '' @ e)
      | Inr cli \<Rightarrow> Inr (Client cli dryRun credsFor))"

section \<open>Recreate\<close>

definition recreate_spec :: "inspect_result \<Rightarrow> container_config \<Rightarrow> string \<Rightarrow> create_spec" where
  "recreate_spec info cfg newImageRef =
     \<lparr>sp_Name = TrimPrefix (ir_Name info) ''/'',
      sp_Config = cfg\<lparr>cc_Image := newImageRef\<rparr>,
      sp_HostConfig = ir_HostConfig info,
      sp_Networking =
        (case ir_NetworkSettings info of
           Some nets \<Rightarrow> if card (fmdom' nets) > 0 then Some nets else None
         | None \<Rightarrow> None)\<rparr>"

definition Recreate ::
  "'d scoped \<Rightarrow> string \<Rightarrow> string \<Rightarrow> 'd \<Rightarrow> (string \<times> error option) \<times> 'd" where
  "Recreate c containerID newImageRef d =
     (case sc_Inspect c containerID d of
        Inl e \<Rightarrow> (([], Some (''recreate: inspect: '' @ e)), d)
      | Inr info \<Rightarrow>
        (case ir_Config info of
           None \<Rightarrow> (([], Some (''recreate: container '' @ short containerID @ '' has no config'')), d)
         | Some cfg \<Rightarrow>
           (case sc_Pull c newImageRef d of
              (Some e, d) \<Rightarrow> (([], Some (''recreate: '' @ e)), d)
            | (None, d) \<Rightarrow>
              (case sc_Stop c containerID d of
                 (Some e, d) \<Rightarrow> (([], Some (''recreate: stop: '' @ e)), d)
               | (None, d) \<Rightarrow>
                 (case sc_Remove c containerID d of
                    (Some e, d) \<Rightarrow> (([], Some (''recreate: remove: '' @ e)), d)
                  | (None, d) \<Rightarrow>
                    (case sc_Create c (recreate_spec info cfg newImageRef) d of
                       (Inl e, d) \<Rightarrow> (([], Some (''recreate: '' @ e)), d)
                     | (Inr newID, d) \<Rightarrow>
                       (case sc_Start c newID d of
                          (Some e, d) \<Rightarrow> ((newID, Some (''recreate: start: '' @ e)), d)
                        | (None, d) \<Rightarrow> ((newID, None), d))))))))"

text \<open>The same gateway, keeping a list of the calls that change the daemon.\<close>

datatype docker_call =
    CPull string
  | CStop string
  | CRemove string
  | CCreate create_spec
  | CStart string

definition traced :: "'d scoped \<Rightarrow> ('d \<times> docker_call list) scoped" where
  "traced c =
     \<lparr>sc_List = (\<lambda>(d, tr). sc_List c d),
      sc_Inspect = (\<lambda>i (d, tr). sc_Inspect c i d),
      sc_Pull = (\<lambda>ref (d, tr). let (e, d) = sc_Pull c ref d in (e, (d, tr @ [CPull ref]))),
      sc_Stop = (\<lambda>i (d, tr). let (e, d) = sc_Stop c i d in (e, (d, tr @ [CStop i]))),
      sc_Start = (\<lambda>i (d, tr). let (e, d) = sc_Start c i d in (e, (d, tr @ [CStart i]))),
      sc_Remove = (\<lambda>i (d, tr). let (e, d) = sc_Remove c i d in (e, (d, tr @ [CRemove i]))),
      sc_Create = (\<lambda>sp (d, tr). let (r, d) = sc_Create c sp d in (r, (d, tr @ [CCreate sp])))\<rparr>"

text \<open>Tracing changes neither the result nor the daemon.\<close>

lemma traced_Recreate:
  "let (r, (d', tr')) = Recreate (traced c) i ref (d, tr) in Recreate c i ref d = (r, d')"
  by (auto simp: Recreate_def traced_def Let_def split: sum.splits option.splits prod.splits)

text \<open>The calls of one \<open>Recreate\<close>.\<close>

definition recreate_calls :: "'d scoped \<Rightarrow> string \<Rightarrow> string \<Rightarrow> 'd \<Rightarrow> docker_call list" where
  "recreate_calls c i ref d = snd (snd (Recreate (traced c) i ref (d, [])))"

lemma recreate_calls_prefix:
  "recreate_calls c i ref d = [] \<or>
   (\<exists>info cfg newID. sc_Inspect c i d = Inr info \<and> ir_Config info = Some cfg \<and>
      strict_prefix [] (recreate_calls c i ref d) \<and>
      prefix (recreate_calls c i ref d)
        [CPull ref, CStop i, CRemove i, CCreate (recreate_spec info cfg ref), CStart newID] \<and>
      (snd (fst (Recreate c i ref d)) = None \<longrightarrow>
         fst (fst (Recreate c i ref d)) = newID \<and>
         recreate_calls c i ref d =
           [CPull ref, CStop i, CRemove i, CCreate (recreate_spec info cfg ref), CStart newID]))"
  unfolding recreate_calls_def Recreate_def traced_def
  by (auto simp: Let_def split: sum.splits option.splits prod.splits)

lemma Recreate_pull_fails:
  assumes "sc_Inspect c i d = Inr info" "ir_Config info = Some cfg" "sc_Pull c ref d = (Some e, d')"
  shows "Recreate c i ref d = (([], Some (''recreate: '' @ e)), d')"
    and "recreate_calls c i ref d = [CPull ref]"
  using assms by (simp_all add: Recreate_def recreate_calls_def traced_def)

lemma Recreate_create_fails:
  assumes "sc_Inspect c i d = Inr info" "ir_Config info = Some cfg" "sc_Pull c ref d = (None, d1)"
    "sc_Stop c i d1 = (None, d2)" "sc_Remove c i d2 = (None, d3)"
    "sc_Create c (recreate_spec info cfg ref) d3 = (Inl e, d4)"
  shows "Recreate c i ref d = (([], Some (''recreate: '' @ e)), d4)"
    and "recreate_calls c i ref d =
      [CPull ref, CStop i, CRemove i, CCreate (recreate_spec info cfg ref)]"
  using assms by (simp_all add: Recreate_def recreate_calls_def traced_def)

lemma Recreate_ok:
  assumes "sc_Inspect c i d = Inr info" "ir_Config info = Some cfg" "sc_Pull c ref d = (None, d1)"
    "sc_Stop c i d1 = (None, d2)" "sc_Remove c i d2 = (None, d3)"
    "sc_Create c (recreate_spec info cfg ref) d3 = (Inr newID, d4)"
    "sc_Start c newID d4 = (None, d5)"
  shows "Recreate c i ref d = ((newID, None), d5)"
  using assms by (simp add: Recreate_def)

text \<open>An error of \<open>Recreate\<close> comes with the empty id, unless only the start failed.\<close>

lemma Recreate_error_id:
  assumes "Recreate c i ref d = ((newID, Some e), d')" "newID \<noteq> []"
  shows "\<exists>e'. e = ''recreate: start: '' @ e'"
  using assms by (auto simp: Recreate_def split: sum.splits option.splits prod.splits)

section \<open>Dry run\<close>

text \<open>A gateway none of whose calls changes the daemon.\<close>

locale read_only_docker =
  fixes c :: "'d scoped"
  assumes pull_ro: "snd (sc_Pull c ref d) = d"
    and stop_ro: "snd (sc_Stop c i d) = d"
    and start_ro: "snd (sc_Start c i d) = d"
    and remove_ro: "snd (sc_Remove c i d) = d"
    and create_ro: "snd (sc_Create c sp d) = d"
begin

lemma Recreate_ro: "snd (Recreate c i ref d) = d"
  using pull_ro [of ref d] stop_ro [of i d] remove_ro [of i d]
  by (auto simp: Recreate_def split: sum.splits option.splits prod.splits)
    (metis create_ro start_ro snd_conv)+

end

interpretation dry: read_only_docker "Client cli True credsFor" for cli credsFor
  by unfold_locales
    (simp_all add: Client_def PullImage_def StopContainer_def StartContainer_def
      RemoveContainer_def CreateContainer_def)

lemma Recreate_dry_run:
  assumes "sdk_ContainerInspect cli i d = Inr info" "ir_Config info = Some cfg"
  shows "Recreate (Client cli True credsFor) i ref d =
    ((''dry-run-'' @ TrimPrefix (ir_Name info) ''/'', None), d)"
  using assms
  by (simp add: Recreate_def Client_def PullImage_def StopContainer_def StartContainer_def
      RemoveContainer_def CreateContainer_def recreate_spec_def)

section \<open>A small daemon for examples\<close>

text \<open>Containers by id; \<open>ok = False\<close> makes every create fail.  A new id is \<open>n-\<close> and the name.\<close>

type_synonym demo_daemon = "(string, inspect_result) fmap"

definition demo_docker :: "bool \<Rightarrow> demo_daemon scoped" where
  "demo_docker ok =
     \<lparr>sc_List = (\<lambda>d. Inr []),
      sc_Inspect = (\<lambda>i d. case fmlookup d i of None \<Rightarrow> Inl ''no such container'' | Some r \<Rightarrow> Inr r),
      sc_Pull = (\<lambda>ref d. (None, d)),
      sc_Stop = (\<lambda>i d. (None, d)),
      sc_Start = (\<lambda>i d. (None, d)),
      sc_Remove = (\<lambda>i d. (None, fmdrop i d)),
      sc_Create = (\<lambda>sp d. if ok
         then (Inr (''n-'' @ sp_Name sp),
               fmupd (''n-'' @ sp_Name sp)
                 \<lparr>ir_Name = CHR ''/'' # sp_Name sp, ir_Config = Some (sp_Config sp),
                  ir_HostConfig = sp_HostConfig sp, ir_NetworkSettings = sp_Networking sp,
                  ir_State = None\<rparr> d)
         else (Inl ''conflict'', d))\<rparr>"

definition demo_container :: inspect_result where
  "demo_container =
     \<lparr>ir_Name = ''/web'', ir_Config = Some \<lparr>cc_Image = ''web:1'', cc_Labels = fmempty, cc_rest = []\<rparr>,
      ir_HostConfig = None, ir_NetworkSettings = None, ir_State = None\<rparr>"

definition demo_start :: demo_daemon where
  "demo_start = fmupd ''c1'' demo_container fmempty"

lemma demo_docker_sel [simp]:
  "sc_Pull (demo_docker ok) ref d = (None, d)" "sc_Stop (demo_docker ok) i d = (None, d)"
  "sc_Start (demo_docker ok) i d = (None, d)" "sc_Remove (demo_docker ok) i d = (None, fmdrop i d)"
  by (simp_all add: demo_docker_def)

lemma demo_Recreate:
  "Recreate (demo_docker True) ''c1'' ref demo_start =
     ((''n-web'', None),
      fmupd ''n-web'' (demo_container\<lparr>ir_Config := Some \<lparr>cc_Image = ref, cc_Labels = fmempty, cc_rest = []\<rparr>\<rparr>)
        fmempty)"
  by (simp add: Recreate_def) (simp add: demo_docker_def demo_start_def demo_container_def
      recreate_spec_def TrimPrefix_def)

section \<open>Properties\<close>

text \<open>C7: \<open>Recreate\<close> changes the daemon by a prefix of pull, stop, remove, create, start, in this
  order, on the container's own configuration with only the image replaced; it reports success
  exactly when all five calls were made and then returns the created container.  The old container
  is not touched unless the new image has been pulled.\<close>

theorem recreate_call_order:
  "\<exists>spec newID.
     prefix (recreate_calls c i ref d) [CPull ref, CStop i, CRemove i, CCreate spec, CStart newID] \<and>
     (CStop i \<in> set (recreate_calls c i ref d) \<longrightarrow> fst (sc_Pull c ref d) = None) \<and>
     (snd (fst (Recreate c i ref d)) = None \<longrightarrow>
        length (recreate_calls c i ref d) = 5 \<and> fst (fst (Recreate c i ref d)) = newID \<and>
        (\<exists>info cfg. sc_Inspect c i d = Inr info \<and> ir_Config info = Some cfg \<and>
           spec = recreate_spec info cfg ref))"
  unfolding recreate_calls_def Recreate_def traced_def
  by (auto simp: Let_def split: sum.splits option.splits prod.splits)

theorem recreate_call_order_witness:
  "length (recreate_calls (demo_docker True) ''c1'' ''web:2'' demo_start) = 5"
  using recreate_call_order [of "demo_docker True" "''c1''" "''web:2''" demo_start]
  by (auto simp: demo_Recreate)

text \<open>If the daemon refuses to create the new container, the old one is already gone: the calls
  made end with its removal and the failed creation, and nothing puts it back.\<close>

theorem recreate_failure_loses_container:
  assumes "sc_Inspect c i d = Inr info" "ir_Config info = Some cfg" "sc_Pull c ref d = (None, d1)"
    and "sc_Stop c i d1 = (None, d2)" "sc_Remove c i d2 = (None, d3)"
    and "sc_Create c (recreate_spec info cfg ref) d3 = (Inl e, d4)"
  shows "Recreate c i ref d = (([], Some (''recreate: '' @ e)), d4) \<and>
    recreate_calls c i ref d =
      [CPull ref, CStop i, CRemove i, CCreate (recreate_spec info cfg ref)]"
  using Recreate_create_fails [OF assms] by simp

theorem recreate_failure_loses_container_witness:
  "snd (Recreate (demo_docker False) ''c1'' ''web:2'' demo_start) = fmempty"
proof -
  have "sc_Inspect (demo_docker False) ''c1'' demo_start = Inr demo_container"
    "ir_Config demo_container = Some \<lparr>cc_Image = ''web:1'', cc_Labels = fmempty, cc_rest = []\<rparr>"
    "sc_Create (demo_docker False)
       (recreate_spec demo_container \<lparr>cc_Image = ''web:1'', cc_Labels = fmempty, cc_rest = []\<rparr> ''web:2'')
       (fmdrop ''c1'' demo_start) = (Inl ''conflict'', fmempty)"
    by (simp_all add: demo_docker_def demo_start_def demo_container_def)
  from recreate_failure_loses_container [OF this(1,2) demo_docker_sel(1,2,4) this(3)]
  show ?thesis by simp
qed

text \<open>In dry-run mode \<open>Recreate\<close> changes nothing in the daemon, whatever the SDK would do, and
  for a container that exists it reports success with an id the daemon has never issued.\<close>

theorem dry_run_recreate:
  "snd (Recreate (Client cli True credsFor) i ref d) = d \<and>
   (sdk_ContainerInspect cli i d = Inr info \<and> ir_Config info = Some cfg \<longrightarrow>
      fst (Recreate (Client cli True credsFor) i ref d) =
        (''dry-run-'' @ TrimPrefix (ir_Name info) ''/'', None))"
  using dry.Recreate_ro Recreate_dry_run by fastforce

definition demo_sdk :: "demo_daemon sdk" where
  "demo_sdk =
     \<lparr>sdk_ContainerList = (\<lambda>l d. Inr []),
      sdk_ContainerInspect = sc_Inspect (demo_docker True),
      sdk_ImagePull = (\<lambda>ref auth d. (Inr None, d)),
      sdk_ContainerStop = (\<lambda>i d. (None, d)),
      sdk_ContainerStart = (\<lambda>i d. (None, d)),
      sdk_ContainerRemove = (\<lambda>i d. (None, fmdrop i d)),
      sdk_ContainerCreate = sc_Create (demo_docker True)\<rparr>"

theorem dry_run_recreate_witness:
  "Recreate (Client demo_sdk True None) ''c1'' ''web:2'' demo_start = ((''dry-run-web'', None), demo_start)"
proof -
  have "sdk_ContainerInspect demo_sdk ''c1'' demo_start = Inr demo_container \<and>
    ir_Config demo_container = Some \<lparr>cc_Image = ''web:1'', cc_Labels = fmempty, cc_rest = []\<rparr>"
    by (simp add: demo_sdk_def demo_docker_def demo_start_def demo_container_def)
  with dry_run_recreate [of demo_sdk None "''c1''" "''web:2''" demo_start demo_container]
  have "fst (Recreate (Client demo_sdk True None) ''c1'' ''web:2'' demo_start) =
      (''dry-run-'' @ TrimPrefix (ir_Name demo_container) ''/'', None)"
    "snd (Recreate (Client demo_sdk True None) ''c1'' ''web:2'' demo_start) = demo_start"
    by blast+
  then show ?thesis by (simp add: prod_eq_iff demo_container_def TrimPrefix_def)
qed

end
