(* ===== verification/History.thy ===== *)
theory History
  imports Image_Ref Interfaces
begin

text \<open>
  The update history, \<open>internal/history/history.go\<close>: one SQLite table.  A row is a record with
  the table's columns, \<open>None\<close> for SQL's NULL; \<open>hs_columns\<close> are the columns the table has, so
  that \<open>runMigrations\<close> can add the later ones; \<open>hs_seq\<close> is the AUTOINCREMENT counter.  Every
  statement may fail in the database: \<open>hs_faults\<close> scripts the outcome of the statements to
  come, and an exhausted script means no further failure.  A statement that names a missing
  column fails as well.  Times are columns of text; \<open>time_text\<close> is the text the driver gives back
  for a stored time and \<open>time_parse\<close> is Go's \<open>time.Parse\<close>, both arguments of the model.
\<close>

section \<open>Times\<close>

definition zero_time :: time where
  "zero_time = - 62135596800 * second_ns"

record time_io =
  time_text :: "time \<Rightarrow> string"
  time_parse :: "string \<Rightarrow> string \<Rightarrow> time option"

definition time_layouts :: "string list" where
  "time_layouts =
     [''2006-01-02T15:04:05.999999999Z07:00'',
      ''2006-01-02T15:04:05Z07:00'',
      ''2006-01-02T15:04:05Z'',
      ''2006-01-02 15:04:05.999999999 -0700 MST'',
      ''2006-01-02 15:04:05 +0000 UTC'',
      ''2006-01-02 15:04:05+00:00'',
      ''2006-01-02 15:04:05'']"

fun parse_layouts :: "time_io \<Rightarrow> string list \<Rightarrow> string \<Rightarrow> time" where
  "parse_layouts io [] s = zero_time"
| "parse_layouts io (layout # layouts) s =
     (case time_parse io layout s of Some t \<Rightarrow> t | None \<Rightarrow> parse_layouts io layouts s)"

definition parseTime :: "time_io \<Rightarrow> string \<Rightarrow> time" where
  "parseTime io s = parse_layouts io time_layouts s"

text \<open>The difference of two times is a \<open>Duration\<close>, a 64-bit number of nanoseconds: \<open>Time.Sub\<close> returns the largest or
  smallest one when the difference is beyond it.  \<open>Duration.Milliseconds\<close> truncates toward zero.\<close>

definition time_Sub :: "time \<Rightarrow> time \<Rightarrow> int" where
  "time_Sub t u = max (- (2 ^ 63)) (min (2 ^ 63 - 1) (t - u))"

definition Milliseconds :: "int \<Rightarrow> int" where
  "Milliseconds d = sgn d * (\<bar>d\<bar> div 1000000)"

section \<open>The table\<close>

record row =
  r_id :: nat
  r_app_name :: string
  r_service :: string
  r_old_image :: string
  r_new_image :: string
  r_backup_path :: string
  r_created_at :: string
  r_status :: string
  r_trigger_source :: string
  r_image_tag :: string
  r_deploy_id :: "string option"
  r_duration_ms :: "int option"
  r_ended_at :: "string option"
  r_reason :: "string option"

record hist_entry =
  he_ID :: nat
  he_AppName :: string
  he_Service :: string
  he_OldImage :: string
  he_NewImage :: string
  he_ImageTag :: string
  he_BackupPath :: string
  he_DeployID :: string
  he_TriggerSource :: string
  he_Status :: string
  he_Reason :: string
  he_DurationMs :: "int option"
  he_StartedAt :: time
  he_EndedAt :: "time option"
  he_CreatedAt :: time

record hist =
  hs_columns :: "string list"
  hs_rows :: "row list"
  hs_seq :: nat
  hs_histDir :: string
  hs_faults :: "error option list"

definition baseColumns :: "string list" where
  "baseColumns = [''id'', ''app_name'', ''service'', ''old_image'', ''new_image'', ''backup_path'',
     ''created_at'']"

definition migrations :: "string list" where
  "migrations = [''status'', ''trigger_source'', ''image_tag'', ''deploy_id'', ''duration_ms'',
     ''ended_at'', ''reason'']"

text \<open>A statement: the database may fail, then the columns it names must exist.\<close>

definition statement :: "string list \<Rightarrow> hist \<Rightarrow> error option \<times> hist" where
  "statement cols h =
     (case hs_faults h of
        Some e # fs \<Rightarrow> (Some e, h\<lparr>hs_faults := fs\<rparr>)
      | fs \<Rightarrow>
          (if list_all (\<lambda>c. c \<in> set (hs_columns h)) cols then None else Some ''no such column'',
           h\<lparr>hs_faults := tl fs\<rparr>))"

definition selectCols :: "string list" where
  "selectCols = baseColumns @ migrations"

text \<open>The default an added column gets in the rows that exist.\<close>

definition column_default :: "string \<Rightarrow> row \<Rightarrow> row" where
  "column_default col r =
     (if col = ''status'' then r\<lparr>r_status := ''success''\<rparr>
      else if col = ''trigger_source'' then r\<lparr>r_trigger_source := ''webhook''\<rparr>
      else if col = ''image_tag'' then r\<lparr>r_image_tag := []\<rparr>
      else if col = ''deploy_id'' then r\<lparr>r_deploy_id := None\<rparr>
      else if col = ''duration_ms'' then r\<lparr>r_duration_ms := None\<rparr>
      else if col = ''ended_at'' then r\<lparr>r_ended_at := None\<rparr>
      else if col = ''reason'' then r\<lparr>r_reason := None\<rparr>
      else r)"

definition alter_add :: "string \<Rightarrow> hist \<Rightarrow> error option \<times> hist" where
  "alter_add col h =
     (case statement [] h of
        (Some e, h) \<Rightarrow> (Some e, h)
      | (None, h) \<Rightarrow>
          if col \<in> set (hs_columns h) then (Some ''duplicate column name'', h)
          else (None, h\<lparr>hs_columns := hs_columns h @ [col],
                       hs_rows := List.map (column_default col) (hs_rows h)\<rparr>))"

section \<open>Opening\<close>

definition columnNames :: "hist \<Rightarrow> (error + string list) \<times> hist" where
  "columnNames h =
     (case statement [] h of
        (Some e, h) \<Rightarrow> (Inl e, h)
      | (None, h) \<Rightarrow> (Inr (hs_columns h), h))"

fun migrate_loop :: "string list \<Rightarrow> string list \<Rightarrow> hist \<Rightarrow> error option \<times> hist" where
  "migrate_loop existing [] h = (None, h)"
| "migrate_loop existing (col # cols) h =
     (if col \<in> set existing then migrate_loop existing cols h
      else case alter_add col h of
             (Some e, h) \<Rightarrow> (Some (''alter column '' @ [CHR 0x22] @ col @ [CHR 0x22] @ '': '' @ e), h)
           | (None, h) \<Rightarrow> migrate_loop existing cols h)"

definition runMigrations :: "hist \<Rightarrow> error option \<times> hist" where
  "runMigrations h =
     (case columnNames h of
        (Inl e, h) \<Rightarrow> (Some e, h)
      | (Inr existing, h) \<Rightarrow>
          (case migrate_loop existing migrations h of
             (Some e, h) \<Rightarrow> (Some e, h)
           | (None, h) \<Rightarrow>
               (case statement [''status''] h of
                  (Some e, h) \<Rightarrow> (Some e, h)
                | (None, h) \<Rightarrow> statement [''deploy_id''] h)))"

text \<open>The schema statement creates the table when there is none: a table without columns.\<close>

definition New_history :: "hist \<Rightarrow> error option \<times> hist" where
  "New_history h =
     (case statement [] h of
        (Some e, h) \<Rightarrow> (Some (''history: apply schema: '' @ e), h)
      | (None, h) \<Rightarrow>
          let h = (if hs_columns h = [] then h\<lparr>hs_columns := baseColumns, hs_rows := []\<rparr> else h)
          in case runMigrations h of
               (Some e, h) \<Rightarrow> (Some (''history: migrate: '' @ e), h)
             | (None, h) \<Rightarrow> (None, h))"

section \<open>Writing\<close>

definition nullString :: "string \<Rightarrow> string option" where
  "nullString s = (if s = [] then None else Some s)"

text \<open>An insert takes the next id.\<close>

definition insert_row :: "(nat \<Rightarrow> row) \<Rightarrow> hist \<Rightarrow> hist" where
  "insert_row mk h = h\<lparr>hs_rows := hs_rows h @ [mk (Suc (hs_seq h))], hs_seq := Suc (hs_seq h)\<rparr>"

definition RecordDeploy :: "time_io \<Rightarrow> time \<Rightarrow> hist_entry \<Rightarrow> hist \<Rightarrow> (error + nat) \<times> hist" where
  "RecordDeploy io now e h =
     (let startedAt = (if he_StartedAt e = zero_time then now else he_StartedAt e) in
      case statement [''app_name'', ''service'', ''old_image'', ''new_image'', ''backup_path'',
             ''created_at'', ''status'', ''trigger_source'', ''image_tag'', ''deploy_id''] h of
        (Some er, h) \<Rightarrow> (Inl (''history: record deploy: '' @ er), h)
      | (None, h) \<Rightarrow>
          let h = insert_row (\<lambda>i. \<lparr>r_id = i, r_app_name = he_AppName e, r_service = he_Service e,
                r_old_image = he_OldImage e, r_new_image = he_NewImage e,
                r_backup_path = he_BackupPath e, r_created_at = time_text io startedAt,
                r_status = he_Status e, r_trigger_source = he_TriggerSource e,
                r_image_tag = he_ImageTag e, r_deploy_id = nullString (he_DeployID e),
                r_duration_ms = None, r_ended_at = None, r_reason = None\<rparr>) h
          in (Inr (hs_seq h), h))"

definition FinishDeploy ::
  "time_io \<Rightarrow> string \<Rightarrow> string \<Rightarrow> time \<Rightarrow> hist \<Rightarrow> error option \<times> hist" where
  "FinishDeploy io deployID status endedAt h =
     (case statement [''created_at'', ''deploy_id''] h of
        (Some e, h) \<Rightarrow> (Some (''history: finish deploy: fetch started_at: '' @ e), h)
      | (None, h) \<Rightarrow>
        (case find (\<lambda>r. r_deploy_id r = Some deployID) (hs_rows h) of
           None \<Rightarrow>
             (Some (''history: finish deploy: fetch started_at: '' @ ''sql: no rows in result set''), h)
         | Some r0 \<Rightarrow>
             let startedAt = parseTime io (r_created_at r0);
                 durationMs = Milliseconds (time_Sub endedAt startedAt)
             in case statement [''status'', ''ended_at'', ''duration_ms'', ''deploy_id''] h of
                  (Some e, h) \<Rightarrow> (Some (''history: finish deploy: '' @ e), h)
                | (None, h) \<Rightarrow>
                    (None, h\<lparr>hs_rows := List.map (\<lambda>r. if r_deploy_id r = Some deployID
                       then r\<lparr>r_status := status, r_ended_at := Some (time_text io endedAt),
                              r_duration_ms := Some durationMs\<rparr>
                       else r) (hs_rows h)\<rparr>)))"

definition RecordSkipped ::
  "time_io \<Rightarrow> time \<Rightarrow> string \<Rightarrow> string \<Rightarrow> string \<Rightarrow> hist \<Rightarrow> error option \<times> hist" where
  "RecordSkipped io now service img reason h =
     (case statement [''app_name'', ''service'', ''old_image'', ''new_image'', ''backup_path'',
             ''created_at'', ''status'', ''trigger_source'', ''image_tag'', ''duration_ms'',
             ''ended_at'', ''reason''] h of
        (Some e, h) \<Rightarrow> (Some (''history: record skipped: '' @ e), h)
      | (None, h) \<Rightarrow>
          (None, insert_row (\<lambda>i. \<lparr>r_id = i, r_app_name = service, r_service = service,
             r_old_image = [], r_new_image = img, r_backup_path = [],
             r_created_at = time_text io now, r_status = ''skipped'',
             r_trigger_source = ''webhook'', r_image_tag = parseImageTag img, r_deploy_id = None,
             r_duration_ms = Some 0, r_ended_at = Some (time_text io now),
             r_reason = Some reason\<rparr>) h))"

section \<open>Reading\<close>

definition String_of :: "string option \<Rightarrow> string" where
  "String_of v = (case v of Some s \<Rightarrow> s | None \<Rightarrow> [])"

definition scanRow :: "time_io \<Rightarrow> row \<Rightarrow> hist_entry" where
  "scanRow io r =
     \<lparr>he_ID = r_id r, he_AppName = r_app_name r, he_Service = r_service r,
      he_OldImage = r_old_image r, he_NewImage = r_new_image r, he_ImageTag = r_image_tag r,
      he_BackupPath = r_backup_path r, he_DeployID = String_of (r_deploy_id r),
      he_TriggerSource = r_trigger_source r, he_Status = r_status r,
      he_Reason = String_of (r_reason r), he_DurationMs = r_duration_ms r,
      he_StartedAt = parseTime io (r_created_at r),
      he_EndedAt = (case r_ended_at r of
          Some s \<Rightarrow> if s \<noteq> [] then Some (parseTime io s) else None
        | None \<Rightarrow> None),
      he_CreatedAt = parseTime io (r_created_at r)\<rparr>"

definition scanRows :: "time_io \<Rightarrow> row list \<Rightarrow> hist_entry list" where
  "scanRows io rows = List.map (scanRow io) rows"

text \<open>\<open>ORDER BY id DESC\<close>; a negative OFFSET counts as 0.\<close>

definition newest_first :: "row list \<Rightarrow> row list" where
  "newest_first rows = rev (sort_key r_id rows)"

definition matching :: "string \<Rightarrow> row list \<Rightarrow> row list" where
  "matching service rows = filter (\<lambda>r. service = [] \<or> r_service r = service) rows"

definition List_history ::
  "time_io \<Rightarrow> string \<Rightarrow> int \<Rightarrow> int \<Rightarrow> hist \<Rightarrow> (error + hist_entry list) \<times> hist" where
  "List_history io service limit offset h =
     (let limit = (if limit \<le> 0 then 50 else limit) in
      case statement selectCols h of
        (Some e, h) \<Rightarrow> (Inl (''history: list: '' @ e), h)
      | (None, h) \<Rightarrow>
          (Inr (scanRows io (take (nat limit) (drop (nat offset)
             (newest_first (matching service (hs_rows h)))))), h))"

definition Count :: "string \<Rightarrow> hist \<Rightarrow> (error + nat) \<times> hist" where
  "Count service h =
     (case statement (if service \<noteq> [] then [''service''] else []) h of
        (Some e, h) \<Rightarrow> (Inl (''history: count: '' @ e), h)
      | (None, h) \<Rightarrow> (Inr (length (matching service (hs_rows h))), h))"

definition no_rows :: error where
  "no_rows = ''history: scan: sql: no rows in result set''"

definition Get_history :: "time_io \<Rightarrow> nat \<Rightarrow> hist \<Rightarrow> (error + hist_entry) \<times> hist" where
  "Get_history io i h =
     (case statement selectCols h of
        (Some e, h) \<Rightarrow> (Inl (''history: scan: '' @ e), h)
      | (None, h) \<Rightarrow>
          (case find (\<lambda>r. r_id r = i) (hs_rows h) of
             None \<Rightarrow> Inl no_rows
           | Some r \<Rightarrow> Inr (scanRow io r), h))"

definition Latest :: "time_io \<Rightarrow> string \<Rightarrow> hist \<Rightarrow> (error + hist_entry) \<times> hist" where
  "Latest io service h =
     (case statement selectCols h of
        (Some e, h) \<Rightarrow> (Inl (''history: scan: '' @ e), h)
      | (None, h) \<Rightarrow>
          (case newest_first (filter (\<lambda>r. r_service r = service) (hs_rows h)) of
             [] \<Rightarrow> Inl no_rows
           | r # _ \<Rightarrow> Inr (scanRow io r), h))"

section \<open>Statements\<close>

lemma statement_frame: "snd (statement cols h) = h\<lparr>hs_faults := tl (hs_faults h)\<rparr>"
  by (auto simp: statement_def split: list.splits option.splits)

lemma statementD: "statement cols h = (r, h') \<Longrightarrow> h' = h\<lparr>hs_faults := tl (hs_faults h)\<rparr>"
  using statement_frame [of cols h] by simp

lemma statement_ok:
  "hs_faults h = [] \<Longrightarrow> set cols \<subseteq> set (hs_columns h) \<Longrightarrow> statement cols h = (None, h)"
  by (cases h) (auto simp: statement_def list_all_iff)

lemma statement_fault:
  "hs_faults h = Some e # fs \<Longrightarrow> statement cols h = (Some e, h\<lparr>hs_faults := fs\<rparr>)"
  by (simp add: statement_def)

section \<open>Invariant\<close>

text \<open>All columns are there, and ids grow along the table, up to the counter.\<close>

definition hist_inv :: "hist \<Rightarrow> bool" where
  "hist_inv h \<longleftrightarrow> set selectCols \<subseteq> set (hs_columns h) \<and>
     sorted_wrt (<) (List.map r_id (hs_rows h)) \<and> (\<forall>r \<in> set (hs_rows h). r_id r \<le> hs_seq h)"

lemma hist_inv_faults [simp]: "hist_inv (h\<lparr>hs_faults := fs\<rparr>) = hist_inv h"
  by (simp add: hist_inv_def)

lemma insert_row_inv:
  "hist_inv h \<Longrightarrow> (\<And>i. r_id (mk i) = i) \<Longrightarrow> hist_inv (insert_row mk h)"
  by (auto simp: hist_inv_def insert_row_def sorted_wrt_append less_Suc_eq_le le_Suc_eq)

lemma map_rows_inv:
  assumes "hist_inv h" "\<And>r. r_id (f r) = r_id r"
  shows "hist_inv (h\<lparr>hs_rows := List.map f (hs_rows h)\<rparr>)"
proof -
  have "List.map r_id (List.map f rs) = List.map r_id rs" for rs by (simp add: assms(2))
  with assms show ?thesis by (auto simp: hist_inv_def simp del: map_map)
qed

lemma RecordDeploy_inv: "hist_inv h \<Longrightarrow> hist_inv (snd (RecordDeploy io now e h))"
  by (auto simp: RecordDeploy_def Let_def insert_row_inv dest!: statementD
      split: option.splits prod.splits)

lemma RecordSkipped_inv: "hist_inv h \<Longrightarrow> hist_inv (snd (RecordSkipped io now sv img rs h))"
  by (auto simp: RecordSkipped_def insert_row_inv dest!: statementD
      split: option.splits prod.splits)

lemma FinishDeploy_inv: "hist_inv h \<Longrightarrow> hist_inv (snd (FinishDeploy io i st t h))"
  by (auto simp: FinishDeploy_def Let_def dest!: statementD
      split: option.splits prod.splits intro!: map_rows_inv)

datatype hist_op =
    DoRecord time hist_entry
  | DoFinish string string time
  | DoSkip time string string string

fun hist_step :: "time_io \<Rightarrow> hist \<Rightarrow> hist_op \<Rightarrow> panic + hist" where
  "hist_step io h (DoRecord now e) = Inr (snd (RecordDeploy io now e h))"
| "hist_step io h (DoFinish i st t) = Inr (snd (FinishDeploy io i st t h))"
| "hist_step io h (DoSkip now sv img rs) = Inr (snd (RecordSkipped io now sv img rs h))"

interpretation hist_ops: safe_machine "hist_step io" hist_inv for io
proof
  fix s e assume "hist_inv s"
  then show "\<exists>s'. hist_step io s e = Inr s' \<and> hist_inv s'"
    by (cases e) (auto simp: RecordDeploy_inv FinishDeploy_inv RecordSkipped_inv)
qed

section \<open>Reading a well-formed table\<close>

lemma sorted_by_id:
  assumes "sorted_wrt (<) (List.map r_id rs)"
  shows "newest_first rs = rev rs"
proof -
  have "sorted (List.map r_id rs)" using assms strict_sorted_imp_sorted by blast
  then show ?thesis by (simp add: newest_first_def sorted_sort_id sort_key_id_if_sorted)
qed

lemma matching_sorted:
  "sorted_wrt (<) (List.map r_id rs) \<Longrightarrow> sorted_wrt (<) (List.map r_id (filter P rs))"
  by (induction rs) auto

lemma newest_first_inv:
  "hist_inv h \<Longrightarrow> newest_first (filter P (hs_rows h)) = rev (filter P (hs_rows h))"
  by (rule sorted_by_id) (simp add: hist_inv_def matching_sorted)

lemma scanRow_ID: "List.map he_ID (scanRows io rs) = List.map r_id rs"
  by (simp add: scanRows_def scanRow_def)

lemma selectCols_ok: "hist_inv h \<Longrightarrow> set cols \<subseteq> set selectCols \<Longrightarrow> set cols \<subseteq> set (hs_columns h)"
  by (auto simp: hist_inv_def)

lemma List_ok:
  assumes "hist_inv h" "hs_faults h = []"
  shows "List_history io sv l off h =
    (Inr (scanRows io (take (nat (if l \<le> 0 then 50 else l)) (drop (nat off)
       (rev (matching sv (hs_rows h)))))), h)"
  using assms newest_first_inv [OF assms(1)]
  by (simp add: List_history_def Let_def statement_ok selectCols_ok matching_def)

lemma Count_ok:
  assumes "hist_inv h" "hs_faults h = []"
  shows "Count sv h = (Inr (length (matching sv (hs_rows h))), h)"
proof -
  have "set (if sv \<noteq> [] then [''service''] else []) \<subseteq> set (hs_columns h)"
    by (rule selectCols_ok [OF assms(1)]) (auto simp: selectCols_def baseColumns_def)
  then show ?thesis using assms(2) by (simp add: Count_def statement_ok)
qed

section \<open>Migrations\<close>

lemma alter_add_ok:
  assumes "hs_faults h = []" "col \<notin> set (hs_columns h)"
  shows "alter_add col h = (None, h\<lparr>hs_columns := hs_columns h @ [col],
    hs_rows := List.map (column_default col) (hs_rows h)\<rparr>)"
  using assms by (simp add: alter_add_def statement_ok)

lemma migrate_loop_ok:
  assumes "hs_faults h = []" "distinct cols" "set (hs_columns h) \<inter> set cols \<subseteq> set existing"
  shows "migrate_loop existing cols h =
    (None, h\<lparr>hs_columns := hs_columns h @ filter (\<lambda>c. c \<notin> set existing) cols,
       hs_rows := List.map (fold column_default (filter (\<lambda>c. c \<notin> set existing) cols)) (hs_rows h)\<rparr>)"
  using assms
proof (induction cols arbitrary: h)
  case (Cons col cols)
  show ?case
  proof (cases "col \<in> set existing")
    case True
    with Cons show ?thesis by auto
  next
    case False
    let ?h = "h\<lparr>hs_columns := hs_columns h @ [col], hs_rows := List.map (column_default col) (hs_rows h)\<rparr>"
    have "col \<notin> set (hs_columns h)" using Cons.prems(3) False by auto
    then have "alter_add col h = (None, ?h)" using Cons.prems(1) by (simp add: alter_add_ok)
    moreover have "migrate_loop existing cols ?h =
      (None, ?h\<lparr>hs_columns := hs_columns ?h @ filter (\<lambda>c. c \<notin> set existing) cols,
         hs_rows := List.map (fold column_default (filter (\<lambda>c. c \<notin> set existing) cols)) (hs_rows ?h)\<rparr>)"
      using Cons.prems by (intro Cons.IH) auto
    ultimately show ?thesis using False by (simp add: comp_def)
  qed
qed simp

lemma distinct_migrations: "distinct migrations"
  by (simp add: migrations_def)

text \<open>The columns a table lacks, and the table with them.\<close>

definition missing_columns :: "hist \<Rightarrow> string list" where
  "missing_columns h = filter (\<lambda>c. c \<notin> set (hs_columns h)) migrations"

definition migrated :: "hist \<Rightarrow> hist" where
  "migrated h = h\<lparr>hs_columns := hs_columns h @ missing_columns h,
     hs_rows := List.map (fold column_default (missing_columns h)) (hs_rows h)\<rparr>"

lemma migrated_columns: "set (hs_columns (migrated h)) = set (hs_columns h) \<union> set migrations"
  by (auto simp: migrated_def missing_columns_def)

lemma runMigrations_ok:
  assumes "hs_faults h = []"
  shows "runMigrations h = (None, migrated h)"
proof -
  have "columnNames h = (Inr (hs_columns h), h)" using assms by (simp add: columnNames_def statement_ok)
  moreover have "migrate_loop (hs_columns h) migrations h = (None, migrated h)"
    using migrate_loop_ok [OF assms distinct_migrations, of "hs_columns h"]
    by (simp add: migrated_def missing_columns_def)
  moreover have "statement [c] (migrated h) = (None, migrated h)" if "c \<in> set migrations" for c
    using that by (intro statement_ok) (simp_all add: assms migrated_columns, simp add: migrated_def assms)
  ultimately show ?thesis by (simp add: runMigrations_def) (simp add: migrations_def)
qed

lemma missing_migrated: "missing_columns (migrated h) = []"
  by (simp add: missing_columns_def migrated_columns)

lemma migrated_idem: "migrated (migrated h) = migrated h"
  unfolding migrated_def [of "migrated h"] missing_migrated by simp

lemma column_default_base:
  "r_id (column_default c r) = r_id r \<and> r_service (column_default c r) = r_service r \<and>
   r_new_image (column_default c r) = r_new_image r \<and> r_old_image (column_default c r) = r_old_image r \<and>
   r_created_at (column_default c r) = r_created_at r"
  by (simp add: column_default_def)

lemma fold_column_default_id: "r_id (fold column_default cs r) = r_id r"
  by (induction cs arbitrary: r) (auto simp: column_default_base)

lemma New_history_ok:
  assumes "hs_faults h = []" "hs_columns h \<noteq> []"
  shows "New_history h = (None, migrated h)"
  using assms by (simp add: New_history_def statement_ok Let_def runMigrations_ok)

lemma migrated_inv:
  assumes "sorted_wrt (<) (List.map r_id (hs_rows h))" "\<forall>r \<in> set (hs_rows h). r_id r \<le> hs_seq h"
    "set baseColumns \<subseteq> set (hs_columns h)"
  shows "hist_inv (migrated h)"
proof -
  have "List.map r_id (List.map (fold column_default cs) rs) = List.map r_id rs" for cs rs
    by (simp add: fold_column_default_id)
  with assms show ?thesis
    unfolding hist_inv_def migrated_columns
    by (auto simp: migrated_def selectCols_def fold_column_default_id simp del: map_map)
qed

section \<open>One deploy\<close>

text \<open>What the driver and \<open>time.Parse\<close> promise of a time, one whose year has four digits and whose zone is UTC:
  the text that is stored is read back as the time it was.\<close>

definition reads_back :: "time_io \<Rightarrow> time \<Rightarrow> bool" where
  "reads_back io t \<longleftrightarrow> time_text io t \<noteq> [] \<and> time_parse io (hd time_layouts) (time_text io t) = Some t"

lemma parseTime_reads_back: "reads_back io t \<Longrightarrow> parseTime io (time_text io t) = t"
  by (simp add: reads_back_def parseTime_def time_layouts_def)

lemma deploy_columns:
  assumes "hist_inv h"
  shows "set [''app_name'', ''service'', ''old_image'', ''new_image'', ''backup_path'',
             ''created_at'', ''status'', ''trigger_source'', ''image_tag'', ''deploy_id'']
       \<subseteq> set (hs_columns h)"
    and "set [''created_at'', ''deploy_id''] \<subseteq> set (hs_columns h)"
    and "set [''status'', ''ended_at'', ''duration_ms'', ''deploy_id''] \<subseteq> set (hs_columns h)"
  by (rule selectCols_ok [OF assms]; simp add: selectCols_def baseColumns_def migrations_def)+

definition deploy_row :: "time_io \<Rightarrow> time \<Rightarrow> hist_entry \<Rightarrow> nat \<Rightarrow> row" where
  "deploy_row io startedAt e i =
     \<lparr>r_id = i, r_app_name = he_AppName e, r_service = he_Service e, r_old_image = he_OldImage e,
      r_new_image = he_NewImage e, r_backup_path = he_BackupPath e,
      r_created_at = time_text io startedAt, r_status = he_Status e,
      r_trigger_source = he_TriggerSource e, r_image_tag = he_ImageTag e,
      r_deploy_id = nullString (he_DeployID e), r_duration_ms = None, r_ended_at = None,
      r_reason = None\<rparr>"

lemma RecordDeploy_ok:
  assumes "hist_inv h" "hs_faults h = []" "he_StartedAt e \<noteq> zero_time"
  shows "RecordDeploy io now e h =
    (Inr (Suc (hs_seq h)), insert_row (deploy_row io (he_StartedAt e) e) h)"
  using assms
  by (simp add: RecordDeploy_def statement_ok [OF assms(2) deploy_columns(1) [OF assms(1)]] Let_def
      insert_row_def deploy_row_def)

definition finish_row :: "time_io \<Rightarrow> string \<Rightarrow> time \<Rightarrow> row \<Rightarrow> row" where
  "finish_row io status endedAt r =
     r\<lparr>r_status := status, r_ended_at := Some (time_text io endedAt),
       r_duration_ms := Some (Milliseconds (time_Sub endedAt (parseTime io (r_created_at r))))\<rparr>"

lemma FinishDeploy_ok:
  assumes "hist_inv h" "hs_faults h = []" "hs_rows h = xs @ r # ys" "r_deploy_id r = Some i"
    "\<forall>q \<in> set (xs @ ys). r_deploy_id q \<noteq> Some i"
  shows "FinishDeploy io i st t h =
    (None, h\<lparr>hs_rows := xs @ finish_row io st t r # ys\<rparr>)"
proof -
  have f: "find (\<lambda>r. r_deploy_id r = Some i) (xs @ r # ys) = Some r"
    using assms(4,5) by (induction xs) auto
  have m: "List.map (\<lambda>r. if r_deploy_id r = Some i then g r else r) zs = zs"
    if "\<forall>q \<in> set zs. r_deploy_id q \<noteq> Some i" for g zs
    using that by (induction zs) auto
  from assms(5) have "\<forall>q \<in> set xs. r_deploy_id q \<noteq> Some i" "\<forall>q \<in> set ys. r_deploy_id q \<noteq> Some i"
    by auto
  with assms(3,4) f show ?thesis
    by (simp add: FinishDeploy_def statement_ok [OF assms(2) deploy_columns(2) [OF assms(1)]]
        statement_ok [OF assms(2) deploy_columns(3) [OF assms(1)]] Let_def m finish_row_def)
qed

lemma find_append_new:
  "\<forall>x \<in> set xs. \<not> P x \<Longrightarrow> P y \<Longrightarrow> find P (xs @ [y]) = Some y"
  by (induction xs) auto

lemma scan_finished:
  assumes "reads_back io (he_StartedAt e)" "reads_back io t" "he_DeployID e \<noteq> []" "he_Reason e = []"
  shows "scanRow io (finish_row io st t (deploy_row io (he_StartedAt e) e i)) =
    e\<lparr>he_ID := i, he_Status := st, he_DurationMs := Some (Milliseconds (time_Sub t (he_StartedAt e))),
      he_EndedAt := Some t, he_CreatedAt := he_StartedAt e\<rparr>"
  using assms parseTime_reads_back [OF assms(1)] parseTime_reads_back [OF assms(2)]
  by (cases e) (simp add: scanRow_def finish_row_def deploy_row_def nullString_def String_of_def
      reads_back_def)

section \<open>Properties\<close>

text \<open>C26: A deploy that is recorded and finished is one new row at the top of its service's history:
  it reads back as the entry that was recorded with the final status, the end time and the
  milliseconds between start and end (of the longest \<open>Duration\<close> if they are more than 292 years apart), and all earlier
  rows are as before.  The two times need to be ones that the database and the parser give back.\<close>

theorem deploy_recorded_and_finished:
  fixes st :: string and t :: time
  assumes "hist_inv h" and "hs_faults h = []" and "reads_back io (he_StartedAt e)" and "reads_back io t"
    and "he_DeployID e \<noteq> []" and "\<forall>r \<in> set (hs_rows h). r_deploy_id r \<noteq> Some (he_DeployID e)"
    and "he_StartedAt e \<noteq> zero_time" and "he_Reason e = []"
  defines "e' \<equiv> e\<lparr>he_ID := Suc (hs_seq h), he_Status := st,
      he_DurationMs := Some (Milliseconds (time_Sub t (he_StartedAt e))), he_EndedAt := Some t,
      he_CreatedAt := he_StartedAt e\<rparr>"
  shows "\<exists>h1 h2. RecordDeploy io now e h = (Inr (Suc (hs_seq h)), h1) \<and>
    FinishDeploy io (he_DeployID e) st t h1 = (None, h2) \<and> hist_inv h2 \<and>
    Latest io (he_Service e) h2 = (Inr e', h2) \<and> Get_history io (Suc (hs_seq h)) h2 = (Inr e', h2) \<and>
    butlast (hs_rows h2) = hs_rows h"
proof -
  let ?r = "deploy_row io (he_StartedAt e) e (Suc (hs_seq h))"
  let ?q = "finish_row io st t ?r"
  define h1 where "h1 = insert_row (deploy_row io (he_StartedAt e) e) h"
  define h2 where "h2 = h1\<lparr>hs_rows := hs_rows h @ [?q]\<rparr>"
  have rec: "RecordDeploy io now e h = (Inr (Suc (hs_seq h)), h1)"
    using RecordDeploy_ok [OF assms(1,2,7)] by (simp add: h1_def)
  have h1: "hist_inv h1" "hs_faults h1 = []" "hs_rows h1 = hs_rows h @ ?r # []"
    using assms(1,2) by (simp_all add: h1_def insert_row_inv deploy_row_def) (simp_all add: insert_row_def deploy_row_def)
  have fin: "FinishDeploy io (he_DeployID e) st t h1 = (None, h2)"
    using FinishDeploy_ok [OF h1(1,2,3), of "he_DeployID e"] assms(5,6)
    by (simp add: h2_def deploy_row_def nullString_def)
  have inv: "hist_inv h2" using FinishDeploy_inv [OF h1(1)] fin by (metis snd_conv)
  have h2: "hs_faults h2 = []" "hs_rows h2 = hs_rows h @ [?q]" by (simp_all add: h2_def h1(2))
  have scan: "scanRow io ?q = e'" unfolding e'_def by (rule scan_finished [OF assms(3,4,5,8)])
  have id: "r_id ?q = Suc (hs_seq h)" "r_service ?q = he_Service e"
    by (simp_all add: finish_row_def deploy_row_def)
  have st: "statement selectCols h2 = (None, h2)"
    using inv h2(1) by (simp add: statement_ok selectCols_ok)
  have "\<forall>r \<in> set (hs_rows h). r_id r \<noteq> Suc (hs_seq h)"
    using assms(1) by (auto simp: hist_inv_def)
  then have "find (\<lambda>r. r_id r = Suc (hs_seq h)) (hs_rows h2) = Some ?q"
    unfolding h2(2) using id(1) by (intro find_append_new) auto
  then have get: "Get_history io (Suc (hs_seq h)) h2 = (Inr e', h2)"
    by (simp add: Get_history_def st scan)
  have "newest_first (filter (\<lambda>r. r_service r = he_Service e) (hs_rows h2)) =
      ?q # rev (filter (\<lambda>r. r_service r = he_Service e) (hs_rows h))"
    unfolding newest_first_inv [OF inv] using id(2) by (simp add: h2(2))
  then have "Latest io (he_Service e) h2 = (Inr e', h2)"
    by (simp add: Latest_def st scan)
  with rec fin inv get h2(2) show ?thesis by auto
qed

text \<open>A clock whose times are written in unary, for the examples.\<close>

definition demo_io :: time_io where
  "demo_io = \<lparr>time_text = (\<lambda>t. (if t < 0 then CHR ''-'' else CHR ''+'') # replicate (nat \<bar>t\<bar>) CHR ''1''),
     time_parse = (\<lambda>layout s. Some ((if hd s = CHR ''-'' then - 1 else 1) * int (length (tl s))))\<rparr>"

lemma demo_io_reads_back: "reads_back demo_io t"
  by (simp add: reads_back_def demo_io_def)

definition demo_hist :: hist where
  "demo_hist = \<lparr>hs_columns = selectCols, hs_rows = [], hs_seq = 0, hs_histDir = ''/hist'', hs_faults = []\<rparr>"

lemma demo_hist_inv: "hist_inv demo_hist"
  by (simp add: hist_inv_def demo_hist_def)

definition demo_entry :: hist_entry where
  "demo_entry = \<lparr>he_ID = 0, he_AppName = ''web'', he_Service = ''web'', he_OldImage = ''web:1'',
     he_NewImage = ''web:2'', he_ImageTag = ''2'', he_BackupPath = [], he_DeployID = ''d1'',
     he_TriggerSource = ''poll'', he_Status = ''running'', he_Reason = [], he_DurationMs = None,
     he_StartedAt = 5, he_EndedAt = None, he_CreatedAt = 0\<rparr>"

theorem deploy_recorded_and_finished_witness:
  "\<exists>h1 h2 e'. RecordDeploy demo_io 0 demo_entry demo_hist = (Inr 1, h1) \<and>
     FinishDeploy demo_io ''d1'' ''success'' 7000005 h1 = (None, h2) \<and>
     Latest demo_io ''web'' h2 = (Inr e', h2) \<and> he_DurationMs e' = Some 7"
proof -
  have "he_DeployID demo_entry \<noteq> []" "\<forall>r \<in> set (hs_rows demo_hist). r_deploy_id r \<noteq> Some (he_DeployID demo_entry)"
    "he_StartedAt demo_entry \<noteq> zero_time" "he_Reason demo_entry = []" "hs_faults demo_hist = []"
    by (simp_all add: demo_entry_def demo_hist_def zero_time_def second_ns_def)
  note d = deploy_recorded_and_finished [OF demo_hist_inv this(5) demo_io_reads_back demo_io_reads_back this(1-4),
      of 0 "''success''" 7000005]
  have f: "he_DeployID demo_entry = ''d1''" "he_Service demo_entry = ''web''" "he_StartedAt demo_entry = 5"
    "hs_seq demo_hist = 0"
    by (simp_all add: demo_entry_def demo_hist_def)
  show ?thesis using d unfolding f by (auto simp: Milliseconds_def time_Sub_def)
qed

text \<open>C17: Whatever was recorded, finished and skipped, and whichever statements failed, the
  history of a service (or of all) is one list with strictly decreasing ids: \<open>List\<close> returns its
  pages, with 50 entries for a limit that is not positive, and \<open>Count\<close> its length.\<close>

theorem history_pages:
  assumes "hist_inv h"
  shows "\<exists>h'. run_steps (hist_step io) h ops = Inr h' \<and>
    (\<exists>es. sorted_wrt (>) (List.map he_ID es) \<and>
       es = scanRows io (rev (filter (\<lambda>r. sv = [] \<or> r_service r = sv) (hs_rows h'))) \<and>
       (\<forall>limit off. fst (List_history io sv limit off (h'\<lparr>hs_faults := []\<rparr>)) =
          Inr (take (if limit \<le> 0 then 50 else nat limit) (drop (nat off) es))) \<and>
       fst (Count sv (h'\<lparr>hs_faults := []\<rparr>)) = Inr (length es))"
proof -
  obtain h' where h': "run_steps (hist_step io) h ops = Inr h'" "hist_inv h'"
    using hist_ops.run_safe [OF assms] by blast
  let ?g = "h'\<lparr>hs_faults := []\<rparr>"
  let ?rs = "filter (\<lambda>r. sv = [] \<or> r_service r = sv) (hs_rows h')"
  have g: "hist_inv ?g" "hs_faults ?g = []" using h'(2) by simp_all
  have "sorted_wrt (<) (List.map r_id ?rs)" using h'(2) by (simp add: hist_inv_def matching_sorted)
  then have "sorted_wrt (>) (List.map he_ID (scanRows io (rev ?rs)))"
    unfolding scanRow_ID by (simp add: sorted_wrt_rev flip: rev_map)
  moreover have "fst (List_history io sv limit off ?g) =
      Inr (take (if limit \<le> 0 then 50 else nat limit) (drop (nat off) (scanRows io (rev ?rs))))" for limit off
    using List_ok [OF g] by (simp add: matching_def scanRows_def take_map drop_map)
  moreover have "fst (Count sv ?g) = Inr (length (scanRows io (rev ?rs)))"
    using Count_ok [OF g] by (simp add: matching_def scanRows_def)
  ultimately show ?thesis using h'(1) by blast
qed

theorem history_pages_witness:
  "\<exists>h' es. run_steps (hist_step demo_io) (demo_hist\<lparr>hs_faults := [Some ''busy'']\<rparr>)
       [DoSkip 1 ''web'' ''web:2'' ''r'', DoSkip 2 ''web'' ''web:3'' ''r''] = Inr h' \<and>
     fst (Count ''web'' (h'\<lparr>hs_faults := []\<rparr>)) = Inr (length es) \<and>
     fst (List_history demo_io ''web'' 1 0 (h'\<lparr>hs_faults := []\<rparr>)) = Inr (take 1 es)"
proof -
  have "hist_inv (demo_hist\<lparr>hs_faults := [Some ''busy'']\<rparr>)" by (simp add: demo_hist_inv)
  from history_pages [OF this, of demo_io
      "[DoSkip 1 ''web'' ''web:2'' ''r'', DoSkip 2 ''web'' ''web:3'' ''r'']" "''web''"]
  obtain h' es where h: "run_steps (hist_step demo_io) (demo_hist\<lparr>hs_faults := [Some ''busy'']\<rparr>)
       [DoSkip 1 ''web'' ''web:2'' ''r'', DoSkip 2 ''web'' ''web:3'' ''r''] = Inr h'"
    and l: "\<And>limit off. fst (List_history demo_io ''web'' limit off (h'\<lparr>hs_faults := []\<rparr>)) =
          Inr (take (if limit \<le> 0 then 50 else nat limit) (drop (nat off) es))"
    and c: "fst (Count ''web'' (h'\<lparr>hs_faults := []\<rparr>)) = Inr (length es)"
    by blast
  from l [of 1 0] have "fst (List_history demo_io ''web'' 1 0 (h'\<lparr>hs_faults := []\<rparr>)) = Inr (take 1 es)"
    by simp
  with h c show ?thesis by blast
qed

text \<open>Opening a database of any earlier version adds exactly the columns it lacks, keeps every
  row's identity, leaves a well-formed history, and opening it again changes nothing.\<close>

theorem migrations_idempotent:
  assumes "hs_faults h = []" and "set baseColumns \<subseteq> set (hs_columns h)"
    and "sorted_wrt (<) (List.map r_id (hs_rows h))" and "\<forall>r \<in> set (hs_rows h). r_id r \<le> hs_seq h"
  shows "\<exists>h'. New_history h = (None, h') \<and> hist_inv h' \<and>
    hs_columns h' = hs_columns h @ filter (\<lambda>c. c \<notin> set (hs_columns h)) migrations \<and>
    List.map r_id (hs_rows h') = List.map r_id (hs_rows h) \<and> New_history h' = (None, h')"
proof -
  have ne: "hs_columns h \<noteq> []" using assms(2) by (auto simp: baseColumns_def)
  then have "hs_columns (migrated h) \<noteq> []" "hs_faults (migrated h) = []"
    using assms(1) by (simp_all add: migrated_def)
  then have "New_history (migrated h) = (None, migrated h)"
    by (simp add: New_history_ok migrated_idem)
  moreover have "List.map r_id (hs_rows (migrated h)) = List.map r_id (hs_rows h)"
    by (simp add: migrated_def fold_column_default_id)
  moreover have "hs_columns (migrated h) = hs_columns h @ filter (\<lambda>c. c \<notin> set (hs_columns h)) migrations"
    by (simp add: migrated_def missing_columns_def)
  ultimately show ?thesis
    using New_history_ok [OF assms(1) ne] migrated_inv [OF assms(3,4,2)] by blast
qed

theorem migrations_idempotent_witness:
  "\<exists>h'. New_history (demo_hist\<lparr>hs_columns := baseColumns\<rparr>) = (None, h') \<and> hist_inv h'"
  using migrations_idempotent [of "demo_hist\<lparr>hs_columns := baseColumns\<rparr>"]
  by (auto simp: demo_hist_def)

end
