(* ===== verification/Compose.thy ===== *)
theory Compose
  imports Semver Deploy_Registry
begin

text \<open>
  The compose-file path, \<open>internal/compose\<close>: the metadata in a container's labels
  (\<open>compose.go\<close>), the backup and the edit of the compose file (\<open>updater.go\<close>), and the run of
  \<open>docker compose up\<close> whose output goes to the deploy job (\<open>runner.go\<close>).  Files are a map from
  paths to contents; the YAML library and the \<open>docker\<close> program are not part of the repository
  and are fields of \<open>compose_env\<close>, over a daemon state \<open>'d\<close>.
\<close>

section \<open>Labels\<close>

definition labelProject :: string where "labelProject = ''com.docker.compose.project''"
definition labelService :: string where "labelService = ''com.docker.compose.service''"
definition labelConfigFiles :: string where
  "labelConfigFiles = ''com.docker.compose.project.config_files''"
definition labelWorkingDir :: string where
  "labelWorkingDir = ''com.docker.compose.project.working_dir''"

record compose_info =
  ci_Project :: string
  ci_Service :: string
  ci_ConfigFiles :: "string list"
  ci_WorkingDir :: string

definition FromLabels :: "labels \<Rightarrow> compose_info option" where
  "FromLabels labels =
     (let project = map_get labels labelProject in
      if project = [] then None
      else
        let raw = map_get labels labelConfigFiles;
            files = (if raw \<noteq> [] then filter (\<lambda>f. f \<noteq> []) (map TrimSpace (Split raw CHR '',''))
                     else [])
        in Some \<lparr>ci_Project = project, ci_Service = map_get labels labelService,
                 ci_ConfigFiles = files, ci_WorkingDir = map_get labels labelWorkingDir\<rparr>)"

section \<open>Files\<close>

text \<open>
  \<open>fs_faults path\<close> is the error a write to \<open>path\<close> meets, with what it leaves in the file
  (\<open>None\<close>: nothing was changed).
\<close>

record fs =
  fs_files :: "(string, string) fmap"
  fs_faults :: "string \<Rightarrow> (error \<times> string option) option"

definition ReadFile :: "string \<Rightarrow> fs \<Rightarrow> error + string" where
  "ReadFile path f =
     (case fmlookup (fs_files f) path of
        None \<Rightarrow> Inl (''open '' @ path @ '': no such file or directory'')
      | Some data \<Rightarrow> Inr data)"

definition WriteFile :: "string \<Rightarrow> string \<Rightarrow> fs \<Rightarrow> error option \<times> fs" where
  "WriteFile path data f =
     (case fs_faults f path of
        None \<Rightarrow> (None, f\<lparr>fs_files := fmupd path data (fs_files f)\<rparr>)
      | Some (e, None) \<Rightarrow> (Some e, f)
      | Some (e, Some part) \<Rightarrow> (Some e, f\<lparr>fs_files := fmupd path part (fs_files f)\<rparr>))"

section \<open>YAML documents\<close>

text \<open>A \<open>yaml.Node\<close>; style, comments, anchors and positions are the uninterpreted last field.\<close>

datatype yaml_kind = NoKind | DocumentNode | SequenceNode | MappingNode | ScalarNode | AliasNode

datatype yaml_node =
  YNode (yn_kind: yaml_kind) (yn_value: string) (yn_content: "yaml_node list") (yn_rest: string)

text \<open>Keys and values alternate in the content of a mapping.\<close>

fun mapping_loop :: "string \<Rightarrow> yaml_node list \<Rightarrow> yaml_node option" where
  "mapping_loop key (k # v # rest) = (if yn_value k = key then Some v else mapping_loop key rest)"
| "mapping_loop key _ = None"

definition mappingValue :: "yaml_node \<Rightarrow> string \<Rightarrow> yaml_node option" where
  "mappingValue node key =
     (if yn_kind node \<noteq> MappingNode then None else mapping_loop key (yn_content node))"

text \<open>The code writes through the pointer \<open>mappingValue\<close> returns; here the parents are rebuilt.\<close>

fun update_loop :: "string \<Rightarrow> (yaml_node \<Rightarrow> yaml_node) \<Rightarrow> yaml_node list \<Rightarrow> yaml_node list" where
  "update_loop key f (k # v # rest) =
     (if yn_value k = key then k # f v # rest else k # v # update_loop key f rest)"
| "update_loop key f ns = ns"

definition update_value :: "string \<Rightarrow> (yaml_node \<Rightarrow> yaml_node) \<Rightarrow> yaml_node \<Rightarrow> yaml_node" where
  "update_value key f node =
     YNode (yn_kind node) (yn_value node) (update_loop key f (yn_content node)) (yn_rest node)"

definition set_value :: "string \<Rightarrow> yaml_node \<Rightarrow> yaml_node" where
  "set_value s node = YNode (yn_kind node) s (yn_content node) (yn_rest node)"

text \<open>\<open>quote\<close> is \<open>fmt\<close>'s \<open>%q\<close>.\<close>

definition patchImageNode ::
  "(string \<Rightarrow> string) \<Rightarrow> yaml_node \<Rightarrow> string \<Rightarrow> string \<Rightarrow> error + yaml_node" where
  "patchImageNode quote doc service newTag =
     (case mappingValue doc ''services'' of
        None \<Rightarrow> Inl (''compose update: no '' @ [CHR 0x27] @ ''services'' @ [CHR 0x27] @ '' key found'')
      | Some servicesNode \<Rightarrow>
        (case mappingValue servicesNode service of
           None \<Rightarrow> Inl (''compose update: service '' @ quote service @ '' not found'')
         | Some svcNode \<Rightarrow>
           (case mappingValue svcNode ''image'' of
              None \<Rightarrow> Inl (''compose update: service '' @ quote service @ '' has no '' @ [CHR 0x27]
                @ ''image'' @ [CHR 0x27] @ '' key'')
            | Some imgNode \<Rightarrow>
                Inr (update_value ''services'' (update_value service (update_value ''image''
                  (set_value (replaceTag (yn_value imgNode) newTag)))) doc))))"

section \<open>Running compose\<close>

datatype up_result =
    StdoutPipeFailed error
  | StderrPipeFailed error
  | StartFailed error
  | Ran "(string \<times> string \<times> time) list" "error option"

text \<open>
  \<open>ce_up dir args fs d\<close> runs \<open>docker\<close>: either it does not start, or the two scanners read the
  lines given, each with its source and the time of its \<open>AppendLog\<close>, in the order the two
  goroutines happened to take them, and \<open>Wait\<close> returns the last component.
\<close>

record 'd compose_env =
  ce_unmarshal :: "string \<Rightarrow> error + yaml_node"
  ce_encode :: "yaml_node \<Rightarrow> error + string"
  ce_close :: "yaml_node \<Rightarrow> error option"
  ce_quote :: "string \<Rightarrow> string"
  ce_up :: "string \<Rightarrow> string list \<Rightarrow> fs \<Rightarrow> 'd \<Rightarrow> up_result \<times> 'd"

fun streamPipe ::
  "addr option \<Rightarrow> (string \<times> string \<times> time) list \<Rightarrow> job_registry \<Rightarrow> panic + job_registry" where
  "streamPipe job [] r = Inr r"
| "streamPipe None (l # ls) r = streamPipe None ls r"
| "streamPipe (Some a) ((source, line, now) # ls) r =
     (case job_at a (Append source line now) r of
        Inl p \<Rightarrow> Inl p
      | Inr r \<Rightarrow> streamPipe (Some a) ls r)"

definition UpService ::
  "'d compose_env \<Rightarrow> string \<Rightarrow> string \<Rightarrow> string \<Rightarrow> addr option \<Rightarrow> fs \<Rightarrow> job_registry \<Rightarrow> 'd \<Rightarrow>
     panic + error option \<times> job_registry \<times> 'd" where
  "UpService env workingDir configFile service job f r d =
     (let args = [''compose'', ''-f'', configFile, ''up'', ''-d'', ''--pull'', ''always'', ''--no-deps'', service]
      in case ce_up env workingDir args f d of
           (StdoutPipeFailed e, d) \<Rightarrow> Inr (Some (''compose up stdout pipe: '' @ e), r, d)
         | (StderrPipeFailed e, d) \<Rightarrow> Inr (Some (''compose up stderr pipe: '' @ e), r, d)
         | (StartFailed e, d) \<Rightarrow> Inr (Some (''compose up start: '' @ e), r, d)
         | (Ran output wait, d) \<Rightarrow>
             (case streamPipe job output r of
                Inl p \<Rightarrow> Inl p
              | Inr r \<Rightarrow>
                  (case wait of
                     Some e \<Rightarrow> Inr (Some (''docker compose up: '' @ e), r, d)
                   | None \<Rightarrow> Inr (None, r, d))))"

section \<open>Updating\<close>

definition show_int :: "int \<Rightarrow> string" where
  "show_int n = (if n < 0 then CHR ''-'' # show_nat (nat (- n)) else show_nat (nat n))"

definition backup_path :: "string \<Rightarrow> string \<Rightarrow> time \<Rightarrow> string" where
  "backup_path service destDir now =
     destDir @ ''/'' @ service @ ''_'' @ show_int (now div second_ns) @ ''.yml''"

definition BackupFile ::
  "time \<Rightarrow> string \<Rightarrow> string \<Rightarrow> string \<Rightarrow> fs \<Rightarrow> (string \<times> error option) \<times> fs" where
  "BackupFile now configFile service destDir f =
     (case ReadFile configFile f of
        Inl e \<Rightarrow> (([], Some (''compose backup: read '' @ configFile @ '': '' @ e)), f)
      | Inr data \<Rightarrow>
          let dest = backup_path service destDir now in
          case WriteFile dest data f of
            (Some e, f) \<Rightarrow> (([], Some (''compose backup: write '' @ dest @ '': '' @ e)), f)
          | (None, f) \<Rightarrow> ((dest, None), f))"

text \<open>The edit of the parsed file: of the first document's content, if there is one.\<close>

definition patch_root ::
  "(string \<Rightarrow> string) \<Rightarrow> yaml_node \<Rightarrow> string \<Rightarrow> string \<Rightarrow> error + yaml_node" where
  "patch_root quote root service newTag =
     (case yn_content root of
        doc # rest \<Rightarrow>
          (if yn_kind root = DocumentNode then
             (case patchImageNode quote doc service newTag of
                Inl e \<Rightarrow> Inl e
              | Inr doc \<Rightarrow> Inr (YNode (yn_kind root) (yn_value root) (doc # rest) (yn_rest root)))
           else Inr root)
      | [] \<Rightarrow> Inr root)"

definition UpdateServiceImage ::
  "'d compose_env \<Rightarrow> string \<Rightarrow> string \<Rightarrow> string \<Rightarrow> fs \<Rightarrow> error option \<times> fs" where
  "UpdateServiceImage env configFile service newTag f =
     (case ReadFile configFile f of
        Inl e \<Rightarrow> (Some (''compose update: read '' @ configFile @ '': '' @ e), f)
      | Inr data \<Rightarrow>
        (case ce_unmarshal env data of
           Inl e \<Rightarrow> (Some (''compose update: parse yaml: '' @ e), f)
         | Inr root \<Rightarrow>
           (case patch_root (ce_quote env) root service newTag of
              Inl e \<Rightarrow> (Some e, f)
            | Inr root \<Rightarrow>
              (case ce_encode env root of
                 Inl e \<Rightarrow> (Some (''compose update: encode yaml: '' @ e), f)
               | Inr buf \<Rightarrow>
                 (case ce_close env root of
                    Some e \<Rightarrow> (Some (''compose update: close encoder: '' @ e), f)
                  | None \<Rightarrow> WriteFile configFile buf f)))))"

definition ApplyUpdate ::
  "'d compose_env \<Rightarrow> time \<Rightarrow> compose_info \<Rightarrow> string \<Rightarrow> string \<Rightarrow> addr option \<Rightarrow> fs \<Rightarrow> job_registry \<Rightarrow> 'd \<Rightarrow>
     panic + (string \<times> error option) \<times> fs \<times> job_registry \<times> 'd" where
  "ApplyUpdate env now info newTag histDir job f r d =
     (case ci_ConfigFiles info of
        [] \<Rightarrow> Inr (([], Some ''compose apply: no config files in compose info''), f, r, d)
      | configFile # _ \<Rightarrow>
        (case BackupFile now configFile (ci_Service info) histDir f of
           ((_, Some e), f) \<Rightarrow> Inr (([], Some e), f, r, d)
         | ((backupPath, None), f) \<Rightarrow>
           (case UpdateServiceImage env configFile (ci_Service info) newTag f of
              (Some e, f) \<Rightarrow> Inr ((backupPath, Some e), f, r, d)
            | (None, f) \<Rightarrow>
              (case UpService env (ci_WorkingDir info) configFile (ci_Service info) job f r d of
                 Inl p \<Rightarrow> Inl p
               | Inr (Some e, r, d) \<Rightarrow> Inr ((backupPath, Some e), f, r, d)
               | Inr (None, r, d) \<Rightarrow> Inr ((backupPath, None), f, r, d)))))"

section \<open>Documents\<close>

lemma mapping_loop_update:
  "mapping_loop key' (update_loop key f ns) =
     (if key' = key then map_option f (mapping_loop key ns) else mapping_loop key' ns)"
  by (induction key f ns rule: update_loop.induct) auto

lemma mappingValue_update [simp]:
  "mappingValue (update_value key f node) key' =
     (if key' = key then map_option f (mappingValue node key) else mappingValue node key')"
  by (simp add: mappingValue_def update_value_def mapping_loop_update)

text \<open>The node at the end of a path of keys.\<close>

fun yaml_at :: "string list \<Rightarrow> yaml_node \<Rightarrow> yaml_node option" where
  "yaml_at [] node = Some node"
| "yaml_at (key # keys) node =
     (case mappingValue node key of None \<Rightarrow> None | Some child \<Rightarrow> yaml_at keys child)"

fun update_at :: "string list \<Rightarrow> (yaml_node \<Rightarrow> yaml_node) \<Rightarrow> yaml_node \<Rightarrow> yaml_node" where
  "update_at [] f = f"
| "update_at (key # keys) f = update_value key (update_at keys f)"

lemma yaml_at_update: "yaml_at keys (update_at keys f node) = map_option f (yaml_at keys node)"
  by (induction keys arbitrary: node) (auto split: option.splits)

lemma yaml_at_update_other:
  "\<not> prefix keys p \<Longrightarrow> \<not> prefix p keys \<Longrightarrow> yaml_at p (update_at keys f node) = yaml_at p node"
proof (induction keys arbitrary: p node)
  case (Cons key keys)
  then show ?case by (cases p) (auto split: option.splits)
qed simp

definition image_path :: "string \<Rightarrow> string list" where
  "image_path service = [''services'', service, ''image'']"

lemma patchImageNode_Inr:
  "patchImageNode q doc service newTag = Inr doc' \<longleftrightarrow>
   (\<exists>img. yaml_at (image_path service) doc = Some img \<and>
      doc' = update_at (image_path service) (set_value (replaceTag (yn_value img) newTag)) doc)"
  by (auto simp: patchImageNode_def image_path_def split: option.splits)

section \<open>The deploy job's log\<close>

text \<open>Log lines change neither the registry's indexes nor a job's identity and outcome.\<close>

definition same_jobs :: "job_registry \<Rightarrow> job_registry \<Rightarrow> bool" where
  "same_jobs r r' \<longleftrightarrow> jr_jobs r' = jr_jobs r \<and> jr_byContainer r' = jr_byContainer r \<and>
     jr_next r' = jr_next r \<and>
     (\<forall>a. dj_ID (jr_heap r' a) = dj_ID (jr_heap r a) \<and>
        dj_ContainerName (jr_heap r' a) = dj_ContainerName (jr_heap r a) \<and>
        dj_TriggerSource (jr_heap r' a) = dj_TriggerSource (jr_heap r a) \<and>
        dj_started (jr_heap r' a) = dj_started (jr_heap r a) \<and>
        job_outcome (jr_heap r' a) = job_outcome (jr_heap r a))"

lemma same_jobs_refl [simp]: "same_jobs r r"
  by (simp add: same_jobs_def)

lemma same_jobs_trans: "same_jobs r s \<Longrightarrow> same_jobs s t \<Longrightarrow> same_jobs r t"
  by (simp add: same_jobs_def)

lemma AppendLog_frame:
  "AppendLog source msg now j = Inr j' \<Longrightarrow> dj_ID j' = dj_ID j \<and> dj_ContainerName j' = dj_ContainerName j \<and>
     dj_TriggerSource j' = dj_TriggerSource j \<and> dj_started j' = dj_started j \<and>
     job_outcome j' = job_outcome j"
  by (auto simp: AppendLog_def Let_def job_outcome_def split: if_splits sum.splits)

lemma job_at_Append:
  assumes "job_at a (Append source msg now) r = Inr r'"
  shows "same_jobs r r'" and "b \<noteq> a \<Longrightarrow> jr_heap r' b = jr_heap r b"
proof -
  obtain j where j: "AppendLog source msg now (jr_heap r a) = Inr j" "r' = r\<lparr>jr_heap := (jr_heap r)(a := j)\<rparr>"
    using assms by (auto simp: job_at_def split: sum.splits)
  from AppendLog_frame [OF j(1)] show "same_jobs r r'" by (simp add: same_jobs_def j(2))
  show "b \<noteq> a \<Longrightarrow> jr_heap r' b = jr_heap r b" by (simp add: j(2))
qed

definition log_text :: "deploy_job \<Rightarrow> (string \<times> string) list" where
  "log_text j = map (\<lambda>l. (ll_Source l, ll_Text l)) (dj_logs j)"

lemma take_full: "n \<le> length xs \<Longrightarrow> take n (xs @ ys) = take n xs"
  by simp

lemma AppendLog_text:
  assumes "job_inv j" "AppendLog source msg now j = Inr j'"
  shows "log_text j' = take maxLogLines (log_text j @ [(source, msg)])"
proof -
  have len: "length (log_text j) = min (dj_seq j) maxLogLines"
    using job_inv_length [OF assms(1)] by (simp add: log_text_def)
  have j': "dj_logs j' = (if dj_seq j < maxLogLines then dj_logs j @ [next_line j source msg now] else dj_logs j)"
    using assms(2) unfolding AppendLog_eq [OF assms(1)] by auto
  show ?thesis
  proof (cases "dj_seq j < maxLogLines")
    case True
    then have "log_text j' = log_text j @ [(source, msg)]" by (simp add: log_text_def j' next_line_def)
    with True len show ?thesis by simp
  next
    case False
    then have "log_text j' = log_text j" "length (log_text j) = maxLogLines"
      using len by (simp_all add: log_text_def j')
    then show ?thesis by simp
  qed
qed

lemma streamPipe_safe:
  assumes "registry_inv r"
  shows "\<exists>r'. streamPipe job out r = Inr r' \<and> registry_inv r' \<and> same_jobs r r' \<and>
    (\<forall>b. job \<noteq> Some b \<longrightarrow> jr_heap r' b = jr_heap r b)"
  using assms
proof (induction job out r rule: streamPipe.induct)
  case (3 a source line now ls r)
  obtain s where s: "job_at a (Append source line now) r = Inr s" "registry_inv s"
    using job_at_safe [OF "3.prems"] by blast
  from "3.IH" [OF s] obtain r' where "streamPipe (Some a) ls s = Inr r'" "registry_inv r'" "same_jobs s r'"
    "\<forall>b. Some a \<noteq> Some b \<longrightarrow> jr_heap r' b = jr_heap s b"
    by blast
  with s job_at_Append [OF s(1)] show ?case by (auto intro: same_jobs_trans)
qed auto

lemma streamPipe_text:
  assumes "registry_inv r" "streamPipe (Some a) out r = Inr r'"
  shows "log_text (jr_heap r' a) =
    take maxLogLines (log_text (jr_heap r a) @ map (\<lambda>(source, line, now). (source, line)) out)"
  using assms
proof (induction out arbitrary: r)
  case Nil
  then have "length (dj_logs (jr_heap r a)) \<le> maxLogLines"
    using job_inv_length [OF registry_invD(1) [OF Nil.prems(1), of a]] by simp
  with Nil show ?case by (simp add: log_text_def)
next
  case (Cons l ls)
  obtain source line now where l: "l = (source, line, now)" by (cases l)
  obtain s where s: "job_at a (Append source line now) r = Inr s" "registry_inv s"
    using job_at_safe [OF Cons.prems(1)] by blast
  obtain j where j: "AppendLog source line now (jr_heap r a) = Inr j" "jr_heap s a = j"
    using s(1) by (auto simp: job_at_def split: sum.splits)
  have "log_text (jr_heap r' a) =
    take maxLogLines (log_text (jr_heap s a) @ map (\<lambda>(source, line, now). (source, line)) ls)"
    using Cons.prems(2) s by (intro Cons.IH) (simp_all add: l)
  also have "log_text (jr_heap s a) = take maxLogLines (log_text (jr_heap r a) @ [(source, line)])"
    using AppendLog_text [OF registry_invD(1) [OF Cons.prems(1)] j(1)] j(2) by simp
  finally show ?case by (simp only: l take_append_take append_assoc) simp
qed

lemma UpService_safe:
  assumes "registry_inv r"
  shows "\<exists>e r' d'. UpService env dir cf service job f r d = Inr (e, r', d') \<and> registry_inv r' \<and>
    same_jobs r r' \<and> (\<forall>b. job \<noteq> Some b \<longrightarrow> jr_heap r' b = jr_heap r b)"
proof -
  obtain res d1 where res: "ce_up env dir [''compose'', ''-f'', cf, ''up'', ''-d'', ''--pull'',
      ''always'', ''--no-deps'', service] f d = (res, d1)"
    by fastforce
  show ?thesis
  proof (cases res)
    case (Ran out w)
    obtain r' where "streamPipe job out r = Inr r'" "registry_inv r'" "same_jobs r r'"
      "\<forall>b. job \<noteq> Some b \<longrightarrow> jr_heap r' b = jr_heap r b"
      using streamPipe_safe [OF assms] by blast
    with Ran res show ?thesis by (cases w) (simp_all add: UpService_def)
  qed (use res assms in \<open>simp_all add: UpService_def\<close>)
qed

section \<open>The file update\<close>

lemma WriteFile_ok:
  "fs_faults f p = None \<Longrightarrow> WriteFile p data f = (None, f\<lparr>fs_files := fmupd p data (fs_files f)\<rparr>)"
  by (simp add: WriteFile_def)

lemma WriteFile_None:
  "WriteFile p data f = (None, f') \<Longrightarrow> f' = f\<lparr>fs_files := fmupd p data (fs_files f)\<rparr>"
  by (auto simp: WriteFile_def split: option.splits prod.splits)

lemma WriteFile_other:
  "WriteFile p data f = (e, f') \<Longrightarrow> q \<noteq> p \<Longrightarrow>
     fmlookup (fs_files f') q = fmlookup (fs_files f) q \<and> fs_faults f' = fs_faults f"
  by (auto simp: WriteFile_def split: option.splits prod.splits)

lemma ReadFile_Inr: "ReadFile p f = Inr data \<longleftrightarrow> fmlookup (fs_files f) p = Some data"
  by (simp add: ReadFile_def split: option.splits)

text \<open>The text that replaces a compose file.\<close>

definition patched_text :: "'d compose_env \<Rightarrow> string \<Rightarrow> string \<Rightarrow> string \<Rightarrow> string \<Rightarrow> bool" where
  "patched_text env service newTag old_text new_text \<longleftrightarrow>
     (\<exists>root root'. ce_unmarshal env old_text = Inr root \<and> ce_encode env root' = Inr new_text \<and>
        (root' = root \<and> (yn_kind root \<noteq> DocumentNode \<or> yn_content root = []) \<or>
         (\<exists>doc rest img.
            root = YNode DocumentNode (yn_value root) (doc # rest) (yn_rest root) \<and>
            yaml_at (image_path service) doc = Some img \<and>
            root' = YNode DocumentNode (yn_value root)
              (update_at (image_path service) (set_value (replaceTag (yn_value img) newTag)) doc # rest)
              (yn_rest root))))"

lemma UpdateServiceImage_None:
  assumes "UpdateServiceImage env cf service newTag f = (None, f')"
  shows "\<exists>data buf. fmlookup (fs_files f) cf = Some data \<and> patched_text env service newTag data buf \<and>
    f' = f\<lparr>fs_files := fmupd cf buf (fs_files f)\<rparr>"
proof -
  obtain data root root' buf where d: "ReadFile cf f = Inr data" "ce_unmarshal env data = Inr root"
    "patch_root (ce_quote env) root service newTag = Inr root'" "ce_encode env root' = Inr buf"
    "WriteFile cf buf f = (None, f')"
    using assms by (auto simp: UpdateServiceImage_def split: sum.splits option.splits)
  have "root' = root \<and> (yn_kind root \<noteq> DocumentNode \<or> yn_content root = []) \<or>
         (\<exists>doc rest img.
            root = YNode DocumentNode (yn_value root) (doc # rest) (yn_rest root) \<and>
            yaml_at (image_path service) doc = Some img \<and>
            root' = YNode DocumentNode (yn_value root)
              (update_at (image_path service) (set_value (replaceTag (yn_value img) newTag)) doc # rest)
              (yn_rest root))"
    using d(3) unfolding patch_root_def
    by (cases root) (auto split: list.splits if_splits sum.splits simp: patchImageNode_Inr)
  then have "patched_text env service newTag data buf"
    unfolding patched_text_def using d(2,4) by blast
  with d(1) WriteFile_None [OF d(5)] show ?thesis by (auto simp: ReadFile_Inr)
qed

text \<open>The only write of the edit is its last action, and it may leave a part of the new text.\<close>

lemma UpdateServiceImage_Some:
  assumes "UpdateServiceImage env cf service newTag f = (Some e, f')"
  shows "f' = f \<or> (\<exists>part. fs_faults f cf = Some (e, Some part) \<and> f' = f\<lparr>fs_files := fmupd cf part (fs_files f)\<rparr>)"
  using assms
  by (auto simp: UpdateServiceImage_def WriteFile_def split: sum.splits option.splits)

lemma BackupFile_None:
  assumes "BackupFile now cf service dir f = ((bp, None), f')"
  shows "bp = backup_path service dir now \<and>
    (\<exists>data. fmlookup (fs_files f) cf = Some data \<and> f' = f\<lparr>fs_files := fmupd bp data (fs_files f)\<rparr>)"
  using assms
  by (auto simp: BackupFile_def ReadFile_Inr Let_def dest!: WriteFile_None
      split: sum.splits option.splits prod.splits)

lemma BackupFile_Some:
  assumes "BackupFile now cf service dir f = ((bp, Some e), f')" "p \<noteq> backup_path service dir now"
  shows "bp = [] \<and> fmlookup (fs_files f') p = fmlookup (fs_files f) p"
  using assms
  by (auto simp: BackupFile_def Let_def dest!: WriteFile_other [where q = p]
      split: sum.splits option.splits prod.splits)

lemma ApplyUpdate_safe:
  assumes "registry_inv r"
  shows "\<exists>x f' r' d'. ApplyUpdate env now info newTag dir job f r d = Inr (x, f', r', d') \<and>
    registry_inv r' \<and> same_jobs r r' \<and> (\<forall>b. job \<noteq> Some b \<longrightarrow> jr_heap r' b = jr_heap r b)"
proof (cases "ci_ConfigFiles info")
  case (Cons cf rest)
  obtain bp e f1 where b: "BackupFile now cf (ci_Service info) dir f = ((bp, e), f1)"
    by (metis prod.exhaust)
  obtain e2 f2 where u: "UpdateServiceImage env cf (ci_Service info) newTag f1 = (e2, f2)" by fastforce
  obtain e3 r3 d3 where v: "UpService env (ci_WorkingDir info) cf (ci_Service info) job f2 r d = Inr (e3, r3, d3)"
    and v': "registry_inv r3" "same_jobs r r3" "\<forall>b. job \<noteq> Some b \<longrightarrow> jr_heap r3 b = jr_heap r b"
    using UpService_safe [OF assms, of env "ci_WorkingDir info" cf "ci_Service info" job f2 d] by blast
  consider e0 where "e = Some e0" | e0 where "e = None" "e2 = Some e0" | "e = None" "e2 = None"
    by (cases e; cases e2) auto
  then show ?thesis
  proof cases
    case 1
    then have "ApplyUpdate env now info newTag dir job f r d = Inr (([], Some e0), f1, r, d)"
      using b by (simp add: ApplyUpdate_def Cons)
    with assms show ?thesis by simp
  next
    case 2
    then have "ApplyUpdate env now info newTag dir job f r d = Inr ((bp, Some e0), f2, r, d)"
      using b u by (simp add: ApplyUpdate_def Cons)
    with assms show ?thesis by simp
  next
    case 3
    then have "ApplyUpdate env now info newTag dir job f r d = Inr ((bp, e3), f2, r3, d3)"
      using b u v by (simp add: ApplyUpdate_def Cons split: option.split)
    with v' show ?thesis by simp
  qed
qed (use assms in \<open>simp add: ApplyUpdate_def\<close>)

definition up_args :: "string \<Rightarrow> string \<Rightarrow> string list" where
  "up_args cf service =
     [''compose'', ''-f'', cf, ''up'', ''-d'', ''--pull'', ''always'', ''--no-deps'', service]"

lemma UpService_result:
  assumes "registry_inv r" "UpService env dir cf service job f r d = Inr (e, r', d')"
  shows "\<exists>res. ce_up env dir (up_args cf service) f d = (res, d') \<and>
    (e = None \<longleftrightarrow> (\<exists>out. res = Ran out None)) \<and>
    (\<forall>a out w. job = Some a \<longrightarrow> res = Ran out w \<longrightarrow> log_text (jr_heap r' a) =
       take maxLogLines (log_text (jr_heap r a) @ map (\<lambda>(source, line, now). (source, line)) out))"
proof -
  obtain res d1 where res: "ce_up env dir (up_args cf service) f d = (res, d1)" by fastforce
  note u = assms(2) [unfolded UpService_def Let_def, folded up_args_def] res
  show ?thesis
  proof (cases res)
    case (Ran out w)
    obtain r1 where r1: "streamPipe job out r = Inr r1" using streamPipe_safe [OF assms(1)] by blast
    with u Ran have "r' = r1" "d' = d1" "e = map_option (\<lambda>e. ''docker compose up: '' @ e) w"
      by (auto split: option.splits)
    with res Ran r1 streamPipe_text [OF assms(1)] show ?thesis by auto
  qed (use u in auto)
qed

section \<open>Properties\<close>

text \<open>Editing a compose document sets the tag of the image of exactly the service named and
  changes no other node: the value at \<open>services.<service>.image\<close> is the old reference with the
  new tag, and every path that is not on the way to it or below it is as before.\<close>

theorem patch_changes_one_node:
  assumes "patchImageNode quote doc service newTag = Inr doc'"
  shows "\<exists>img. yaml_at (image_path service) doc = Some img \<and>
    yaml_at (image_path service) doc' = Some (set_value (replaceTag (yn_value img) newTag) img) \<and>
    (\<forall>p. \<not> prefix (image_path service) p \<and> \<not> prefix p (image_path service) \<longrightarrow>
       yaml_at p doc' = yaml_at p doc)"
proof -
  obtain img where img: "yaml_at (image_path service) doc = Some img"
    "doc' = update_at (image_path service) (set_value (replaceTag (yn_value img) newTag)) doc"
    using assms by (auto simp: patchImageNode_Inr)
  then show ?thesis by (simp add: yaml_at_update yaml_at_update_other)
qed

definition scalar :: "string \<Rightarrow> yaml_node" where
  "scalar s = YNode ScalarNode s [] []"

definition mapping :: "yaml_node list \<Rightarrow> yaml_node" where
  "mapping ns = YNode MappingNode [] ns []"

definition demo_doc :: yaml_node where
  "demo_doc = mapping [scalar ''services'',
     mapping [scalar ''web'', mapping [scalar ''image'', scalar ''nginx:1.24'', scalar ''restart'', scalar ''always'']]]"

lemma demo_image: "yaml_at (image_path ''web'') demo_doc = Some (scalar ''nginx:1.24'')"
  by (simp add: demo_doc_def mapping_def scalar_def image_path_def mappingValue_def)

theorem patch_changes_one_node_witness:
  "\<exists>doc'. patchImageNode id demo_doc ''web'' ''1.25'' = Inr doc' \<and>
     yaml_at (image_path ''web'') doc' = Some (scalar ''nginx:1.25'') \<and>
     yaml_at [''services'', ''web'', ''restart''] doc' = Some (scalar ''always'')"
proof -
  obtain doc' where d: "patchImageNode id demo_doc ''web'' ''1.25'' = Inr doc'"
    using demo_image by (metis patchImageNode_Inr)
  from patch_changes_one_node [OF d]
  have "yaml_at (image_path ''web'') doc' = Some (set_value (replaceTag ''nginx:1.24'' ''1.25'') (scalar ''nginx:1.24''))"
    and "\<not> prefix (image_path ''web'') [''services'', ''web'', ''restart''] \<and>
      \<not> prefix [''services'', ''web'', ''restart''] (image_path ''web'') \<longrightarrow>
      yaml_at [''services'', ''web'', ''restart''] doc' = yaml_at [''services'', ''web'', ''restart''] demo_doc"
    by (auto simp: demo_image scalar_def)
  moreover have "set_value (replaceTag ''nginx:1.24'' ''1.25'') (scalar ''nginx:1.24'') = scalar ''nginx:1.25''"
    using replaceTag_tagged [of "''nginx''" "''1.24''" "[]" "''1.25''"] by (simp add: set_value_def scalar_def)
  moreover have "yaml_at [''services'', ''web'', ''restart''] demo_doc = Some (scalar ''always'')"
    by (simp add: demo_doc_def mapping_def scalar_def mappingValue_def)
  ultimately show ?thesis using d by (simp add: image_path_def)
qed

text \<open>C18: What a compose update leaves behind, on every path.  It never panics.  Without a config file
  nothing happens.  If an error comes before \<open>docker compose\<close> is started, the job's log and the daemon are left alone, and
  so are all files but the backup, unless it was the write of the compose file itself that failed half-way: then the
  compose file holds what was written and the backup the original.  Otherwise the backup holds the original text,
  the compose file the patched one (whether or not \<open>docker compose\<close> succeeds: nothing puts the original back), and
  the job's log has the first 500 lines of the output.\<close>

theorem compose_update_outcome:
  fixes info :: compose_info and f :: fs
  assumes "registry_inv r" and "backup_path (ci_Service info) histDir now \<notin> set (ci_ConfigFiles info)"
  defines "backup \<equiv> backup_path (ci_Service info) histDir now"
  shows "\<exists>bp e f' r' d'. ApplyUpdate env now info newTag histDir job f r d = Inr ((bp, e), f', r', d') \<and>
    (case ci_ConfigFiles info of
       [] \<Rightarrow> e = Some ''compose apply: no config files in compose info'' \<and> bp = [] \<and> f' = f \<and> r' = r \<and> d' = d
     | cf # rest \<Rightarrow>
        (e \<noteq> None \<and> r' = r \<and> d' = d \<and> (\<forall>p. p = backup \<or> fmlookup (fs_files f') p = fmlookup (fs_files f) p) \<and>
           (bp = [] \<or> bp = backup \<and> fmlookup (fs_files f') backup = fmlookup (fs_files f) cf)) \<or>
        (\<exists>er part data. fs_faults f cf = Some (er, Some part) \<and> e = Some er \<and> r' = r \<and> d' = d \<and> bp = backup \<and>
           fmlookup (fs_files f) cf = Some data \<and> fs_files f' = fmupd cf part (fmupd bp data (fs_files f))) \<or>
        (\<exists>data buf res. bp = backup \<and>
           fmlookup (fs_files f) cf = Some data \<and> patched_text env (ci_Service info) newTag data buf \<and>
           fs_files f' = fmupd cf buf (fmupd bp data (fs_files f)) \<and>
           ce_up env (ci_WorkingDir info) (up_args cf (ci_Service info)) f' d = (res, d') \<and>
           (e = None \<longleftrightarrow> (\<exists>out. res = Ran out None)) \<and>
           (\<forall>a out w. job = Some a \<longrightarrow> res = Ran out w \<longrightarrow> log_text (jr_heap r' a) =
              take maxLogLines (log_text (jr_heap r a) @ map (\<lambda>(source, line, now). (source, line)) out))))"
proof (cases "ci_ConfigFiles info")
  case Nil
  then show ?thesis by (simp add: ApplyUpdate_def)
next
  case (Cons cf rest)
  then have ne: "cf \<noteq> backup" using assms(2) by (auto simp: backup_def)
  obtain b eb f1 where b: "BackupFile now cf (ci_Service info) histDir f = ((b, eb), f1)"
    by (metis prod.exhaust)
  obtain e2 f2 where u: "UpdateServiceImage env cf (ci_Service info) newTag f1 = (e2, f2)" by fastforce
  show ?thesis
  proof (cases eb)
    case (Some e0)
    with b have "fmlookup (fs_files f1) p = fmlookup (fs_files f) p" if "p \<noteq> backup" for p
      using BackupFile_Some [of now cf "ci_Service info" histDir f b e0 f1 p] that by (simp add: backup_def)
    moreover have "ApplyUpdate env now info newTag histDir job f r d = Inr (([], Some e0), f1, r, d)"
      using b Some by (simp add: ApplyUpdate_def Cons)
    ultimately show ?thesis by (auto simp: Cons)
  next
    case None
    with BackupFile_None [of now cf "ci_Service info" histDir f b f1] b obtain data where
      bp: "b = backup" "fmlookup (fs_files f) cf = Some data" "f1 = f\<lparr>fs_files := fmupd b data (fs_files f)\<rparr>"
      by (auto simp: backup_def)
    show ?thesis
    proof (cases e2)
      case (Some e0)
      then have "ApplyUpdate env now info newTag histDir job f r d = Inr ((b, Some e0), f2, r, d)"
        using b u None by (simp add: ApplyUpdate_def Cons)
      moreover have "f2 = f1 \<or> (\<exists>part. fs_faults f1 cf = Some (e0, Some part) \<and>
          f2 = f1\<lparr>fs_files := fmupd cf part (fs_files f1)\<rparr>)"
        using UpdateServiceImage_Some [of env cf "ci_Service info" newTag f1 e0 f2] u Some by simp
      ultimately show ?thesis
      proof (elim disjE exE conjE)
        assume "f2 = f1" and a: "ApplyUpdate env now info newTag histDir job f r d = Inr ((b, Some e0), f2, r, d)"
        with bp show ?thesis unfolding a by (simp add: Cons)
      next
        fix part
        assume "fs_faults f1 cf = Some (e0, Some part)" "f2 = f1\<lparr>fs_files := fmupd cf part (fs_files f1)\<rparr>"
          and a: "ApplyUpdate env now info newTag histDir job f r d = Inr ((b, Some e0), f2, r, d)"
        with bp show ?thesis unfolding a by (simp add: Cons)
      qed
    next
      case e2: None
      obtain e3 r3 d3 where v: "UpService env (ci_WorkingDir info) cf (ci_Service info) job f2 r d = Inr (e3, r3, d3)"
        using UpService_safe [OF assms(1), of env "ci_WorkingDir info" cf "ci_Service info" job f2 d] by blast
      have "ApplyUpdate env now info newTag histDir job f r d = Inr ((b, e3), f2, r3, d3)"
        using b u v None e2 by (simp add: ApplyUpdate_def Cons split: option.split)
      moreover from UpdateServiceImage_None [of env cf "ci_Service info" newTag f1 f2] u e2 bp ne
      obtain buf where "patched_text env (ci_Service info) newTag data buf"
        "f2 = f1\<lparr>fs_files := fmupd cf buf (fs_files f1)\<rparr>" by auto
      ultimately show ?thesis using bp UpService_result [OF assms(1) v] by (auto simp: Cons)
    qed
  qed
qed

definition demo_env :: "'d compose_env" where
  "demo_env = \<lparr>ce_unmarshal = (\<lambda>s. Inr (YNode DocumentNode [] [demo_doc] [])),
     ce_encode = (\<lambda>n. Inr ''patched''), ce_close = (\<lambda>n. None), ce_quote = id,
     ce_up = (\<lambda>dir args f d. (Ran [(''stderr'', ''pull failed'', 7)] (Some ''exit status 1''), d))\<rparr>"

definition demo_fs :: fs where
  "demo_fs = \<lparr>fs_files = fmupd ''/app/c.yml'' ''original'' fmempty, fs_faults = (\<lambda>p. None)\<rparr>"

definition demo_info :: compose_info where
  "demo_info = \<lparr>ci_Project = ''app'', ci_Service = ''web'', ci_ConfigFiles = [''/app/c.yml''], ci_WorkingDir = ''/app''\<rparr>"

lemma demo_backup: "backup_path ''web'' ''/h'' 0 = ''/h/web_0.yml''"
proof -
  have "char_of (48 :: nat) = CHR ''0''" by code_simp
  then show ?thesis by (simp add: backup_path_def show_int_def show_nat.simps [of 0] digit_char_def)
qed

lemma demo_patch:
  "\<exists>r. patch_root id (YNode DocumentNode [] [demo_doc] []) ''web'' ''1.25'' = Inr r"
proof -
  obtain doc' where "patchImageNode id demo_doc ''web'' ''1.25'' = Inr doc'"
    using demo_image by (metis patchImageNode_Inr)
  then show ?thesis by (simp add: patch_root_def)
qed

lemma demo_sel:
  "ci_Service demo_info = ''web''" "ci_ConfigFiles demo_info = [''/app/c.yml'']"
  "ce_unmarshal demo_env t = Inr (YNode DocumentNode [] [demo_doc] [])"
  "ce_encode demo_env n = Inr ''patched''" "ce_close demo_env n = None" "ce_quote demo_env = id"
  "ce_up demo_env dir args f u = (Ran [(''stderr'', ''pull failed'', 7)] (Some ''exit status 1''), u)"
  "fs_faults demo_fs q = None" "fmlookup (fs_files demo_fs) ''/app/c.yml'' = Some ''original''"
  by (simp_all add: demo_info_def demo_env_def demo_fs_def)

lemma demo_apply:
  "\<exists>f'. ApplyUpdate demo_env 0 demo_info ''1.25'' ''/h'' None demo_fs NewRegistry () =
      Inr ((''/h/web_0.yml'', Some ''docker compose up: exit status 1''), f', NewRegistry, ()) \<and>
     fmlookup (fs_files f') ''/app/c.yml'' = Some ''patched''"
proof -
  define f1 where "f1 = demo_fs\<lparr>fs_files := fmupd ''/h/web_0.yml'' ''original'' (fs_files demo_fs)\<rparr>"
  define f2 where "f2 = f1\<lparr>fs_files := fmupd ''/app/c.yml'' ''patched'' (fs_files f1)\<rparr>"
  obtain root where root: "patch_root id (YNode DocumentNode [] [demo_doc] []) ''web'' ''1.25'' = Inr root"
    using demo_patch by blast
  have b: "BackupFile 0 ''/app/c.yml'' ''web'' ''/h'' demo_fs = ((''/h/web_0.yml'', None), f1)"
    by (simp add: BackupFile_def ReadFile_def demo_sel demo_backup WriteFile_ok f1_def Let_def)
  have "ReadFile ''/app/c.yml'' f1 = Inr ''original''" "WriteFile ''/app/c.yml'' ''patched'' f1 = (None, f2)"
    by (simp_all add: ReadFile_def f1_def demo_sel f2_def WriteFile_ok)
  then have u: "UpdateServiceImage (demo_env :: unit compose_env) ''/app/c.yml'' ''web'' ''1.25'' f1 = (None, f2)"
    by (simp add: UpdateServiceImage_def demo_sel root)
  have "UpService demo_env (ci_WorkingDir demo_info) ''/app/c.yml'' ''web'' None f2 NewRegistry () =
      Inr (Some ''docker compose up: exit status 1'', NewRegistry, ())"
    by (simp add: UpService_def demo_sel)
  with b u have "ApplyUpdate demo_env 0 demo_info ''1.25'' ''/h'' None demo_fs NewRegistry () =
      Inr ((''/h/web_0.yml'', Some ''docker compose up: exit status 1''), f2, NewRegistry, ())"
    by (simp add: ApplyUpdate_def demo_sel)
  then show ?thesis by (simp add: f2_def)
qed

theorem compose_update_outcome_witness:
  "\<exists>f'. ApplyUpdate demo_env 0 demo_info ''1.25'' ''/h'' None demo_fs NewRegistry () =
      Inr ((''/h/web_0.yml'', Some ''docker compose up: exit status 1''), f', NewRegistry, ()) \<and>
     fmlookup (fs_files f') ''/app/c.yml'' = Some ''patched'' \<and>
     fmlookup (fs_files f') ''/h/web_0.yml'' = Some ''original''"
proof -
  obtain f' where a: "ApplyUpdate demo_env 0 demo_info ''1.25'' ''/h'' None demo_fs NewRegistry () =
      Inr ((''/h/web_0.yml'', Some ''docker compose up: exit status 1''), f', NewRegistry, ())"
    and p: "fmlookup (fs_files f') ''/app/c.yml'' = Some ''patched''"
    using demo_apply by blast
  have "backup_path (ci_Service demo_info) ''/h'' 0 \<notin> set (ci_ConfigFiles demo_info)" by (simp add: demo_sel demo_backup)
  from compose_update_outcome [OF NewRegistry_inv this, of demo_env "''1.25''" None demo_fs "()"] a
  have "fmlookup (fs_files f') ''/h/web_0.yml'' = Some ''original''"
    by (auto simp: demo_sel demo_backup)
  with a p show ?thesis by blast
qed

end
