(* ===== verification/Service_Config.thy ===== *)
theory Service_Config
  imports History
begin

text \<open>
  The services table, \<open>servicesSchema\<close> of \<open>internal/db/db.go\<close>, and its cache,
  \<open>internal/serviceconfig/serviceconfig.go\<close>.  A row has the table's columns (the two bookkeeping
  dates are not read by the program and only \<open>updated_at\<close> is written); SQLite checks the primary
  key and the two CHECK constraints.  \<open>mg_faults\<close> scripts the outcome of the statements to come, as
  in \<open>History\<close>; a failure while rows are scanned counts as one of the query, whose message differs in
  the code.  The cache is replaced as a whole by \<open>Reload\<close>, never changed in place.  A
  \<open>time.Duration\<close> is a 64-bit integer: the conversion of the interval wraps around.
  The operations are given twice: as they run when nobody interrupts them, and, for calls that overlap, in the three
  steps that the lock and the database make atomic.
\<close>

section \<open>Definitions\<close>

record svc_row =
  sr_name :: string
  sr_image :: string
  sr_compose_file :: string
  sr_trigger_mode :: string
  sr_poller_interval :: int
  sr_last_digest :: "string option"
  sr_last_checked_at :: "string option"
  sr_updated_at :: string

record svc_config =
  sv_Name :: string
  sv_Image :: string
  sv_ComposeFile :: string
  sv_TriggerMode :: string
  sv_PollerInterval :: int
  sv_LastDigest :: string
  sv_LastCheckedAt :: "time option"

record manager =
  mg_rows :: "svc_row list"
  mg_faults :: "error option list"
  mg_services :: "(string, svc_config) fmap"

text \<open>Two's complement reading of the low 64 bits.\<close>

definition wrap64 :: "int \<Rightarrow> int" where
  "wrap64 n = (n + 2 ^ 63) mod 2 ^ 64 - 2 ^ 63"

definition RFC3339 :: string where
  "RFC3339 = ''2006-01-02T15:04:05Z07:00''"

text \<open>The CHECK constraints of the table.\<close>

definition row_checks :: "string \<Rightarrow> int \<Rightarrow> bool" where
  "row_checks mode interval \<longleftrightarrow> (mode = ''webhook'' \<or> mode = ''poll'') \<and> interval \<ge> 30"

definition db_fault :: "manager \<Rightarrow> error option \<times> manager" where
  "db_fault m =
     (case mg_faults m of [] \<Rightarrow> (None, m) | f # fs \<Rightarrow> (f, m\<lparr>mg_faults := fs\<rparr>))"

definition row_config :: "time_io \<Rightarrow> svc_row \<Rightarrow> svc_config" where
  "row_config io r =
     \<lparr>sv_Name = sr_name r, sv_Image = sr_image r, sv_ComposeFile = sr_compose_file r,
      sv_TriggerMode = sr_trigger_mode r,
      sv_PollerInterval = wrap64 (sr_poller_interval r * second_ns),
      sv_LastDigest = (case sr_last_digest r of Some d \<Rightarrow> d | None \<Rightarrow> []),
      sv_LastCheckedAt = (case sr_last_checked_at r of
          Some s \<Rightarrow> time_parse io RFC3339 s
        | None \<Rightarrow> None)\<rparr>"

fun load_rows :: "time_io \<Rightarrow> svc_row list \<Rightarrow> (string, svc_config) fmap \<Rightarrow> (string, svc_config) fmap" where
  "load_rows io [] services = services"
| "load_rows io (r # rs) services =
     load_rows io rs (fmupd (sv_Name (row_config io r)) (row_config io r) services)"

definition Reload :: "time_io \<Rightarrow> manager \<Rightarrow> error option \<times> manager" where
  "Reload io m =
     (case db_fault m of
        (Some e, m) \<Rightarrow> (Some (''serviceconfig: query: '' @ e), m)
      | (None, m) \<Rightarrow> (None, m\<lparr>mg_services := load_rows io (mg_rows m) fmempty\<rparr>))"

definition NewManager :: "time_io \<Rightarrow> svc_row list \<Rightarrow> error option list \<Rightarrow> error option \<times> manager" where
  "NewManager io rows faults =
     Reload io \<lparr>mg_rows = rows, mg_faults = faults, mg_services = fmempty\<rparr>"

definition Get_service :: "string \<Rightarrow> manager \<Rightarrow> svc_config option" where
  "Get_service name m = fmlookup (mg_services m) name"

definition All_services :: "string list \<Rightarrow> manager \<Rightarrow> svc_config list" where
  "All_services order m = range_values order (mg_services m)"

text \<open>\<open>now\<close> is the formatted time.  These are calls that nothing interrupts; for calls that overlap see
  \<open>call_step\<close> below, whose steps they are composed of (\<open>alone_apply\<close>).\<close>

definition UpdateDigest :: "time_io \<Rightarrow> string \<Rightarrow> string \<Rightarrow> string \<Rightarrow> manager \<Rightarrow> error option \<times> manager" where
  "UpdateDigest io now name digest m =
     (case db_fault m of
        (Some e, m) \<Rightarrow> (Some (''serviceconfig: update digest: '' @ e), m)
      | (None, m) \<Rightarrow>
          Reload io (m\<lparr>mg_rows := List.map (\<lambda>r. if sr_name r = name
            then r\<lparr>sr_last_digest := Some digest, sr_last_checked_at := Some now, sr_updated_at := now\<rparr>
            else r) (mg_rows m)\<rparr>))"

definition UpdateConfig ::
  "time_io \<Rightarrow> string \<Rightarrow> string \<Rightarrow> string \<Rightarrow> int \<Rightarrow> manager \<Rightarrow> error option \<times> manager" where
  "UpdateConfig io now name triggerMode pollerInterval m =
     (case db_fault m of
        (Some e, m) \<Rightarrow> (Some (''serviceconfig: update config: '' @ e), m)
      | (None, m) \<Rightarrow>
          if list_ex (\<lambda>r. sr_name r = name) (mg_rows m) \<and> \<not> row_checks triggerMode pollerInterval
          then (Some (''serviceconfig: update config: '' @ ''CHECK constraint failed''), m)
          else
            Reload io (m\<lparr>mg_rows := List.map (\<lambda>r. if sr_name r = name
              then r\<lparr>sr_trigger_mode := triggerMode, sr_poller_interval := pollerInterval, sr_updated_at := now\<rparr>
              else r) (mg_rows m)\<rparr>))"

definition CreateConfig ::
  "time_io \<Rightarrow> string \<Rightarrow> string \<Rightarrow> string \<Rightarrow> string \<Rightarrow> string \<Rightarrow> int \<Rightarrow> manager \<Rightarrow> error option \<times> manager" where
  "CreateConfig io now name img composeFile triggerMode pollerInterval m =
     (case db_fault m of
        (Some e, m) \<Rightarrow> (Some (''serviceconfig: create config: '' @ e), m)
      | (None, m) \<Rightarrow>
          if list_ex (\<lambda>r. sr_name r = name) (mg_rows m)
          then (Some (''serviceconfig: create config: '' @ ''UNIQUE constraint failed''), m)
          else if \<not> row_checks triggerMode pollerInterval
          then (Some (''serviceconfig: create config: '' @ ''CHECK constraint failed''), m)
          else
            Reload io (m\<lparr>mg_rows := mg_rows m @
              [\<lparr>sr_name = name, sr_image = img, sr_compose_file = composeFile,
                sr_trigger_mode = triggerMode, sr_poller_interval = pollerInterval,
                sr_last_digest = None, sr_last_checked_at = None, sr_updated_at = now\<rparr>]\<rparr>))"

section \<open>Invariant\<close>

text \<open>
  The table satisfies its constraints, and every cached service is a former row of the table: its
  name is its key and its mode and interval satisfied the constraints.
\<close>

definition config_ok :: "string \<Rightarrow> svc_config \<Rightarrow> bool" where
  "config_ok name c \<longleftrightarrow> sv_Name c = name \<and> (sv_TriggerMode c = ''webhook'' \<or> sv_TriggerMode c = ''poll'') \<and>
     (\<exists>secs \<ge> 30. sv_PollerInterval c = wrap64 (secs * second_ns))"

definition manager_inv :: "manager \<Rightarrow> bool" where
  "manager_inv m \<longleftrightarrow> distinct (List.map sr_name (mg_rows m)) \<and>
     (\<forall>r \<in> set (mg_rows m). row_checks (sr_trigger_mode r) (sr_poller_interval r)) \<and>
     (\<forall>n c. fmlookup (mg_services m) n = Some c \<longrightarrow> config_ok n c)"

text \<open>The cache shows the table.\<close>

definition cache_fresh :: "time_io \<Rightarrow> manager \<Rightarrow> bool" where
  "cache_fresh io m \<longleftrightarrow> mg_services m = load_rows io (mg_rows m) fmempty"

lemma db_fault_frame:
  "db_fault m = (r, m') \<Longrightarrow> mg_rows m' = mg_rows m \<and> mg_services m' = mg_services m"
  by (auto simp: db_fault_def split: list.splits)

lemma db_fault_inv: "db_fault m = (r, m') \<Longrightarrow> manager_inv m \<Longrightarrow> manager_inv m'"
  using db_fault_frame [of m r m'] by (simp add: manager_inv_def)

lemma row_config_ok:
  "row_checks (sr_trigger_mode r) (sr_poller_interval r) \<Longrightarrow> config_ok (sr_name r) (row_config io r)"
  by (auto simp: config_ok_def row_config_def row_checks_def)

lemma load_rows_ok:
  assumes "\<forall>r \<in> set rs. row_checks (sr_trigger_mode r) (sr_poller_interval r)"
    and "\<forall>n c. fmlookup s n = Some c \<longrightarrow> config_ok n c"
  shows "fmlookup (load_rows io rs s) n = Some c \<Longrightarrow> config_ok n c"
  using assms
proof (induction rs arbitrary: s)
  case (Cons r rs)
  have "sv_Name (row_config io r) = sr_name r" by (simp add: row_config_def)
  then show ?case using Cons.prems row_config_ok [of r io]
    by (intro Cons.IH [of "fmupd (sv_Name (row_config io r)) (row_config io r) s"]) auto
qed simp

lemma load_rows_lookup:
  "distinct (List.map sr_name rs) \<Longrightarrow>
   fmlookup (load_rows io rs s) n =
     (case find (\<lambda>r. sr_name r = n) rs of Some r \<Rightarrow> Some (row_config io r) | None \<Rightarrow> fmlookup s n)"
proof (induction rs arbitrary: s)
  case (Cons r rs)
  have nm: "sv_Name (row_config io r) = sr_name r" by (simp add: row_config_def)
  show ?case
  proof (cases "sr_name r = n")
    case True
    have "n \<notin> sr_name ` set rs" using Cons.prems True by auto
    then have "find (\<lambda>r. sr_name r = n) rs = None" by (auto simp: find_None_iff)
    with Cons True nm show ?thesis by simp
  qed (use Cons nm in \<open>simp split: option.split\<close>)
qed simp

lemma Reload_inv: "manager_inv m \<Longrightarrow> manager_inv (snd (Reload io m))"
  using load_rows_ok [of _ fmempty io]
  by (auto simp: Reload_def dest!: db_fault_inv split: option.splits prod.splits)
    (auto simp: manager_inv_def)

lemma Reload_fresh: "Reload io m = (None, m') \<Longrightarrow> cache_fresh io m'"
  by (auto simp: Reload_def cache_fresh_def split: option.splits prod.splits)

lemma Reload_rows: "mg_rows (snd (Reload io m)) = mg_rows m"
  by (auto simp: Reload_def dest!: db_fault_frame split: option.splits prod.splits)

lemma map_rows_names:
  "(\<And>r. sr_name (f r) = sr_name r) \<Longrightarrow> List.map sr_name (List.map f rs) = List.map sr_name rs"
  by simp

lemma UpdateDigest_inv: "manager_inv m \<Longrightarrow> manager_inv (snd (UpdateDigest io now n d m))"
proof -
  assume m: "manager_inv m"
  have "manager_inv (m'\<lparr>mg_rows := List.map (\<lambda>r. if sr_name r = n
      then r\<lparr>sr_last_digest := Some d, sr_last_checked_at := Some now, sr_updated_at := now\<rparr> else r) (mg_rows m')\<rparr>)"
    if "manager_inv m'" for m'
    using that by (auto simp: manager_inv_def comp_def if_distrib [of sr_name] cong: if_cong)
  with m show ?thesis
    by (auto simp: UpdateDigest_def dest: db_fault_inv intro!: Reload_inv split: option.splits prod.splits)
qed

lemma UpdateConfig_inv: "manager_inv m \<Longrightarrow> manager_inv (snd (UpdateConfig io now n tm pi m))"
proof -
  assume m: "manager_inv m"
  have "manager_inv (m'\<lparr>mg_rows := List.map (\<lambda>r. if sr_name r = n
      then r\<lparr>sr_trigger_mode := tm, sr_poller_interval := pi, sr_updated_at := now\<rparr> else r) (mg_rows m')\<rparr>)"
    if "manager_inv m'" "\<not> (list_ex (\<lambda>r. sr_name r = n) (mg_rows m') \<and> \<not> row_checks tm pi)" for m'
    using that by (auto simp: manager_inv_def comp_def list_ex_iff if_distrib [of sr_name] cong: if_cong)
  with m show ?thesis
    by (auto simp: UpdateConfig_def dest: db_fault_inv intro!: Reload_inv split: option.splits prod.splits)
qed

lemma CreateConfig_inv: "manager_inv m \<Longrightarrow> manager_inv (snd (CreateConfig io now n im cf tm pi m))"
proof -
  assume m: "manager_inv m"
  have "manager_inv (m'\<lparr>mg_rows := mg_rows m' @
              [\<lparr>sr_name = n, sr_image = im, sr_compose_file = cf, sr_trigger_mode = tm, sr_poller_interval = pi,
                sr_last_digest = None, sr_last_checked_at = None, sr_updated_at = now\<rparr>]\<rparr>)"
    if "manager_inv m'" "\<not> list_ex (\<lambda>r. sr_name r = n) (mg_rows m')" "row_checks tm pi" for m'
    using that by (auto simp: manager_inv_def list_ex_iff)
  with m show ?thesis
    by (auto simp: CreateConfig_def dest: db_fault_inv intro!: Reload_inv split: option.splits prod.splits)
qed

datatype config_op =
    OpDigest string string string
  | OpUpdate string string string int
  | OpCreate string string string string string int
  | OpReload

fun config_apply :: "time_io \<Rightarrow> manager \<Rightarrow> config_op \<Rightarrow> error option \<times> manager" where
  "config_apply io m (OpDigest now n d) = UpdateDigest io now n d m"
| "config_apply io m (OpUpdate now n tm i) = UpdateConfig io now n tm i m"
| "config_apply io m (OpCreate now n img cf tm i) = CreateConfig io now n img cf tm i m"
| "config_apply io m OpReload = Reload io m"

definition config_step :: "time_io \<Rightarrow> manager \<Rightarrow> config_op \<Rightarrow> panic + manager" where
  "config_step io m e = Inr (snd (config_apply io m e))"

interpretation config_ops: safe_machine "config_step io" manager_inv for io
proof
  fix s e assume "manager_inv s"
  then show "\<exists>s'. config_step io s e = Inr s' \<and> manager_inv s'"
    by (cases e) (auto simp: config_step_def UpdateDigest_inv UpdateConfig_inv CreateConfig_inv Reload_inv)
qed

lemma config_apply_fresh: "config_apply io m e = (None, m') \<Longrightarrow> cache_fresh io m'"
  by (cases e)
    (auto simp: UpdateDigest_def UpdateConfig_def CreateConfig_def
      split: option.splits prod.splits if_splits dest: Reload_fresh)

section \<open>Calls that overlap\<close>

text \<open>
  The lock of the manager only covers the replacement of the map, and the pool of one connection
  (\<open>db.Open\<close>) only makes each statement atomic.  So when the poller's checks and requests call the
  operations at the same time, the statement, the query with its scan, and the replacement of a call are
  three steps between which others may run; \<open>config_apply\<close> above is a call that nobody interrupts.
\<close>

datatype call_phase =
    Executing
  | Querying
  | Swapping "(string, svc_config) fmap"
  | Finished "error option"

record svc_calls =
  sc_manager :: manager
  sc_calls :: "(config_op \<times> call_phase) list"

datatype svc_event = Calls config_op | Proceeds nat

fun op_error :: "config_op \<Rightarrow> error \<Rightarrow> error" where
  "op_error (OpDigest now n d) e = ''serviceconfig: update digest: '' @ e"
| "op_error (OpUpdate now n tm i) e = ''serviceconfig: update config: '' @ e"
| "op_error (OpCreate now n img cf tm i) e = ''serviceconfig: create config: '' @ e"
| "op_error OpReload e = e"

text \<open>What the statement of an operation does to the table.\<close>

fun exec_stmt :: "config_op \<Rightarrow> svc_row list \<Rightarrow> error + svc_row list" where
  "exec_stmt (OpDigest now n d) rows =
     Inr (List.map (\<lambda>r. if sr_name r = n
       then r\<lparr>sr_last_digest := Some d, sr_last_checked_at := Some now, sr_updated_at := now\<rparr> else r) rows)"
| "exec_stmt (OpUpdate now n tm i) rows =
     (if list_ex (\<lambda>r. sr_name r = n) rows \<and> \<not> row_checks tm i then Inl ''CHECK constraint failed''
      else Inr (List.map (\<lambda>r. if sr_name r = n
        then r\<lparr>sr_trigger_mode := tm, sr_poller_interval := i, sr_updated_at := now\<rparr> else r) rows))"
| "exec_stmt (OpCreate now n img cf tm i) rows =
     (if list_ex (\<lambda>r. sr_name r = n) rows then Inl ''UNIQUE constraint failed''
      else if \<not> row_checks tm i then Inl ''CHECK constraint failed''
      else Inr (rows @ [\<lparr>sr_name = n, sr_image = img, sr_compose_file = cf, sr_trigger_mode = tm,
        sr_poller_interval = i, sr_last_digest = None, sr_last_checked_at = None, sr_updated_at = now\<rparr>]))"
| "exec_stmt OpReload rows = Inr rows"

definition call_step :: "time_io \<Rightarrow> config_op \<Rightarrow> call_phase \<Rightarrow> manager \<Rightarrow> call_phase \<times> manager" where
  "call_step io op ph m =
     (case ph of
        Executing \<Rightarrow>
          (case db_fault m of
             (Some e, m) \<Rightarrow> (Finished (Some (op_error op e)), m)
           | (None, m) \<Rightarrow>
               (case exec_stmt op (mg_rows m) of
                  Inl e \<Rightarrow> (Finished (Some (op_error op e)), m)
                | Inr rows \<Rightarrow> (Querying, m\<lparr>mg_rows := rows\<rparr>)))
      | Querying \<Rightarrow>
          (case db_fault m of
             (Some e, m) \<Rightarrow> (Finished (Some (''serviceconfig: query: '' @ e)), m)
           | (None, m) \<Rightarrow> (Swapping (load_rows io (mg_rows m) fmempty), m))
      | Swapping services \<Rightarrow> (Finished None, m\<lparr>mg_services := services\<rparr>)
      | Finished r \<Rightarrow> (ph, m))"

definition svc_step :: "time_io \<Rightarrow> svc_calls \<Rightarrow> svc_event \<Rightarrow> svc_calls" where
  "svc_step io s e =
     (case e of
        Calls op \<Rightarrow> s\<lparr>sc_calls := sc_calls s @ [(op, if op = OpReload then Querying else Executing)]\<rparr>
      | Proceeds k \<Rightarrow>
          if k < length (sc_calls s) then
            let (op, ph) = sc_calls s ! k; (ph, m) = call_step io op ph (sc_manager s)
            in s\<lparr>sc_manager := m, sc_calls := (sc_calls s)[k := (op, ph)]\<rparr>
          else s)"

text \<open>A call that nobody interrupts is the operation.\<close>

definition alone :: "config_op \<Rightarrow> svc_calls \<Rightarrow> svc_event list" where
  "alone op s = Calls op # replicate 3 (Proceeds (length (sc_calls s)))"

lemma call_step_apply:
  assumes "call_step io op (if op = OpReload then Querying else Executing) m = (ph1, m1)"
    and "call_step io op ph1 m1 = (ph2, m2)" and "call_step io op ph2 m2 = (ph3, m3)"
  shows "\<exists>err. ph3 = Finished err \<and> config_apply io m op = (err, m3)"
  using assms
  by (cases op) (auto simp: call_step_def UpdateDigest_def UpdateConfig_def CreateConfig_def Reload_def
      split: prod.splits option.splits if_splits)

lemma alone_apply:
  "\<exists>err. sc_calls (foldl (svc_step io) s (alone op s)) = sc_calls s @ [(op, Finished err)] \<and>
     config_apply io (sc_manager s) op = (err, sc_manager (foldl (svc_step io) s (alone op s)))"
proof -
  let ?ph = "if op = OpReload then Querying else Executing"
  obtain ph1 m1 where c1: "call_step io op ?ph (sc_manager s) = (ph1, m1)" by fastforce
  obtain ph2 m2 where c2: "call_step io op ph1 m1 = (ph2, m2)" by fastforce
  obtain ph3 m3 where c3: "call_step io op ph2 m2 = (ph3, m3)" by fastforce
  have "foldl (svc_step io) s (alone op s) = s\<lparr>sc_manager := m3, sc_calls := sc_calls s @ [(op, ph3)]\<rparr>"
    using c1 c2 c3 by (simp add: alone_def numeral_3_eq_3 svc_step_def)
  with call_step_apply [OF c1 c2 c3] show ?thesis by auto
qed

lemma exec_stmt_ok:
  assumes "exec_stmt op (mg_rows m) = Inr rows" "manager_inv m"
  shows "manager_inv (m\<lparr>mg_rows := rows\<rparr>)"
  using assms
  by (cases op) (auto simp: manager_inv_def comp_def list_ex_iff if_distrib [of sr_name] cong: if_cong
      split: if_splits)

text \<open>The tables the calls have read so far: the caches they replace the map with are of one of them.\<close>

definition read_from :: "time_io \<Rightarrow> manager set \<Rightarrow> svc_calls \<Rightarrow> bool" where
  "read_from io ms s \<longleftrightarrow> (\<forall>m \<in> ms. manager_inv m) \<and> sc_manager s \<in> ms \<and>
     (let caches = (\<lambda>m. load_rows io (mg_rows m) fmempty) ` ms in
      mg_services (sc_manager s) \<in> caches \<and>
      (\<forall>op services. (op, Swapping services) \<in> set (sc_calls s) \<longrightarrow> services \<in> caches))"

lemma call_step_inv:
  assumes "manager_inv m" "call_step io op ph m = (ph', m')"
    and "\<And>services. ph = Swapping services \<Longrightarrow> \<exists>m0. manager_inv m0 \<and> services = load_rows io (mg_rows m0) fmempty"
  shows "manager_inv m'"
proof (cases ph)
  case (Swapping services)
  then obtain m0 where m0: "manager_inv m0" "services = load_rows io (mg_rows m0) fmempty" using assms(3) by blast
  have "config_ok n c" if "fmlookup services n = Some c" for n c
    using load_rows_ok [of "mg_rows m0" fmempty io n c] m0 that by (simp add: manager_inv_def)
  with assms(1,2) Swapping show ?thesis by (auto simp: call_step_def manager_inv_def)
qed (use assms(1,2) in \<open>auto simp: call_step_def dest: db_fault_inv exec_stmt_ok
    split: prod.splits option.splits sum.splits\<close>)

lemma call_step_reads:
  assumes "call_step io op ph m = (ph', m')"
  shows "mg_services m' = mg_services m \<or> ph = Swapping (mg_services m')"
    and "ph' = Swapping services \<Longrightarrow> services = load_rows io (mg_rows m') fmempty"
  using assms by (auto simp: call_step_def dest: db_fault_frame split: call_phase.splits prod.splits option.splits sum.splits)

lemma svc_step_read:
  assumes "read_from io ms s"
  shows "read_from io (insert (sc_manager (svc_step io s e)) ms) (svc_step io s e)"
proof (cases "\<exists>k. e = Proceeds k \<and> k < length (sc_calls s)")
  case True
  then obtain k where k: "e = Proceeds k" "k < length (sc_calls s)" by blast
  obtain op ph where c: "sc_calls s ! k = (op, ph)" by fastforce
  obtain ph' m' where p: "call_step io op ph (sc_manager s) = (ph', m')" by fastforce
  have s': "svc_step io s e = s\<lparr>sc_manager := m', sc_calls := (sc_calls s)[k := (op, ph')]\<rparr>"
    using k c p by (simp add: svc_step_def)
  have sw: "services \<in> (\<lambda>m. load_rows io (mg_rows m) fmempty) ` ms" if "ph = Swapping services" for services
    using assms that c k(2) nth_mem [OF k(2)] by (auto simp: read_from_def Let_def)
  have "manager_inv m'"
    using assms sw by (intro call_step_inv [OF _ p]) (auto simp: read_from_def)
  moreover have "mg_services m' \<in> (\<lambda>m. load_rows io (mg_rows m) fmempty) ` ms"
    using call_step_reads(1) [OF p] sw assms by (auto simp: read_from_def Let_def)
  ultimately show ?thesis using assms call_step_reads(2) [OF p]
    unfolding s' by (auto simp: read_from_def Let_def dest!: set_update_subset_insert [THEN subsetD])
next
  case False
  then have m: "sc_manager (svc_step io s e) = sc_manager s" by (auto simp: svc_step_def split: svc_event.split)
  have "(op, Swapping services) \<in> set (sc_calls s)"
    if "(op, Swapping services) \<in> set (sc_calls (svc_step io s e))" for op services
    using that False by (auto simp: svc_step_def split: svc_event.splits if_splits)
  moreover have "insert (sc_manager s) ms = ms" using assms by (auto simp: read_from_def)
  ultimately show ?thesis using assms unfolding m read_from_def Let_def by metis
qed

lemma svc_run_read:
  assumes "manager_inv (sc_manager s)" "cache_fresh io (sc_manager s)" "sc_calls s = []"
  shows "read_from io ((\<lambda>k. sc_manager (foldl (svc_step io) s (take k es))) ` {..length es}) (foldl (svc_step io) s es)"
proof (induction es rule: rev_induct)
  case Nil
  with assms show ?case by (simp add: read_from_def cache_fresh_def)
next
  case (snoc e es)
  have "(\<lambda>k. sc_manager (foldl (svc_step io) s (take k (es @ [e])))) ` {..length (es @ [e])} =
      insert (sc_manager (svc_step io (foldl (svc_step io) s es) e))
        ((\<lambda>k. sc_manager (foldl (svc_step io) s (take k es))) ` {..length es})"
    by (simp add: atMost_Suc)
  with svc_step_read [OF snoc.IH, of e] show ?case by simp
qed

section \<open>Properties\<close>

text \<open>C27: However calls of the operations overlap, and whichever database statements fail, the
  services table keeps its constraints, and the cache shows, name by name, the rows the table had at some
  moment since the start, never a mixture of two tables.  A call that nothing interrupts is the
  operation, and if it reports success the cache is then equal to the table.\<close>

theorem service_cache_agrees:
  fixes io :: time_io and m :: manager and es :: "svc_event list"
  assumes "manager_inv m" and "cache_fresh io m"
  defines "run \<equiv> \<lambda>es. foldl (svc_step io) \<lparr>sc_manager = m, sc_calls = []\<rparr> es"
    and "shows_table \<equiv> \<lambda>c t. \<forall>n. Get_service n c = map_option (row_config io) (find (\<lambda>r. sr_name r = n) (mg_rows t))"
  shows "manager_inv (sc_manager (run es)) \<and>
    (\<exists>es1 es2. es = es1 @ es2 \<and> shows_table (sc_manager (run es)) (sc_manager (run es1))) \<and>
    (\<forall>op. \<exists>err m'. config_apply io (sc_manager (run es)) op = (err, m') \<and>
       run (es @ alone op (run es)) = \<lparr>sc_manager = m', sc_calls = sc_calls (run es) @ [(op, Finished err)]\<rparr> \<and>
       (err = None \<longrightarrow> shows_table m' m'))"
proof (intro conjI allI)
  let ?s = "\<lparr>sc_manager = m, sc_calls = []\<rparr>"
  have r: "read_from io ((\<lambda>k. sc_manager (run (take k es))) ` {..length es}) (run es)"
    unfolding run_def using assms(1,2) by (intro svc_run_read) simp_all
  then show inv: "manager_inv (sc_manager (run es))" by (auto simp: read_from_def)
  have table: "shows_table c t" if "manager_inv t" "mg_services c = load_rows io (mg_rows t) fmempty" for c t
    using that by (simp add: shows_table_def Get_service_def load_rows_lookup manager_inv_def split: option.split)
  from r obtain k where
    "mg_services (sc_manager (run es)) = load_rows io (mg_rows (sc_manager (run (take k es)))) fmempty"
    "manager_inv (sc_manager (run (take k es)))" by (auto simp: read_from_def Let_def)
  with table have "shows_table (sc_manager (run es)) (sc_manager (run (take k es)))" by blast
  then show "\<exists>es1 es2. es = es1 @ es2 \<and> shows_table (sc_manager (run es)) (sc_manager (run es1))"
    by (metis append_take_drop_id)
  fix op
  let ?s' = "run (es @ alone op (run es))"
  obtain err where c: "sc_calls ?s' = sc_calls (run es) @ [(op, Finished err)]"
    "config_apply io (sc_manager (run es)) op = (err, sc_manager ?s')"
    using alone_apply [of io "run es" op] by (auto simp: run_def)
  have "manager_inv (sc_manager ?s')"
    using config_ops.step_inv [OF inv, of io op] c(2) by (simp add: config_step_def)
  then have "err = None \<longrightarrow> shows_table (sc_manager ?s') (sc_manager ?s')"
    using table config_apply_fresh [of io "sc_manager (run es)" op "sc_manager ?s'"] c(2) by (auto simp: cache_fresh_def)
  with c show "\<exists>err m'. config_apply io (sc_manager (run es)) op = (err, m') \<and>
       ?s' = \<lparr>sc_manager = m', sc_calls = sc_calls (run es) @ [(op, Finished err)]\<rparr> \<and> (err = None \<longrightarrow> shows_table m' m')"
    by (intro exI [of _ err] exI [of _ "sc_manager ?s'"]) simp
qed

definition demo_manager :: manager where
  "demo_manager = \<lparr>mg_rows = [], mg_faults = [], mg_services = fmempty\<rparr>"

lemma demo_manager_inv: "manager_inv demo_manager"
  by (simp add: manager_inv_def demo_manager_def)

definition demo_service :: config_op where
  "demo_service = OpCreate ''t0'' ''web'' ''web:1'' [] ''poll'' 60"

theorem service_cache_agrees_witness:
  "\<exists>m2. config_apply demo_io demo_manager demo_service = (None, m2) \<and>
     (\<exists>c. Get_service ''web'' m2 = Some c \<and> sv_PollerInterval c = 60 * second_ns)"
proof -
  have "cache_fresh demo_io demo_manager" by (simp add: cache_fresh_def demo_manager_def)
  from service_cache_agrees [OF demo_manager_inv this, of "[]"]
  have g: "Get_service n m2 = map_option (row_config demo_io) (find (\<lambda>r. sr_name r = n) (mg_rows m2))"
    if "config_apply demo_io demo_manager op = (None, m2)" for op m2 n
    using that by (metis foldl_Nil option.discI prod.inject svc_calls.select_convs(1))
  obtain m2 where m2: "config_apply demo_io demo_manager demo_service = (None, m2)"
    "mg_rows m2 = [\<lparr>sr_name = ''web'', sr_image = ''web:1'', sr_compose_file = [], sr_trigger_mode = ''poll'',
       sr_poller_interval = 60, sr_last_digest = None, sr_last_checked_at = None, sr_updated_at = ''t0''\<rparr>]"
    by (simp add: demo_service_def CreateConfig_def demo_manager_def db_fault_def row_checks_def Reload_def)
  with g [OF m2(1), of "''web''"] show ?thesis
    by (simp add: row_config_def wrap64_def second_ns_def)
qed

text \<open>Two calls that both report success can leave the cache behind the table, for good: the first reads the
  table, the second changes it, reads it and replaces the map, and then the first replaces the map with what it
  had read.\<close>

theorem overlapping_updates_leave_stale_cache:
  fixes io :: time_io and now1 now2 d1 d2 n :: string
  assumes "manager_inv m" and "mg_faults m = []" and "r \<in> set (mg_rows m)" and "sr_name r = n"
    and "d1 \<noteq> d2"
  defines "s \<equiv> foldl (svc_step io) \<lparr>sc_manager = m, sc_calls = []\<rparr>
    [Calls (OpDigest now1 n d1), Calls (OpDigest now2 n d2), Proceeds 0, Proceeds 0, Proceeds 1, Proceeds 1, Proceeds 1,
     Proceeds 0]"
  shows "map snd (sc_calls s) = [Finished None, Finished None] \<and>
    (\<exists>r'. find (\<lambda>r. sr_name r = n) (mg_rows (sc_manager s)) = Some r' \<and> sr_last_digest r' = Some d2) \<and>
    map_option sv_LastDigest (Get_service n (sc_manager s)) = Some d1"
proof -
  define upd :: "string \<Rightarrow> string \<Rightarrow> svc_row \<Rightarrow> svc_row" where "upd = (\<lambda>now d r. if sr_name r = n
      then r\<lparr>sr_last_digest := Some d, sr_last_checked_at := Some now, sr_updated_at := now\<rparr> else r)"
  let ?rows = "List.map (upd now1 d1) (mg_rows m)"
  have s: "s = \<lparr>sc_manager = m\<lparr>mg_rows := List.map (upd now2 d2) ?rows, mg_services := load_rows io ?rows fmempty\<rparr>,
      sc_calls = [(OpDigest now1 n d1, Finished None), (OpDigest now2 n d2, Finished None)]\<rparr>"
    by (simp add: s_def svc_step_def call_step_def db_fault_def assms(2) upd_def)
  have found: "\<exists>r'. find (\<lambda>r. sr_name r = n) (List.map (upd now d) rs) = Some r' \<and> sr_last_digest r' = Some d"
    if "r \<in> set rs" "sr_name r = n" for now d and rs :: "svc_row list" and r
    using that by (induction rs) (auto simp: upd_def)
  have nm: "sr_name (upd now d r) = sr_name r" for now d r by (simp add: upd_def)
  have d: "distinct (List.map sr_name ?rows)" using assms(1) nm by (simp add: manager_inv_def comp_def)
  have "upd now1 d1 r \<in> set ?rows" "sr_name (upd now1 d1 r) = n" using assms(3,4) nm by simp_all
  from found [OF this, of now2 d2] found [OF assms(3,4), of now1 d1] show ?thesis
    by (auto simp: s Get_service_def load_rows_lookup [OF d] row_config_def)
qed

end
