(* ===== verification/World.thy ===== *)
theory World
  imports Bus Store Deploy_Registry Docker_Client History Compose Service_Config
begin

text \<open>
  What the components of the server share, wired together by \<open>cmd/dockwatch/main.go\<close>: the bus, the
  container store, the job registry, the history, the
  services and their cache, the host's files and the Docker daemon.  Every
  component's handler is a step on this state.  Handlers of different components run in goroutines
  of their own; each handler here is one step, and where the interleaving inside a handler
  matters the handler is given in pieces.
\<close>

record 'd world =
  w_bus :: bus
  w_store :: store
  w_jobs :: job_registry
  w_hist :: hist
  w_config :: manager
  w_fs :: fs
  w_docker :: 'd

definition world_inv :: "'d world \<Rightarrow> bool" where
  "world_inv w \<longleftrightarrow> bus_inv (w_bus w) \<and> store_inv (w_store w) \<and> registry_inv (w_jobs w) \<and> hist_inv (w_hist w) \<and>
     manager_inv (w_config w)"

lemma world_invD:
  assumes "world_inv w"
  shows "bus_inv (w_bus w)" "store_inv (w_store w)" "registry_inv (w_jobs w)" "hist_inv (w_hist w)" "manager_inv (w_config w)"
  using assms by (simp_all add: world_inv_def)

lemma world_inv_docker [simp]: "world_inv (w\<lparr>w_docker := d\<rparr>) = world_inv w"
  by (simp add: world_inv_def)

lemma world_inv_fs [simp]: "world_inv (w\<lparr>w_fs := f\<rparr>) = world_inv w"
  by (simp add: world_inv_def)

text \<open>A publication in a well-formed world.\<close>

definition publish_w :: "topic \<Rightarrow> payload \<Rightarrow> 'd world \<Rightarrow> panic + 'd world" where
  "publish_w t p w =
     (case Publish t p (w_bus w) of
        Inl e \<Rightarrow> Inl e
      | Inr b \<Rightarrow> Inr (w\<lparr>w_bus := b\<rparr>))"

lemma publish_w_eq:
  "world_inv w \<Longrightarrow> publish_w t p w = Inr (w\<lparr>w_bus := deliver t p (w_bus w)\<rparr>)"
  by (simp add: publish_w_def Publish_deliver world_inv_def)

lemma deliver_world_inv: "world_inv w \<Longrightarrow> world_inv (w\<lparr>w_bus := deliver t p (w_bus w)\<rparr>)"
  by (simp add: world_inv_def deliver_inv)

lemma world_inv_upd:
  "world_inv w \<Longrightarrow> registry_inv r \<Longrightarrow> world_inv (w\<lparr>w_jobs := r\<rparr>)"
  "world_inv w \<Longrightarrow> store_inv s \<Longrightarrow> world_inv (w\<lparr>w_store := s\<rparr>)"
  "world_inv w \<Longrightarrow> hist_inv h \<Longrightarrow> world_inv (w\<lparr>w_hist := h\<rparr>)"
  "world_inv w \<Longrightarrow> manager_inv c \<Longrightarrow> world_inv (w\<lparr>w_config := c\<rparr>)"
  by (simp_all add: world_inv_def)

text \<open>A list of detected updates, published in order.\<close>

definition deliver_updates :: "image_updated list \<Rightarrow> bus \<Rightarrow> bus" where
  "deliver_updates ps b = fold (\<lambda>p. deliver TopicImageUpdated (ImageUpdatedPayload p)) ps b"

lemma deliver_updates_inv: "bus_inv b \<Longrightarrow> bus_inv (deliver_updates ps b)"
  by (induction ps arbitrary: b) (auto simp: deliver_updates_def deliver_inv)

lemma deliver_updates_Cons [simp]:
  "deliver_updates [] b = b"
  "deliver_updates (p # ps) b = deliver_updates ps (deliver TopicImageUpdated (ImageUpdatedPayload p) b)"
  by (simp_all add: deliver_updates_def)

section \<open>An example\<close>

definition demo_world :: "demo_daemon world" where
  "demo_world = \<lparr>w_bus = demo_bus, w_store = demo_store, w_jobs = NewRegistry, w_hist = demo_hist, w_config = demo_manager,
     w_fs = demo_fs, w_docker = demo_start\<rparr>"

lemma demo_world_inv: "world_inv demo_world"
  by (simp add: world_inv_def demo_world_def demo_bus_inv demo_store_inv NewRegistry_inv demo_hist_inv demo_manager_inv)

end
