(* ===== verification/Github.thy ===== *)
theory Github
  imports Semver
begin

text \<open>
  Release notes, \<open>internal/github/github.go\<close>.  The HTTP exchange with \<open>api.github.com\<close> and the
  JSON decoder are arguments: \<open>http url token\<close> is the status and body of the response, \<open>None\<close>
  if no request could be built or sent, and \<open>decode\<close> the releases of a body.  Which releases are
  reported, and how, is the code's own.
\<close>

section \<open>Definitions\<close>

record release =
  rel_TagName :: string
  rel_Name :: string
  rel_Body :: string

record github =
  gh_http :: "string \<Rightarrow> string \<Rightarrow> (nat \<times> string) option"
  gh_decode :: "string \<Rightarrow> release list option"
  gh_token :: string

definition apiBase :: string where
  "apiBase = ''https://api.github.com''"

definition githubPrefix :: string where
  "githubPrefix = ''https://github.com/''"

definition parseGitHubURL :: "string \<Rightarrow> (string \<times> string) option" where
  "parseGitHubURL rawURL =
     (let rawURL = TrimSuffix rawURL ''.git'';
          parts = Split (TrimPrefix rawURL githubPrefix) CHR ''/''
      in if length parts < 2 \<or> parts ! 0 = [] \<or> parts ! 1 = [] then None
         else Some (parts ! 0, parts ! 1))"

text \<open>Go compares strings byte by byte.\<close>

fun str_less :: "string \<Rightarrow> string \<Rightarrow> bool" where
  "str_less [] ys = (ys \<noteq> [])"
| "str_less (x # xs) [] = False"
| "str_less (x # xs) (y # ys) =
     ((of_char x :: nat) < of_char y \<or> (x = y \<and> str_less xs ys))"

definition betweenVersions :: "string \<Rightarrow> string \<Rightarrow> string \<Rightarrow> bool" where
  "betweenVersions tag from_ver to_ver =
     (let t = TrimPrefix tag ''v''; f = TrimPrefix from_ver ''v''; tt = TrimPrefix to_ver ''v''
      in str_less f t \<and> \<not> str_less tt t)"

text \<open>The ellipsis that ends a shortened body, in UTF-8.\<close>

definition ellipsis :: string where
  "ellipsis = [CHR 0xE2, CHR 0x80, CHR 0xA6]"

definition release_note :: "release \<Rightarrow> string" where
  "release_note r =
     (let title = (if rel_Name r = [] then rel_TagName r else rel_Name r);
          body = rel_Body r;
          body = (if length body > 200 then take 200 body @ ellipsis else body)
      in if body \<noteq> [] then title @ '': '' @ TrimSpace body else title)"

definition FetchReleaseNotes :: "github \<Rightarrow> string \<Rightarrow> string \<Rightarrow> string \<Rightarrow> string list" where
  "FetchReleaseNotes c repoURL fromVersion toVersion =
     (case parseGitHubURL repoURL of
        None \<Rightarrow> []
      | Some (owner, repo) \<Rightarrow>
          (case gh_http c (apiBase @ ''/repos/'' @ owner @ ''/'' @ repo @ ''/releases'') (gh_token c) of
             None \<Rightarrow> []
           | Some (code, body) \<Rightarrow>
               (if code \<noteq> 200 then []
                else (case gh_decode c body of
                        None \<Rightarrow> []
                      | Some releases \<Rightarrow>
                          map release_note
                            (filter (\<lambda>r. betweenVersions (rel_TagName r) fromVersion toVersion)
                              releases)))))"

section \<open>Comparing version strings\<close>

lemma str_less_irrefl [simp]: "\<not> str_less s s"
  by (induction s) auto

lemma str_less_first:
  "(of_char y :: nat) < of_char x \<Longrightarrow> \<not> str_less (x # xs) (y # ys)"
  by auto

lemma hd_show_nat_pow: "hd (show_nat (10 ^ k)) = CHR ''1''"
proof (induction k)
  case 0
  have "char_of (49 :: nat) = CHR ''1''" by code_simp
  then show ?case by (simp add: show_nat.simps [of "Suc 0"] digit_char_def)
next
  case (Suc k)
  have "show_nat (10 ^ Suc k) = show_nat (10 ^ k) @ [digit_char 0]"
    by (subst show_nat.simps) simp
  with Suc show ?case by simp
qed

lemma hd_show_nat_nines: "0 < k \<Longrightarrow> hd (show_nat (10 ^ k - 1)) = CHR ''9''"
proof (induction k)
  case (Suc k)
  show ?case
  proof (cases k)
    case 0
    have "char_of (57 :: nat) = CHR ''9''" by code_simp
    with 0 show ?thesis by (simp add: show_nat.simps [of 9] digit_char_def)
  next
    case (Suc l)
    define p :: nat where "p = 10 ^ k"
    have "10 \<le> p" using Suc by (simp add: p_def)
    then have "10 * p - 1 = 10 * (p - 1) + 9" by simp
    then have "(10 * p - 1) div 10 = p - 1" "\<not> 10 * p - 1 < 10" using \<open>10 \<le> p\<close> by auto
    then have "show_nat (10 * p - 1) = show_nat (p - 1) @ [digit_char ((10 * p - 1) mod 10)]"
      by (subst show_nat.simps) simp
    with Suc Suc.IH show ?thesis by (simp add: p_def)
  qed
qed simp

lemma TrimPrefix_v_show: "TrimPrefix (showVersion a b c) ''v'' = showVersion a b c"
proof -
  obtain x xs where x: "show_nat a = x # xs" by (cases "show_nat a") auto
  then have "is_digit x" using show_nat_digits [of a] by simp
  then have "x \<noteq> CHR ''v''" using digit_not_sign by blast
  then show ?thesis by (simp add: TrimPrefix_def showVersion_def x)
qed

section \<open>Properties\<close>

text \<open>Versions are compared as text, so when the major version gains a digit, as from 9 to 10,
  no release of the new major version counts as newer: the notes of exactly the breaking release
  are never found, whatever the upper bound.\<close>

theorem release_notes_miss_new_digit:
  assumes "0 < k"
  shows "\<not> betweenVersions (showVersion (10 ^ k) a b) (showVersion (10 ^ k - 1) c d) to_ver"
proof -
  obtain xs where x: "show_nat (10 ^ k) = CHR ''1'' # xs"
    using hd_show_nat_pow [of k] by (cases "show_nat (10 ^ k)") auto
  obtain ys where y: "show_nat (10 ^ k - 1) = CHR ''9'' # ys"
    using hd_show_nat_nines [OF assms] by (cases "show_nat (10 ^ k - 1)") auto
  then have y': "show_nat (10 ^ k - Suc 0) = CHR ''9'' # ys" by simp
  have "\<not> str_less (showVersion (10 ^ k - 1) c d) (showVersion (10 ^ k) a b)"
    by (simp add: showVersion_def x y')
  then show ?thesis by (simp add: betweenVersions_def TrimPrefix_v_show)
qed

theorem release_notes_miss_new_digit_witness:
  "\<not> betweenVersions (showVersion 10 0 0) (showVersion 9 4 2) (showVersion 10 0 0) \<and>
   isMajorBump ''app:9.4.2'' ''app:10.0.0''"
proof
  show "\<not> betweenVersions (showVersion 10 0 0) (showVersion 9 4 2) (showVersion 10 0 0)"
    using release_notes_miss_new_digit [of 1 0 0 4 2 "showVersion 10 0 0"] by simp
qed code_simp

end
