(* ===== verification/Carrier.thy ===== *)
theory Carrier
  imports Store
begin

text \<open>
  Recreating a container gives it a new id.  The executor and the rollback engine both move the
  container's state under the new id and push the digest they applied; \<open>digest_carrier\<close> is that
  contract, and its lemmas say what the digest ring then holds.
\<close>

locale digest_carrier =
  fixes carry :: "time \<Rightarrow> string \<Rightarrow> string \<Rightarrow> string \<Rightarrow> string \<Rightarrow> store \<Rightarrow> store"
  assumes carry_inv: "store_inv s \<Longrightarrow> store_inv (carry now old img d new s)"
    and carry_state_of:
      "store_inv s \<Longrightarrow> state_of s old = Some c \<Longrightarrow> new \<noteq> [] \<Longrightarrow>
       state_of (carry now old img d new s) j =
         (if j = new then Some (PushDigest img d now (c\<lparr>cs_ID := new\<rparr>))
          else if j = old then None else state_of s j)"
begin

lemma carried_digests:
  assumes "store_inv s" "state_of s old = Some c" "new \<noteq> []"
  shows "\<exists>c'. state_of (carry now old img d new s) new = Some c' \<and> CurrentDigest c' = d \<and>
    PreviousDigest c' = CurrentDigest c \<and> cs_Labels c' = cs_Labels c \<and> cs_Image c' = cs_Image c \<and>
    digests c' = take digestHistorySize (d # digests c)"
proof -
  have "CurrentDigest (c\<lparr>cs_ID := new\<rparr>) = CurrentDigest c" "digests (c\<lparr>cs_ID := new\<rparr>) = digests c"
    by (simp_all add: CurrentDigest_def digests_def)
  then show ?thesis using carry_state_of [OF assms] by (simp add: digests_PushDigest)
qed

end

text \<open>
  An update followed by a rollback, through any two carriers: the digest in use is the old one
  again, but the digest a further rollback would restore is the bad one.
\<close>

lemma update_then_rollback:
  assumes "digest_carrier f" "digest_carrier g" "store_inv s" "state_of s i0 = Some c"
    "i1 \<noteq> []" "i2 \<noteq> []"
  shows "\<exists>c2. state_of (g t2 i1 img2 (CurrentDigest c) i2 (f t1 i0 img1 d1 i1 s)) i2 = Some c2 \<and>
    CurrentDigest c2 = CurrentDigest c \<and> PreviousDigest c2 = d1"
proof -
  obtain c1 where c1: "state_of (f t1 i0 img1 d1 i1 s) i1 = Some c1" "CurrentDigest c1 = d1"
    using digest_carrier.carried_digests [OF assms(1,3,4,5)] by blast
  have "store_inv (f t1 i0 img1 d1 i1 s)" by (rule digest_carrier.carry_inv [OF assms(1,3)])
  from digest_carrier.carried_digests [OF assms(2) this c1(1) assms(6), of t2 img2 "CurrentDigest c"] c1(2)
  show ?thesis by blast
qed

end
