(* ===== verification/Executor.thy ===== *)
theory Executor
  imports World Github Carrier
begin

text \<open>
  The executor, \<open>internal/executor/executor.go\<close>: what it does with an \<open>image.updated\<close> event.  Its
  policy (strategies, versions) is in \<open>Semver\<close>.  Pointers the constructor may receive as nil are
  options or flags of \<open>executor\<close>.  \<open>now 0\<close>, \<open>now 1\<close>, \<dots> are the successive readings of the
  clock in one run of \<open>handle\<close>, and \<open>rand\<close> the bytes drawn for the job's id.
\<close>

section \<open>Definitions\<close>

record 'd executor =
  e_docker :: "'d scoped"
  e_gh :: "github option"
  e_history :: bool
  e_jobRegistry :: bool
  e_compose :: "'d compose_env"
  e_time :: time_io

definition labelSource :: string where
  "labelSource = ''org.opencontainers.image.source''"

definition fetchReleaseNotes :: "'d executor \<Rightarrow> labels \<Rightarrow> string \<Rightarrow> string \<Rightarrow> string list" where
  "fetchReleaseNotes e labels oldImage newImage =
     (let source = map_get labels labelSource in
      case e_gh e of
        None \<Rightarrow> []
      | Some gh \<Rightarrow>
          if source = [] then []
          else FetchReleaseNotes gh source (imageTag oldImage) (imageTag newImage))"

text \<open>The strategy in force: containers managed by compose need a label of their own.\<close>

definition effective_strategy :: "labels \<Rightarrow> strategy" where
  "effective_strategy labels =
     (case FromLabels labels of
        Some info \<Rightarrow>
          if map_get labels labelComposeUpdate \<noteq> ''auto'' then StrategyNotify
          else strategyFromLabels labels
      | None \<Rightarrow> strategyFromLabels labels)"

definition skip_payload ::
  "'d executor \<Rightarrow> time \<Rightarrow> image_updated \<Rightarrow> container_state \<Rightarrow> update_skipped" where
  "skip_payload e now p cs =
     (let strategy = effective_strategy (cs_Labels cs);
          breakingChange = isMajorBump (cs_Image cs) (iu_Image p)
      in \<lparr>us_ContainerID = iu_ContainerID p, us_ContainerName = iu_ContainerName p,
          us_Image = iu_Image p, us_NewDigest = iu_NewDigest p,
          us_Reason = ''semver strategy: '' @ strategy, us_BreakingChange = breakingChange,
          us_ReleaseNotes =
            (if breakingChange then fetchReleaseNotes e (cs_Labels cs) (cs_Image cs) (iu_Image p) else []),
          us_SkippedAt = now\<rparr>)"

text \<open>Creating, registering and starting the job; no registry, no job.\<close>

definition begin_job ::
  "'d executor \<Rightarrow> time \<Rightarrow> byte list \<Rightarrow> image_updated \<Rightarrow> 'd world \<Rightarrow> panic + addr option \<times> 'd world" where
  "begin_job e now rand p w =
     (if e_jobRegistry e then
        let (a, r) = alloc_job (NewJob rand now (iu_ContainerName p) (iu_Image p) ''poll'') (w_jobs w);
            (_, r) = Register a r
        in case job_at a (MoveTo StatusRunning now) r of
             Inl x \<Rightarrow> Inl x
           | Inr r \<Rightarrow> Inr (Some a, w\<lparr>w_jobs := r\<rparr>)
      else Inr (None, w))"

definition start_entry :: "image_updated \<Rightarrow> container_state \<Rightarrow> deploy_job \<Rightarrow> hist_entry" where
  "start_entry p cs job =
     \<lparr>he_ID = 0, he_AppName = iu_ContainerName p, he_Service = iu_ContainerName p,
      he_OldImage = cs_Image cs, he_NewImage = iu_Image p, he_ImageTag = imageTag (iu_Image p),
      he_BackupPath = [], he_DeployID = dj_ID job, he_TriggerSource = dj_TriggerSource job,
      he_Status = ''running'', he_Reason = [], he_DurationMs = None,
      he_StartedAt = sn_StartedAt (Snap job), he_EndedAt = None, he_CreatedAt = zero_time\<rparr>"

definition record_start ::
  "'d executor \<Rightarrow> time \<Rightarrow> image_updated \<Rightarrow> container_state \<Rightarrow> addr option \<Rightarrow> 'd world \<Rightarrow> 'd world" where
  "record_start e now p cs job w =
     (case job of
        Some a \<Rightarrow>
          if e_history e
          then w\<lparr>w_hist := snd (RecordDeploy (e_time e) now (start_entry p cs (jr_heap (w_jobs w) a)) (w_hist w))\<rparr>
          else w
      | None \<Rightarrow> w)"

text \<open>The new id, the backup path and the error.\<close>

definition apply_update ::
  "'d executor \<Rightarrow> time \<Rightarrow> image_updated \<Rightarrow> container_state \<Rightarrow> addr option \<Rightarrow> 'd world \<Rightarrow>
     panic + (string \<times> string \<times> error option) \<times> 'd world" where
  "apply_update e now p cs job w =
     (case (if map_get (cs_Labels cs) labelComposeUpdate = ''auto'' then FromLabels (cs_Labels cs) else None) of
        Some info \<Rightarrow>
          let newTag = imageTag (iu_Image p);
              histDir = (if e_history e then hs_histDir (w_hist w) else [])
          in (case ApplyUpdate (e_compose e) now info newTag histDir job (w_fs w) (w_jobs w) (w_docker w) of
                Inl x \<Rightarrow> Inl x
              | Inr ((backupPath, err), f, r, d) \<Rightarrow>
                  Inr (([], backupPath, err), w\<lparr>w_fs := f, w_jobs := r, w_docker := d\<rparr>))
      | None \<Rightarrow>
          let ref = imageRef (iu_Image p) (iu_NewDigest p);
              ((newID, err), d) = Recreate (e_docker e) (iu_ContainerID p) ref (w_docker w)
          in Inr ((newID, [], err), w\<lparr>w_docker := d\<rparr>))"

text \<open>A final transition of the job and of its history row.\<close>

definition end_job ::
  "'d executor \<Rightarrow> job_status \<Rightarrow> string \<Rightarrow> time \<Rightarrow> (deploy_job \<Rightarrow> time) \<Rightarrow> addr option \<Rightarrow> 'd world \<Rightarrow>
     panic + 'd world" where
  "end_job e status text now endedAt job w =
     (case job of
        None \<Rightarrow> Inr w
      | Some a \<Rightarrow>
          (case job_at a (MoveTo status now) (w_jobs w) of
             Inl x \<Rightarrow> Inl x
           | Inr r \<Rightarrow>
               let w = w\<lparr>w_jobs := r\<rparr>; j = jr_heap r a in
               Inr (if e_history e
                    then w\<lparr>w_hist := snd (FinishDeploy (e_time e) (dj_ID j) text (endedAt j) (w_hist w))\<rparr>
                    else w)))"

definition applied_payload :: "time \<Rightarrow> image_updated \<Rightarrow> string \<Rightarrow> payload" where
  "applied_payload now p newID =
     UpdateAppliedPayload \<lparr>ua_ContainerID = newID, ua_ContainerName = iu_ContainerName p,
       ua_Image = iu_Image p, ua_OldDigest = iu_OldDigest p, ua_NewDigest = iu_NewDigest p,
       ua_AppliedAt = now\<rparr>"

text \<open>Moving the state \<open>cs\<close> points to under the new id and recording the digest.\<close>

definition carry_state ::
  "time \<Rightarrow> string \<Rightarrow> string \<Rightarrow> string \<Rightarrow> addr \<Rightarrow> string \<Rightarrow> store \<Rightarrow> store" where
  "carry_state now oldID img digest cs newID s =
     (if newID \<noteq> [] then
        let (moved, s) = Rekey oldID newID s;
            moved = (case moved of None \<Rightarrow> cs | Some a \<Rightarrow> a)
        in push_at moved img digest now s
      else s)"

text \<open>Everything after \<open>apply\<close>.\<close>

definition handle_result ::
  "'d executor \<Rightarrow> (nat \<Rightarrow> time) \<Rightarrow> image_updated \<Rightarrow> addr \<Rightarrow> addr option \<Rightarrow> string \<times> string \<times> error option \<Rightarrow>
     'd world \<Rightarrow> panic + 'd world" where
  "handle_result e now p cs job result w =
     (case result of
        (newID, _, Some err) \<Rightarrow>
          end_job e StatusFailed ''failed'' (now 3) (\<lambda>_. now 4) job w
      | (newID, _, None) \<Rightarrow>
          (case end_job e StatusSuccess ''success'' (now 3)
                  (\<lambda>j. case sn_EndedAt (Snap j) of Some t \<Rightarrow> t | None \<Rightarrow> now 4) job w of
             Inl x \<Rightarrow> Inl x
           | Inr w \<Rightarrow>
               publish_w TopicUpdateApplied (applied_payload (now 6) p newID)
                 (w\<lparr>w_store := carry_state (now 5) (iu_ContainerID p) (iu_Image p) (iu_NewDigest p) cs
                    newID (w_store w)\<rparr>)))"

text \<open>The deferred \<open>Finish\<close>.\<close>

definition finish_job :: "addr option \<Rightarrow> 'd world \<Rightarrow> 'd world" where
  "finish_job job w =
     (case job of
        None \<Rightarrow> w
      | Some a \<Rightarrow> w\<lparr>w_jobs := Finish (dj_ID (jr_heap (w_jobs w) a)) (w_jobs w)\<rparr>)"

definition handle ::
  "'d executor \<Rightarrow> (nat \<Rightarrow> time) \<Rightarrow> byte list \<Rightarrow> image_updated \<Rightarrow> 'd world \<Rightarrow> panic + 'd world" where
  "handle e now rand p w =
     (case Get (iu_ContainerID p) (w_store w) of
        None \<Rightarrow> Inr w
      | Some a \<Rightarrow>
          let cs = st_heap (w_store w) a in
          if \<not> watchEnabled (cs_Labels cs) then Inr w
          else
            let strategy = effective_strategy (cs_Labels cs) in
            if \<not> evaluate strategy (iu_Image p) (cs_Image cs)
            then publish_w TopicUpdateSkipped (UpdateSkippedPayload (skip_payload e (now 0) p cs)) w
            else
              (case begin_job e (now 0) rand p w of
                 Inl x \<Rightarrow> Inl x
               | Inr (job, w) \<Rightarrow>
                   let w = record_start e (now 1) p cs job w in
                   (case apply_update e (now 2) p cs job w of
                      Inl x \<Rightarrow> Inl x
                    | Inr (result, w) \<Rightarrow>
                        (case handle_result e now p a job result w of
                           Inl x \<Rightarrow> Inl x
                         | Inr w \<Rightarrow> Inr (finish_job job w)))))"

section \<open>The store after an update\<close>

definition executor_carry :: "time \<Rightarrow> string \<Rightarrow> string \<Rightarrow> string \<Rightarrow> string \<Rightarrow> store \<Rightarrow> store" where
  "executor_carry now old img d new s =
     (case Get old s of None \<Rightarrow> s | Some a \<Rightarrow> carry_state now old img d a new s)"

lemma carry_state_inv: "store_inv s \<Longrightarrow> store_inv (carry_state now old img d a new s)"
  using Rekey_inv [of s old new] by (auto simp: carry_state_def push_at_inv split: prod.splits)

lemma carry_state_known:
  assumes "store_inv s" "fmlookup (st_containers s) old = Some a" "new \<noteq> []"
  shows "state_of (carry_state now old img d a new s) j =
    (if j = new then Some (PushDigest img d now ((st_heap s a)\<lparr>cs_ID := new\<rparr>))
     else if j = old then None else state_of s j)"
proof -
  let ?t = "snd (Rekey old new s)"
  have r: "Rekey old new s = (Some a, ?t)" using assms(2) by (simp add: Rekey_def)
  have inv: "store_inv ?t" by (rule Rekey_inv [OF assms(1)])
  have "fmlookup (st_containers ?t) j = Some a \<longleftrightarrow> j = new"
    using store_inv_inj [OF inv, of new a j] Rekey_lookup [OF assms(2), of new] by auto
  moreover have "carry_state now old img d a new s = push_at a img d now ?t"
    using assms(3) unfolding carry_state_def by (subst r) simp
  moreover have "state_of s old = Some (st_heap s a)" using assms(2) by (simp add: state_of_def)
  then have "state_of ?t j = (if j = new then Some ((st_heap s a)\<lparr>cs_ID := new\<rparr>)
      else if j = old then None else state_of s j)"
    by (simp only: state_of_Rekey [OF assms(1)] option.case)
  ultimately show ?thesis
    by (simp only: state_of_push_at [OF inv]) simp
qed

interpretation exec_carrier: digest_carrier executor_carry
proof
  fix s now and old img d new :: string
  assume "store_inv s"
  then show "store_inv (executor_carry now old img d new s)"
    by (simp add: executor_carry_def carry_state_inv split: option.splits)
next
  fix s c now and old new img d j :: string
  assume s: "store_inv s" "state_of s old = Some c" "new \<noteq> []"
  then obtain a where "fmlookup (st_containers s) old = Some a" "c = st_heap s a"
    by (auto simp: state_of_def)
  with s show "state_of (executor_carry now old img d new s) j =
      (if j = new then Some (PushDigest img d now (c\<lparr>cs_ID := new\<rparr>))
       else if j = old then None else state_of s j)"
    by (simp add: executor_carry_def Get_def carry_state_known)
qed

section \<open>Each phase keeps the invariants\<close>

definition exec_job :: "time \<Rightarrow> byte list \<Rightarrow> image_updated \<Rightarrow> deploy_job" where
  "exec_job now rand p = NewJob rand now (iu_ContainerName p) (iu_Image p) ''poll''"

lemma exec_job_running:
  "Transition StatusRunning now (exec_job now rand p) = Inr ((exec_job now rand p)\<lparr>dj_status := StatusRunning\<rparr>)"
  by (simp add: exec_job_def Transition_eq NewJob_inv) (simp add: NewJob_def terminal_def)

definition job_begun :: "job_registry \<Rightarrow> deploy_job \<Rightarrow> addr \<Rightarrow> job_registry \<Rightarrow> bool" where
  "job_begun r j a r' \<longleftrightarrow> registry_inv r' \<and> a = jr_next r \<and> jr_next r' = Suc (jr_next r) \<and>
     jr_heap r' = (jr_heap r)(a := j\<lparr>dj_status := StatusRunning\<rparr>) \<and>
     (\<forall>n. active_job r' n = (if n = dj_ContainerName j then Some (dj_ID j) else active_job r n)) \<and>
     (\<forall>i. GetJob i r' = (if i = dj_ID j then Some a else GetJob i r))"

lemma begin_job_begun:
  assumes "registry_inv (w_jobs w)" "e_jobRegistry e"
  shows "\<exists>r'. begin_job e now rand p w = Inr (Some (jr_next (w_jobs w)), w\<lparr>w_jobs := r'\<rparr>) \<and>
    job_begun (w_jobs w) (exec_job now rand p) (jr_next (w_jobs w)) r'"
proof -
  let ?j = "exec_job now rand p" and ?a = "jr_next (w_jobs w)"
  let ?r = "registered ?j (w_jobs w)"
  let ?r' = "?r\<lparr>jr_heap := (jr_heap ?r)(?a := ?j\<lparr>dj_status := StatusRunning\<rparr>)\<rparr>"
  have inv: "registry_inv ?r" using assms(1) by (simp add: registered_inv exec_job_def NewJob_inv)
  have at: "job_at ?a (MoveTo StatusRunning now) ?r = Inr ?r'"
    by (simp add: job_at_def registered_sel exec_job_running)
  have "registry_inv ?r'" using job_at_safe [OF inv, of ?a "MoveTo StatusRunning now"] at by simp
  moreover have "GetJob i ?r' = GetJob i ?r" "active_job ?r' n = active_job ?r n" for i n
    by (simp_all add: GetJob_def)
  ultimately have "job_begun (w_jobs w) ?j ?a ?r'"
    by (simp add: job_begun_def registered_sel)
  moreover have "begin_job e now rand p w = Inr (Some ?a, w\<lparr>w_jobs := ?r'\<rparr>)"
  proof -
    obtain y where y: "alloc_job ?j (w_jobs w) = (?a, y)" by (simp add: alloc_job_def)
    then obtain x where "Register ?a y = (x, ?r)"
      by (metis prod.collapse registered_def snd_conv)
    with y assms(2) at show ?thesis
      unfolding begin_job_def exec_job_def [symmetric]
      by (simp only: if_True Let_def prod.case sum.case)
  qed
  ultimately show ?thesis by blast
qed

lemma exec_job_sel [simp]:
  "dj_ContainerName (exec_job now rand p) = iu_ContainerName p"
  "dj_ID (exec_job now rand p) = newUUID rand" "dj_started (exec_job now rand p) = now"
  "dj_TriggerSource (exec_job now rand p) = ''poll''"
  by (simp_all add: exec_job_def NewJob_def)

lemma begin_job_safe:
  assumes "world_inv w"
  shows "\<exists>job w'. begin_job e now rand p w = Inr (job, w') \<and> world_inv w'"
proof (cases "e_jobRegistry e")
  case True
  from begin_job_begun [OF world_invD(3) [OF assms] this, of now rand p] obtain r' where
    "begin_job e now rand p w = Inr (Some (jr_next (w_jobs w)), w\<lparr>w_jobs := r'\<rparr>)" "registry_inv r'"
    unfolding job_begun_def by blast
  then show ?thesis using assms by (auto intro: world_inv_upd)
qed (use assms in \<open>simp add: begin_job_def\<close>)

lemma record_start_inv: "world_inv w \<Longrightarrow> world_inv (record_start e now p cs job w)"
  by (auto simp: record_start_def intro!: world_inv_upd RecordDeploy_inv dest: world_invD(4)
      split: option.splits)

text \<open>The apply phase leaves bus, store and history alone; of the jobs it only writes logs.\<close>

lemma apply_update_safe:
  assumes "world_inv w"
  shows "\<exists>result f r d. apply_update e now p cs job w = Inr (result, w\<lparr>w_fs := f, w_jobs := r, w_docker := d\<rparr>) \<and>
    registry_inv r \<and> same_jobs (w_jobs w) r"
proof (cases "if map_get (cs_Labels cs) labelComposeUpdate = ''auto'' then FromLabels (cs_Labels cs) else None")
  case None
  obtain newID err d where "Recreate (e_docker e) (iu_ContainerID p) (imageRef (iu_Image p) (iu_NewDigest p))
      (w_docker w) = ((newID, err), d)" by (metis prod.exhaust)
  with None have "apply_update e now p cs job w =
      Inr ((newID, [], err), w\<lparr>w_fs := w_fs w, w_jobs := w_jobs w, w_docker := d\<rparr>)"
    by (simp add: apply_update_def Let_def)
  then show ?thesis using world_invD(3) [OF assms] same_jobs_refl by blast
next
  case (Some info)
  let ?dir = "if e_history e then hs_histDir (w_hist w) else []"
  obtain bp err f r d where a: "ApplyUpdate (e_compose e) now info (imageTag (iu_Image p)) ?dir job (w_fs w)
      (w_jobs w) (w_docker w) = Inr ((bp, err), f, r, d)" and r: "registry_inv r" "same_jobs (w_jobs w) r"
    using ApplyUpdate_safe [OF world_invD(3) [OF assms], of "e_compose e" now info "imageTag (iu_Image p)"
        ?dir job "w_fs w" "w_docker w"] by (metis prod.exhaust)
  from Some a have "apply_update e now p cs job w =
      Inr (([], bp, err), w\<lparr>w_fs := f, w_jobs := r, w_docker := d\<rparr>)"
    unfolding apply_update_def by (simp only: option.case Let_def sum.case prod.case)
  with r show ?thesis by blast
qed

lemma end_job_safe:
  assumes "world_inv w"
  shows "\<exists>w'. end_job e st text now endedAt job w = Inr w' \<and> world_inv w'"
proof (cases job)
  case (Some a)
  obtain r where "job_at a (MoveTo st now) (w_jobs w) = Inr r" "registry_inv r"
    using job_at_safe [OF world_invD(3) [OF assms]] by blast
  with Some assms show ?thesis
    by (auto simp: end_job_def Let_def intro!: world_inv_upd FinishDeploy_inv dest: world_invD(4))
qed (use assms in \<open>simp add: end_job_def\<close>)

lemma publish_w_safe: "world_inv w \<Longrightarrow> \<exists>w'. publish_w t p w = Inr w' \<and> world_inv w'"
  by (simp add: publish_w_eq deliver_world_inv)

lemma handle_result_safe:
  assumes "world_inv w"
  shows "\<exists>w'. handle_result e now p cs job result w = Inr w' \<and> world_inv w'"
proof -
  obtain newID bp err where r: "result = (newID, bp, err)" by (cases result)
  show ?thesis
  proof (cases err)
    case None
    obtain w1 where w1: "end_job e StatusSuccess ''success'' (now 3)
        (\<lambda>j. case sn_EndedAt (Snap j) of Some t \<Rightarrow> t | None \<Rightarrow> now 4) job w = Inr w1" "world_inv w1"
      using end_job_safe [OF assms] by blast
    let ?w2 = "w1\<lparr>w_store := carry_state (now 5) (iu_ContainerID p) (iu_Image p) (iu_NewDigest p) cs newID (w_store w1)\<rparr>"
    have "world_inv ?w2" by (intro world_inv_upd(2) [OF w1(2)] carry_state_inv world_invD(2) [OF w1(2)])
    from publish_w_safe [OF this] w1(1) show ?thesis
      unfolding handle_result_def r None by (simp only: prod.case option.case sum.case)
  next
    case (Some e0)
    with end_job_safe [OF assms] show ?thesis by (simp add: handle_result_def r)
  qed
qed

lemma finish_job_inv: "world_inv w \<Longrightarrow> world_inv (finish_job job w)"
  by (auto simp: finish_job_def intro!: world_inv_upd Finish_inv dest: world_invD(3) split: option.splits)

lemma handle_safe:
  assumes "world_inv w" shows "\<exists>w'. handle e now rand p w = Inr w' \<and> world_inv w'"
proof (cases "Get (iu_ContainerID p) (w_store w)")
  case (Some a)
  let ?cs = "st_heap (w_store w) a"
  obtain job w1 where w1: "begin_job e (now 0) rand p w = Inr (job, w1)" "world_inv w1"
    using begin_job_safe [OF assms] by blast
  let ?w2 = "record_start e (now 1) p ?cs job w1"
  have w2: "world_inv ?w2" by (rule record_start_inv [OF w1(2)])
  obtain res f r d where a: "apply_update e (now 2) p ?cs job ?w2 = Inr (res, ?w2\<lparr>w_fs := f, w_jobs := r, w_docker := d\<rparr>)"
    "registry_inv r" using apply_update_safe [OF w2] by blast
  have w3: "world_inv (?w2\<lparr>w_fs := f, w_jobs := r, w_docker := d\<rparr>)"
    using w2 a(2) by (simp add: world_inv_def)
  obtain w4 where w4: "handle_result e now p a job res (?w2\<lparr>w_fs := f, w_jobs := r, w_docker := d\<rparr>) = Inr w4"
    "world_inv w4" using handle_result_safe [OF w3] by blast
  have "world_inv (finish_job job w4)" by (rule finish_job_inv [OF w4(2)])
  with Some w1(1) a(1) w4(1) show ?thesis
    using assms publish_w_safe [OF assms, of TopicUpdateSkipped "UpdateSkippedPayload (skip_payload e (now 0) p ?cs)"]
    unfolding handle_def by (simp add: Let_def)
qed (use assms in \<open>simp add: handle_def\<close>)

definition exec_step :: "'d executor \<Rightarrow> 'd world \<Rightarrow> (nat \<Rightarrow> time) \<times> byte list \<times> image_updated \<Rightarrow> panic + 'd world" where
  "exec_step e w ev = (case ev of (now, rand, p) \<Rightarrow> handle e now rand p w)"

interpretation exec: safe_machine "exec_step e" world_inv for e
  by unfold_locales (auto simp: exec_step_def handle_safe split: prod.splits)

section \<open>The jobs of others\<close>

text \<open>An event for container \<open>n\<close> with job id \<open>i\<close> leaves the other jobs and entries alone.\<close>

definition jobs_frame :: "string \<Rightarrow> string \<Rightarrow> job_registry \<Rightarrow> job_registry \<Rightarrow> bool" where
  "jobs_frame i n r r' \<longleftrightarrow> jr_next r \<le> jr_next r' \<and>
     (\<forall>b < jr_next r. job_outcome (jr_heap r' b) = job_outcome (jr_heap r b)) \<and>
     (\<forall>k. k \<noteq> i \<longrightarrow> GetJob k r' = GetJob k r) \<and> (\<forall>m. m \<noteq> n \<longrightarrow> active_job r' m = active_job r m)"

definition own_job :: "addr \<Rightarrow> string \<Rightarrow> string \<Rightarrow> job_registry \<Rightarrow> job_registry \<Rightarrow> bool" where
  "own_job a i n r0 r \<longleftrightarrow> a = jr_next r0 \<and> jobs_frame i n r0 r \<and> GetJob i r = Some a \<and>
     dj_ID (jr_heap r a) = i \<and> dj_ContainerName (jr_heap r a) = n"

lemma jobs_frame_refl [simp]: "jobs_frame i n r r"
  by (simp add: jobs_frame_def)

lemma own_job_same: "own_job a i n r0 r \<Longrightarrow> same_jobs r r' \<Longrightarrow> own_job a i n r0 r'"
  by (clarsimp simp: own_job_def jobs_frame_def same_jobs_def GetJob_def active_job_def)

lemma own_job_at:
  assumes "own_job a i n r0 r" "job_at a e r = Inr r'"
  shows "own_job a i n r0 r'"
proof -
  obtain j where j: "job_step (jr_heap r a) e = Inr j" "r' = r\<lparr>jr_heap := (jr_heap r)(a := j)\<rparr>"
    using assms(2) by (auto simp: job_at_def split: sum.splits)
  then have "dj_ID j = dj_ID (jr_heap r a)" "dj_ContainerName j = dj_ContainerName (jr_heap r a)"
    using job_step_frame by blast+
  with assms(1) j(2) show ?thesis by (clarsimp simp: own_job_def jobs_frame_def GetJob_def)
qed

lemma own_job_finish: "own_job a i n r0 r \<Longrightarrow> jobs_frame i n r0 (Finish i r)"
  by (clarsimp simp: own_job_def jobs_frame_def job_simps)

lemma own_job_begun:
  "job_begun r j a r' \<Longrightarrow> own_job a (dj_ID j) (dj_ContainerName j) r r'"
  by (simp add: job_begun_def own_job_def jobs_frame_def)

lemma end_job_own:
  assumes "end_job e st text now endedAt (Some a) w = Inr w'" "own_job a i n r0 (w_jobs w)"
  shows "own_job a i n r0 (w_jobs w')"
proof -
  obtain r where "job_at a (MoveTo st now) (w_jobs w) = Inr r" "w_jobs w' = r"
    using assms(1) by (auto simp: end_job_def Let_def split: sum.splits if_splits)
  with own_job_at [OF assms(2)] show ?thesis by blast
qed

lemma publish_w_jobs: "publish_w t p w = Inr w' \<Longrightarrow> w_jobs w' = w_jobs w"
  by (auto simp: publish_w_def split: sum.splits)

lemma handle_result_own:
  assumes "handle_result e now p cs (Some a) result w = Inr w'" "own_job a i n r0 (w_jobs w)"
  shows "own_job a i n r0 (w_jobs w')"
proof -
  obtain newID bp err where r: "result = (newID, bp, err)" by (cases result)
  show ?thesis
  proof (cases err)
    case None
    obtain w1 where w1: "end_job e StatusSuccess ''success'' (now 3)
        (\<lambda>j. case sn_EndedAt (Snap j) of Some t \<Rightarrow> t | None \<Rightarrow> now 4) (Some a) w = Inr w1"
      using assms(1) by (auto simp: handle_result_def r None split: sum.splits)
    from end_job_own [OF this assms(2)] show ?thesis
      using assms(1) w1 by (auto simp: handle_result_def r None dest!: publish_w_jobs)
  next
    case (Some e0)
    then show ?thesis using assms(1) end_job_own [OF _ assms(2)] by (simp add: handle_result_def r)
  qed
qed

lemma handle_result_none:
  assumes "handle_result e now p cs None result w = Inr w'"
  shows "w_jobs w' = w_jobs w"
proof -
  obtain newID bp err where r: "result = (newID, bp, err)" by (cases result)
  show ?thesis
    using assms by (cases err) (auto simp: handle_result_def r end_job_def dest!: publish_w_jobs)
qed

lemma same_jobs_frame: "same_jobs r r' \<Longrightarrow> jobs_frame i n r r'"
  by (simp add: same_jobs_def jobs_frame_def GetJob_def active_job_def)

lemma record_start_jobs [simp]: "w_jobs (record_start e now p cs job w) = w_jobs w"
  by (simp add: record_start_def split: option.splits)

lemma handle_jobs_frame:
  assumes "world_inv w" "handle e now rand p w = Inr w'"
  shows "jobs_frame (newUUID rand) (iu_ContainerName p) (w_jobs w) (w_jobs w')"
proof (cases "Get (iu_ContainerID p) (w_store w)")
  case (Some ca)
  let ?cs = "st_heap (w_store w) ca"
  show ?thesis
  proof (cases "watchEnabled (cs_Labels ?cs) \<and>
      evaluate (effective_strategy (cs_Labels ?cs)) (iu_Image p) (cs_Image ?cs) \<and> e_jobRegistry e")
    case True
    let ?a = "jr_next (w_jobs w)"
    obtain r1 where b: "begin_job e (now 0) rand p w = Inr (Some ?a, w\<lparr>w_jobs := r1\<rparr>)"
      and r1: "job_begun (w_jobs w) (exec_job (now 0) rand p) ?a r1"
      using begin_job_begun [OF world_invD(3) [OF assms(1)]] True by blast
    have own1: "own_job ?a (newUUID rand) (iu_ContainerName p) (w_jobs w) r1"
      using own_job_begun [OF r1] by simp
    let ?w1 = "record_start e (now 1) p ?cs (Some ?a) (w\<lparr>w_jobs := r1\<rparr>)"
    have "world_inv (w\<lparr>w_jobs := r1\<rparr>)" using assms(1) r1 by (simp add: world_inv_def job_begun_def)
    from apply_update_safe [OF record_start_inv [OF this], of e "now 2" p ?cs "Some ?a" e "now 1" p ?cs "Some ?a"]
    obtain res f r d where
      a: "apply_update e (now 2) p ?cs (Some ?a) ?w1 = Inr (res, ?w1\<lparr>w_fs := f, w_jobs := r, w_docker := d\<rparr>)"
      and r: "same_jobs (w_jobs ?w1) r" by blast
    let ?w2 = "?w1\<lparr>w_fs := f, w_jobs := r, w_docker := d\<rparr>"
    from own_job_same [OF own1, of r] r
    have own2: "own_job ?a (newUUID rand) (iu_ContainerName p) (w_jobs w) (w_jobs ?w2)" by simp
    obtain w3 where w3: "handle_result e now p ca (Some ?a) res ?w2 = Inr w3" "w' = finish_job (Some ?a) w3"
      using assms(2) Some True b a
      by (cases "handle_result e now p ca (Some ?a) res ?w2")
        (auto simp: handle_def Let_def simp del: record_start_jobs)
    have own3: "own_job ?a (newUUID rand) (iu_ContainerName p) (w_jobs w) (w_jobs w3)"
      by (rule handle_result_own [OF w3(1) own2])
    then have "dj_ID (jr_heap (w_jobs w3) ?a) = newUUID rand" by (simp add: own_job_def)
    with own_job_finish [OF own3] w3(2) show ?thesis by (simp add: finish_job_def)
  next
    case False
    show ?thesis
    proof (cases "watchEnabled (cs_Labels ?cs) \<and>
        evaluate (effective_strategy (cs_Labels ?cs)) (iu_Image p) (cs_Image ?cs)")
      case True
      with False have "\<not> e_jobRegistry e" by blast
      then have b: "begin_job e (now 0) rand p w = Inr (None, w)" by (simp add: begin_job_def)
      from apply_update_safe [OF assms(1), of e "now 2" p ?cs None] obtain res f r d where
        a: "apply_update e (now 2) p ?cs None w = Inr (res, w\<lparr>w_fs := f, w_jobs := r, w_docker := d\<rparr>)"
        and r: "same_jobs (w_jobs w) r" by blast
      let ?w2 = "w\<lparr>w_fs := f, w_jobs := r, w_docker := d\<rparr>"
      have "record_start e (now 1) p ?cs None w = w" by (simp add: record_start_def)
      with assms(2) Some True b a have h: "handle_result e now p ca None res ?w2 = Inr w'"
        by (cases "handle_result e now p ca None res ?w2") (simp_all add: handle_def finish_job_def)
      have "w_jobs w' = w_jobs ?w2" by (rule handle_result_none [OF h])
      with same_jobs_frame [OF r] show ?thesis by simp
    next
      case False
      then have "w' = w \<or> (\<exists>t q. publish_w t q w = Inr w')"
        using assms(2) Some by (auto simp: handle_def Let_def split: if_splits)
      then show ?thesis using publish_w_jobs by force
    qed
  qed
qed (use assms(2) in \<open>simp add: handle_def\<close>)

section \<open>The record of a deploy\<close>

lemma record_start_row:
  fixes p :: image_updated and cs :: container_state
  assumes "world_inv w" "e_history e" "hs_faults (w_hist w) = []" "dj_started (jr_heap (w_jobs w) a) \<noteq> zero_time"
  defines "en \<equiv> start_entry p cs (jr_heap (w_jobs w) a)"
  shows "record_start e now p cs (Some a) w =
    w\<lparr>w_hist := insert_row (deploy_row (e_time e) (he_StartedAt en) en) (w_hist w)\<rparr>"
proof -
  have "he_StartedAt en \<noteq> zero_time" using assms(4) by (simp add: en_def start_entry_def Snap_def)
  from RecordDeploy_ok [OF world_invD(4) [OF assms(1)] assms(3) this, of "e_time e" now] show ?thesis
    using assms(2) by (simp add: record_start_def flip: en_def)
qed

lemma end_job_row:
  assumes "world_inv w" "e_history e" "hs_faults (w_hist w) = []"
    and "dj_status (jr_heap (w_jobs w) a) = StatusRunning" "terminal st"
    and "hs_rows (w_hist w) = xs @ [r]" "r_deploy_id r = Some (dj_ID (jr_heap (w_jobs w) a))"
    and "\<forall>q \<in> set xs. r_deploy_id q \<noteq> Some (dj_ID (jr_heap (w_jobs w) a))"
  shows "\<exists>j'. dj_ID j' = dj_ID (jr_heap (w_jobs w) a) \<and> dj_status j' = st \<and> dj_ended j' = Some now \<and>
    dj_ContainerName j' = dj_ContainerName (jr_heap (w_jobs w) a) \<and>
    end_job e st text now endedAt (Some a) w =
      Inr (w\<lparr>w_jobs := (w_jobs w)\<lparr>jr_heap := (jr_heap (w_jobs w))(a := j')\<rparr>,
             w_hist := (w_hist w)\<lparr>hs_rows := xs @ [finish_row (e_time e) text (endedAt j') r]\<rparr>\<rparr>)"
proof -
  let ?j = "jr_heap (w_jobs w) a"
  have inv: "job_inv ?j" by (rule registry_invD(1) [OF world_invD(3) [OF assms(1)]])
  obtain j' where j': "Transition st now ?j = Inr j'" "dj_status j' = st" "dj_ended j' = Some now"
    using Transition_eq [OF inv, of st now] assms(4,5) by (auto simp: terminal_def)
  have id: "dj_ID j' = dj_ID ?j" "dj_ContainerName j' = dj_ContainerName ?j"
    using job_step_frame [of ?j "MoveTo st now" j'] j'(1) by auto
  have at: "job_at a (MoveTo st now) (w_jobs w) = Inr ((w_jobs w)\<lparr>jr_heap := (jr_heap (w_jobs w))(a := j')\<rparr>)"
    by (simp add: job_at_def j'(1))
  have "FinishDeploy (e_time e) (dj_ID ?j) text (endedAt j') (w_hist w) =
      (None, (w_hist w)\<lparr>hs_rows := xs @ finish_row (e_time e) text (endedAt j') r # []\<rparr>)"
    using assms(8) by (intro FinishDeploy_ok [OF world_invD(4) [OF assms(1)] assms(3,6,7)]) simp
  then have "end_job e st text now endedAt (Some a) w =
      Inr (w\<lparr>w_jobs := (w_jobs w)\<lparr>jr_heap := (jr_heap (w_jobs w))(a := j')\<rparr>,
             w_hist := (w_hist w)\<lparr>hs_rows := xs @ [finish_row (e_time e) text (endedAt j') r]\<rparr>\<rparr>)"
    using assms(2) by (simp add: end_job_def at id)
  with id j'(2,3) show ?thesis by blast
qed

lemma butlast_last_row: "hs_rows (insert_row mk h) = hs_rows h @ [mk (Suc (hs_seq h))]"
  by (simp add: insert_row_def)

lemma newUUID_not_Nil: "length rand = 16 \<Longrightarrow> newUUID rand \<noteq> []"
  using newUUID_shape [of rand] by auto

text \<open>The history row of a deploy whose start is recorded with job \<open>j\<close>.\<close>

definition running_row :: "time_io \<Rightarrow> image_updated \<Rightarrow> container_state \<Rightarrow> deploy_job \<Rightarrow> nat \<Rightarrow> row" where
  "running_row io p cs j i = deploy_row io (dj_started j) (start_entry p cs j) i"

lemma running_row_sel:
  "r_id (running_row io p cs j i) = i" "r_status (running_row io p cs j i) = ''running''"
  "r_service (running_row io p cs j i) = iu_ContainerName p"
  "r_old_image (running_row io p cs j i) = cs_Image cs"
  "r_new_image (running_row io p cs j i) = iu_Image p"
  "r_backup_path (running_row io p cs j i) = []"
  "dj_ID j \<noteq> [] \<Longrightarrow> r_deploy_id (running_row io p cs j i) = Some (dj_ID j)"
  by (simp_all add: running_row_def deploy_row_def start_entry_def nullString_def)

lemma finish_row_sel [simp]:
  "r_id (finish_row io st t r) = r_id r" "r_status (finish_row io st t r) = st"
  "r_service (finish_row io st t r) = r_service r" "r_old_image (finish_row io st t r) = r_old_image r"
  "r_new_image (finish_row io st t r) = r_new_image r"
  "r_backup_path (finish_row io st t r) = r_backup_path r"
  "r_deploy_id (finish_row io st t r) = r_deploy_id r"
  "r_ended_at (finish_row io st t r) = Some (time_text io t)"
  by (simp_all add: finish_row_def)

text \<open>What the job and the history show after \<open>handle_result\<close> and the deferred \<open>Finish\<close>.\<close>

lemma handle_result_row:
  assumes "world_inv w" "e_history e" "hs_faults (w_hist w) = []"
    and "dj_status (jr_heap (w_jobs w) a) = StatusRunning"
    and "hs_rows (w_hist w) = xs @ [r]" "r_deploy_id r = Some (dj_ID (jr_heap (w_jobs w) a))"
    and "\<forall>q \<in> set xs. r_deploy_id q \<noteq> Some (dj_ID (jr_heap (w_jobs w) a))"
    and "GetJob (dj_ID (jr_heap (w_jobs w) a)) (w_jobs w) = Some a"
  shows "\<exists>w''. (case handle_result e now p cs (Some a) (newID, bp, err) w of
        Inl x \<Rightarrow> Inl x | Inr w' \<Rightarrow> Inr (finish_job (Some a) w')) = Inr w'' \<and>
    w_docker w'' = w_docker w \<and> w_fs w'' = w_fs w \<and>
    dj_status (jr_heap (w_jobs w'') a) = (if err = None then StatusSuccess else StatusFailed) \<and>
    \<not> IsRunning (dj_ContainerName (jr_heap (w_jobs w) a)) (w_jobs w'') \<and>
    (\<exists>t. hs_rows (w_hist w'') =
        xs @ [finish_row (e_time e) (if err = None then ''success'' else ''failed'') t r]) \<and>
    w_store w'' = (if err = None
      then carry_state (now 5) (iu_ContainerID p) (iu_Image p) (iu_NewDigest p) cs newID (w_store w)
      else w_store w) \<and>
    w_bus w'' = (if err = None
      then deliver TopicUpdateApplied (applied_payload (now 6) p newID) (w_bus w) else w_bus w)"
proof (cases err)
  case None
  let ?stop = "\<lambda>j. case sn_EndedAt (Snap j) of Some t \<Rightarrow> t | None \<Rightarrow> now 4"
  obtain j' where j': "dj_ID j' = dj_ID (jr_heap (w_jobs w) a)" "dj_status j' = StatusSuccess"
    "dj_ContainerName j' = dj_ContainerName (jr_heap (w_jobs w) a)"
    and en: "end_job e StatusSuccess ''success'' (now 3) ?stop (Some a) w =
      Inr (w\<lparr>w_jobs := (w_jobs w)\<lparr>jr_heap := (jr_heap (w_jobs w))(a := j')\<rparr>,
             w_hist := (w_hist w)\<lparr>hs_rows := xs @ [finish_row (e_time e) ''success'' (?stop j') r]\<rparr>\<rparr>)"
    (is "_ = Inr ?w1")
    using end_job_row [OF assms(1-4) _ assms(5-7), of StatusSuccess "now 3" "''success''" ?stop]
    unfolding terminal_def by blast
  let ?w2 = "?w1\<lparr>w_store := carry_state (now 5) (iu_ContainerID p) (iu_Image p) (iu_NewDigest p) cs newID (w_store w)\<rparr>"
  have w1: "world_inv ?w1" using end_job_safe [OF assms(1), of e StatusSuccess "''success''"] en by (metis sum.inject(2))
  have "world_inv ?w2" by (rule world_inv_upd(2) [OF w1 carry_state_inv [OF world_invD(2) [OF assms(1)]]])
  from publish_w_eq [OF this] have res: "handle_result e now p cs (Some a) (newID, bp, err) w =
      Inr (?w2\<lparr>w_bus := deliver TopicUpdateApplied (applied_payload (now 6) p newID) (w_bus w)\<rparr>)"
    unfolding handle_result_def None by (simp add: en)
  show ?thesis
    unfolding res using j' assms(8)
    by (auto simp: None finish_job_def job_simps GetJob_def IsRunning_def)
next
  case (Some e0)
  obtain j' where j': "dj_ID j' = dj_ID (jr_heap (w_jobs w) a)" "dj_status j' = StatusFailed"
    "dj_ContainerName j' = dj_ContainerName (jr_heap (w_jobs w) a)"
    and en: "end_job e StatusFailed ''failed'' (now 3) (\<lambda>_. now 4) (Some a) w =
      Inr (w\<lparr>w_jobs := (w_jobs w)\<lparr>jr_heap := (jr_heap (w_jobs w))(a := j')\<rparr>,
             w_hist := (w_hist w)\<lparr>hs_rows := xs @ [finish_row (e_time e) ''failed'' (now 4) r]\<rparr>\<rparr>)"
    using end_job_row [OF assms(1-4) _ assms(5-7), of StatusFailed "now 3" "''failed''" "\<lambda>_. now 4"]
    unfolding terminal_def by blast
  have res: "handle_result e now p cs (Some a) (newID, bp, err) w =
     Inr (w\<lparr>w_jobs := (w_jobs w)\<lparr>jr_heap := (jr_heap (w_jobs w))(a := j')\<rparr>,
             w_hist := (w_hist w)\<lparr>hs_rows := xs @ [finish_row (e_time e) ''failed'' (now 4) r]\<rparr>\<rparr>)"
    by (simp add: handle_result_def Some en)
  show ?thesis
    unfolding res using j' assms(8)
    by (auto simp: Some finish_job_def job_simps GetJob_def IsRunning_def)
qed

definition exec_row :: "string \<Rightarrow> string \<Rightarrow> image_updated \<Rightarrow> container_state \<Rightarrow> row \<Rightarrow> bool" where
  "exec_row deployID status p cs r \<longleftrightarrow> r_deploy_id r = Some deployID \<and> r_status r = status \<and>
     r_service r = iu_ContainerName p \<and> r_old_image r = cs_Image cs \<and> r_new_image r = iu_Image p \<and>
     r_ended_at r \<noteq> None \<and> r_backup_path r = []"

text \<open>What \<open>handle\<close> has done when the apply phase starts from \<open>w1\<close>.\<close>

definition before_apply :: "'d world \<Rightarrow> 'd world \<Rightarrow> bool" where
  "before_apply w w1 \<longleftrightarrow> w_docker w1 = w_docker w \<and> w_fs w1 = w_fs w \<and> w_store w1 = w_store w \<and>
     w_bus w1 = w_bus w"

lemma handle_outcome:
  assumes "world_inv w" and "e_jobRegistry e" and "e_history e" and "hs_faults (w_hist w) = []"
    and "length rand = 16" and "now 0 \<noteq> zero_time"
    and fresh: "\<forall>r \<in> set (hs_rows (w_hist w)). r_deploy_id r \<noteq> Some (newUUID rand)"
    and ca: "Get (iu_ContainerID p) (w_store w) = Some ca" "st_heap (w_store w) ca = cs"
    and ap: "watchEnabled (cs_Labels cs)" "evaluate (effective_strategy (cs_Labels cs)) (iu_Image p) (cs_Image cs)"
  shows "\<exists>w1 w2 newID bp err w'. before_apply w w1 \<and>
    apply_update e (now 2) p cs (Some (jr_next (w_jobs w))) w1 = Inr ((newID, bp, err), w2) \<and>
    handle e now rand p w = Inr w' \<and> w_docker w' = w_docker w2 \<and> w_fs w' = w_fs w2 \<and>
    dj_status (jr_heap (w_jobs w') (jr_next (w_jobs w))) = (if err = None then StatusSuccess else StatusFailed) \<and>
    \<not> IsRunning (iu_ContainerName p) (w_jobs w') \<and>
    (\<exists>r. hs_rows (w_hist w') = hs_rows (w_hist w) @ [r] \<and>
       exec_row (newUUID rand) (if err = None then ''success'' else ''failed'') p cs r) \<and>
    w_store w' = (if err = None
      then carry_state (now 5) (iu_ContainerID p) (iu_Image p) (iu_NewDigest p) ca newID (w_store w)
      else w_store w) \<and>
    w_bus w' = (if err = None
      then deliver TopicUpdateApplied (applied_payload (now 6) p newID) (w_bus w) else w_bus w)"
proof -
  let ?a = "jr_next (w_jobs w)" and ?j = "(exec_job (now 0) rand p)\<lparr>dj_status := StatusRunning\<rparr>"
  from begin_job_begun [OF world_invD(3) [OF assms(1)] assms(2), of "now 0" rand p]
  obtain r1 where b: "begin_job e (now 0) rand p w = Inr (Some ?a, w\<lparr>w_jobs := r1\<rparr>)"
    and r1: "job_begun (w_jobs w) (exec_job (now 0) rand p) ?a r1" by blast
  let ?w0 = "w\<lparr>w_jobs := r1\<rparr>"
  have h1: "jr_heap r1 ?a = ?j" "registry_inv r1" "GetJob (newUUID rand) r1 = Some ?a"
    using r1 by (simp_all add: job_begun_def)
  have w0: "world_inv ?w0" using assms(1) h1(2) by (rule world_inv_upd(1))
  let ?row = "running_row (e_time e) p cs ?j (Suc (hs_seq (w_hist w)))"
  let ?w1 = "record_start e (now 1) p cs (Some ?a) ?w0"
  have rs: "?w1 = ?w0\<lparr>w_hist := insert_row (running_row (e_time e) p cs ?j) (w_hist w)\<rparr>"
    using record_start_row [OF w0 assms(3), of ?a "now 1" p cs] assms(4,6) h1(1)
    by (simp add: running_row_def [abs_def] start_entry_def Snap_def)
  have w1: "world_inv ?w1" by (rule record_start_inv [OF w0])
  obtain newID bp err f r d where
    a: "apply_update e (now 2) p cs (Some ?a) ?w1 = Inr ((newID, bp, err), ?w1\<lparr>w_fs := f, w_jobs := r, w_docker := d\<rparr>)"
    and r: "registry_inv r" "same_jobs (w_jobs ?w1) r"
    using apply_update_safe [OF w1, of e "now 2" p cs "Some ?a"] by (metis prod.exhaust)
  let ?w2 = "?w1\<lparr>w_fs := f, w_jobs := r, w_docker := d\<rparr>"
  have w2: "world_inv ?w2" using w1 r(1) by (simp add: world_inv_def)
  have jr: "w_jobs ?w2 = r" by simp
  have hj: "dj_status (jr_heap r ?a) = StatusRunning" "dj_ID (jr_heap r ?a) = newUUID rand"
    "dj_ContainerName (jr_heap r ?a) = iu_ContainerName p" "GetJob (newUUID rand) r = Some ?a"
    using r(2) [unfolded rs] h1(1,3) by (simp_all add: same_jobs_def job_outcome_def GetJob_def)
  have rows: "hs_faults (w_hist ?w2) = []" "hs_rows (w_hist ?w2) = hs_rows (w_hist w) @ [?row]"
    unfolding rs using assms(4) by (simp_all add: insert_row_def)
  have id: "r_deploy_id ?row = Some (newUUID rand)"
    using newUUID_not_Nil [OF assms(5)] by (simp add: running_row_sel)
  from handle_result_row [OF w2 assms(3) rows(1), of ?a "hs_rows (w_hist w)" ?row now p ca newID bp err]
    rows(2) id fresh hj obtain w' where w': "(case handle_result e now p ca (Some ?a) (newID, bp, err) ?w2 of
        Inl x \<Rightarrow> Inl x | Inr w' \<Rightarrow> Inr (finish_job (Some ?a) w')) = Inr w'"
    "w_docker w' = w_docker ?w2" "w_fs w' = w_fs ?w2"
    "dj_status (jr_heap (w_jobs w') ?a) = (if err = None then StatusSuccess else StatusFailed)"
    "\<not> IsRunning (iu_ContainerName p) (w_jobs w')"
    "\<exists>t. hs_rows (w_hist w') = hs_rows (w_hist w) @
        [finish_row (e_time e) (if err = None then ''success'' else ''failed'') t ?row]"
    "w_store w' = (if err = None
      then carry_state (now 5) (iu_ContainerID p) (iu_Image p) (iu_NewDigest p) ca newID (w_store ?w2)
      else w_store ?w2)"
    "w_bus w' = (if err = None
      then deliver TopicUpdateApplied (applied_payload (now 6) p newID) (w_bus ?w2) else w_bus ?w2)"
    unfolding jr by auto
  have h: "handle e now rand p w = Inr w'"
    using w'(1) ca ap b a unfolding handle_def
    by (simp only: option.case Let_def if_False if_True not_True_eq_False sum.case prod.case simp_thms)
  have ba: "before_apply w ?w1" unfolding rs by (simp add: before_apply_def)
  have row: "\<exists>r. hs_rows (w_hist w') = hs_rows (w_hist w) @ [r] \<and>
       exec_row (newUUID rand) (if err = None then ''success'' else ''failed'') p cs r"
    using w'(6) id by (auto simp: exec_row_def running_row_sel)
  have fr: "w_store ?w2 = w_store w" "w_bus ?w2 = w_bus w" unfolding rs by simp_all
  show ?thesis
    by (rule exI [of _ ?w1], rule exI [of _ ?w2], rule exI [of _ newID], rule exI [of _ bp],
        rule exI [of _ err], rule exI [of _ w'])
      (intro conjI ba a h w'(2-5) row w'(7,8) [unfolded fr])
qed

lemma handle_applied:
  assumes "world_inv w" and "e_jobRegistry e" and "e_history e" and "hs_faults (w_hist w) = []"
    and "length rand = 16" and "now 0 \<noteq> zero_time"
    and "\<forall>r \<in> set (hs_rows (w_hist w)). r_deploy_id r \<noteq> Some (newUUID rand)"
    and "Get (iu_ContainerID p) (w_store w) = Some ca" and "st_heap (w_store w) ca = cs"
    and "watchEnabled (cs_Labels cs)"
    and "evaluate (effective_strategy (cs_Labels cs)) (iu_Image p) (cs_Image cs)"
    and direct: "map_get (cs_Labels cs) labelComposeUpdate \<noteq> ''auto'' \<or> FromLabels (cs_Labels cs) = None"
    and rec: "Recreate (e_docker e) (iu_ContainerID p) (imageRef (iu_Image p) (iu_NewDigest p)) (w_docker w)
      = ((newID, None), d)"
  shows "\<exists>w'. handle e now rand p w = Inr w' \<and> w_docker w' = d \<and>
    w_store w' = executor_carry (now 5) (iu_ContainerID p) (iu_Image p) (iu_NewDigest p) newID (w_store w) \<and>
    w_bus w' = deliver TopicUpdateApplied (applied_payload (now 6) p newID) (w_bus w)"
proof -
  from handle_outcome [where now = now and e = e, OF assms(1-11)] obtain w1 w2 i bp err w' where
    b: "before_apply w w1" and a: "apply_update e (now 2) p cs (Some (jr_next (w_jobs w))) w1 = Inr ((i, bp, err), w2)"
    and h: "handle e now rand p w = Inr w'" "w_docker w' = w_docker w2"
      "w_store w' = (if err = None
        then carry_state (now 5) (iu_ContainerID p) (iu_Image p) (iu_NewDigest p) ca i (w_store w) else w_store w)"
      "w_bus w' = (if err = None
        then deliver TopicUpdateApplied (applied_payload (now 6) p i) (w_bus w) else w_bus w)"
    by blast
  have "apply_update e (now 2) p cs (Some (jr_next (w_jobs w))) w1 = Inr ((newID, [], None), w1\<lparr>w_docker := d\<rparr>)"
    using direct rec b by (auto simp: apply_update_def before_apply_def)
  then have "i = newID" "err = None" "w2 = w1\<lparr>w_docker := d\<rparr>" using a by auto
  with h show ?thesis using assms(8) by (simp add: executor_carry_def)
qed

section \<open>An example\<close>

definition demo_exec :: "demo_daemon executor" where
  "demo_exec = \<lparr>e_docker = demo_docker True, e_gh = None, e_history = True, e_jobRegistry = True,
     e_compose = demo_env, e_time = demo_io\<rparr>"

definition demo_update :: image_updated where
  "demo_update = \<lparr>iu_ContainerID = ''c1'', iu_ContainerName = ''web'', iu_Image = ''web:1'',
     iu_OldDigest = ''sha256:old'', iu_NewDigest = ''sha256:new'', iu_DetectedAt = 0\<rparr>"

definition demo_state0 :: container_state where
  "demo_state0 = st_heap demo_store 0"

lemma demo_Get: "Get ''c1'' demo_store = Some 0"
  by (simp add: Get_def demo_store_def push_at_def Upsert_def New_store_def)

lemma demo_state0_eq:
  "demo_state0 = PushDigest ''web:1'' ''sha256:old'' 5
     \<lparr>cs_ID = ''c1'', cs_Name = ''web'', cs_Image = ''web:1'', cs_Labels = fmempty, cs_digestHistory = []\<rparr>"
  using demo_state Get_state [OF demo_Get] by (simp add: demo_state0_def)

lemma demo_policy:
  "watchEnabled (cs_Labels demo_state0)"
  "FromLabels (cs_Labels demo_state0) = None"
  "evaluate (effective_strategy (cs_Labels demo_state0)) img (cs_Image demo_state0)"
  by (simp_all add: demo_state0_eq watchEnabled_def FromLabels_def effective_strategy_def
      strategyFromLabels_def evaluate_def StrategyAuto_def StrategyNotify_def)

section \<open>Properties\<close>

text \<open>No sequence of update events makes the executor panic, whatever the Docker daemon, the
  compose program, GitHub and the database answer, and the bus, store, job registry and history
  it shares with the other components stay well formed.\<close>

theorem executor_never_panics:
  assumes "world_inv w"
  shows "\<exists>w'. run_steps (exec_step e) w events = Inr w' \<and> world_inv w'"
  by (rule exec.run_safe [OF assms])

theorem executor_never_panics_witness:
  "\<exists>w'. run_steps (exec_step demo_exec) demo_world
     [(\<lambda>_. 1, replicate 16 0, demo_update), (\<lambda>_. 2, replicate 16 1, demo_update)] = Inr w' \<and> world_inv w'"
  by (rule executor_never_panics [OF demo_world_inv])

text \<open>C5: Every update that is attempted leaves one complete record, whether it goes through Docker or
  through compose and whether it succeeds: the job is final, the container no longer counts as
  running, the history gains one row with the job's id and the outcome, and an event announces
  the update exactly if it succeeded.  The row never carries the compose backup's path.\<close>

theorem deploy_outcome_recorded:
  assumes "world_inv w" and "e_jobRegistry e" and "e_history e" and "hs_faults (w_hist w) = []"
    and "length rand = 16" and "now 0 \<noteq> zero_time"
    and "\<forall>r \<in> set (hs_rows (w_hist w)). r_deploy_id r \<noteq> Some (newUUID rand)"
    and "Get (iu_ContainerID p) (w_store w) = Some ca" and "st_heap (w_store w) ca = cs"
    and "watchEnabled (cs_Labels cs)"
    and "evaluate (effective_strategy (cs_Labels cs)) (iu_Image p) (cs_Image cs)"
  shows "\<exists>w1 w2 newID bp err w'. before_apply w w1 \<and>
    apply_update e (now 2) p cs (Some (jr_next (w_jobs w))) w1 = Inr ((newID, bp, err), w2) \<and>
    handle e now rand p w = Inr w' \<and> w_docker w' = w_docker w2 \<and> w_fs w' = w_fs w2 \<and>
    dj_status (jr_heap (w_jobs w') (jr_next (w_jobs w))) = (if err = None then StatusSuccess else StatusFailed) \<and>
    \<not> IsRunning (iu_ContainerName p) (w_jobs w') \<and>
    (\<exists>r. hs_rows (w_hist w') = hs_rows (w_hist w) @ [r] \<and>
       exec_row (newUUID rand) (if err = None then ''success'' else ''failed'') p cs r) \<and>
    w_store w' = (if err = None
      then carry_state (now 5) (iu_ContainerID p) (iu_Image p) (iu_NewDigest p) ca newID (w_store w)
      else w_store w) \<and>
    w_bus w' = (if err = None
      then deliver TopicUpdateApplied (applied_payload (now 6) p newID) (w_bus w) else w_bus w)"
  by (rule handle_outcome [where now = now and e = e, OF assms])

theorem deploy_outcome_recorded_witness:
  "\<exists>w' r. handle demo_exec (\<lambda>_. 1) (replicate 16 0) demo_update demo_world = Inr w' \<and>
     hs_rows (w_hist w') = [r] \<and> r_deploy_id r = Some (newUUID (replicate 16 0)) \<and> r_new_image r = ''web:1''"
proof -
  have a: "e_jobRegistry demo_exec" "e_history demo_exec" "hs_faults (w_hist demo_world) = []"
    "length (replicate 16 (0 :: byte)) = 16" "(\<lambda>_ :: nat. 1 :: time) 0 \<noteq> zero_time"
    "\<forall>r \<in> set (hs_rows (w_hist demo_world)). r_deploy_id r \<noteq> Some (newUUID (replicate 16 0))"
    "Get (iu_ContainerID demo_update) (w_store demo_world) = Some 0"
    "st_heap (w_store demo_world) 0 = demo_state0"
    by (simp_all add: demo_exec_def demo_world_def demo_hist_def zero_time_def second_ns_def
        demo_update_def demo_Get demo_state0_def)
  have e: "hs_rows (w_hist demo_world) = []" "iu_Image demo_update = ''web:1''"
    by (simp_all add: demo_world_def demo_hist_def demo_update_def)
  from deploy_outcome_recorded [OF demo_world_inv a demo_policy(1,3)] show ?thesis
    unfolding e exec_row_def by (simp only: append_Nil) blast
qed

text \<open>C6: After a successful update through Docker the container is tracked under its new id, with
  the digest of the update as its current one and the digest that was current as its previous one,
  and every other container is tracked as before; the announced event carries the new id.\<close>

theorem update_moves_state:
  assumes "world_inv w" and "e_jobRegistry e" and "e_history e" and "hs_faults (w_hist w) = []"
    and "length rand = 16" and "now 0 \<noteq> zero_time"
    and "\<forall>r \<in> set (hs_rows (w_hist w)). r_deploy_id r \<noteq> Some (newUUID rand)"
    and "Get (iu_ContainerID p) (w_store w) = Some ca" and "st_heap (w_store w) ca = cs"
    and "watchEnabled (cs_Labels cs)"
    and "evaluate (effective_strategy (cs_Labels cs)) (iu_Image p) (cs_Image cs)"
    and direct: "map_get (cs_Labels cs) labelComposeUpdate \<noteq> ''auto'' \<or> FromLabels (cs_Labels cs) = None"
    and rec: "Recreate (e_docker e) (iu_ContainerID p) (imageRef (iu_Image p) (iu_NewDigest p)) (w_docker w)
      = ((newID, None), d)" and "newID \<noteq> []"
  shows "\<exists>w' c. handle e now rand p w = Inr w' \<and> w_docker w' = d \<and>
    state_of (w_store w') newID = Some c \<and> CurrentDigest c = iu_NewDigest p \<and>
    PreviousDigest c = CurrentDigest cs \<and> cs_Labels c = cs_Labels cs \<and>
    (\<forall>j. j \<noteq> newID \<longrightarrow> state_of (w_store w') j =
       (if j = iu_ContainerID p then None else state_of (w_store w) j)) \<and>
    w_bus w' = deliver TopicUpdateApplied (applied_payload (now 6) p newID) (w_bus w)"
proof -
  have st: "state_of (w_store w) (iu_ContainerID p) = Some cs" using Get_state [OF assms(8)] assms(9) by simp
  note inv = world_invD(2) [OF assms(1)]
  from handle_applied [where now = now and e = e, OF assms(1-13)] obtain w' where w': "handle e now rand p w = Inr w'"
    "w_docker w' = d" "w_bus w' = deliver TopicUpdateApplied (applied_payload (now 6) p newID) (w_bus w)"
    and s: "w_store w' = executor_carry (now 5) (iu_ContainerID p) (iu_Image p) (iu_NewDigest p) newID (w_store w)"
    by blast
  from exec_carrier.carried_digests [OF inv st assms(14)] obtain c where "state_of (w_store w') newID = Some c"
    "CurrentDigest c = iu_NewDigest p" "PreviousDigest c = CurrentDigest cs" "cs_Labels c = cs_Labels cs"
    unfolding s by blast
  moreover have "\<forall>j. j \<noteq> newID \<longrightarrow> state_of (w_store w') j =
      (if j = iu_ContainerID p then None else state_of (w_store w) j)"
    unfolding s using exec_carrier.carry_state_of [OF inv st assms(14)] by simp
  ultimately show ?thesis using w' by blast
qed

theorem update_moves_state_witness:
  "\<exists>w' c. handle demo_exec (\<lambda>_. 1) (replicate 16 0) demo_update demo_world = Inr w' \<and>
     state_of (w_store w') ''n-web'' = Some c \<and> CurrentDigest c = ''sha256:new'' \<and>
     PreviousDigest c = ''sha256:old''"
proof -
  have a: "e_jobRegistry demo_exec" "e_history demo_exec" "hs_faults (w_hist demo_world) = []"
    "length (replicate 16 (0 :: byte)) = 16" "(\<lambda>_ :: nat. 1 :: time) 0 \<noteq> zero_time"
    "\<forall>r \<in> set (hs_rows (w_hist demo_world)). r_deploy_id r \<noteq> Some (newUUID (replicate 16 0))"
    "Get (iu_ContainerID demo_update) (w_store demo_world) = Some 0"
    "st_heap (w_store demo_world) 0 = demo_state0"
    by (simp_all add: demo_exec_def demo_world_def demo_hist_def zero_time_def second_ns_def
        demo_update_def demo_Get demo_state0_def)
  have d: "map_get (cs_Labels demo_state0) labelComposeUpdate \<noteq> ''auto'' \<or> FromLabels (cs_Labels demo_state0) = None"
    by (simp add: demo_policy)
  obtain d' where r: "Recreate (e_docker demo_exec) (iu_ContainerID demo_update)
      (imageRef (iu_Image demo_update) (iu_NewDigest demo_update)) (w_docker demo_world) = ((''n-web'', None), d')"
    using demo_Recreate by (simp add: demo_exec_def demo_update_def demo_world_def)
  have "iu_NewDigest demo_update = ''sha256:new''" "CurrentDigest demo_state0 = ''sha256:old''"
    by (simp_all add: demo_update_def demo_state0_eq)
  with update_moves_state [OF demo_world_inv a demo_policy(1,3) d r] show ?thesis by auto
qed

text \<open>C2: A container whose label says \<open>notify\<close>, or that compose manages without the opt-in label,
  is never touched: the executor only announces the update as skipped, flagging a major version
  bump, and leaves Docker, files, store, jobs and history alone.\<close>

theorem notify_only_containers_untouched:
  assumes "world_inv w" and "Get (iu_ContainerID p) (w_store w) = Some ca" and "st_heap (w_store w) ca = cs"
    and "watchEnabled (cs_Labels cs)"
    and "(FromLabels (cs_Labels cs) \<noteq> None \<and> map_get (cs_Labels cs) labelComposeUpdate \<noteq> ''auto'') \<or>
      strategyFromLabels (cs_Labels cs) = StrategyNotify"
  shows "\<exists>q. handle e now rand p w =
      Inr (w\<lparr>w_bus := deliver TopicUpdateSkipped (UpdateSkippedPayload q) (w_bus w)\<rparr>) \<and>
    us_ContainerID q = iu_ContainerID p \<and> us_Reason q = ''semver strategy: '' @ StrategyNotify \<and>
    us_BreakingChange q = isMajorBump (cs_Image cs) (iu_Image p)"
proof -
  have eff: "effective_strategy (cs_Labels cs) = StrategyNotify"
    using assms(5) by (auto simp: effective_strategy_def split: option.splits)
  have "handle e now rand p w =
      Inr (w\<lparr>w_bus := deliver TopicUpdateSkipped (UpdateSkippedPayload (skip_payload e (now 0) p cs)) (w_bus w)\<rparr>)"
    using assms(2,3,4) by (simp add: handle_def eff evaluate_def publish_w_eq [OF assms(1)])
  moreover have "us_ContainerID (skip_payload e (now 0) p cs) = iu_ContainerID p"
    "us_Reason (skip_payload e (now 0) p cs) = ''semver strategy: '' @ StrategyNotify"
    "us_BreakingChange (skip_payload e (now 0) p cs) = isMajorBump (cs_Image cs) (iu_Image p)"
    by (simp_all add: skip_payload_def Let_def eff)
  ultimately show ?thesis by blast
qed

definition demo_notify :: "demo_daemon world" where
  "demo_notify = demo_world\<lparr>w_store :=
     snd (Upsert ''c1'' ''web'' ''web:1'' (fmupd labelKey StrategyNotify fmempty) New_store)\<rparr>"

theorem notify_only_containers_untouched_witness:
  "\<exists>w'. handle demo_exec (\<lambda>_. 1) (replicate 16 0) (demo_update\<lparr>iu_Image := ''web:2''\<rparr>) demo_notify = Inr w' \<and>
     w_docker w' = demo_start \<and> w_hist w' = demo_hist"
proof -
  have s: "Get ''c1'' (w_store demo_notify) = Some 0"
    "st_heap (w_store demo_notify) 0 =
       \<lparr>cs_ID = ''c1'', cs_Name = ''web'', cs_Image = ''web:1'', cs_Labels = fmupd labelKey StrategyNotify fmempty,
        cs_digestHistory = []\<rparr>" (is "_ = ?cs")
    by (simp_all add: demo_notify_def Get_def Upsert_def New_store_def)
  have "world_inv demo_notify" unfolding demo_notify_def
    by (intro world_inv_upd(2) demo_world_inv Upsert_inv New_store_inv)
  moreover have "Get (iu_ContainerID (demo_update\<lparr>iu_Image := ''web:2''\<rparr>)) (w_store demo_notify) = Some 0"
    using s(1) by (simp add: demo_update_def)
  moreover have "watchEnabled (cs_Labels ?cs)"
    by (simp add: watchEnabled_def labelWatch_def labelKey_def)
  moreover have "strategyFromLabels (cs_Labels ?cs) = StrategyNotify" by (simp add: strategyFromLabels_def)
  ultimately obtain q where "handle demo_exec (\<lambda>_. 1) (replicate 16 0) (demo_update\<lparr>iu_Image := ''web:2''\<rparr>) demo_notify =
      Inr (demo_notify\<lparr>w_bus := deliver TopicUpdateSkipped (UpdateSkippedPayload q) (w_bus demo_notify)\<rparr>)"
    using notify_only_containers_untouched [OF _ _ s(2)] by blast
  then show ?thesis by (simp add: demo_notify_def demo_world_def)
qed

end
