(* ===== verification/Rollback.thy ===== *)
theory Rollback
  imports World Carrier
begin

text \<open>
  The rollback engine, \<open>internal/rollback/rollback.go\<close>.  The first thing \<open>handle\<close> does is slice
  the applied digest for a log line; that slice is not checked and is kept here, as it can panic.
\<close>

section \<open>Definitions\<close>

definition restore :: "'d scoped \<Rightarrow> container_unhealthy \<Rightarrow> 'd \<Rightarrow> (string \<times> error option) \<times> 'd" where
  "restore docker p d =
     (let ref = cu_Image p @ ''@'' @ cu_PrevDigest p in Recreate docker (cu_ContainerID p) ref d)"

text \<open>The state moves to the new id if it is known, and the restored digest becomes current.\<close>

definition rollback_carry :: "time \<Rightarrow> string \<Rightarrow> string \<Rightarrow> string \<Rightarrow> string \<Rightarrow> store \<Rightarrow> store" where
  "rollback_carry now oldID img digest newID s =
     (let (cs, s) = Rekey oldID newID s;
          cs = (case cs of None \<Rightarrow> Get oldID s | Some a \<Rightarrow> Some a)
      in case cs of None \<Rightarrow> s | Some a \<Rightarrow> push_at a img digest now s)"

definition rolled_back :: "time \<Rightarrow> container_unhealthy \<Rightarrow> string \<Rightarrow> payload" where
  "rolled_back now p newID =
     RollbackDonePayload \<lparr>rd_ContainerID = newID, rd_ContainerName = cu_ContainerName p,
       rd_Image = cu_Image p, rd_RestoredDigest = cu_PrevDigest p, rd_RolledBackAt = now\<rparr>"

definition handle_rollback ::
  "'d scoped \<Rightarrow> (nat \<Rightarrow> time) \<Rightarrow> container_unhealthy \<Rightarrow> 'd world \<Rightarrow> panic + 'd world" where
  "handle_rollback docker now p w =
     (case checked_slice_to (cu_AppliedDigest p) 16 of
        Inl x \<Rightarrow> Inl x
      | Inr _ \<Rightarrow>
          if cu_PrevDigest p = [] then Inr w
          else
            (case restore docker p (w_docker w) of
               ((_, Some err), d) \<Rightarrow> Inr (w\<lparr>w_docker := d\<rparr>)
             | ((newID, None), d) \<Rightarrow>
                 publish_w TopicRollbackDone (rolled_back (now 1) p newID)
                   (w\<lparr>w_docker := d,
                      w_store := rollback_carry (now 0) (cu_ContainerID p) (cu_Image p) (cu_PrevDigest p)
                        newID (w_store w)\<rparr>)))"

section \<open>The store after a rollback\<close>

lemma rollback_carry_inv: "store_inv s \<Longrightarrow> store_inv (rollback_carry now old img d new s)"
  using Rekey_inv [of s old new]
  by (auto simp: rollback_carry_def push_at_inv split: prod.splits option.splits)

lemma rollback_carry_known:
  assumes "store_inv s" "fmlookup (st_containers s) old = Some a"
  shows "state_of (rollback_carry now old img d new s) j =
    (if j = new then Some (PushDigest img d now ((st_heap s a)\<lparr>cs_ID := new\<rparr>))
     else if j = old then None else state_of s j)"
proof -
  obtain t where r: "Rekey old new s = (Some a, t)" using assms(2) by (simp add: Rekey_def)
  have inv: "store_inv t" using Rekey_inv [OF assms(1), of old new] r by simp
  have "fmlookup (st_containers t) new = Some a" using Rekey_lookup [OF assms(2), of new] r by simp
  then have "fmlookup (st_containers t) j = Some a \<longleftrightarrow> j = new"
    using store_inv_inj [OF inv, of new a j] by auto
  moreover have "rollback_carry now old img d new s = push_at a img d now t"
    by (simp add: rollback_carry_def r)
  moreover have "state_of s old = Some (st_heap s a)" using assms(2) by (simp add: state_of_def)
  then have "state_of t j = (if j = new then Some ((st_heap s a)\<lparr>cs_ID := new\<rparr>)
      else if j = old then None else state_of s j)"
    using state_of_Rekey [OF assms(1), of old new j] r by simp
  ultimately show ?thesis by (simp only: state_of_push_at [OF inv]) simp
qed

lemma rollback_carry_unknown:
  "Get old s = None \<Longrightarrow> rollback_carry now old img d new s = s"
  by (simp add: rollback_carry_def Rekey_def Get_def)

interpretation rollback_carrier: digest_carrier rollback_carry
proof
  fix s c now and old new img d j :: string
  assume s: "store_inv s" "state_of s old = Some c" "new \<noteq> []"
  then obtain a where "fmlookup (st_containers s) old = Some a" "c = st_heap s a"
    by (auto simp: state_of_def)
  with s show "state_of (rollback_carry now old img d new s) j =
      (if j = new then Some (PushDigest img d now (c\<lparr>cs_ID := new\<rparr>))
       else if j = old then None else state_of s j)"
    by (simp add: rollback_carry_known)
qed (rule rollback_carry_inv)

section \<open>The handler\<close>

lemma handle_rollback_short:
  "length (cu_AppliedDigest p) < 16 \<Longrightarrow> handle_rollback docker now p w = Inl SliceOutOfRange"
  by (simp add: handle_rollback_def checked_slice_to_def)

lemma handle_rollback_done:
  assumes "world_inv w" "16 \<le> length (cu_AppliedDigest p)" "cu_PrevDigest p \<noteq> []"
    "restore docker p (w_docker w) = ((newID, None), d)"
  shows "handle_rollback docker now p w =
    Inr (w\<lparr>w_docker := d,
           w_store := rollback_carry (now 0) (cu_ContainerID p) (cu_Image p) (cu_PrevDigest p) newID (w_store w),
           w_bus := deliver TopicRollbackDone (rolled_back (now 1) p newID) (w_bus w)\<rparr>)"
proof -
  have "world_inv (w\<lparr>w_docker := d,
      w_store := rollback_carry (now 0) (cu_ContainerID p) (cu_Image p) (cu_PrevDigest p) newID (w_store w)\<rparr>)"
    using assms(1) by (simp add: world_inv_def rollback_carry_inv)
  then show ?thesis using assms(2-4)
    by (simp add: handle_rollback_def checked_slice_to_def publish_w_eq)
qed

lemma handle_rollback_safe:
  assumes "world_inv w" "16 \<le> length (cu_AppliedDigest p)"
  shows "\<exists>w'. handle_rollback docker now p w = Inr w' \<and> world_inv w'"
proof (cases "cu_PrevDigest p = []")
  case False
  obtain newID err d where r: "restore docker p (w_docker w) = ((newID, err), d)" by (metis prod.exhaust)
  show ?thesis
  proof (cases err)
    case None
    show ?thesis
      unfolding handle_rollback_done [OF assms False r [unfolded None]]
      using assms(1) by (simp add: world_inv_def rollback_carry_inv deliver_inv)
  qed (use assms False r in \<open>simp add: handle_rollback_def checked_slice_to_def\<close>)
qed (use assms in \<open>simp add: handle_rollback_def checked_slice_to_def\<close>)

section \<open>Properties\<close>

definition demo_broken :: container_unhealthy where
  "demo_broken = \<lparr>cu_ContainerID = ''c1'', cu_ContainerName = ''web'', cu_Image = ''web:1'',
     cu_AppliedDigest = ''sha256:new1234567'', cu_PrevDigest = ''sha256:old'', cu_FailedAt = 0\<rparr>"

text \<open>The rollback engine panics exactly on a digest of fewer than 16 bytes: formatting its log
  line slices the applied digest before anything else is looked at.\<close>

theorem rollback_panics_on_short_digest:
  assumes "world_inv w"
  shows "handle_rollback docker now p w = Inl SliceOutOfRange \<longleftrightarrow> length (cu_AppliedDigest p) < 16"
proof (cases "length (cu_AppliedDigest p) < 16")
  case False
  then obtain w' where "handle_rollback docker now p w = Inr w'"
    using handle_rollback_safe [OF assms, of p docker now] by auto
  with False show ?thesis by simp
qed (simp add: handle_rollback_short)

theorem rollback_panics_on_short_digest_witness:
  "handle_rollback (demo_docker True) (\<lambda>_. 0) (demo_broken\<lparr>cu_AppliedDigest := []\<rparr>) demo_world
     = Inl SliceOutOfRange"
  using rollback_panics_on_short_digest [OF demo_world_inv] by simp

text \<open>C19: A rollback recreates the container from its image pinned to the previous digest.  Without a previous
  digest nothing happens, and if Docker fails only Docker's own state may have changed.  If Docker recreates it, the rollback
  is announced and the container is tracked under its new id alone, with the restored digest in front of its
  digests, the one it had as its previous one, and its name, image and labels; every other container, the jobs, the
  history, the services and the files are as before.  A container that is not tracked stays so.\<close>

theorem rollback_restores_previous:
  assumes "world_inv w" and "16 \<le> length (cu_AppliedDigest p)"
    and "Recreate docker (cu_ContainerID p) (cu_Image p @ ''@'' @ cu_PrevDigest p) (w_docker w) = ((newID, err), d)"
    and "newID \<noteq> [] \<or> err \<noteq> None"
  shows "\<exists>w'. handle_rollback docker now p w = Inr w' \<and>
    (if cu_PrevDigest p = [] then w' = w
     else if err \<noteq> None then w' = w\<lparr>w_docker := d\<rparr>
     else w_docker w' = d \<and> w_jobs w' = w_jobs w \<and> w_hist w' = w_hist w \<and> w_config w' = w_config w \<and> w_fs w' = w_fs w \<and>
       w_bus w' = deliver TopicRollbackDone (RollbackDonePayload \<lparr>rd_ContainerID = newID,
         rd_ContainerName = cu_ContainerName p, rd_Image = cu_Image p, rd_RestoredDigest = cu_PrevDigest p,
         rd_RolledBackAt = now 1\<rparr>) (w_bus w) \<and>
       (case state_of (w_store w) (cu_ContainerID p) of
          None \<Rightarrow> w_store w' = w_store w
        | Some c \<Rightarrow>
           (\<exists>c'. state_of (w_store w') newID = Some c' \<and> cs_ID c' = newID \<and>
              CurrentDigest c' = cu_PrevDigest p \<and> PreviousDigest c' = CurrentDigest c \<and>
              digests c' = take digestHistorySize (cu_PrevDigest p # digests c) \<and>
              cs_Name c' = cs_Name c \<and> cs_Image c' = cs_Image c \<and> cs_Labels c' = cs_Labels c) \<and>
           (\<forall>j. j = newID \<or> state_of (w_store w') j =
              (if j = cu_ContainerID p then None else state_of (w_store w) j))))"
proof -
  let ?old = "cu_ContainerID p" and ?prev = "cu_PrevDigest p"
  have r: "restore docker p (w_docker w) = ((newID, err), d)" using assms(3) by (simp add: restore_def)
  show ?thesis
  proof (cases "?prev = [] \<or> err \<noteq> None")
    case True
    with r assms(2) show ?thesis by (auto simp: handle_rollback_def checked_slice_to_def)
  next
    case False
    let ?s = "rollback_carry (now 0) ?old (cu_Image p) ?prev newID (w_store w)"
    from False r have h: "handle_rollback docker now p w = Inr (w\<lparr>w_docker := d, w_store := ?s,
        w_bus := deliver TopicRollbackDone (rolled_back (now 1) p newID) (w_bus w)\<rparr>)"
      using handle_rollback_done [OF assms(1,2), of docker newID d now] by simp
    show ?thesis
    proof (cases "state_of (w_store w) ?old")
      case None
      then have "?s = w_store w" by (intro rollback_carry_unknown) (simp add: state_of_def Get_def)
      with False None h show ?thesis by (simp add: rolled_back_def)
    next
      case (Some c)
      let ?c = "PushDigest (cu_Image p) ?prev (now 0) (c\<lparr>cs_ID := newID\<rparr>)"
      have s: "state_of ?s j = (if j = newID then Some ?c else if j = ?old then None else state_of (w_store w) j)" for j
        using rollback_carrier.carry_state_of [OF world_invD(2) [OF assms(1)] Some, of newID] assms(4) False by blast
      have "CurrentDigest (c\<lparr>cs_ID := newID\<rparr>) = CurrentDigest c" "digests (c\<lparr>cs_ID := newID\<rparr>) = digests c"
        by (simp_all add: CurrentDigest_def digests_def)
      with False Some h show ?thesis by (simp add: rolled_back_def s digests_PushDigest)
    qed
  qed
qed

theorem rollback_restores_previous_witness:
  "\<exists>w' c. handle_rollback (demo_docker True) (\<lambda>_. 0) demo_broken demo_world = Inr w' \<and>
     state_of (w_store w') ''n-web'' = Some c \<and> CurrentDigest c = ''sha256:old''"
proof -
  have b: "cu_ContainerID demo_broken = ''c1''" "cu_PrevDigest demo_broken = ''sha256:old''"
    "16 \<le> length (cu_AppliedDigest demo_broken)" "w_store demo_world = demo_store"
    by (simp_all add: demo_broken_def demo_world_def)
  obtain c where c: "state_of (w_store demo_world) (cu_ContainerID demo_broken) = Some c"
    using demo_state by (simp add: b)
  obtain d where "Recreate (demo_docker True) (cu_ContainerID demo_broken)
     (cu_Image demo_broken @ ''@'' @ cu_PrevDigest demo_broken) (w_docker demo_world) = ((''n-web'', None), d)"
    using demo_Recreate by (simp add: b(1) demo_world_def)
  from rollback_restores_previous [OF demo_world_inv b(3) this, of "\<lambda>_. 0"] c
  show ?thesis by (auto simp: b)
qed

end
