(* ===== verification/Watcher.thy ===== *)
theory Watcher
  imports World
begin

text \<open>
  The watcher, \<open>internal/watcher/watcher.go\<close>: how a Docker event becomes a change of the store or
  an event on the bus.  \<open>to_event\<close> is the projection \<open>StreamEvents\<close> applies to the SDK's messages
  (\<open>internal/dockerclient/scoped.go\<close>).  \<open>order\<close> is the order in which \<open>All\<close> ranges over the store,
  and \<open>now k\<close> the clock reading of the \<open>k\<close>-th publication.
\<close>

section \<open>Definitions\<close>

record event_message =
  em_Type :: string
  em_Action :: string
  em_ActorID :: string
  em_Attributes :: "(string, string) fmap"

record docker_event =
  dv_Type :: string
  dv_Action :: string
  dv_ID :: string
  dv_Name :: string
  dv_Image :: string

definition to_event :: "event_message \<Rightarrow> docker_event" where
  "to_event m = \<lparr>dv_Type = em_Type m, dv_Action = em_Action m, dv_ID = em_ActorID m,
     dv_Name = map_get (em_Attributes m) ''name'', dv_Image = map_get (em_Attributes m) ''image''\<rparr>"

definition pull_payload :: "time \<Rightarrow> string \<Rightarrow> string \<Rightarrow> container_state \<Rightarrow> image_updated" where
  "pull_payload now imageName newDigest cs =
     \<lparr>iu_ContainerID = cs_ID cs, iu_ContainerName = cs_Name cs, iu_Image = imageName,
      iu_OldDigest = CurrentDigest cs, iu_NewDigest = newDigest, iu_DetectedAt = now\<rparr>"

fun pull_loop ::
  "(nat \<Rightarrow> time) \<Rightarrow> nat \<Rightarrow> string \<Rightarrow> string \<Rightarrow> addr list \<Rightarrow> 'd world \<Rightarrow> panic + 'd world" where
  "pull_loop now k imageName newDigest [] w = Inr w"
| "pull_loop now k imageName newDigest (a # as) w =
     (let cs = st_heap (w_store w) a; storedImage = strip_digest (cs_Image cs) in
      if storedImage \<noteq> imageName then pull_loop now k imageName newDigest as w
      else if newDigest \<noteq> [] \<and> CurrentDigest cs = newDigest then pull_loop now k imageName newDigest as w
      else
        (case publish_w TopicImageUpdated
                (ImageUpdatedPayload (pull_payload (now k) imageName newDigest cs)) w of
           Inl x \<Rightarrow> Inl x
         | Inr w \<Rightarrow> pull_loop now (Suc k) imageName newDigest as w))"

definition handleImageEvent ::
  "string list \<Rightarrow> (nat \<Rightarrow> time) \<Rightarrow> docker_event \<Rightarrow> 'd world \<Rightarrow> panic + 'd world" where
  "handleImageEvent order now ev w =
     (if dv_Action ev \<noteq> ''pull'' then Inr w
      else
        let imageName = dv_Name ev in
        if imageName = [] then Inr w
        else pull_loop now 0 imageName (dv_ID ev) (All order (w_store w)) w)"

definition unhealthy_payload :: "time \<Rightarrow> container_state \<Rightarrow> container_unhealthy" where
  "unhealthy_payload now cs =
     \<lparr>cu_ContainerID = cs_ID cs, cu_ContainerName = cs_Name cs, cu_Image = cs_Image cs,
      cu_AppliedDigest = CurrentDigest cs, cu_PrevDigest = PreviousDigest cs, cu_FailedAt = now\<rparr>"

definition handleContainerEvent ::
  "'d scoped \<Rightarrow> (nat \<Rightarrow> time) \<Rightarrow> docker_event \<Rightarrow> 'd world \<Rightarrow> panic + 'd world" where
  "handleContainerEvent docker now ev w =
     (if dv_Action ev = ''start'' then
        (case sc_Inspect docker (dv_ID ev) (w_docker w) of
           Inl e \<Rightarrow> Inr w
         | Inr info \<Rightarrow>
             let name = TrimPrefix (ir_Name info) ''/'';
                 (labels, img) =
                   (case ir_Config info of
                      None \<Rightarrow> (fmempty, dv_Image ev)
                    | Some cfg \<Rightarrow> (cc_Labels cfg, if dv_Image ev = [] then cc_Image cfg else dv_Image ev))
             in Inr (w\<lparr>w_store := snd (Upsert (dv_ID ev) name img labels (w_store w))\<rparr>))
      else if dv_Action ev = ''destroy'' then Inr (w\<lparr>w_store := Remove (dv_ID ev) (w_store w)\<rparr>)
      else if dv_Action ev = ''health_status: unhealthy'' then
        (case Get (dv_ID ev) (w_store w) of
           None \<Rightarrow> Inr w
         | Some a \<Rightarrow>
             publish_w TopicContainerUnhealthy
               (ContainerUnhealthyPayload (unhealthy_payload (now 0) (st_heap (w_store w) a))) w)
      else Inr w)"

definition handleEvent ::
  "'d scoped \<Rightarrow> string list \<Rightarrow> (nat \<Rightarrow> time) \<Rightarrow> docker_event \<Rightarrow> 'd world \<Rightarrow> panic + 'd world" where
  "handleEvent docker order now ev w =
     (if dv_Type ev = ''image'' then handleImageEvent order now ev w
      else if dv_Type ev = ''container'' then handleContainerEvent docker now ev w
      else Inr w)"

section \<open>Image pulls\<close>

text \<open>The containers an image pull concerns, and what is published for them.\<close>

definition pull_concerns :: "string \<Rightarrow> string \<Rightarrow> container_state \<Rightarrow> bool" where
  "pull_concerns imageName newDigest cs \<longleftrightarrow>
     strip_digest (cs_Image cs) = imageName \<and> (newDigest = [] \<or> CurrentDigest cs \<noteq> newDigest)"

text \<open>The payloads in order, the \<open>k\<close>-th stamped with the \<open>k\<close>-th reading.\<close>

fun pull_payloads ::
  "(nat \<Rightarrow> time) \<Rightarrow> nat \<Rightarrow> string \<Rightarrow> string \<Rightarrow> container_state list \<Rightarrow> image_updated list" where
  "pull_payloads now k imageName newDigest [] = []"
| "pull_payloads now k imageName newDigest (c # cs) =
     (if pull_concerns imageName newDigest c
      then pull_payload (now k) imageName newDigest c # pull_payloads now (Suc k) imageName newDigest cs
      else pull_payloads now k imageName newDigest cs)"

lemma pull_loop_eq:
  assumes "world_inv w"
  shows "pull_loop now k n d as w =
    Inr (w\<lparr>w_bus := deliver_updates (pull_payloads now k n d (map (st_heap (w_store w)) as)) (w_bus w)\<rparr>)"
  using assms
proof (induction as arbitrary: k w)
  case (Cons a as)
  let ?c = "st_heap (w_store w) a"
  show ?case
  proof (cases "pull_concerns n d ?c")
    case True
    let ?w = "w\<lparr>w_bus := deliver TopicImageUpdated (ImageUpdatedPayload (pull_payload (now k) n d ?c)) (w_bus w)\<rparr>"
    have "pull_loop now k n d (a # as) w = pull_loop now (Suc k) n d as ?w"
      using True by (auto simp: pull_concerns_def publish_w_eq [OF Cons.prems] Let_def)
    with Cons.IH [OF deliver_world_inv [OF Cons.prems]] True show ?thesis by simp
  next
    case False
    then have "pull_loop now k n d (a # as) w = pull_loop now k n d as w"
      by (auto simp: pull_concerns_def Let_def)
    with Cons.IH [OF Cons.prems] False show ?thesis by simp
  qed
qed simp

lemma set_pull_payloads:
  "(\<lambda>p. (iu_ContainerID p, iu_OldDigest p, iu_NewDigest p, iu_Image p)) ` set (pull_payloads now k n d cs) =
   (\<lambda>c. (cs_ID c, CurrentDigest c, d, n)) ` {c \<in> set cs. pull_concerns n d c}"
  by (induction now k n d cs rule: pull_payloads.induct) (auto simp: pull_payload_def)

section \<open>Every event is safe\<close>

lemma handleEvent_safe:
  assumes "world_inv w" shows "\<exists>w'. handleEvent docker order now ev w = Inr w' \<and> world_inv w'"
proof (cases "dv_Type ev = ''image''")
  case True
  have "world_inv (w\<lparr>w_bus := deliver_updates ps (w_bus w)\<rparr>)" for ps
    using assms by (simp add: world_inv_def deliver_updates_inv)
  with True assms show ?thesis
    by (auto simp: handleEvent_def handleImageEvent_def pull_loop_eq Let_def)
next
  case False
  have up: "world_inv (w\<lparr>w_store := snd (Upsert i n im l (w_store w))\<rparr>)" for i n im l
    by (intro world_inv_upd(2) assms Upsert_inv world_invD(2))
  have rm: "world_inv (w\<lparr>w_store := Remove i (w_store w)\<rparr>)" for i
    by (intro world_inv_upd(2) assms Remove_inv world_invD(2))
  from False assms up rm show ?thesis
    by (auto simp: handleEvent_def handleContainerEvent_def publish_w_eq deliver_world_inv
        split: sum.splits option.splits prod.splits)
qed

definition watch_step ::
  "'d scoped \<Rightarrow> 'd world \<Rightarrow> string list \<times> (nat \<Rightarrow> time) \<times> docker_event \<Rightarrow> panic + 'd world" where
  "watch_step docker w ev = (case ev of (order, now, e) \<Rightarrow> handleEvent docker order now e w)"

interpretation watch: safe_machine "watch_step docker" world_inv for docker
  by unfold_locales (auto simp: watch_step_def handleEvent_safe split: prod.splits)

lemma handleEvent_destroy:
  "handleEvent docker order now \<lparr>dv_Type = ''container'', dv_Action = ''destroy'', dv_ID = i, dv_Name = n,
      dv_Image = im\<rparr> w = Inr (w\<lparr>w_store := Remove i (w_store w)\<rparr>)"
  by (simp add: handleEvent_def handleContainerEvent_def)

lemma handleEvent_unhealthy:
  assumes "world_inv w" "state_of (w_store w) i = Some c"
  shows "handleEvent docker order now \<lparr>dv_Type = ''container'', dv_Action = ''health_status: unhealthy'',
      dv_ID = i, dv_Name = n, dv_Image = im\<rparr> w =
    Inr (w\<lparr>w_bus := deliver TopicContainerUnhealthy (ContainerUnhealthyPayload (unhealthy_payload (now 0) c)) (w_bus w)\<rparr>)"
proof -
  obtain a where "Get i (w_store w) = Some a" "st_heap (w_store w) a = c"
    using assms(2) by (auto simp: state_of_def Get_def)
  then show ?thesis
    by (simp add: handleEvent_def handleContainerEvent_def publish_w_eq [OF assms(1)])
qed

section \<open>Properties\<close>

text \<open>C23: An image pull is announced for exactly the tracked containers that use the image, however
  their reference was pinned, and do not already run the pulled digest: one event for each, in the
  order the store was ranged over, carrying the container's current digest as the old one; nothing
  but the bus changes.\<close>

theorem pull_announced_to_users_of_image:
  assumes "world_inv w" and "range_order order (st_containers (w_store w))"
    and "dv_Type ev = ''image''" and "dv_Action ev = ''pull''" and "dv_Name ev \<noteq> []"
  shows "\<exists>ps. handleEvent docker order now ev w = Inr (w\<lparr>w_bus := deliver_updates ps (w_bus w)\<rparr>) \<and>
    (\<lambda>p. (iu_ContainerID p, iu_OldDigest p, iu_NewDigest p, iu_Image p)) ` set ps =
      {(i, CurrentDigest c, dv_ID ev, dv_Name ev) | i c. state_of (w_store w) i = Some c \<and>
         strip_digest (cs_Image c) = dv_Name ev \<and> (dv_ID ev = [] \<or> CurrentDigest c \<noteq> dv_ID ev)}"
proof -
  let ?cs = "map (st_heap (w_store w)) (All order (w_store w))"
  let ?ps = "pull_payloads now 0 (dv_Name ev) (dv_ID ev) ?cs"
  have "set ?cs = {c. \<exists>i. state_of (w_store w) i = Some c}"
    using All_states [OF assms(2)] by auto
  then have "(\<lambda>p. (iu_ContainerID p, iu_OldDigest p, iu_NewDigest p, iu_Image p)) ` set ?ps =
      {(i, CurrentDigest c, dv_ID ev, dv_Name ev) | i c. state_of (w_store w) i = Some c \<and>
         strip_digest (cs_Image c) = dv_Name ev \<and> (dv_ID ev = [] \<or> CurrentDigest c \<noteq> dv_ID ev)}"
    unfolding set_pull_payloads pull_concerns_def
    using state_of_cs_ID [OF world_invD(2) [OF assms(1)]] by (auto simp: image_iff)
  moreover have "handleEvent docker order now ev w = Inr (w\<lparr>w_bus := deliver_updates ?ps (w_bus w)\<rparr>)"
    using assms by (simp add: handleEvent_def handleImageEvent_def pull_loop_eq Let_def)
  ultimately show ?thesis by blast
qed

theorem pull_announced_to_users_of_image_witness:
  "\<exists>ps. handleEvent (demo_docker True) [''c1''] (\<lambda>_. 0)
      \<lparr>dv_Type = ''image'', dv_Action = ''pull'', dv_ID = ''sha256:new'', dv_Name = ''web:1'', dv_Image = []\<rparr> demo_world =
      Inr (demo_world\<lparr>w_bus := deliver_updates ps (w_bus demo_world)\<rparr>) \<and>
    iu_ContainerID ` set ps = {''c1''}"
proof -
  let ?ev = "\<lparr>dv_Type = ''image'', dv_Action = ''pull'', dv_ID = ''sha256:new'', dv_Name = ''web:1'', dv_Image = []\<rparr>"
  have s: "w_store demo_world = demo_store" by (simp add: demo_world_def)
  have m: "st_containers demo_store = fmupd ''c1'' 0 fmempty"
    by (simp add: demo_store_def push_at_def Upsert_def New_store_def)
  have o: "range_order [''c1''] (st_containers (w_store demo_world))"
    by (simp add: range_order_def s m)
  from pull_announced_to_users_of_image [OF demo_world_inv o, of ?ev "demo_docker True" "\<lambda>_. 0"]
  obtain ps where p: "handleEvent (demo_docker True) [''c1''] (\<lambda>_. 0) ?ev demo_world =
      Inr (demo_world\<lparr>w_bus := deliver_updates ps (w_bus demo_world)\<rparr>)"
    and e: "(\<lambda>p. (iu_ContainerID p, iu_OldDigest p, iu_NewDigest p, iu_Image p)) ` set ps =
      {(i, CurrentDigest c, ''sha256:new'', ''web:1'') | i c. state_of demo_store i = Some c \<and>
         strip_digest (cs_Image c) = ''web:1'' \<and> (''sha256:new'' = [] \<or> CurrentDigest c \<noteq> ''sha256:new'')}"
    unfolding s by auto
  obtain C where C: "state_of demo_store ''c1'' = Some C" "cs_Image C = ''web:1''" "CurrentDigest C = ''sha256:old''"
    using demo_state by (simp add: CurrentDigest_PushDigest)
  have "state_of demo_store i = Some c \<longleftrightarrow> i = ''c1'' \<and> c = C" for i c
  proof (cases "i = ''c1''")
    case False
    then show ?thesis by (simp add: state_of_def m)
  qed (use C(1) in auto)
  moreover have "strip_digest ''web:1'' = ''web:1''" by (rule strip_digest_id) simp
  ultimately have "(\<lambda>p. (iu_ContainerID p, iu_OldDigest p, iu_NewDigest p, iu_Image p)) ` set ps =
      {(''c1'', ''sha256:old'', ''sha256:new'', ''web:1'')}"
    unfolding e using C(2,3) by auto
  then have "fst ` (\<lambda>p. (iu_ContainerID p, iu_OldDigest p, iu_NewDigest p, iu_Image p)) ` set ps = {''c1''}"
    by simp
  then have "iu_ContainerID ` set ps = {''c1''}" by (simp only: image_image fst_conv)
  with p show ?thesis by blast
qed

end
