(* ===== verification/Healthmon.thy ===== *)
theory Healthmon
  imports World
begin

text \<open>
  The health monitor, \<open>internal/healthmon/healthmon.go\<close>: one goroutine per updated container polls
  its health for a grace window.  \<open>mn_watches\<close> are the goroutines started so far, by number, and
  \<open>mn_watched\<close> the map from container ids to the cancel function of a watch, here its number.
  Which case a goroutine's \<open>select\<close> takes is up to the scheduler and the timers, so the goroutines
  are a step relation \<open>mon_step\<close>; a tick and the deferred deletion that follows it are one step.
  \<open>time.ParseDuration\<close> is an argument.
\<close>

section \<open>Definitions\<close>

record health_watch =
  wt_p :: update_applied
  wt_grace :: time
  wt_cancelled :: bool
  wt_done :: bool

record monitor =
  mn_watched :: "(string, nat) fmap"
  mn_watches :: "health_watch list"

definition New_monitor :: monitor where
  "New_monitor = \<lparr>mn_watched = fmempty, mn_watches = []\<rparr>"

definition defaultGrace :: time where
  "defaultGrace = 30 * second_ns"

definition graceFor :: "(string \<Rightarrow> time option) \<Rightarrow> string \<Rightarrow> store \<Rightarrow> time" where
  "graceFor parseDuration containerID s =
     (case Get containerID s of
        None \<Rightarrow> defaultGrace
      | Some a \<Rightarrow>
          let v = map_get (cs_Labels (st_heap s a)) ''dockwatch.health.grace'' in
          if v \<noteq> [] then (case parseDuration v of Some d \<Rightarrow> d | None \<Rightarrow> defaultGrace)
          else defaultGrace)"

definition cancel :: "nat \<Rightarrow> monitor \<Rightarrow> monitor" where
  "cancel k m = m\<lparr>mn_watches := (mn_watches m)[k := (mn_watches m ! k)\<lparr>wt_cancelled := True\<rparr>]\<rparr>"

definition startWatch ::
  "(string \<Rightarrow> time option) \<Rightarrow> update_applied \<Rightarrow> store \<Rightarrow> monitor \<Rightarrow> monitor" where
  "startWatch parseDuration p s m =
     (if ua_ContainerID p = [] then m
      else
        let grace = graceFor parseDuration (ua_ContainerID p) s;
            m = (case fmlookup (mn_watched m) (ua_ContainerID p) of
                   Some k \<Rightarrow> cancel k m
                 | None \<Rightarrow> m)
        in \<lparr>mn_watched = fmupd (ua_ContainerID p) (length (mn_watches m)) (mn_watched m),
            mn_watches = mn_watches m @
              [\<lparr>wt_p = p, wt_grace = grace, wt_cancelled = False, wt_done = False\<rparr>]\<rparr>)"

text \<open>A goroutine returns: its deferred function deletes the map entry of its container.\<close>

definition exit_watch :: "nat \<Rightarrow> monitor \<Rightarrow> monitor" where
  "exit_watch k m =
     m\<lparr>mn_watched := fmdrop (ua_ContainerID (wt_p (mn_watches m ! k))) (mn_watched m),
       mn_watches := (mn_watches m)[k := (mn_watches m ! k)\<lparr>wt_done := True\<rparr>]\<rparr>"

definition checkHealth :: "'d scoped \<Rightarrow> string \<Rightarrow> 'd \<Rightarrow> error + bool" where
  "checkHealth docker containerID d =
     (case sc_Inspect docker containerID d of
        Inl e \<Rightarrow> Inl e
      | Inr info \<Rightarrow>
          (case ir_State info of
             None \<Rightarrow> Inr True
           | Some None \<Rightarrow> Inr True
           | Some (Some status) \<Rightarrow> Inr (status \<noteq> ''unhealthy'')))"

definition failed_payload :: "time \<Rightarrow> update_applied \<Rightarrow> store \<Rightarrow> container_unhealthy" where
  "failed_payload now p s =
     \<lparr>cu_ContainerID = ua_ContainerID p, cu_ContainerName = ua_ContainerName p, cu_Image = ua_Image p,
      cu_AppliedDigest = ua_NewDigest p,
      cu_PrevDigest = (case Get (ua_ContainerID p) s of
          Some a \<Rightarrow> PreviousDigest (st_heap s a)
        | None \<Rightarrow> []),
      cu_FailedAt = now\<rparr>"

definition tick_watch ::
  "'d scoped \<Rightarrow> time \<Rightarrow> nat \<Rightarrow> monitor \<Rightarrow> 'd world \<Rightarrow> panic + monitor \<times> 'd world" where
  "tick_watch docker now k m w =
     (let p = wt_p (mn_watches m ! k) in
      case checkHealth docker (ua_ContainerID p) (w_docker w) of
        Inl e \<Rightarrow> Inr (m, w)
      | Inr True \<Rightarrow> Inr (m, w)
      | Inr False \<Rightarrow>
          (case publish_w TopicContainerUnhealthy
                  (ContainerUnhealthyPayload (failed_payload now p (w_store w))) w of
             Inl x \<Rightarrow> Inl x
           | Inr w \<Rightarrow> Inr (exit_watch k m, w)))"

definition live :: "monitor \<Rightarrow> nat \<Rightarrow> bool" where
  "live m k \<longleftrightarrow> k < length (mn_watches m) \<and> \<not> wt_done (mn_watches m ! k)"

text \<open>
  What an operation publishes is observed from outside: run it on a bus with a listener to each topic.
\<close>

definition listening_bus :: bus where
  "listening_bus = fold (\<lambda>t b. snd (Subscribe t b))
     [TopicImageUpdated, TopicContainerUnhealthy, TopicUpdateApplied, TopicUpdateSkipped, TopicRollbackDone] New_bus"

definition published_by :: "('d world \<Rightarrow> panic + 'm \<times> 'd world) \<Rightarrow> 'd world \<Rightarrow> event list" where
  "published_by f w =
     (case f (w\<lparr>w_bus := listening_bus\<rparr>) of
        Inl x \<Rightarrow> []
      | Inr (m, w) \<Rightarrow> concat (map (\<lambda>a. ch_buf (bs_chans (w_bus w) a)) [0..<bs_next listening_bus]))"

text \<open>\<open>Ticks k evs\<close> labels a tick of goroutine \<open>k\<close> with the events it publishes.\<close>

datatype mon_label = Quiet | Ticks nat "event list" | Others

inductive mon_step ::
  "'d scoped \<Rightarrow> (string \<Rightarrow> time option) \<Rightarrow> monitor \<times> 'd world \<Rightarrow> mon_label \<Rightarrow> monitor \<times> 'd world \<Rightarrow> bool"
  for docker :: "'d scoped" and parseDuration :: "string \<Rightarrow> time option"
where
  Start: "mon_step docker parseDuration (m, w) Quiet (startWatch parseDuration p (w_store w) m, w)"
| SeeDone: "live m k \<Longrightarrow> wt_cancelled (mn_watches m ! k) \<Longrightarrow>
    mon_step docker parseDuration (m, w) Quiet (exit_watch k m, w)"
| Deadline: "live m k \<Longrightarrow> mon_step docker parseDuration (m, w) Quiet (exit_watch k m, w)"
| Tick: "live m k \<Longrightarrow> tick_watch docker now k m w = Inr s' \<Longrightarrow>
    mon_step docker parseDuration (m, w) (Ticks k (published_by (tick_watch docker now k m) w)) s'"
| Elsewhere: "mon_step docker parseDuration (m, w) Others (m, w')"

text \<open>\<open>Elsewhere\<close> is a step of any other component.\<close>

inductive mon_run ::
  "'d scoped \<Rightarrow> (string \<Rightarrow> time option) \<Rightarrow> monitor \<times> 'd world \<Rightarrow> mon_label list \<Rightarrow> monitor \<times> 'd world \<Rightarrow> bool"
  for docker :: "'d scoped" and parseDuration :: "string \<Rightarrow> time option"
where
  Nil: "mon_run docker parseDuration s [] s"
| Snoc: "mon_run docker parseDuration s ls t \<Longrightarrow> mon_step docker parseDuration t l u \<Longrightarrow>
    mon_run docker parseDuration s (ls @ [l]) u"

inductive_cases mon_stepE: "mon_step docker parseDuration s l t"

section \<open>What a step does to the goroutines\<close>

lemma cancel_sel [simp]:
  "length (mn_watches (cancel k m)) = length (mn_watches m)" "mn_watched (cancel k m) = mn_watched m"
  "i < length (mn_watches m) \<Longrightarrow> wt_done (mn_watches (cancel k m) ! i) = wt_done (mn_watches m ! i)"
  "i < length (mn_watches m) \<Longrightarrow> wt_p (mn_watches (cancel k m) ! i) = wt_p (mn_watches m ! i)"
  by (cases "i = k"; simp add: cancel_def)+

lemma exit_sel [simp]:
  "length (mn_watches (exit_watch k m)) = length (mn_watches m)"
  "i < length (mn_watches m) \<Longrightarrow>
     wt_done (mn_watches (exit_watch k m) ! i) = (i = k \<or> wt_done (mn_watches m ! i))"
  by (cases "i = k"; simp add: exit_watch_def)+

lemma start_done:
  "i < length (mn_watches m) \<Longrightarrow>
     i < length (mn_watches (startWatch pd p s m)) \<and>
     wt_done (mn_watches (startWatch pd p s m) ! i) = wt_done (mn_watches m ! i)"
  by (auto simp: startWatch_def Let_def nth_append split: option.splits)

definition finished :: "monitor \<Rightarrow> nat \<Rightarrow> bool" where
  "finished m k \<longleftrightarrow> k < length (mn_watches m) \<and> wt_done (mn_watches m ! k)"

lemma finished_exit: "live m k \<Longrightarrow> finished (exit_watch k m) i = (i = k \<or> finished m i)"
  by (auto simp: finished_def live_def)

lemma finished_start: "finished m i \<Longrightarrow> finished (startWatch pd p s m) i"
  using start_done [of i m pd p s] by (auto simp: finished_def)

text \<open>A tick, if the daemon does not report the container unhealthy and if it does.\<close>

definition reported_unhealthy :: "'d scoped \<Rightarrow> string \<Rightarrow> 'd \<Rightarrow> bool" where
  "reported_unhealthy docker i d \<longleftrightarrow>
     (\<exists>info. sc_Inspect docker i d = Inr info \<and> ir_State info = Some (Some ''unhealthy''))"

lemma checkHealth_unhealthy: "checkHealth docker i d = Inr False \<longleftrightarrow> reported_unhealthy docker i d"
  by (auto simp: checkHealth_def reported_unhealthy_def split: sum.split option.split)

lemma listening_bus_next: "bs_next listening_bus = 5"
  by (simp add: listening_bus_def Subscribe_sel New_bus_def)

lemma listening_bus_subs:
  "bus_inv listening_bus" "sub_ch ` set (subs_of listening_bus TopicContainerUnhealthy) = {Suc 0}"
  "ch_buf (bs_chans listening_bus a) = []" "ch_cap (bs_chans listening_bus (Suc 0)) = 64"
proof -
  show "bus_inv listening_bus" by (simp add: listening_bus_def Subscribe_inv New_bus_inv)
  have n: "bs_next New_bus = 0" by (simp add: New_bus_def)
  show "sub_ch ` set (subs_of listening_bus TopicContainerUnhealthy) = {Suc 0}"
    by (simp add: listening_bus_def Subscribe_sel n)
  show "ch_buf (bs_chans listening_bus a) = []" "ch_cap (bs_chans listening_bus (Suc 0)) = 64"
    by (simp_all add: listening_bus_def Subscribe_sel New_bus_def)
qed

lemma listening_bus_deliver:
  "concat (map (\<lambda>a. ch_buf (bs_chans (deliver TopicContainerUnhealthy p listening_bus) a)) [0..<5]) =
     [\<lparr>ev_Topic = TopicContainerUnhealthy, ev_Payload = p\<rparr>]"
proof -
  have "ch_buf (bs_chans (deliver TopicContainerUnhealthy p listening_bus) a) =
      (if a = Suc 0 then [\<lparr>ev_Topic = TopicContainerUnhealthy, ev_Payload = p\<rparr>] else [])" for a
    by (simp add: deliver_chan listening_bus_subs offer_def)
  moreover have "[0..<5] = [0, 1, 2, 3, 4 :: nat]" by (simp add: upt_rec)
  ultimately show ?thesis by simp
qed

lemma on_listening_bus:
  "f (w\<lparr>w_bus := listening_bus\<rparr>) = Inr (m, w\<lparr>w_bus := deliver TopicContainerUnhealthy p listening_bus\<rparr>) \<Longrightarrow>
   published_by f w = [\<lparr>ev_Topic = TopicContainerUnhealthy, ev_Payload = p\<rparr>]"
  using listening_bus_deliver [of p] by (simp add: published_by_def listening_bus_next)

lemma tick_cases:
  fixes m :: monitor and k :: nat and now :: time
  assumes "world_inv w"
  defines "p \<equiv> wt_p (mn_watches m ! k)"
  defines "ev \<equiv> ContainerUnhealthyPayload (failed_payload now p (w_store w))"
  shows "tick_watch docker now k m w =
      (if reported_unhealthy docker (ua_ContainerID p) (w_docker w)
       then Inr (exit_watch k m, w\<lparr>w_bus := deliver TopicContainerUnhealthy ev (w_bus w)\<rparr>) else Inr (m, w))"
  using assms(1) unfolding p_def ev_def checkHealth_unhealthy [symmetric]
  by (auto simp: tick_watch_def Let_def publish_w_eq split: sum.split bool.split)

lemma tick_published:
  defines "p \<equiv> \<lambda>m k. wt_p (mn_watches m ! k)"
  shows "published_by (tick_watch docker now k m) w =
      (if reported_unhealthy docker (ua_ContainerID (p m k)) (w_docker w)
       then [\<lparr>ev_Topic = TopicContainerUnhealthy,
              ev_Payload = ContainerUnhealthyPayload (failed_payload now (p m k) (w_store w))\<rparr>] else [])"
proof (cases "checkHealth docker (ua_ContainerID (p m k)) (w_docker w) = Inr False")
  case True
  then have "tick_watch docker now k m (w\<lparr>w_bus := listening_bus\<rparr>) =
      Inr (exit_watch k m, w\<lparr>w_bus := deliver TopicContainerUnhealthy
        (ContainerUnhealthyPayload (failed_payload now (p m k) (w_store w))) listening_bus\<rparr>)"
    by (simp add: tick_watch_def p_def publish_w_def Publish_deliver [OF listening_bus_subs(1)])
  from on_listening_bus [of "tick_watch docker now k m", OF this] True show ?thesis
    by (simp add: checkHealth_unhealthy)
next
  case False
  then have "tick_watch docker now k m (w\<lparr>w_bus := listening_bus\<rparr>) = Inr (m, w\<lparr>w_bus := listening_bus\<rparr>)"
    by (auto simp: tick_watch_def p_def Let_def split: sum.splits bool.splits)
  with False show ?thesis
    unfolding checkHealth_unhealthy published_by_def by (simp add: listening_bus_subs)
qed

lemma tick_exits:
  assumes "tick_watch docker now k m w = Inr (m', w')"
  shows "m' = (if reported_unhealthy docker (ua_ContainerID (wt_p (mn_watches m ! k))) (w_docker w)
    then exit_watch k m else m)"
  using assms unfolding checkHealth_unhealthy [symmetric]
  by (auto simp: tick_watch_def Let_def split: sum.splits bool.splits)

lemma step_finished:
  assumes "mon_step docker pd (m, w) l (m', w')"
  shows "finished m i \<Longrightarrow> finished m' i"
    and "l = Ticks i evs \<Longrightarrow> live m i \<and> (evs = [] \<or> length evs = 1 \<and> finished m' i)"
  using assms
  by (auto elim!: mon_stepE simp: finished_start finished_exit tick_published dest!: tick_exits split: if_splits)

text \<open>What a watch has published in a run.  By induction over the run: one that has published is finished.\<close>

definition sent_by :: "nat \<Rightarrow> mon_label list \<Rightarrow> event list" where
  "sent_by k ls = concat (map (\<lambda>l. case l of Ticks i evs \<Rightarrow> if i = k then evs else [] | _ \<Rightarrow> []) ls)"

lemma published_once:
  "mon_run docker pd s ls t \<Longrightarrow>
   length (sent_by k ls) \<le> 1 \<and> (sent_by k ls = [] \<or> finished (fst t) k)"
proof (induction rule: mon_run.induct)
  case (Snoc s ls t l u)
  obtain m w m' w' where mw: "t = (m, w)" "u = (m', w')" by (cases t; cases u) auto
  note st = Snoc.hyps(2) [unfolded mw]
  show ?case
  proof (cases "\<exists>evs. l = Ticks k evs")
    case True
    then obtain evs where l: "l = Ticks k evs" by blast
    have "sent_by k ls = []"
      using Snoc.IH step_finished(2) [OF st l] by (auto simp: mw live_def finished_def)
    moreover have "sent_by k (ls @ [l]) = sent_by k ls @ evs" by (simp add: l sent_by_def)
    ultimately show ?thesis using step_finished(2) [OF st l] by (auto simp: mw)
  next
    case False
    then have "sent_by k (ls @ [l]) = sent_by k ls" by (auto simp: sent_by_def split: mon_label.split)
    then show ?thesis using Snoc.IH step_finished(1) [OF st, of k] by (auto simp: mw)
  qed
qed (simp add: sent_by_def)

section \<open>Properties\<close>

text \<open>C25: In every run of the monitor, whatever the timers and the scheduler do, a watch publishes at most one
  event.  Its tick publishes exactly if the daemon just reported the container unhealthy; then it is one event
  with the applied digest and the previous digest of the store, it goes to every listener, and the watch is over.
  A tick on any other answer, an error included, changes nothing, and neither start nor end of a watch
  publishes anything.\<close>

theorem unhealthy_published_once:
  fixes m :: monitor and k :: nat
  assumes "mon_run docker pd (New_monitor, w0) ls (m, w)" and "world_inv w"
  defines "p \<equiv> wt_p (mn_watches m ! k)"
  shows "length (sent_by k ls) \<le> 1 \<and> (\<forall>m' w'. mon_step docker pd (m, w) Quiet (m', w') \<longrightarrow> w' = w) \<and>
    (\<forall>evs m' w'. mon_step docker pd (m, w) (Ticks k evs) (m', w') \<longrightarrow>
       (if \<exists>info. sc_Inspect docker (ua_ContainerID p) (w_docker w) = Inr info \<and> ir_State info = Some (Some ''unhealthy'')
        then sent_by k ls = [] \<and> finished m' k \<and>
          (\<exists>now. let r = ContainerUnhealthyPayload \<lparr>cu_ContainerID = ua_ContainerID p, cu_ContainerName = ua_ContainerName p,
               cu_Image = ua_Image p, cu_AppliedDigest = ua_NewDigest p,
               cu_PrevDigest = (case state_of (w_store w) (ua_ContainerID p) of Some c \<Rightarrow> PreviousDigest c | None \<Rightarrow> []),
               cu_FailedAt = now\<rparr>
             in evs = [\<lparr>ev_Topic = TopicContainerUnhealthy, ev_Payload = r\<rparr>] \<and>
               w' = w\<lparr>w_bus := deliver TopicContainerUnhealthy r (w_bus w)\<rparr>)
        else evs = [] \<and> m' = m \<and> w' = w))"
proof (intro conjI allI impI)
  show "length (sent_by k ls) \<le> 1" using published_once [OF assms(1), of k] by blast
  show "w' = w" if "mon_step docker pd (m, w) Quiet (m', w')" for m' w' using that by (auto elim: mon_stepE)
  fix evs m' w' assume st: "mon_step docker pd (m, w) (Ticks k evs) (m', w')"
  then obtain now where t: "tick_watch docker now k m w = Inr (m', w')"
    "evs = published_by (tick_watch docker now k m) w" by (auto elim: mon_stepE)
  have "live m k" using step_finished(2) [OF st] by blast
  then have "sent_by k ls = []" "finished (exit_watch k m) k"
    using published_once [OF assms(1), of k] by (auto simp: live_def finished_def)
  moreover have "failed_payload now p (w_store w) = \<lparr>cu_ContainerID = ua_ContainerID p, cu_ContainerName = ua_ContainerName p,
      cu_Image = ua_Image p, cu_AppliedDigest = ua_NewDigest p,
      cu_PrevDigest = (case state_of (w_store w) (ua_ContainerID p) of Some c \<Rightarrow> PreviousDigest c | None \<Rightarrow> []),
      cu_FailedAt = now\<rparr>"
    by (simp add: failed_payload_def Get_def state_of_def split: option.split)
  ultimately show "if \<exists>info. sc_Inspect docker (ua_ContainerID p) (w_docker w) = Inr info \<and> ir_State info = Some (Some ''unhealthy'')
        then sent_by k ls = [] \<and> finished m' k \<and>
          (\<exists>now. let r = ContainerUnhealthyPayload \<lparr>cu_ContainerID = ua_ContainerID p, cu_ContainerName = ua_ContainerName p,
               cu_Image = ua_Image p, cu_AppliedDigest = ua_NewDigest p,
               cu_PrevDigest = (case state_of (w_store w) (ua_ContainerID p) of Some c \<Rightarrow> PreviousDigest c | None \<Rightarrow> []),
               cu_FailedAt = now\<rparr>
             in evs = [\<lparr>ev_Topic = TopicContainerUnhealthy, ev_Payload = r\<rparr>] \<and>
               w' = w\<lparr>w_bus := deliver TopicContainerUnhealthy r (w_bus w)\<rparr>)
        else evs = [] \<and> m' = m \<and> w' = w"
    using t tick_cases [OF assms(2), of docker now k m] tick_published [of docker now k m w]
    unfolding reported_unhealthy_def [symmetric] p_def by (auto simp: Let_def)
qed

definition demo_applied :: update_applied where
  "demo_applied = \<lparr>ua_ContainerID = ''c1'', ua_ContainerName = ''web'', ua_Image = ''web:1'',
     ua_OldDigest = ''sha256:old'', ua_NewDigest = ''sha256:new'', ua_AppliedAt = 0\<rparr>"

definition demo_sick :: "demo_daemon world" where
  "demo_sick = demo_world\<lparr>w_docker :=
     fmupd ''c1'' (demo_container\<lparr>ir_State := Some (Some ''unhealthy'')\<rparr>) fmempty\<rparr>"

theorem unhealthy_published_once_witness:
  "\<exists>m m' w' evs. mon_step (demo_docker True) (\<lambda>_. None) (m, demo_sick) (Ticks 0 evs) (m', w') \<and> length evs = 1 \<and>
     finished m' 0 \<and> wt_p (mn_watches m ! 0) = demo_applied"
proof -
  let ?m = "startWatch (\<lambda>_. None) demo_applied (w_store demo_sick) New_monitor"
  have inv: "world_inv demo_sick" by (simp add: demo_sick_def demo_world_inv)
  have m: "live ?m 0" "wt_p (mn_watches ?m ! 0) = demo_applied" "ua_ContainerID demo_applied = ''c1''"
    by (simp_all add: startWatch_def New_monitor_def demo_applied_def live_def)
  have r: "mon_run (demo_docker True) (\<lambda>_. None) (New_monitor, demo_sick) ([] @ [Quiet]) (?m, demo_sick)"
    by (rule mon_run.Snoc [OF mon_run.Nil mon_step.Start])
  have sick: "\<exists>info. sc_Inspect (demo_docker True) (ua_ContainerID (wt_p (mn_watches ?m ! 0))) (w_docker demo_sick) = Inr info \<and>
      ir_State info = Some (Some ''unhealthy'')"
    unfolding m(2,3) by (simp add: demo_docker_def demo_sick_def)
  obtain s where "tick_watch (demo_docker True) 7 0 ?m demo_sick = Inr s"
    using tick_cases [OF inv, of "demo_docker True" 7 0 ?m] by fastforce
  then obtain m' w' evs where st: "mon_step (demo_docker True) (\<lambda>_. None) (?m, demo_sick) (Ticks 0 evs) (m', w')"
    using mon_step.Tick [OF m(1)] by (metis prod.exhaust)
  from unhealthy_published_once [OF r inv, of 0] st sick
  have "finished m' 0 \<and> (\<exists>now r. evs = [\<lparr>ev_Topic = TopicContainerUnhealthy, ev_Payload = r\<rparr>])"
    unfolding if_P [OF sick] Let_def by blast
  then have "finished m' 0" "length evs = 1" by auto
  with st m(2) show ?thesis by blast
qed

text \<open>Restarting the watch of a container can leave two watches of it running.  A cancelled
  watch, when it returns, deletes the map entry of its container, which by then is the entry of its
  successor; the next watch therefore finds nothing to cancel.\<close>

theorem two_live_watches:
  assumes "ua_ContainerID p \<noteq> []"
  shows "\<exists>ls m. mon_run docker pd (New_monitor, w) ls (m, w) \<and>
    live m 1 \<and> live m 2 \<and> \<not> wt_cancelled (mn_watches m ! 1) \<and> \<not> wt_cancelled (mn_watches m ! 2) \<and>
    wt_p (mn_watches m ! 1) = p \<and> wt_p (mn_watches m ! 2) = p"
proof -
  let ?s = "\<lambda>m. startWatch pd p (w_store w) m"
  let ?h = "\<lparr>wt_p = p, wt_grace = graceFor pd (ua_ContainerID p) (w_store w), wt_cancelled = False, wt_done = False\<rparr>"
  define m2 where "m2 = ?s (?s New_monitor)"
  have m2: "mn_watches m2 = [?h\<lparr>wt_cancelled := True\<rparr>, ?h]"
    "mn_watched m2 = fmupd (ua_ContainerID p) 1 (fmupd (ua_ContainerID p) 0 fmempty)"
    using assms by (simp_all add: m2_def startWatch_def New_monitor_def cancel_def Let_def)
  define m3 where "m3 = ?s (exit_watch 0 m2)"
  have m3: "mn_watches m3 = [?h\<lparr>wt_cancelled := True, wt_done := True\<rparr>, ?h, ?h]"
    using assms by (simp add: m3_def startWatch_def exit_watch_def m2 Let_def)
  have "mon_step docker pd (m2, w) Quiet (exit_watch 0 m2, w)"
    by (rule mon_step.SeeDone) (simp_all add: live_def m2)
  moreover have "mon_run docker pd (New_monitor, w) (([] @ [Quiet]) @ [Quiet]) (m2, w)"
    unfolding m2_def by (rule mon_run.Snoc [OF mon_run.Snoc [OF mon_run.Nil mon_step.Start] mon_step.Start])
  ultimately have "mon_run docker pd (New_monitor, w) ((([] @ [Quiet]) @ [Quiet]) @ [Quiet]) (exit_watch 0 m2, w)"
    by (rule mon_run.Snoc [rotated])
  then have "mon_run docker pd (New_monitor, w) (((([] @ [Quiet]) @ [Quiet]) @ [Quiet]) @ [Quiet]) (m3, w)"
    unfolding m3_def by (rule mon_run.Snoc [OF _ mon_step.Start])
  moreover have "live m3 1 \<and> live m3 2 \<and> \<not> wt_cancelled (mn_watches m3 ! 1) \<and>
      \<not> wt_cancelled (mn_watches m3 ! 2) \<and> wt_p (mn_watches m3 ! 1) = p \<and> wt_p (mn_watches m3 ! 2) = p"
    by (simp add: live_def m3)
  ultimately show ?thesis by blast
qed

theorem two_live_watches_witness:
  "\<exists>ls m. mon_run (demo_docker True) (\<lambda>_. None) (New_monitor, demo_sick) ls (m, demo_sick) \<and> live m 1 \<and> live m 2"
proof -
  have "ua_ContainerID demo_applied \<noteq> []" by (simp add: demo_applied_def)
  from two_live_watches [OF this, of "demo_docker True" "\<lambda>_. None" demo_sick] show ?thesis by blast
qed

end
