(* ===== verification/Poller.thy ===== *)
theory Poller
  imports World
begin

text \<open>
  The registry poller, \<open>internal/poller/poller.go\<close>: the scheduled sweep \<open>poll\<close> over containers
  without a service entry, the ticker's \<open>dispatch\<close> over the services, and \<open>checkService\<close>, which
  \<open>dispatch\<close> starts in a goroutine for each service that is due.  \<open>head\<close> is the registry client's
  \<open>HeadDigest\<close> as it answers during the call; the cron schedule and the ticker are not modelled:
  \<open>poll\<close> and \<open>dispatch\<close> may run at any time.
\<close>

section \<open>Definitions\<close>

record poller =
  po_lastCheck :: "(string, time) fmap"

definition New_poller :: poller where
  "New_poller = \<lparr>po_lastCheck = fmempty\<rparr>"

definition detected :: "string \<Rightarrow> string \<Rightarrow> container_state \<Rightarrow> image_updated" where
  "detected current digest cs =
     \<lparr>iu_ContainerID = cs_ID cs, iu_ContainerName = cs_Name cs, iu_Image = cs_Image cs,
      iu_OldDigest = current, iu_NewDigest = digest, iu_DetectedAt = zero_time\<rparr>"

definition compareAndPublish ::
  "time \<Rightarrow> addr \<Rightarrow> svc_config option \<Rightarrow> string \<Rightarrow> 'd world \<Rightarrow> panic + 'd world" where
  "compareAndPublish now a svc digest w =
     (let cs = st_heap (w_store w) a;
          current = CurrentDigest cs;
          (current, w) =
            (case svc of
               Some c \<Rightarrow>
                 (if current = [] \<and> sv_LastDigest c \<noteq> [] then
                    (sv_LastDigest c, w\<lparr>w_store := push_at a (cs_Image cs) (sv_LastDigest c) now (w_store w)\<rparr>)
                  else (current, w))
             | None \<Rightarrow> (current, w))
      in if digest = current then Inr w
         else publish_w TopicImageUpdated (ImageUpdatedPayload (detected current digest cs)) w)"

fun poll_loop ::
  "(string \<Rightarrow> error + string) \<Rightarrow> (nat \<Rightarrow> time) \<Rightarrow> nat \<Rightarrow> addr list \<Rightarrow> 'd world \<Rightarrow> panic + 'd world" where
  "poll_loop head now k [] w = Inr w"
| "poll_loop head now k (a # as) w =
     (let cs = st_heap (w_store w) a in
      if Get_service (cs_Name cs) (w_config w) \<noteq> None then poll_loop head now (Suc k) as w
      else
        (case head (cs_Image cs) of
           Inl e \<Rightarrow> poll_loop head now (Suc k) as w
         | Inr digest \<Rightarrow>
             (case compareAndPublish (now k) a None digest w of
                Inl x \<Rightarrow> Inl x
              | Inr w \<Rightarrow> poll_loop head now (Suc k) as w)))"

definition poll ::
  "(string \<Rightarrow> error + string) \<Rightarrow> (nat \<Rightarrow> time) \<Rightarrow> string list \<Rightarrow> 'd world \<Rightarrow> panic + 'd world" where
  "poll head now order w = poll_loop head now 0 (All order (w_store w)) w"

text \<open>\<open>time.Since\<close> saturates at the limits of a 64-bit duration.\<close>

definition Since :: "time \<Rightarrow> time \<Rightarrow> int" where
  "Since now t = max (- (2 ^ 63)) (min (2 ^ 63 - 1) (now - t))"

text \<open>The services for which \<open>dispatch\<close> starts \<open>checkService\<close>, in order.\<close>

fun dispatch_loop ::
  "(nat \<Rightarrow> time) \<Rightarrow> nat \<Rightarrow> svc_config list \<Rightarrow> poller \<Rightarrow> svc_config list \<times> poller" where
  "dispatch_loop now k [] p = ([], p)"
| "dispatch_loop now k (svc # svcs) p =
     (if sv_TriggerMode svc \<noteq> ''poll'' then dispatch_loop now k svcs p
      else
        let prev = (case fmlookup (po_lastCheck p) (sv_Name svc) of Some t \<Rightarrow> t | None \<Rightarrow> zero_time) in
        if Since (now k) prev < sv_PollerInterval svc then dispatch_loop now (Suc k) svcs p
        else
          let p = p\<lparr>po_lastCheck := fmupd (sv_Name svc) (now (Suc k)) (po_lastCheck p)\<rparr>;
              (due, p) = dispatch_loop now (Suc (Suc k)) svcs p
          in (svc # due, p))"

definition dispatch_services ::
  "(nat \<Rightarrow> time) \<Rightarrow> string list \<Rightarrow> manager \<Rightarrow> poller \<Rightarrow> svc_config list \<times> poller" where
  "dispatch_services now order m p = dispatch_loop now 0 (All_services order m) p"

definition checkService ::
  "time_io \<Rightarrow> (string \<Rightarrow> error + string) \<Rightarrow> string \<Rightarrow> time \<Rightarrow> string list \<Rightarrow> svc_config \<Rightarrow> 'd world \<Rightarrow>
     panic + 'd world" where
  "checkService io head now_text now order svc w =
     (case head (sv_Image svc) of
        Inl e \<Rightarrow> Inr w
      | Inr digest \<Rightarrow>
          let w = w\<lparr>w_config := snd (UpdateDigest io now_text (sv_Name svc) digest (w_config w))\<rparr> in
          (case GetByName order (sv_Name svc) (w_store w) of
             None \<Rightarrow> Inr w
           | Some a \<Rightarrow> compareAndPublish now a (Some svc) digest w))"

section \<open>The sweep\<close>

definition sweep_concerns :: "(string \<Rightarrow> error + string) \<Rightarrow> manager \<Rightarrow> container_state \<Rightarrow> bool" where
  "sweep_concerns head m cs \<longleftrightarrow> Get_service (cs_Name cs) m = None \<and>
     (case head (cs_Image cs) of Inl e \<Rightarrow> False | Inr d \<Rightarrow> d \<noteq> CurrentDigest cs)"

definition sweep_payload :: "(string \<Rightarrow> error + string) \<Rightarrow> container_state \<Rightarrow> image_updated" where
  "sweep_payload head cs =
     detected (CurrentDigest cs) (case head (cs_Image cs) of Inl e \<Rightarrow> [] | Inr d \<Rightarrow> d) cs"

lemma poll_loop_eq:
  assumes "world_inv w"
  shows "poll_loop head now k as w =
    Inr (w\<lparr>w_bus := deliver_updates (map (sweep_payload head)
      (filter (sweep_concerns head (w_config w)) (map (st_heap (w_store w)) as))) (w_bus w)\<rparr>)"
  using assms
proof (induction as arbitrary: k w)
  case (Cons a as)
  let ?c = "st_heap (w_store w) a"
  show ?case
  proof (cases "sweep_concerns head (w_config w) ?c")
    case True
    then obtain d where d: "head (cs_Image ?c) = Inr d" "d \<noteq> CurrentDigest ?c" "Get_service (cs_Name ?c) (w_config w) = None"
      by (auto simp: sweep_concerns_def split: sum.splits)
    let ?w = "w\<lparr>w_bus := deliver TopicImageUpdated (ImageUpdatedPayload (sweep_payload head ?c)) (w_bus w)\<rparr>"
    have "compareAndPublish (now k) a None d w = Inr ?w"
      using d by (simp add: compareAndPublish_def publish_w_eq [OF Cons.prems] sweep_payload_def Let_def)
    then have "poll_loop head now k (a # as) w = poll_loop head now (Suc k) as ?w"
      using d by (simp add: Let_def)
    with Cons.IH [OF deliver_world_inv [OF Cons.prems]] True show ?thesis by simp
  next
    case False
    then have "poll_loop head now k (a # as) w = poll_loop head now (Suc k) as w"
      by (auto simp: sweep_concerns_def compareAndPublish_def Let_def split: sum.splits)
    with Cons.IH [OF Cons.prems] False show ?thesis by simp
  qed
qed simp

section \<open>Properties\<close>

text \<open>C22: A sweep announces an update for exactly the tracked containers that have no service entry
  and whose registry answers with a digest other than the recorded one; nothing else changes.  A
  container that was never updated has no recorded digest, so every sweep announces it, even when
  it already runs the digest the registry reports.\<close>

theorem sweep_announces:
  assumes "world_inv w" and "range_order order (st_containers (w_store w))"
  shows "\<exists>ps. poll head now order w = Inr (w\<lparr>w_bus := deliver_updates ps (w_bus w)\<rparr>) \<and>
    (\<lambda>p. (iu_ContainerID p, iu_OldDigest p, iu_NewDigest p)) ` set ps =
      {(i, CurrentDigest c, d) | i c d. state_of (w_store w) i = Some c \<and>
         Get_service (cs_Name c) (w_config w) = None \<and> head (cs_Image c) = Inr d \<and> d \<noteq> CurrentDigest c} \<and>
    (\<forall>i c d. state_of (w_store w) i = Some c \<and> cs_digestHistory c = [] \<and>
       Get_service (cs_Name c) (w_config w) = None \<and> head (cs_Image c) = Inr d \<and> d \<noteq> [] \<longrightarrow>
       (i, [], d) \<in> (\<lambda>p. (iu_ContainerID p, iu_OldDigest p, iu_NewDigest p)) ` set ps)"
proof -
  let ?cs = "map (st_heap (w_store w)) (All order (w_store w))"
  let ?ps = "map (sweep_payload head) (filter (sweep_concerns head (w_config w)) ?cs)"
  have cs: "set ?cs = {c. \<exists>i. state_of (w_store w) i = Some c}"
    using All_states [OF assms(2)] by auto
  note id = state_of_cs_ID [OF world_invD(2) [OF assms(1)]]
  have set: "(\<lambda>p. (iu_ContainerID p, iu_OldDigest p, iu_NewDigest p)) ` set ?ps =
      {(i, CurrentDigest c, d) | i c d. state_of (w_store w) i = Some c \<and>
         Get_service (cs_Name c) (w_config w) = None \<and> head (cs_Image c) = Inr d \<and> d \<noteq> CurrentDigest c}"
    (is "?L = ?R")
  proof -
    have "?L = (\<lambda>c. (cs_ID c, CurrentDigest c, case head (cs_Image c) of Inl e \<Rightarrow> [] | Inr d \<Rightarrow> d)) `
        {c \<in> set ?cs. sweep_concerns head (w_config w) c}"
      by (simp add: image_image sweep_payload_def detected_def)
    also have "\<dots> = ?R"
    proof (intro set_eqI iffI)
      fix x assume "x \<in> (\<lambda>c. (cs_ID c, CurrentDigest c, case head (cs_Image c) of Inl e \<Rightarrow> [] | Inr d \<Rightarrow> d)) `
        {c \<in> set ?cs. sweep_concerns head (w_config w) c}"
      then obtain c i d where "state_of (w_store w) i = Some c" "Get_service (cs_Name c) (w_config w) = None"
        "head (cs_Image c) = Inr d" "d \<noteq> CurrentDigest c" "x = (cs_ID c, CurrentDigest c, d)"
        unfolding cs by (auto simp: sweep_concerns_def split: sum.splits)
      with id show "x \<in> ?R" by blast
    next
      fix x assume "x \<in> ?R"
      then obtain i c d where x: "x = (i, CurrentDigest c, d)" "state_of (w_store w) i = Some c"
        "Get_service (cs_Name c) (w_config w) = None" "head (cs_Image c) = Inr d" "d \<noteq> CurrentDigest c"
        by blast
      then have "c \<in> set ?cs" "sweep_concerns head (w_config w) c" "cs_ID c = i"
        unfolding cs using id by (auto simp: sweep_concerns_def)
      then show "x \<in> (\<lambda>c. (cs_ID c, CurrentDigest c, case head (cs_Image c) of Inl e \<Rightarrow> [] | Inr d \<Rightarrow> d)) `
        {c \<in> set ?cs. sweep_concerns head (w_config w) c}"
        by (intro image_eqI [of _ _ c]) (simp_all add: x)
    qed
    finally show ?thesis .
  qed
  moreover have "poll head now order w = Inr (w\<lparr>w_bus := deliver_updates ?ps (w_bus w)\<rparr>)"
    by (simp add: poll_def poll_loop_eq [OF assms(1)])
  moreover have "(i, [], d) \<in> ?R" if "state_of (w_store w) i = Some c" "cs_digestHistory c = []"
    "Get_service (cs_Name c) (w_config w) = None" "head (cs_Image c) = Inr d" "d \<noteq> []" for i c d
    using that by (auto simp: CurrentDigest_def intro!: exI [of _ c])
  then have "\<forall>i c d. state_of (w_store w) i = Some c \<and> cs_digestHistory c = [] \<and>
       Get_service (cs_Name c) (w_config w) = None \<and> head (cs_Image c) = Inr d \<and> d \<noteq> [] \<longrightarrow>
       (i, [], d) \<in> ?L"
    unfolding set by blast
  ultimately show ?thesis by (intro exI [of _ ?ps] conjI)
qed

definition demo_head :: "string \<Rightarrow> error + string" where
  "demo_head img = (if img = ''web:1'' then Inr ''sha256:new'' else Inl ''not found'')"

lemma demo_order: "range_order [''c1''] (st_containers (w_store demo_world))"
  by (simp add: range_order_def demo_world_def demo_store_def push_at_def Upsert_def New_store_def)

theorem sweep_announces_witness:
  "\<exists>ps. poll demo_head (\<lambda>_. 0) [''c1''] demo_world = Inr (demo_world\<lparr>w_bus := deliver_updates ps (w_bus demo_world)\<rparr>) \<and>
     (''c1'', ''sha256:old'', ''sha256:new'') \<in> (\<lambda>p. (iu_ContainerID p, iu_OldDigest p, iu_NewDigest p)) ` set ps"
proof -
  obtain C where C: "state_of (w_store demo_world) ''c1'' = Some C" "cs_Image C = ''web:1''"
    "CurrentDigest C = ''sha256:old''"
    using demo_state by (simp add: demo_world_def)
  have "Get_service (cs_Name C) (w_config demo_world) = None" "demo_head (cs_Image C) = Inr ''sha256:new''"
    by (simp_all add: Get_service_def demo_world_def demo_manager_def demo_head_def C(2))
  with C(1,3) have m: "(''c1'', ''sha256:old'', ''sha256:new'') \<in> {(i, CurrentDigest c, d) | i c d.
      state_of (w_store demo_world) i = Some c \<and> Get_service (cs_Name c) (w_config demo_world) = None \<and>
      demo_head (cs_Image c) = Inr d \<and> d \<noteq> CurrentDigest c}"
    by force
  from sweep_announces [OF demo_world_inv demo_order, of demo_head "\<lambda>_. 0"] show ?thesis
  proof (elim exE conjE)
    fix ps
    assume p: "poll demo_head (\<lambda>_. 0) [''c1''] demo_world = Inr (demo_world\<lparr>w_bus := deliver_updates ps (w_bus demo_world)\<rparr>)"
      and s: "(\<lambda>p. (iu_ContainerID p, iu_OldDigest p, iu_NewDigest p)) ` set ps = {(i, CurrentDigest c, d) | i c d.
        state_of (w_store demo_world) i = Some c \<and> Get_service (cs_Name c) (w_config demo_world) = None \<and>
        demo_head (cs_Image c) = Inr d \<and> d \<noteq> CurrentDigest c}"
    show ?thesis by (rule exI [of _ ps], rule conjI, rule p, unfold s, rule m)
  qed
qed

section \<open>A service that is checked\<close>

lemma UpdateDigest_row:
  assumes "mg_faults m = []" "mg_rows m = xs @ r # ys" "sr_name r = n" "n \<notin> sr_name ` set (xs @ ys)"
  shows "UpdateDigest io now n d m =
    (None, m\<lparr>mg_rows := xs @ r\<lparr>sr_last_digest := Some d, sr_last_checked_at := Some now, sr_updated_at := now\<rparr> # ys,
             mg_services := load_rows io (xs @ r\<lparr>sr_last_digest := Some d, sr_last_checked_at := Some now,
                sr_updated_at := now\<rparr> # ys) fmempty\<rparr>)"
proof -
  have "List.map (\<lambda>r. if sr_name r = n then f r else r) zs = zs" if "n \<notin> sr_name ` set zs" for f zs
    using that by (induction zs) auto
  then have "List.map (\<lambda>r. if sr_name r = n then f r else r) xs = xs"
    "List.map (\<lambda>r. if sr_name r = n then f r else r) ys = ys" for f
    using assms(4) by auto
  with assms(1-3) show ?thesis by (simp add: UpdateDigest_def Reload_def db_fault_def)
qed

text \<open>The cache entry of a service after its digest has been recorded.\<close>

lemma UpdateDigest_entry:
  assumes "manager_inv m" "mg_faults m = []" "r \<in> set (mg_rows m)" "sr_name r = n"
  shows "\<exists>m'. UpdateDigest io now n d m = (None, m') \<and> mg_faults m' = [] \<and>
    (\<exists>r'. r' \<in> set (mg_rows m') \<and> sr_name r' = n) \<and>
    (\<exists>c. Get_service n m' = Some c \<and> sv_Name c = n \<and> sv_LastDigest c = d \<and> sv_Image c = sr_image r)"
proof -
  obtain xs ys where xy: "mg_rows m = xs @ r # ys" using assms(3) by (auto dest: split_list)
  with assms(1,4) have n: "n \<notin> sr_name ` set (xs @ ys)" by (auto simp: manager_inv_def)
  let ?r = "r\<lparr>sr_last_digest := Some d, sr_last_checked_at := Some now, sr_updated_at := now\<rparr>"
  have u: "UpdateDigest io now n d m = (None, m\<lparr>mg_rows := xs @ ?r # ys,
      mg_services := load_rows io (xs @ ?r # ys) fmempty\<rparr>)"
    by (rule UpdateDigest_row [OF assms(2) xy assms(4) n])
  have f: "find (\<lambda>q. sr_name q = n) (xs @ ?r # ys) = Some ?r"
    using n assms(4) by (induction xs) auto
  have "distinct (List.map sr_name (xs @ ?r # ys))"
    using assms(1) xy by (simp add: manager_inv_def)
  from load_rows_lookup [OF this] f have "fmlookup (load_rows io (xs @ ?r # ys) fmempty) n = Some (row_config io ?r)"
    by simp
  then have "Get_service n (m\<lparr>mg_rows := xs @ ?r # ys, mg_services := load_rows io (xs @ ?r # ys) fmempty\<rparr>)
      = Some (row_config io ?r)"
    by (simp add: Get_service_def)
  moreover have "sv_Name (row_config io ?r) = n" "sv_LastDigest (row_config io ?r) = d"
    "sv_Image (row_config io ?r) = sr_image r" "sr_name ?r = n"
    using assms(4) by (simp_all add: row_config_def)
  moreover have "?r \<in> set (mg_rows (m\<lparr>mg_rows := xs @ ?r # ys, mg_services := load_rows io (xs @ ?r # ys) fmempty\<rparr>))"
    "mg_faults (m\<lparr>mg_rows := xs @ ?r # ys, mg_services := load_rows io (xs @ ?r # ys) fmempty\<rparr>) = []"
    using assms(2) by simp_all
  ultimately show ?thesis using u by blast
qed

text \<open>The poller announces a service's new digest once.  It records the digest when it sees it,
  not when the update has been applied; so if the update is dropped, skipped or fails, the next check
  takes the recorded digest for the running one, writes it into the container's digest history and
  announces nothing.\<close>

theorem lost_update_is_not_retried:
  assumes "world_inv w" and "mg_faults (w_config w) = []" and "r \<in> set (mg_rows (w_config w))"
    and "sv_Name svc = sr_name r" "sv_Image svc = sr_image r" "sv_LastDigest svc = []"
    and "GetByName order (sr_name r) (w_store w) = Some a" and "cs_digestHistory (st_heap (w_store w) a) = []"
    and "head (sr_image r) = Inr d" and "d \<noteq> []"
  shows "\<exists>w1 svc' w2. checkService io head now1 t1 order svc w = Inr w1 \<and>
    w_bus w1 = deliver TopicImageUpdated (ImageUpdatedPayload (detected [] d (st_heap (w_store w) a))) (w_bus w) \<and>
    w_store w1 = w_store w \<and> Get_service (sr_name r) (w_config w1) = Some svc' \<and>
    checkService io head now2 t2 order svc' w1 = Inr w2 \<and> w_bus w2 = w_bus w1 \<and>
    CurrentDigest (st_heap (w_store w2) a) = d"
proof -
  let ?n = "sr_name r" and ?cs = "st_heap (w_store w) a"
  have cur: "CurrentDigest ?cs = []" using assms(8) by (simp add: CurrentDigest_def)
  obtain m1 svc' where m1: "UpdateDigest io now1 ?n d (w_config w) = (None, m1)" "mg_faults m1 = []"
    "Get_service ?n m1 = Some svc'" "sv_Name svc' = ?n" "sv_LastDigest svc' = d" "sv_Image svc' = sr_image r"
    using UpdateDigest_entry [OF world_invD(5) [OF assms(1)] assms(2,3) refl, of io now1 d] by blast
  let ?wc = "w\<lparr>w_config := m1\<rparr>"
  have "manager_inv m1" using UpdateDigest_inv [OF world_invD(5) [OF assms(1)], of io now1 ?n d] m1(1) by simp
  then have inv: "world_inv ?wc" by (rule world_inv_upd(4) [OF assms(1)])
  define w1 where "w1 = ?wc\<lparr>w_bus := deliver TopicImageUpdated (ImageUpdatedPayload (detected [] d ?cs)) (w_bus w)\<rparr>"
  have c1: "checkService io head now1 t1 order svc w = Inr w1"
    using assms(4-7,9,10) m1(1) cur
    by (simp add: checkService_def compareAndPublish_def publish_w_eq [OF inv] w1_def Let_def)
  let ?m2 = "snd (UpdateDigest io now2 ?n d m1)"
  let ?w2 = "w1\<lparr>w_config := ?m2, w_store := push_at a (cs_Image ?cs) d t2 (w_store w)\<rparr>"
  have c2: "checkService io head now2 t2 order svc' w1 = Inr ?w2"
    using assms(7,9,10) m1(4-6) cur
    by (simp add: checkService_def compareAndPublish_def w1_def Let_def)
  have "CurrentDigest (st_heap (w_store ?w2) a) = d" by (simp add: push_at_def)
  with c1 c2 m1(3) show ?thesis by (auto simp: w1_def)
qed

definition demo_poll :: "demo_daemon world" where
  "demo_poll = demo_world\<lparr>w_store := snd (Upsert ''c1'' ''web'' ''web:1'' fmempty New_store),
     w_config := snd (config_apply demo_io demo_manager demo_service)\<rparr>"

theorem lost_update_is_not_retried_witness:
  "\<exists>w1 svc' w2. checkService demo_io demo_head ''t1'' 1 [''c1'']
      \<lparr>sv_Name = ''web'', sv_Image = ''web:1'', sv_ComposeFile = [], sv_TriggerMode = ''poll'',
       sv_PollerInterval = 60, sv_LastDigest = [], sv_LastCheckedAt = None\<rparr> demo_poll = Inr w1 \<and>
    checkService demo_io demo_head ''t2'' 2 [''c1''] svc' w1 = Inr w2 \<and> w_bus w2 = w_bus w1"
proof -
  let ?r = "\<lparr>sr_name = ''web'', sr_image = ''web:1'', sr_compose_file = [], sr_trigger_mode = ''poll'',
       sr_poller_interval = 60, sr_last_digest = None, sr_last_checked_at = None, sr_updated_at = ''t0''\<rparr>"
  let ?c = "\<lparr>sv_Name = ''web'', sv_Image = ''web:1'', sv_ComposeFile = [], sv_TriggerMode = ''poll'',
       sv_PollerInterval = 60, sv_LastDigest = [], sv_LastCheckedAt = None\<rparr>"
  let ?m = "snd (config_apply demo_io demo_manager demo_service)"
  have "manager_inv ?m" using config_ops.step_inv [OF demo_manager_inv, of demo_io demo_service]
    by (simp add: config_step_def)
  then have inv: "world_inv demo_poll" unfolding demo_poll_def
    by (intro world_inv_upd(2,4) demo_world_inv Upsert_inv New_store_inv)
  have m: "mg_faults ?m = []" "mg_rows ?m = [?r]"
    by (simp_all add: demo_service_def CreateConfig_def demo_manager_def db_fault_def row_checks_def Reload_def)
  then have a: "mg_faults (w_config demo_poll) = []" "?r \<in> set (mg_rows (w_config demo_poll))"
    by (simp_all add: demo_poll_def)
  have b: "sv_Name ?c = sr_name ?r" "sv_Image ?c = sr_image ?r" "sv_LastDigest ?c = []"
    "GetByName [''c1''] (sr_name ?r) (w_store demo_poll) = Some 0"
    "cs_digestHistory (st_heap (w_store demo_poll) 0) = []"
    "demo_head (sr_image ?r) = Inr ''sha256:new''" "''sha256:new'' \<noteq> []"
    by (simp_all add: demo_poll_def GetByName_def Upsert_def New_store_def demo_head_def)
  from lost_update_is_not_retried [where w = demo_poll and r = ?r and svc = ?c and order = "[''c1'']"
      and a = 0 and head = demo_head and d = "''sha256:new''", OF inv a b, of demo_io "''t1''" 1 "''t2''" 2] show ?thesis by blast
qed

section \<open>Every check is safe\<close>

lemma compareAndPublish_safe:
  assumes "world_inv w"
  shows "\<exists>w'. compareAndPublish now a svc digest w = Inr w' \<and> world_inv w'"
proof -
  have p: "world_inv (w\<lparr>w_store := push_at a im d now (w_store w)\<rparr>)" for im d
    by (intro world_inv_upd(2) assms push_at_inv world_invD(2))
  have q: "\<exists>w'. publish_w t x v = Inr w' \<and> world_inv w'" if "world_inv v" for t x and v :: "'a world"
    by (simp add: publish_w_eq [OF that] deliver_world_inv [OF that])
  show ?thesis using assms p q [OF assms] q [OF p]
    by (auto simp: compareAndPublish_def Let_def split: option.split)
qed

lemma poll_safe: "world_inv w \<Longrightarrow> \<exists>w'. poll head now order w = Inr w' \<and> world_inv w'"
  by (simp add: poll_def poll_loop_eq world_inv_def deliver_updates_inv)

lemma checkService_safe:
  assumes "world_inv w"
  shows "\<exists>w'. checkService io head t now order svc w = Inr w' \<and> world_inv w'"
proof -
  have "world_inv (w\<lparr>w_config := snd (UpdateDigest io t n d (w_config w))\<rparr>)" for n d
    by (intro world_inv_upd(4) assms UpdateDigest_inv world_invD(5))
  from compareAndPublish_safe [OF this] assms this show ?thesis
    by (simp add: checkService_def Let_def split: sum.split option.split)
qed

section \<open>The spacing of checks\<close>

definition last_check :: "poller \<Rightarrow> string \<Rightarrow> time" where
  "last_check p n = (case fmlookup (po_lastCheck p) n of Some t \<Rightarrow> t | None \<Rightarrow> zero_time)"

lemma dispatch_loop_other:
  "dispatch_loop now k svcs p = (due, p') \<Longrightarrow> n \<notin> sv_Name ` set svcs \<Longrightarrow>
   fmlookup (po_lastCheck p') n = fmlookup (po_lastCheck p) n"
proof (induction svcs arbitrary: k p due p')
  case (Cons svc svcs)
  then show ?case
    by (auto simp: Let_def split: if_splits prod.splits dest!: Cons.IH)
qed simp

lemma dispatch_loop_due:
  assumes "dispatch_loop now k svcs p = (due, p')" "distinct (map sv_Name svcs)" "svc \<in> set svcs"
  shows "if svc \<in> set due
    then sv_TriggerMode svc = ''poll'' \<and> (\<exists>i. sv_PollerInterval svc \<le> Since (now i) (last_check p (sv_Name svc)) \<and>
      last_check p' (sv_Name svc) = now (Suc i))
    else (sv_TriggerMode svc = ''poll'' \<longrightarrow> (\<exists>i. Since (now i) (last_check p (sv_Name svc)) < sv_PollerInterval svc)) \<and>
      last_check p' (sv_Name svc) = last_check p (sv_Name svc)"
  using assms
proof (induction svcs arbitrary: k p due p')
  case (Cons c svcs)
  let ?n = "sv_Name svc"
  have d: "distinct (map sv_Name svcs)" "sv_Name c \<notin> sv_Name ` set svcs" using Cons.prems(2) by auto
  have sub: "set due' \<subseteq> set svcs" if "dispatch_loop now j svcs q = (due', q')" for j q due' q'
    using that
  proof (induction svcs arbitrary: j q due' q')
    case (Cons a as)
    then show ?case by (fastforce simp: Let_def split: if_splits prod.splits)
  qed simp
  show ?case
  proof (cases "sv_TriggerMode c \<noteq> ''poll'' \<or> Since (now k) (last_check p (sv_Name c)) < sv_PollerInterval c")
    case True
    then obtain j where j: "dispatch_loop now j svcs p = (due, p')"
      using Cons.prems(1) by (auto simp: last_check_def Let_def split: if_splits)
    show ?thesis
    proof (cases "svc = c")
      case True
      then have "svc \<notin> set due" using sub [OF j] d(2) by auto
      moreover have "last_check p' ?n = last_check p ?n"
        using dispatch_loop_other [OF j] d(2) True by (simp add: last_check_def)
      ultimately show ?thesis using True \<open>sv_TriggerMode c \<noteq> ''poll'' \<or> _\<close> by auto
    next
      case False
      with Cons.IH [OF j d(1)] Cons.prems(3) show ?thesis by simp
    qed
  next
    case False
    let ?q = "p\<lparr>po_lastCheck := fmupd (sv_Name c) (now (Suc k)) (po_lastCheck p)\<rparr>"
    obtain due' where j: "dispatch_loop now (Suc (Suc k)) svcs ?q = (due', p')" "due = c # due'"
      using False Cons.prems(1) by (auto simp: last_check_def Let_def split: prod.splits)
    show ?thesis
    proof (cases "svc = c")
      case True
      have "last_check p' ?n = now (Suc k)"
        using dispatch_loop_other [OF j(1)] d(2) True by (simp add: last_check_def)
      with False True j(2) show ?thesis by (auto simp: not_less)
    next
      case ne: False
      then have m: "svc \<in> set svcs" using Cons.prems(3) by simp
      then have "sv_Name svc \<in> sv_Name ` set svcs" by simp
      with d(2) have "sv_Name svc \<noteq> sv_Name c" by metis
      then have e: "last_check ?q ?n = last_check p ?n" by (simp add: last_check_def)
      have "svc \<in> set due \<longleftrightarrow> svc \<in> set due'" using ne j(2) by simp
      with Cons.IH [OF j(1) d(1) m, unfolded e] show ?thesis by (simp only:)
    qed
  qed
qed simp

lemma All_services_names:
  assumes "manager_inv m" "range_order order (mg_services m)"
  shows "distinct (map sv_Name (All_services order m))"
    and "set (All_services order m) = {c. \<exists>n. Get_service n m = Some c}"
proof -
  have ok: "fmlookup (mg_services m) n = Some c \<Longrightarrow> sv_Name c = n" for n c
    using assms(1) by (auto simp: manager_inv_def config_ok_def)
  have "map sv_Name (range_values ns (mg_services m)) = ns" if "set ns \<subseteq> fmdom' (mg_services m)" for ns
    using that ok by (induction ns) (auto simp: fmlookup_dom'_iff split: option.splits)
  with assms(2) show "distinct (map sv_Name (All_services order m))"
    by (simp add: All_services_def range_order_def)
  have "set (range_values ns (mg_services m)) = {c. \<exists>n \<in> set ns. fmlookup (mg_services m) n = Some c}" for ns
    by (induction ns) (auto split: option.splits)
  with assms(2) show "set (All_services order m) = {c. \<exists>n. Get_service n m = Some c}"
    by (auto simp: All_services_def range_order_def Get_service_def fmlookup_dom'_iff)
qed

text \<open>C40: A tick starts a check of a service only if it is in poll mode and its last check is at least its
  interval ago, and then records the time; every service in poll mode whose interval has passed is
  checked, and for no other the record changes.  An interval whose conversion to nanoseconds has
  wrapped around to a negative duration is over at every tick.\<close>

theorem checks_are_spaced:
  assumes "manager_inv m" and "range_order order (mg_services m)" and "Get_service n m = Some svc"
    and "dispatch_services now order m p = (due, p')"
  shows "(if svc \<in> set due
    then sv_TriggerMode svc = ''poll'' \<and> (\<exists>i. sv_PollerInterval svc \<le> Since (now i) (last_check p n) \<and>
      last_check p' n = now (Suc i))
    else (sv_TriggerMode svc = ''poll'' \<longrightarrow> (\<exists>i. Since (now i) (last_check p n) < sv_PollerInterval svc)) \<and>
      last_check p' n = last_check p n) \<and>
    (sv_TriggerMode svc = ''poll'' \<and> sv_PollerInterval svc \<le> 0 \<and> (\<forall>i. last_check p n \<le> now i) \<longrightarrow> svc \<in> set due)"
proof -
  have n: "sv_Name svc = n"
    using assms(1,3) by (auto simp: manager_inv_def config_ok_def Get_service_def)
  have s: "svc \<in> set (All_services order m)" using All_services_names(2) [OF assms(1,2)] assms(3) by auto
  note d = dispatch_loop_due [OF assms(4) [unfolded dispatch_services_def] All_services_names(1) [OF assms(1,2)] s, unfolded n]
  have z: "b \<le> a \<Longrightarrow> 0 \<le> Since a b" for a b by (simp add: Since_def)
  have "svc \<in> set due" if t: "sv_TriggerMode svc = ''poll''" "sv_PollerInterval svc \<le> 0" "\<forall>i. last_check p n \<le> now i"
  proof (rule ccontr)
    assume "svc \<notin> set due"
    with d t(1) obtain i where "Since (now i) (last_check p n) < sv_PollerInterval svc" by auto
    with z [of "last_check p n" "now i"] t(2,3) show False by (smt (verit))
  qed
  with d show ?thesis by blast
qed

definition demo_polled :: manager where
  "demo_polled = snd (config_apply demo_io demo_manager demo_service)"

theorem checks_are_spaced_witness:
  "\<exists>svc due p'. dispatch_services (\<lambda>i. int i + 5) [''web''] demo_polled (New_poller\<lparr>po_lastCheck := fmupd ''web'' 4 fmempty\<rparr>) = (due, p') \<and>
    Get_service ''web'' demo_polled = Some svc \<and> svc \<notin> set due \<and> last_check p' ''web'' = 4"
proof -
  let ?p = "New_poller\<lparr>po_lastCheck := fmupd ''web'' 4 fmempty\<rparr>"
  have i: "manager_inv demo_polled"
    using config_ops.step_inv [OF demo_manager_inv, of demo_io demo_service] by (simp add: config_step_def demo_polled_def)
  define svc where "svc = \<lparr>sv_Name = ''web'', sv_Image = ''web:1'', sv_ComposeFile = [], sv_TriggerMode = ''poll'',
    sv_PollerInterval = 60 * second_ns, sv_LastDigest = [], sv_LastCheckedAt = None\<rparr>"
  have m: "mg_services demo_polled = fmupd ''web'' svc fmempty"
    by (simp add: svc_def demo_polled_def demo_service_def demo_manager_def CreateConfig_def Reload_def db_fault_def
        row_checks_def row_config_def wrap64_def second_ns_def)
  have g: "Get_service ''web'' demo_polled = Some svc" "sv_PollerInterval svc = 60 * second_ns"
    by (simp_all add: Get_service_def m svc_def)
  have o: "range_order [''web''] (mg_services demo_polled)" by (simp add: m range_order_def)
  obtain due p' where r: "dispatch_services (\<lambda>i. int i + 5) [''web''] demo_polled ?p = (due, p')" by fastforce
  have l: "last_check ?p ''web'' = 4" by (simp add: last_check_def)
  have a: "All_services [''web''] demo_polled = [svc]" using g(1) by (simp add: All_services_def Get_service_def)
  have "svc \<notin> set due"
    using r a by (auto simp: svc_def dispatch_services_def Since_def second_ns_def Let_def split: if_splits
        option.splits)
  with checks_are_spaced [OF i o g(1) r] r g(1) l show ?thesis by auto
qed

end
