(* ===== verification/Sha256.thy ===== *)
theory Sha256
  imports Deploy_Job
begin

text \<open>
  HMAC-SHA256 as Go's \<open>crypto/hmac\<close> and \<open>crypto/sha256\<close> compute it (FIPS 180-4, RFC 2104), on
  lists of bytes: what the webhook handler checks signatures with.
\<close>

type_synonym w32 = "32 word"

text \<open>
  The constants: the first 32 bits of the fractional parts of the cube roots of the first 64
  primes, and of the square roots of the first 8.  The roots are found bit by bit.
\<close>

fun root_bits :: "nat \<Rightarrow> int \<Rightarrow> nat \<Rightarrow> int \<Rightarrow> int" where
  "root_bits k n 0 r = r"
| "root_bits k n (Suc b) r = root_bits k n b (if (r + 2 ^ b) ^ k \<le> n then r + 2 ^ b else r)"

definition frac_root :: "nat \<Rightarrow> nat \<Rightarrow> w32" where
  "frac_root k p = word_of_int (root_bits k (int p * 2 ^ (32 * k)) 40 0)"

definition sha_primes :: "nat list" where
  "sha_primes = filter (\<lambda>n. list_all (\<lambda>d. n mod d \<noteq> 0) [2..<n]) [2..<312]"

definition sha_K :: "w32 list" where
  "sha_K = map (frac_root 3) sha_primes"

definition sha_init :: "w32 list" where
  "sha_init = map (frac_root 2) [2, 3, 5, 7, 11, 13, 17, 19]"

definition be_word :: "byte list \<Rightarrow> w32" where
  "be_word bs = foldl (\<lambda>w b. push_bit 8 w OR ucast b) 0 bs"

definition word_be :: "w32 \<Rightarrow> byte list" where
  "word_be w = map (\<lambda>k. ucast (drop_bit k w)) [24, 16, 8, 0]"

fun chunks :: "nat \<Rightarrow> 'a list \<Rightarrow> 'a list list" where
  "chunks n xs = (if n = 0 \<or> xs = [] then [] else take n xs # chunks n (drop n xs))"

declare chunks.simps [simp del]

definition sha_pad :: "byte list \<Rightarrow> byte list" where
  "sha_pad m =
     (let l = length m; bits = word_of_nat (8 * l) :: 64 word in
      m @ [0x80] @ replicate ((119 - l mod 64) mod 64) 0 @
      map (\<lambda>k. ucast (drop_bit k bits)) [56, 48, 40, 32, 24, 16, 8, 0])"

text \<open>The message schedule is kept newest word first.\<close>

definition sha_next :: "w32 list \<Rightarrow> w32" where
  "sha_next w =
     (let a = w ! 14; b = w ! 1;
          s0 = word_rotr 7 a XOR word_rotr 18 a XOR drop_bit 3 a;
          s1 = word_rotr 17 b XOR word_rotr 19 b XOR drop_bit 10 b
      in w ! 15 + s0 + w ! 6 + s1)"

fun sha_extend :: "nat \<Rightarrow> w32 list \<Rightarrow> w32 list" where
  "sha_extend 0 w = w"
| "sha_extend (Suc k) w = sha_extend k (sha_next w # w)"

definition sha_round :: "w32 \<times> w32 \<Rightarrow> w32 list \<Rightarrow> w32 list" where
  "sha_round kw s =
     (case s of
        [a, b, c, d, e, f, g, h] \<Rightarrow>
          let s1 = word_rotr 6 e XOR word_rotr 11 e XOR word_rotr 25 e;
              ch = (e AND f) XOR (NOT e AND g);
              t1 = h + s1 + ch + fst kw + snd kw;
              s0 = word_rotr 2 a XOR word_rotr 13 a XOR word_rotr 22 a;
              maj = (a AND b) XOR (a AND c) XOR (b AND c);
              t2 = s0 + maj
          in [t1 + t2, a, b, c, d + t1, e, f, g]
      | _ \<Rightarrow> s)"

definition sha_block :: "byte list \<Rightarrow> w32 list \<Rightarrow> w32 list" where
  "sha_block block s =
     (let w = rev (sha_extend 48 (rev (map be_word (chunks 4 block))))
      in map2 (+) s (fold sha_round (zip sha_K w) s))"

definition sha256 :: "byte list \<Rightarrow> byte list" where
  "sha256 m = concat (map word_be (fold sha_block (chunks 64 (sha_pad m)) sha_init))"

definition hmac_sha256 :: "byte list \<Rightarrow> byte list \<Rightarrow> byte list" where
  "hmac_sha256 key m =
     (let key = (if length key > 64 then sha256 key else key);
          key = key @ replicate (64 - length key) 0;
          ipad = map (\<lambda>b. b XOR 0x36) key;
          opad = map (\<lambda>b. b XOR 0x5c) key
      in sha256 (opad @ sha256 (ipad @ m)))"

definition bytes_of :: "string \<Rightarrow> byte list" where
  "bytes_of s = map of_char s"

section \<open>The roots\<close>

lemma root_bits_floor:
  assumes "r ^ k \<le> n" "n < (r + 2 ^ b) ^ k"
  shows "root_bits k n b r ^ k \<le> n \<and> n < (root_bits k n b r + 1) ^ k"
  using assms
proof (induction b arbitrary: r)
  case (Suc b)
  have two: "r + 2 ^ Suc b = (r + 2 ^ b) + 2 ^ b" by simp
  show ?case
  proof (cases "(r + 2 ^ b) ^ k \<le> n")
    case True
    with Suc.IH [OF True] Suc.prems(2) show ?thesis unfolding two by simp
  next
    case False
    with Suc.IH [OF Suc.prems(1)] show ?thesis by simp
  qed
qed simp

section \<open>Lengths\<close>

lemma length_word_be [simp]: "length (word_be w) = 4"
  by (simp add: word_be_def)

lemma length_sha_round [simp]: "length (sha_round kw s) = length s"
  by (simp add: sha_round_def Let_def split: list.splits)

lemma length_fold_round [simp]: "length (fold sha_round kws s) = length s"
  by (induction kws arbitrary: s) auto

lemma length_sha_block [simp]: "length (sha_block b s) = length s"
  by (simp add: sha_block_def Let_def)

lemma length_fold_block: "length (fold sha_block bs s) = length s"
  by (induction bs arbitrary: s) auto

lemma length_sha256: "length (sha256 m) = 32"
proof -
  have "length (concat (map word_be ws)) = 4 * length ws" for ws by (induction ws) auto
  then show ?thesis by (simp add: sha256_def length_fold_block sha_init_def)
qed

lemma length_hmac: "length (hmac_sha256 k m) = 32"
  by (simp add: hmac_sha256_def Let_def length_sha256)

text \<open>The padded message is a whole number of blocks.\<close>

lemma sha_pad_blocks: "64 dvd length (sha_pad m)"
proof -
  define l where "l = length m mod 64"
  have "l < 64" by (simp add: l_def)
  obtain q where q: "length m = 64 * q + l" unfolding l_def by (metis mult_div_mod_eq)
  have "length (sha_pad m) = length m + 9 + (119 - l) mod 64"
    by (simp add: sha_pad_def Let_def l_def)
  moreover have "64 dvd l + 9 + (119 - l) mod 64"
  proof (cases "l < 56")
    case True
    then have "(119 - l) mod 64 = 55 - l" by (simp add: mod_if)
    with True show ?thesis by simp
  next
    case False
    then have "(119 - l) mod 64 = 119 - l" by simp
    with False \<open>l < 64\<close> show ?thesis by simp
  qed
  then have "64 dvd 64 * q + (l + 9 + (119 - l) mod 64)" by (rule dvd_add [OF dvd_triv_left])
  ultimately show ?thesis by (simp only: q add.assoc)
qed

end
