(* ===== verification/Webhook.thy ===== *)
theory Webhook
  imports World Sha256
begin

text \<open>
  The webhook endpoints, \<open>internal/webhook/webhook.go\<close>: a push notification is authenticated,
  matched against the tracked containers, and announced on the bus.  A request is its method, the
  bytes of its body (and after how many of them reading fails, if it does) and its signature
  header; a response is its status and what is written to it.  The JSON decoders are arguments, as
  are the orders \<open>order1\<close> and \<open>order2\<close> in which the store is ranged over by the two calls of
  \<open>containersForImage\<close>.
\<close>

section \<open>Definitions\<close>

record push_payload =
  pp_Image :: string
  pp_Tag :: string
  pp_Digest :: string
  pp_Source :: string

record hub_payload =
  hb_RepoName :: string
  hb_Tag :: string

record webhook =
  wh_secret :: string
  wh_jobRegistry :: bool
  wh_history :: bool
  wh_time :: time_io
  wh_push :: "string \<Rightarrow> push_payload option"
  wh_hub :: "string \<Rightarrow> hub_payload option"

record request =
  rq_Method :: string
  rq_Body :: string
  rq_ReadError :: "nat option"
  rq_Signature :: string

datatype response_body =
    ErrorText string
  | RejectedPoll string
  | QueuedJob string string
  | NoBody

record response =
  rs_Status :: nat
  rs_Body :: response_body

definition http_error :: "string \<Rightarrow> nat \<Rightarrow> response" where
  "http_error msg status = \<lparr>rs_Status = status, rs_Body = ErrorText msg\<rparr>"

definition maxBodyBytes :: nat where
  "maxBodyBytes = 65536"

text \<open>\<open>io.ReadAll\<close> through a \<open>LimitReader\<close>: longer bodies are cut off, not refused.\<close>

definition read_limited :: "request \<Rightarrow> string option" where
  "read_limited r =
     (case rq_ReadError r of
        Some n \<Rightarrow> if n < maxBodyBytes then None else Some (take maxBodyBytes (rq_Body r))
      | None \<Rightarrow> Some (take maxBodyBytes (rq_Body r)))"

definition validSignature :: "string \<Rightarrow> string \<Rightarrow> string \<Rightarrow> bool" where
  "validSignature secret body sig \<longleftrightarrow>
     TrimPrefix sig ''sha256='' = hex_bytes (hmac_sha256 (bytes_of secret) (bytes_of body))"

definition readAndVerify :: "webhook \<Rightarrow> request \<Rightarrow> response + string" where
  "readAndVerify h r =
     (case read_limited r of
        None \<Rightarrow> Inl (http_error ''failed to read body'' 500)
      | Some body \<Rightarrow>
          if wh_secret h = [] then Inr body
          else if rq_Signature r = [] then Inl (http_error ''missing X-Dockwatch-Signature'' 401)
          else if \<not> validSignature (wh_secret h) body (rq_Signature r)
          then Inl (http_error ''invalid signature'' 401)
          else Inr body)"

text \<open>The stored image without what follows its last colon.\<close>

definition stored_name :: "string \<Rightarrow> string" where
  "stored_name storedImage =
     (let idx = LastIndex storedImage CHR '':'' in
      if idx \<noteq> - 1 then slice_to storedImage idx else storedImage)"

definition containersForImage :: "string list \<Rightarrow> string \<Rightarrow> store \<Rightarrow> addr list" where
  "containersForImage order img s =
     filter (\<lambda>a. stored_name (cs_Image (st_heap s a)) = img) (All order s)"

text \<open>The key that identifies a container's compose service, if updates of it are deduplicated.\<close>

definition compose_key :: "labels \<Rightarrow> string option" where
  "compose_key labels =
     (if map_get labels labelComposeUpdate \<noteq> [] then
        let project = map_get labels labelProject; service = map_get labels labelService in
        if project \<noteq> [] \<and> service \<noteq> [] then Some (project @ ''_'' @ service) else None
      else None)"

definition in_poll_mode :: "string \<Rightarrow> manager \<Rightarrow> bool" where
  "in_poll_mode name m =
     (case Get_service name m of Some svc \<Rightarrow> sv_TriggerMode svc = ''poll'' | None \<Rightarrow> False)"

definition pushed :: "time \<Rightarrow> string \<Rightarrow> string \<Rightarrow> container_state \<Rightarrow> image_updated" where
  "pushed now fullImage digest cs =
     \<lparr>iu_ContainerID = cs_ID cs, iu_ContainerName = cs_Name cs, iu_Image = fullImage,
      iu_OldDigest = CurrentDigest cs, iu_NewDigest = digest, iu_DetectedAt = now\<rparr>"

fun push_loop ::
  "(nat \<Rightarrow> time) \<Rightarrow> nat \<Rightarrow> string \<Rightarrow> string \<Rightarrow> string list \<Rightarrow> addr list \<Rightarrow> 'd world \<Rightarrow> panic + 'd world" where
  "push_loop now k fullImage digest seenCompose [] w = Inr w"
| "push_loop now k fullImage digest seenCompose (a # as) w =
     (let cs = st_heap (w_store w) a; key = compose_key (cs_Labels cs) in
      if (case key of Some x \<Rightarrow> x \<in> set seenCompose | None \<Rightarrow> False)
      then push_loop now k fullImage digest seenCompose as w
      else
        let seenCompose = (case key of Some x \<Rightarrow> x # seenCompose | None \<Rightarrow> seenCompose) in
        if in_poll_mode (cs_Name cs) (w_config w) then push_loop now k fullImage digest seenCompose as w
        else
          (case publish_w TopicImageUpdated (ImageUpdatedPayload (pushed (now k) fullImage digest cs)) w of
             Inl x \<Rightarrow> Inl x
           | Inr w \<Rightarrow> push_loop now (Suc k) fullImage digest seenCompose as w))"

definition dispatch_push ::
  "(nat \<Rightarrow> time) \<Rightarrow> string list \<Rightarrow> string \<Rightarrow> string \<Rightarrow> string \<Rightarrow> 'd world \<Rightarrow> panic + 'd world" where
  "dispatch_push now order img tag digest w =
     push_loop now 0 (img @ '':'' @ tag) digest [] (containersForImage order img (w_store w)) w"

text \<open>The first affected container in poll mode.\<close>

definition poll_container :: "string list \<Rightarrow> string \<Rightarrow> 'd world \<Rightarrow> addr option" where
  "poll_container order img w =
     find (\<lambda>a. in_poll_mode (cs_Name (st_heap (w_store w) a)) (w_config w))
       (containersForImage order img (w_store w))"

definition reject_poll ::
  "webhook \<Rightarrow> time \<Rightarrow> push_payload \<Rightarrow> string \<Rightarrow> 'd world \<Rightarrow> response \<times> 'd world" where
  "reject_poll h now p name w =
     (\<lparr>rs_Status = 403, rs_Body = RejectedPoll name\<rparr>,
      if wh_history h
      then w\<lparr>w_hist := snd (RecordSkipped (wh_time h) now name (pp_Image p @ '':'' @ pp_Tag p)
             ''webhook rejected: service trigger_mode is poll'' (w_hist w))\<rparr>
      else w)"

text \<open>The queued job whose id the caller gets.\<close>

definition queue_job :: "webhook \<Rightarrow> time \<Rightarrow> byte list \<Rightarrow> push_payload \<Rightarrow> 'd world \<Rightarrow> string \<times> 'd world" where
  "queue_job h now rand p w =
     (if wh_jobRegistry h then
        let full = pp_Image p @ '':'' @ pp_Tag p;
            job = NewJob rand now full full ''webhook'';
            (a, r) = alloc_job job (w_jobs w);
            (_, r) = Register a r
        in (dj_ID job, w\<lparr>w_jobs := r\<rparr>)
      else ([], w))"

definition handlePush ::
  "webhook \<Rightarrow> (nat \<Rightarrow> time) \<Rightarrow> time \<Rightarrow> byte list \<Rightarrow> string list \<Rightarrow> string list \<Rightarrow> request \<Rightarrow> 'd world \<Rightarrow>
     panic + response \<times> 'd world" where
  "handlePush h now now_job rand order1 order2 r w =
     (if rq_Method r \<noteq> ''POST'' then Inr (http_error ''method not allowed'' 405, w)
      else
        (case readAndVerify h r of
           Inl resp \<Rightarrow> Inr (resp, w)
         | Inr body \<Rightarrow>
             (case wh_push h body of
                None \<Rightarrow> Inr (http_error ''invalid JSON'' 400, w)
              | Some p \<Rightarrow>
                  if pp_Image p = [] \<or> pp_Tag p = []
                  then Inr (http_error ''image and tag are required'' 400, w)
                  else
                    (case poll_container order1 (pp_Image p) w of
                       Some a \<Rightarrow> Inr (reject_poll h now_job p (cs_Name (st_heap (w_store w) a)) w)
                     | None \<Rightarrow>
                         (case dispatch_push now order2 (pp_Image p) (pp_Tag p) (pp_Digest p) w of
                            Inl x \<Rightarrow> Inl x
                          | Inr w \<Rightarrow>
                              let (deployID, w) = queue_job h now_job rand p w in
                              Inr (\<lparr>rs_Status = 202,
                                    rs_Body = QueuedJob deployID (pp_Image p @ '':'' @ pp_Tag p)\<rparr>, w))))))"

definition handleDockerHub ::
  "webhook \<Rightarrow> (nat \<Rightarrow> time) \<Rightarrow> string list \<Rightarrow> request \<Rightarrow> 'd world \<Rightarrow> panic + response \<times> 'd world" where
  "handleDockerHub h now order r w =
     (if rq_Method r \<noteq> ''POST'' then Inr (http_error ''method not allowed'' 405, w)
      else
        (case read_limited r of
           None \<Rightarrow> Inr (http_error ''failed to read body'' 500, w)
         | Some body \<Rightarrow>
             (case wh_hub h body of
                None \<Rightarrow> Inr (http_error ''invalid JSON'' 400, w)
              | Some p \<Rightarrow>
                  if hb_RepoName p = [] \<or> hb_Tag p = []
                  then Inr (http_error ''missing repository.repo_name or push_data.tag'' 400, w)
                  else
                    (case dispatch_push now order (hb_RepoName p) (hb_Tag p) [] w of
                       Inl x \<Rightarrow> Inl x
                     | Inr w \<Rightarrow> Inr (\<lparr>rs_Status = 200, rs_Body = NoBody\<rparr>, w)))))"

section \<open>What is announced\<close>

fun push_select :: "manager \<Rightarrow> string list \<Rightarrow> container_state list \<Rightarrow> container_state list" where
  "push_select m seen [] = []"
| "push_select m seen (c # cs) =
     (case compose_key (cs_Labels c) of
        Some x \<Rightarrow>
          if x \<in> set seen then push_select m seen cs
          else if in_poll_mode (cs_Name c) m then push_select m (x # seen) cs
          else c # push_select m (x # seen) cs
      | None \<Rightarrow>
          if in_poll_mode (cs_Name c) m then push_select m seen cs
          else c # push_select m seen cs)"

fun stamp :: "(nat \<Rightarrow> time) \<Rightarrow> nat \<Rightarrow> string \<Rightarrow> string \<Rightarrow> container_state list \<Rightarrow> image_updated list" where
  "stamp now k full d [] = []"
| "stamp now k full d (c # cs) = pushed (now k) full d c # stamp now (Suc k) full d cs"

lemma push_loop_eq:
  assumes "world_inv w"
  shows "push_loop now k full d seen as w =
    Inr (w\<lparr>w_bus := deliver_updates
      (stamp now k full d (push_select (w_config w) seen (map (st_heap (w_store w)) as))) (w_bus w)\<rparr>)"
  using assms
proof (induction as arbitrary: k seen w)
  case (Cons a as)
  let ?c = "st_heap (w_store w) a"
  let ?w = "w\<lparr>w_bus := deliver TopicImageUpdated (ImageUpdatedPayload (pushed (now k) full d ?c)) (w_bus w)\<rparr>"
  have pub: "publish_w TopicImageUpdated (ImageUpdatedPayload (pushed (now k) full d ?c)) w = Inr ?w"
    by (rule publish_w_eq [OF Cons.prems])
  note IH = Cons.IH [OF Cons.prems] Cons.IH [OF deliver_world_inv [OF Cons.prems]]
  show ?case
  proof (cases "compose_key (cs_Labels ?c)")
    case None
    then show ?thesis using IH pub by (cases "in_poll_mode (cs_Name ?c) (w_config w)") (simp_all add: Let_def)
  next
    case (Some x)
    then show ?thesis using IH pub
      by (cases "x \<in> set seen"; cases "in_poll_mode (cs_Name ?c) (w_config w)") (simp_all add: Let_def)
  qed
qed simp

definition keys_of :: "container_state list \<Rightarrow> string list" where
  "keys_of cs = List.map_filter (\<lambda>c. compose_key (cs_Labels c)) cs"

lemma keys_of_simps [simp]:
  "keys_of [] = []"
  "keys_of (c # cs) = (case compose_key (cs_Labels c) of Some x \<Rightarrow> x # keys_of cs | None \<Rightarrow> keys_of cs)"
  by (simp_all add: keys_of_def map_filter_simps split: option.splits)

lemma push_select_sound:
  "c \<in> set (push_select m seen cs) \<Longrightarrow> c \<in> set cs \<and> \<not> in_poll_mode (cs_Name c) m"
  by (induction m seen cs rule: push_select.induct) (auto split: option.splits if_splits)

lemma push_select_keys:
  "distinct (keys_of (push_select m seen cs)) \<and> set (keys_of (push_select m seen cs)) \<inter> set seen = {}"
  by (induction m seen cs rule: push_select.induct) (auto split: option.splits)

lemma push_select_plain:
  "c \<in> set cs \<Longrightarrow> compose_key (cs_Labels c) = None \<Longrightarrow> \<not> in_poll_mode (cs_Name c) m \<Longrightarrow>
   c \<in> set (push_select m seen cs)"
  by (induction m seen cs rule: push_select.induct) (auto split: option.splits)

lemma push_select_group:
  "x \<notin> set seen \<Longrightarrow> x \<in> set (keys_of cs) \<Longrightarrow>
   (\<forall>c \<in> set cs. compose_key (cs_Labels c) = Some x \<longrightarrow> \<not> in_poll_mode (cs_Name c) m) \<Longrightarrow>
   x \<in> set (keys_of (push_select m seen cs))"
  by (induction m seen cs rule: push_select.induct) (auto split: option.splits if_splits)

lemma in_keys_of: "x \<in> set (keys_of cs) \<longleftrightarrow> (\<exists>c \<in> set cs. compose_key (cs_Labels c) = Some x)"
  by (induction cs) (auto split: option.splits)

lemma containersForImage_states:
  assumes "range_order order (st_containers s)"
  shows "set (map (st_heap s) (containersForImage order img s)) =
    {c. (\<exists>i. state_of s i = Some c) \<and> stored_name (cs_Image c) = img}"
proof -
  have "set (map (st_heap s) (containersForImage order img s)) =
      {c \<in> st_heap s ` set (All order s). stored_name (cs_Image c) = img}"
    by (auto simp: containersForImage_def)
  then show ?thesis by (simp add: All_states [OF assms])
qed

section \<open>Every request is safe\<close>

lemma deliver_updates_world: "world_inv w \<Longrightarrow> world_inv (w\<lparr>w_bus := deliver_updates ps (w_bus w)\<rparr>)"
  by (simp add: world_inv_def deliver_updates_inv)

lemma dispatch_push_safe:
  "world_inv w \<Longrightarrow> \<exists>w'. dispatch_push now order img tag d w = Inr w' \<and> world_inv w'"
  by (simp add: dispatch_push_def push_loop_eq deliver_updates_world)

text \<open>The job a push leaves in the registry.\<close>

definition push_job :: "time \<Rightarrow> byte list \<Rightarrow> push_payload \<Rightarrow> deploy_job" where
  "push_job now rand p =
     NewJob rand now (pp_Image p @ '':'' @ pp_Tag p) (pp_Image p @ '':'' @ pp_Tag p) ''webhook''"

lemma queue_job_eq:
  assumes "wh_jobRegistry h"
  shows "queue_job h now rand p w =
    (newUUID rand, w\<lparr>w_jobs := registered (push_job now rand p) (w_jobs w)\<rparr>)"
proof -
  let ?j = "push_job now rand p"
  obtain y where y: "alloc_job ?j (w_jobs w) = (jr_next (w_jobs w), y)" by (simp add: alloc_job_def)
  then obtain x where "Register (jr_next (w_jobs w)) y = (x, registered ?j (w_jobs w))"
    by (metis prod.collapse registered_def snd_conv)
  with y assms show ?thesis
    unfolding queue_job_def push_job_def [symmetric] Let_def
    by (simp add: push_job_def NewJob_def)
qed

lemma queue_job_inv: "world_inv w \<Longrightarrow> world_inv (snd (queue_job h now rand p w))"
  by (cases "wh_jobRegistry h")
    (simp_all add: queue_job_eq push_job_def world_inv_upd(1) registered_inv NewJob_inv world_invD(3),
      simp add: queue_job_def)

lemma handlePush_safe:
  assumes "world_inv w"
  shows "\<exists>resp w'. handlePush h now now_job rand o1 o2 r w = Inr (resp, w') \<and> world_inv w'"
proof (cases "rq_Method r = ''POST'' \<and> (\<exists>body. readAndVerify h r = Inr body \<and> (\<exists>p. wh_push h body = Some p \<and>
    \<not> (pp_Image p = [] \<or> pp_Tag p = [])))")
  case True
  then obtain body p where b: "readAndVerify h r = Inr body" "wh_push h body = Some p"
    "\<not> (pp_Image p = [] \<or> pp_Tag p = [])" by blast
  show ?thesis
  proof (cases "poll_container o1 (pp_Image p) w")
    case None
    obtain w1 where w1: "dispatch_push now o2 (pp_Image p) (pp_Tag p) (pp_Digest p) w = Inr w1" "world_inv w1"
      using dispatch_push_safe [OF assms] by blast
    from queue_job_inv [OF this(2)] w1(1) b True None show ?thesis
      by (simp add: handlePush_def split: prod.split) (metis snd_conv)
  next
    case (Some a)
    have "world_inv (snd (reject_poll h now_job p n w))" for n
      using assms by (auto simp: reject_poll_def intro!: world_inv_upd RecordSkipped_inv dest: world_invD(4))
    with b True Some show ?thesis by (simp add: handlePush_def) (metis prod.exhaust snd_conv)
  qed
qed (use assms in \<open>auto simp: handlePush_def split: sum.splits option.splits\<close>)

lemma handleDockerHub_safe:
  assumes "world_inv w"
  shows "\<exists>resp w'. handleDockerHub h now order r w = Inr (resp, w') \<and> world_inv w'"
proof -
  have "\<exists>w'. dispatch_push now order i t [] w = Inr w' \<and> world_inv w'" for i t
    by (rule dispatch_push_safe [OF assms])
  then show ?thesis unfolding handleDockerHub_def
    using assms by (auto split: option.splits sum.splits) (metis sum.distinct(1) sum.inject(2))+
qed

text \<open>One request to either endpoint, with the clock, the job's time and random bytes, and orders.\<close>

datatype hook = PushHook | HubHook

definition hook_step ::
  "webhook \<Rightarrow> 'd world \<Rightarrow> hook \<times> (nat \<Rightarrow> time) \<times> time \<times> byte list \<times> string list \<times> string list \<times> request \<Rightarrow>
     panic + 'd world" where
  "hook_step h w ev =
     (case ev of (k, now, t, rand, o1, o2, r) \<Rightarrow>
        (case (case k of PushHook \<Rightarrow> handlePush h now t rand o1 o2 r w
               | HubHook \<Rightarrow> handleDockerHub h now o1 r w) of
           Inl x \<Rightarrow> Inl x
         | Inr (_, w) \<Rightarrow> Inr w))"

lemma hook_step_safe:
  assumes w: "world_inv w"
  shows "\<exists>w'. hook_step h w ev = Inr w' \<and> world_inv w'"
proof -
  obtain k now t rand o1 o2 r where ev: "ev = (k, now, t, rand, o1, o2, r)" by (cases ev)
  show ?thesis
  proof (cases k)
    case PushHook
    with handlePush_safe [OF w] obtain resp w' where "handlePush h now t rand o1 o2 r w = Inr (resp, w')" "world_inv w'"
      by blast
    with PushHook show ?thesis by (simp add: hook_step_def ev)
  next
    case HubHook
    with handleDockerHub_safe [OF w] obtain resp w' where "handleDockerHub h now o1 r w = Inr (resp, w')" "world_inv w'"
      by blast
    with HubHook show ?thesis by (simp add: hook_step_def ev)
  qed
qed

interpretation hooks: safe_machine "hook_step h" world_inv for h
  by unfold_locales (rule hook_step_safe)

section \<open>Properties\<close>

text \<open>What makes a push request authentic for the secret.\<close>

definition authentic :: "string \<Rightarrow> request \<Rightarrow> bool" where
  "authentic secret r \<longleftrightarrow> rq_Method r = ''POST'' \<and>
     (case rq_ReadError r of Some n \<Rightarrow> 65536 \<le> n | None \<Rightarrow> True) \<and>
     TrimPrefix (rq_Signature r) ''sha256='' =
       hex_bytes (hmac_sha256 (bytes_of secret) (bytes_of (take 65536 (rq_Body r))))"

lemma authentic_signed: "authentic secret r \<Longrightarrow> rq_Signature r \<noteq> []"
proof
  assume "authentic secret r" "rq_Signature r = []"
  then have "length (hex_bytes (hmac_sha256 (bytes_of secret) (bytes_of (take 65536 (rq_Body r))))) = 0"
    by (simp add: authentic_def TrimPrefix_def)
  then show False by (simp add: length_hex_bytes length_hmac)
qed

lemma readAndVerify_post:
  assumes "wh_secret h \<noteq> []" "rq_Method r = ''POST''"
  shows "authentic (wh_secret h) r \<Longrightarrow> readAndVerify h r = readAndVerify (h\<lparr>wh_secret := []\<rparr>) r"
    and "\<not> authentic (wh_secret h) r \<Longrightarrow>
      \<exists>resp. readAndVerify h r = Inl resp \<and> rs_Status resp \<in> {401, 500}"
proof -
  assume a: "authentic (wh_secret h) r"
  from authentic_signed [OF this] this show "readAndVerify h r = readAndVerify (h\<lparr>wh_secret := []\<rparr>) r"
    using assms by (auto simp: authentic_def readAndVerify_def read_limited_def validSignature_def
        maxBodyBytes_def split: option.splits)
next
  assume "\<not> authentic (wh_secret h) r"
  then show "\<exists>resp. readAndVerify h r = Inl resp \<and> rs_Status resp \<in> {401, 500}"
    using assms by (auto simp: authentic_def readAndVerify_def read_limited_def validSignature_def
        maxBodyBytes_def http_error_def split: option.splits)
qed

text \<open>C20: With a secret configured, a push is acted on only if it is a POST whose signature is the
  HMAC-SHA256 of the first 64 KB of its body under the secret, and then exactly as without a
  secret; any other request changes nothing and is answered 401, 405 or 500.  The Docker Hub
  endpoint does not look at the secret at all.\<close>

theorem webhook_requires_signature:
  fixes w :: "'d world"
  assumes "wh_secret h \<noteq> []"
  shows "(authentic (wh_secret h) r \<longrightarrow>
      handlePush h now t rand o1 o2 r w = handlePush (h\<lparr>wh_secret := []\<rparr>) now t rand o1 o2 r w) \<and>
    (\<not> authentic (wh_secret h) r \<longrightarrow>
      (\<exists>resp. handlePush h now t rand o1 o2 r w = Inr (resp, w) \<and> rs_Status resp \<in> {401, 405, 500})) \<and>
    handleDockerHub (h\<lparr>wh_secret := s\<rparr>) now o1 r w = handleDockerHub h now o1 r w"
proof -
  have eq: "reject_poll (h\<lparr>wh_secret := []\<rparr>) =  (reject_poll h :: _ \<Rightarrow> _ \<Rightarrow> _ \<Rightarrow> 'd world \<Rightarrow> _)"
    "queue_job (h\<lparr>wh_secret := []\<rparr>) = (queue_job h :: _ \<Rightarrow> _ \<Rightarrow> _ \<Rightarrow> 'd world \<Rightarrow> _)"
    by (intro ext; simp add: reject_poll_def queue_job_def)+
  have "authentic (wh_secret h) r \<Longrightarrow> rq_Method r = ''POST''" by (simp add: authentic_def)
  then have "authentic (wh_secret h) r \<Longrightarrow>
      handlePush h now t rand o1 o2 r w = handlePush (h\<lparr>wh_secret := []\<rparr>) now t rand o1 o2 r w"
    using readAndVerify_post(1) [OF assms, of r] by (simp add: handlePush_def eq cong: sum.case_cong option.case_cong if_cong)
  moreover have "\<exists>resp. handlePush h now t rand o1 o2 r w = Inr (resp, w) \<and> rs_Status resp \<in> {401, 405, 500}"
    if "\<not> authentic (wh_secret h) r"
    using readAndVerify_post(2) [OF assms _ that]
    by (cases "rq_Method r = ''POST''") (auto simp: handlePush_def http_error_def)
  moreover have "handleDockerHub (h\<lparr>wh_secret := s\<rparr>) now o1 r w = handleDockerHub h now o1 r w"
    by (simp add: handleDockerHub_def cong: option.case_cong)
  ultimately show ?thesis by blast
qed

definition demo_hook :: webhook where
  "demo_hook = \<lparr>wh_secret = ''s3cret'', wh_jobRegistry = True, wh_history = True, wh_time = demo_io,
     wh_push = (\<lambda>_. Some \<lparr>pp_Image = ''web'', pp_Tag = ''2'', pp_Digest = ''sha256:new'', pp_Source = []\<rparr>),
     wh_hub = (\<lambda>_. None)\<rparr>"

definition demo_push :: "string \<Rightarrow> request" where
  "demo_push sig = \<lparr>rq_Method = ''POST'', rq_Body = ''{...}'', rq_ReadError = None, rq_Signature = sig\<rparr>"

lemma demo_push_forged: "\<not> authentic (wh_secret demo_hook) (demo_push ''sha256=0000'')"
proof
  assume "authentic (wh_secret demo_hook) (demo_push ''sha256=0000'')"
  then have "TrimPrefix ''sha256=0000'' ''sha256='' =
      hex_bytes (hmac_sha256 (bytes_of ''s3cret'') (bytes_of (take 65536 ''{...}'')))"
    unfolding authentic_def demo_push_def demo_hook_def by (simp only: request.simps webhook.simps simp_thms)
  from arg_cong [OF this, of length] show False
    by (simp add: TrimPrefix_def length_hex_bytes length_hmac)
qed

theorem webhook_requires_signature_witness:
  "\<exists>resp. handlePush demo_hook (\<lambda>_. 0) 1 (replicate 16 0) [''c1''] [''c1''] (demo_push ''sha256=0000'')
      demo_world = Inr (resp, demo_world)"
proof -
  have "wh_secret demo_hook \<noteq> []" by (simp add: demo_hook_def)
  from webhook_requires_signature [OF this, of "demo_push ''sha256=0000''" "\<lambda>_. 0" 1 "replicate 16 0"
      "[''c1'']" "[''c1'']" demo_world] demo_push_forged show ?thesis by blast
qed

lemma push_select_distinct: "distinct cs \<Longrightarrow> distinct (push_select m seen cs)"
  by (induction m seen cs rule: push_select.induct)
    (auto split: option.splits dest: push_select_sound)

lemma All_distinct:
  assumes "store_inv s" "range_order order (st_containers s)"
  shows "distinct (map (st_heap s) (All order s))"
proof -
  have "distinct (map (st_heap s) (range_values ks (st_containers s)))" if "distinct ks" for ks
    using that
  proof (induction ks)
    case (Cons k ks)
    have "st_heap s a \<notin> st_heap s ` set (range_values ks (st_containers s))"
      if a: "fmlookup (st_containers s) k = Some a" for a
    proof
      assume "st_heap s a \<in> st_heap s ` set (range_values ks (st_containers s))"
      then obtain k' b where b: "k' \<in> set ks" "fmlookup (st_containers s) k' = Some b"
        "st_heap s a = st_heap s b"
        by (auto dest: in_range_valuesD)
      then have "k' = k" using a store_invD(2) [OF assms(1)] by metis
      with b(1) Cons.prems show False by simp
    qed
    with Cons show ?case by (auto split: option.splits)
  qed simp
  then show ?thesis using assms(2) by (simp add: All_def range_order_def)
qed

text \<open>A tracked container that a push of the image concerns.\<close>

definition push_concerns :: "string \<Rightarrow> 'd world \<Rightarrow> container_state \<Rightarrow> bool" where
  "push_concerns img w c \<longleftrightarrow> (\<exists>i. state_of (w_store w) i = Some c) \<and> stored_name (cs_Image c) = img"

text \<open>C21: A push is announced to tracked containers of the image only, never to one in poll mode, and
  not twice to a container.  Every such container that is not updated through compose is told.
  A compose service is told once, however many replicas it has, provided none of them is in poll
  mode.  The announced reference is the pushed one, and the old digest the recorded one.\<close>

theorem push_announces:
  assumes "world_inv w" and "range_order order (st_containers (w_store w))"
  shows "\<exists>cs. dispatch_push now order img tag d w =
      Inr (w\<lparr>w_bus := deliver_updates (stamp now 0 (img @ '':'' @ tag) d cs) (w_bus w)\<rparr>) \<and>
    distinct cs \<and> distinct (keys_of cs) \<and>
    (\<forall>c \<in> set cs. push_concerns img w c \<and> \<not> in_poll_mode (cs_Name c) (w_config w)) \<and>
    (\<forall>c. push_concerns img w c \<and> compose_key (cs_Labels c) = None \<and> \<not> in_poll_mode (cs_Name c) (w_config w) \<longrightarrow>
      c \<in> set cs) \<and>
    (\<forall>c x. push_concerns img w c \<and> compose_key (cs_Labels c) = Some x \<and>
      (\<forall>c'. push_concerns img w c' \<and> compose_key (cs_Labels c') = Some x \<longrightarrow> \<not> in_poll_mode (cs_Name c') (w_config w)) \<longrightarrow>
      x \<in> set (keys_of cs))"
proof -
  let ?all = "map (st_heap (w_store w)) (containersForImage order img (w_store w))"
  let ?cs = "push_select (w_config w) [] ?all"
  have all: "c \<in> set ?all \<longleftrightarrow> push_concerns img w c" for c
    unfolding containersForImage_states [OF assms(2)] push_concerns_def by simp
  have d: "distinct ?all"
    using All_distinct [OF world_invD(2) [OF assms(1)] assms(2)]
    by (simp add: containersForImage_def distinct_map inj_on_def)
  have "dispatch_push now order img tag d w =
      Inr (w\<lparr>w_bus := deliver_updates (stamp now 0 (img @ '':'' @ tag) d ?cs) (w_bus w)\<rparr>)"
    by (simp add: dispatch_push_def push_loop_eq [OF assms(1)])
  moreover have "\<forall>c \<in> set ?cs. push_concerns img w c \<and> \<not> in_poll_mode (cs_Name c) (w_config w)"
    using push_select_sound all by blast
  moreover have "\<forall>c. push_concerns img w c \<and> compose_key (cs_Labels c) = None \<and>
      \<not> in_poll_mode (cs_Name c) (w_config w) \<longrightarrow> c \<in> set ?cs"
    using push_select_plain all by blast
  moreover have "x \<in> set (keys_of ?cs)" if c: "push_concerns img w c" "compose_key (cs_Labels c) = Some x"
    and n: "\<forall>c'. push_concerns img w c' \<and> compose_key (cs_Labels c') = Some x \<longrightarrow>
      \<not> in_poll_mode (cs_Name c') (w_config w)" for c x
  proof (rule push_select_group)
    show "x \<in> set (keys_of ?all)" using c all in_keys_of by metis
    show "\<forall>c \<in> set ?all. compose_key (cs_Labels c) = Some x \<longrightarrow> \<not> in_poll_mode (cs_Name c) (w_config w)"
      using n all by blast
  qed simp
  ultimately show ?thesis using push_select_distinct [OF d] push_select_keys by blast
qed

lemma demo_hook_order: "range_order [''c1''] (st_containers (w_store demo_world))"
  by (simp add: range_order_def demo_world_def demo_store_def push_at_def Upsert_def New_store_def)

theorem push_announces_witness:
  "\<exists>cs. dispatch_push (\<lambda>_. 0) [''c1''] ''web'' ''2'' ''sha256:new'' demo_world =
      Inr (demo_world\<lparr>w_bus := deliver_updates (stamp (\<lambda>_. 0) 0 ''web:2'' ''sha256:new'' cs) (w_bus demo_world)\<rparr>) \<and>
     (\<exists>c \<in> set cs. cs_ID c = ''c1'')"
proof -
  obtain C where C: "state_of (w_store demo_world) ''c1'' = Some C" "cs_Image C = ''web:1''" "cs_Labels C = fmempty"
    "cs_ID C = ''c1''"
    using demo_state by (simp add: demo_world_def)
  have "stored_name ''web:1'' = ''web''" by (simp add: stored_name_def LastIndex_def slice_to_def)
  then have c: "push_concerns ''web'' demo_world C" using C by (auto simp: push_concerns_def)
  have k: "compose_key (cs_Labels C) = None" by (simp add: C(3) compose_key_def)
  have p: "\<not> in_poll_mode (cs_Name C) (w_config demo_world)"
    by (simp add: in_poll_mode_def Get_service_def demo_world_def demo_manager_def)
  from push_announces [OF demo_world_inv demo_hook_order, of "\<lambda>_. 0" "''web''" "''2''" "''sha256:new''"]
  show ?thesis using c k p C(4) by (auto simp: append_Cons)
qed

lemma stored_name_colon: "CHR '':'' \<notin> set t \<Longrightarrow> stored_name (n @ CHR '':'' # t) = n"
  by (simp add: stored_name_def Let_def LastIndex_append)

lemma in_containersForImage:
  assumes "Get i s = Some a" "range_order order (st_containers s)"
  shows "a \<in> set (containersForImage order img s) \<longleftrightarrow> stored_name (cs_Image (st_heap s a)) = img"
  using range_values_iff [OF assms(2)] assms(1) by (auto simp: containersForImage_def All_def Get_def)

text \<open>A push is matched against the stored reference cut at its last colon.  A container that runs
  \<open>img:tag\<close> is matched; the same container pinned to a digest, which is how the rollback engine
  and the executor recreate containers, is not, and neither is an untagged reference whose registry
  names a port.\<close>

theorem pinned_container_is_not_pushed:
  assumes "Get i s = Some a" and "range_order order (st_containers s)"
    and "CHR '':'' \<notin> set tag" and "CHR '':'' \<notin> set hex" and "CHR '':'' \<notin> set path"
  shows "(cs_Image (st_heap s a) = img @ '':'' @ tag \<longrightarrow> a \<in> set (containersForImage order img s)) \<and>
    (cs_Image (st_heap s a) = imageRef (img @ '':'' @ tag) (''sha256:'' @ hex) \<longrightarrow>
      a \<notin> set (containersForImage order img s)) \<and>
    (cs_Image (st_heap s a) = img \<and> img = host @ '':'' @ path \<longrightarrow>
      a \<notin> set (containersForImage order img s))"
proof -
  have "stored_name (imageRef (img @ '':'' @ tag) (''sha256:'' @ hex)) = img @ '':'' @ tag @ ''@sha256''"
    using stored_name_colon [OF assms(4), of "img @ '':'' @ tag @ ''@sha256''"] by (simp add: imageRef_def)
  moreover have "stored_name (host @ '':'' @ path) \<noteq> host @ '':'' @ path"
    using stored_name_colon [OF assms(5), of host] by simp
  moreover have "stored_name (img @ '':'' @ tag) = img"
    using stored_name_colon [OF assms(3), of img] by simp
  ultimately show ?thesis unfolding in_containersForImage [OF assms(1,2)] by auto
qed

theorem pinned_container_is_not_pushed_witness:
  "(0 :: addr) \<in> set (containersForImage [''c1''] ''web'' demo_store)"
proof -
  have "Get ''c1'' demo_store = Some 0" "range_order [''c1''] (st_containers demo_store)"
    using demo_hook_order by (simp_all add: demo_world_def Get_def demo_store_def push_at_def Upsert_def New_store_def)
  from pinned_container_is_not_pushed [OF this, of "''1''" "''aa''" "''app''" "''web''" "''localhost''"]
  show ?thesis by (simp add: demo_store_def push_at_def Upsert_def New_store_def PushDigest_def Let_def)
qed

end
