(* ===== verification/Agent_Server.thy ===== *)
theory Agent_Server
  imports Go_Chan Go_Strings
begin

text \<open>
  The messages between the controller and its agents, \<open>internal/agentproto/proto.go\<close>, and the
  controller's hub of connected agents, \<open>internal/agentserver/server.go\<close>.  A connection is shared
  between its session, the map of agents and whoever dispatches to it, so connections live in a
  heap.  A session is \<open>begin_session\<close> (the upgrade, the first message and \<open>register\<close>), the two
  loops, and \<open>unregister\<close> when the read loop returns.  The websocket itself is outside: what is read
  and whether a write succeeds are arguments, and so are the JSON decoders.
\<close>

section \<open>Messages\<close>

definition TypeRegister :: string where "TypeRegister = ''register''"
definition TypeCommand :: string where "TypeCommand = ''command''"
definition TypeOutput :: string where "TypeOutput = ''output''"
definition TypeDone :: string where "TypeDone = ''done''"
definition TypePing :: string where "TypePing = ''ping''"
definition TypePong :: string where "TypePong = ''pong''"

record register_msg =
  rm_Type :: string
  rm_Hostname :: string
  rm_Token :: string

record command_msg =
  cm_Type :: string
  cm_ID :: string
  cm_Action :: string
  cm_Service :: string
  cm_Image :: string

record output_msg =
  om_Type :: string
  om_ID :: string
  om_Line :: string

record done_msg =
  dm_Type :: string
  dm_ID :: string
  dm_ExitCode :: int
  dm_Error :: string

text \<open>A message that is only its type: \<open>PingMsg\<close> and \<open>PongMsg\<close>.\<close>

record bare_msg =
  bm_Type :: string

section \<open>The hub\<close>

record agent_conn =
  ac_Hostname :: string
  ac_ConnectedAt :: time
  ac_send :: "command_msg chan"

record agent_hub =
  ah_token :: string
  ah_agents :: "(string, addr) fmap"
  ah_heap :: "addr \<Rightarrow> agent_conn"
  ah_next :: addr

definition no_agent :: agent_conn where
  "no_agent = \<lparr>ac_Hostname = [], ac_ConnectedAt = 0, ac_send = make_chan 0\<rparr>"

definition New_hub :: "string \<Rightarrow> agent_hub" where
  "New_hub token = \<lparr>ah_token = token, ah_agents = fmempty, ah_heap = (\<lambda>_. no_agent), ah_next = 0\<rparr>"

definition agent_at :: "agent_hub \<Rightarrow> string \<Rightarrow> addr option" where
  "agent_at s hostname = fmlookup (ah_agents s) hostname"

definition register_agent :: "string \<Rightarrow> addr \<Rightarrow> agent_hub \<Rightarrow> agent_hub" where
  "register_agent hostname ac s = s\<lparr>ah_agents := fmupd hostname ac (ah_agents s)\<rparr>"

definition unregister_agent :: "string \<Rightarrow> agent_hub \<Rightarrow> agent_hub" where
  "unregister_agent hostname s = s\<lparr>ah_agents := fmdrop hostname (ah_agents s)\<rparr>"

text \<open>
  The beginning of \<open>ServeHTTP\<close>: the reason the connection is closed with, if it is, or the connection
  of the session.  The upgrade and the first message are what the websocket library answers.
\<close>

definition begin_session ::
  "time \<Rightarrow> error option \<Rightarrow> error + register_msg \<Rightarrow> agent_hub \<Rightarrow> (string option + addr) \<times> agent_hub" where
  "begin_session now upgrade first s =
     (case upgrade of
        Some e \<Rightarrow> (Inl None, s)
      | None \<Rightarrow>
          (case first of
             Inl e \<Rightarrow> (Inl (Some ''expected register''), s)
           | Inr reg \<Rightarrow>
               if rm_Type reg \<noteq> TypeRegister then (Inl (Some ''expected register''), s)
               else if ah_token s \<noteq> [] \<and> rm_Token reg \<noteq> ah_token s then (Inl (Some ''invalid token''), s)
               else
                 let ac = \<lparr>ac_Hostname = rm_Hostname reg, ac_ConnectedAt = now, ac_send = make_chan 32\<rparr>;
                     a = ah_next s;
                     s = s\<lparr>ah_heap := (ah_heap s)(a := ac), ah_next := Suc a\<rparr>
                 in (Inr a, register_agent (ac_Hostname ac) a s)))"

text \<open>The deferred end of a session.\<close>

definition end_session :: "addr \<Rightarrow> agent_hub \<Rightarrow> agent_hub" where
  "end_session a s = unregister_agent (ac_Hostname (ah_heap s a)) s"

definition agent_not_found :: "string \<Rightarrow> error" where
  "agent_not_found hostname = ''agent not connected: '' @ hostname"

definition Dispatch :: "string \<Rightarrow> command_msg \<Rightarrow> agent_hub \<Rightarrow> panic + error option \<times> agent_hub" where
  "Dispatch hostname cmd s =
     (case agent_at s hostname of
        None \<Rightarrow> Inr (Some (agent_not_found hostname), s)
      | Some a \<Rightarrow>
          let ac = ah_heap s a; ch = ac_send ac in
          if length (ch_buf ch) < ch_cap ch \<or> ch_closed ch
          then (case try_send cmd ch of
                  Inl x \<Rightarrow> Inl x
                | Inr ch \<Rightarrow> Inr (None, s\<lparr>ah_heap := (ah_heap s)(a := ac\<lparr>ac_send := ch\<rparr>)\<rparr>))
          else Inr (Some (agent_not_found hostname), s))"

definition ListAgents :: "string list \<Rightarrow> agent_hub \<Rightarrow> (string \<times> time) list" where
  "ListAgents order s =
     map (\<lambda>a. (ac_Hostname (ah_heap s a), ac_ConnectedAt (ah_heap s a))) (range_values order (ah_agents s))"

section \<open>The loops of a session\<close>

text \<open>
  One iteration of \<open>writeLoop\<close>: the ticker's ping, or a message received from the connection's
  channel, whose write fails with \<open>res\<close>.  The result says what was put on the wire and whether the
  loop goes on; the error of a ping is ignored.
\<close>

datatype frame = PingFrame bare_msg | CommandFrame command_msg

datatype write_event = Tick "error option" | Take "error option"

definition write_step :: "write_event \<Rightarrow> command_msg chan \<Rightarrow> frame list \<times> bool \<times> command_msg chan" where
  "write_step ev ch =
     (case ev of
        Tick None \<Rightarrow> ([PingFrame \<lparr>bm_Type = TypePing\<rparr>], True, ch)
      | Tick (Some e) \<Rightarrow> ([], True, ch)
      | Take res \<Rightarrow>
          (case receive ch of
             (Received cmd, ch) \<Rightarrow> (case res of None \<Rightarrow> ([CommandFrame cmd], True, ch) | Some e \<Rightarrow> ([], False, ch))
           | (Closed, ch) \<Rightarrow> ([], False, ch)
           | (Blocked, ch) \<Rightarrow> ([], True, ch)))"

text \<open>\<open>readLoop\<close>: what it logs for the frames it reads until a read fails.\<close>

datatype agent_log = OutputLog string string string | DoneLog string string int string

record agent_codec =
  cd_type :: "string \<Rightarrow> string option"
  cd_output :: "string \<Rightarrow> output_msg option"
  cd_done :: "string \<Rightarrow> done_msg option"
  cd_command :: "string \<Rightarrow> command_msg option"

fun readLoop :: "agent_codec \<Rightarrow> string \<Rightarrow> string list \<Rightarrow> agent_log list" where
  "readLoop cd hostname [] = []"
| "readLoop cd hostname (raw # raws) =
     (case cd_type cd raw of
        None \<Rightarrow> readLoop cd hostname raws
      | Some t \<Rightarrow>
          if t = TypePong then readLoop cd hostname raws
          else if t = TypeOutput then
            (case cd_output cd raw of
               Some m \<Rightarrow> OutputLog hostname (om_ID m) (om_Line m) # readLoop cd hostname raws
             | None \<Rightarrow> readLoop cd hostname raws)
          else if t = TypeDone then
            (case cd_done cd raw of
               Some m \<Rightarrow> DoneLog hostname (dm_ID m) (dm_ExitCode m) (dm_Error m) # readLoop cd hostname raws
             | None \<Rightarrow> readLoop cd hostname raws)
          else readLoop cd hostname raws)"

section \<open>Contracts\<close>

interpretation agents: keyed_registry agent_at register_agent unregister_agent
  by unfold_locales (auto simp: agent_at_def register_agent_def unregister_agent_def)

text \<open>Connections that are registered have been allocated, under their own host name; no channel is
  closed, and none holds more than its 32 messages.\<close>

definition hub_inv :: "agent_hub \<Rightarrow> bool" where
  "hub_inv s \<longleftrightarrow>
     (\<forall>h a. agent_at s h = Some a \<longrightarrow> a < ah_next s \<and> ac_Hostname (ah_heap s a) = h) \<and>
     (\<forall>a. a < ah_next s \<longrightarrow> ch_cap (ac_send (ah_heap s a)) = 32) \<and>
     (\<forall>a. wf_chan (ac_send (ah_heap s a)) \<and> \<not> ch_closed (ac_send (ah_heap s a)))"

lemma New_hub_inv: "hub_inv (New_hub token)"
  by (simp add: hub_inv_def New_hub_def agent_at_def no_agent_def)

lemma agent_at_heap [simp]:
  "agent_at (s\<lparr>ah_heap := h\<rparr>) n = agent_at s n" "agent_at (s\<lparr>ah_heap := h, ah_next := k\<rparr>) n = agent_at s n"
  by (simp_all add: agent_at_def)

lemma register_agent_sel [simp]:
  "ah_heap (register_agent h a s) = ah_heap s" "ah_next (register_agent h a s) = ah_next s"
  "ah_token (register_agent h a s) = ah_token s"
  "ah_heap (unregister_agent h s) = ah_heap s" "ah_next (unregister_agent h s) = ah_next s"
  "ah_token (unregister_agent h s) = ah_token s"
  by (simp_all add: register_agent_def unregister_agent_def)

lemma begin_session_inv: "hub_inv s \<Longrightarrow> hub_inv (snd (begin_session now upgrade first s))"
  by (auto simp: begin_session_def hub_inv_def Let_def agents.lookup_insert less_Suc_eq
      split: option.splits sum.splits if_splits)

lemma end_session_inv: "hub_inv s \<Longrightarrow> hub_inv (end_session a s)"
  by (auto simp: end_session_def hub_inv_def agents.lookup_remove)

text \<open>A dispatch either queues the command or reports the agent as not connected.\<close>

lemma Dispatch_cases:
  assumes "hub_inv s"
  shows "Dispatch h cmd s =
    (case agent_at s h of
       Some a \<Rightarrow>
         (if length (ch_buf (ac_send (ah_heap s a))) < 32
          then Inr (None, s\<lparr>ah_heap := (ah_heap s)(a := (ah_heap s a)\<lparr>ac_send := offer cmd (ac_send (ah_heap s a))\<rparr>)\<rparr>)
          else Inr (Some (agent_not_found h), s))
     | None \<Rightarrow> Inr (Some (agent_not_found h), s))"
  using assms by (auto simp: Dispatch_def Let_def hub_inv_def try_send_open split: option.splits)

lemma Dispatch_safe:
  assumes "hub_inv s"
  shows "\<exists>r s'. Dispatch h cmd s = Inr (r, s') \<and> hub_inv s'"
proof -
  have "hub_inv (s\<lparr>ah_heap := (ah_heap s)(a := (ah_heap s a)\<lparr>ac_send := offer cmd (ac_send (ah_heap s a))\<rparr>)\<rparr>)" for a
    using assms by (auto simp: hub_inv_def)
  with assms show ?thesis by (auto simp: Dispatch_cases split: option.splits)
qed

datatype hub_op =
    Connect time "error option" "error + register_msg"
  | Disconnect addr
  | Send string command_msg
  | Written addr write_event

definition hub_step :: "agent_hub \<Rightarrow> hub_op \<Rightarrow> panic + agent_hub" where
  "hub_step s e =
     (case e of
        Connect now u f \<Rightarrow> Inr (snd (begin_session now u f s))
      | Disconnect a \<Rightarrow> Inr (end_session a s)
      | Send h cmd \<Rightarrow> (case Dispatch h cmd s of Inl x \<Rightarrow> Inl x | Inr (_, s) \<Rightarrow> Inr s)
      | Written a ev \<Rightarrow>
          Inr (s\<lparr>ah_heap := (ah_heap s)(a := (ah_heap s a)\<lparr>ac_send := snd (snd (write_step ev (ac_send (ah_heap s a))))\<rparr>)\<rparr>))"

lemma write_step_receive: "snd (snd (write_step ev c)) \<in> {c, snd (receive c)}"
  by (auto simp: write_step_def split: write_event.splits option.splits prod.splits received.splits)

lemma write_step_chan:
  "wf_chan c \<Longrightarrow> wf_chan (snd (snd (write_step ev c)))"
  "ch_cap (snd (snd (write_step ev c))) = ch_cap c"
  "ch_closed (snd (snd (write_step ev c))) = ch_closed c"
  using write_step_receive [of ev c] wf_receive [of c] receive_sel [of c] by auto

lemma hub_step_safe: "hub_inv s \<Longrightarrow> \<exists>s'. hub_step s e = Inr s' \<and> hub_inv s'"
proof (cases e)
  case (Send h cmd)
  assume "hub_inv s"
  with Dispatch_safe obtain r s' where "Dispatch h cmd s = Inr (r, s')" "hub_inv s'" by blast
  with Send show ?thesis by (simp add: hub_step_def)
next
  case (Written a ev)
  assume "hub_inv s"
  with Written show ?thesis by (auto simp: hub_step_def hub_inv_def write_step_chan)
qed (simp_all add: hub_step_def begin_session_inv end_session_inv)

interpretation hub: safe_machine hub_step hub_inv
  by unfold_locales (rule hub_step_safe)

section \<open>Properties\<close>

text \<open>With a token configured, whatever clients and callers do, an agent is only listed under a host
  name for which some client has sent a register message with that token.\<close>

theorem agents_are_authenticated:
  assumes "token \<noteq> []" and "run_steps hub_step (New_hub token) ops = Inr s" and "agent_at s h = Some a"
  shows "\<exists>now reg. Connect now None (Inr reg) \<in> set ops \<and> rm_Hostname reg = h \<and> rm_Token reg = token \<and>
    rm_Type reg = TypeRegister"
proof -
  have "(\<exists>now reg. Connect now None (Inr reg) \<in> set ops \<and> rm_Hostname reg = h \<and> rm_Token reg = token \<and>
      rm_Type reg = TypeRegister) \<or> agent_at s0 h \<noteq> None"
    if "run_steps hub_step s0 ops = Inr s" "ah_token s0 = token" for s0
    using that
  proof (induction ops arbitrary: s0)
    case Nil
    with assms(3) show ?case by simp
  next
    case (Cons e ops)
    obtain s1 where s1: "hub_step s0 e = Inr s1" "run_steps hub_step s1 ops = Inr s"
      using Cons.prems(1) by (rule run_steps_ConsE)
    have t: "ah_token s1 = token"
      using s1(1) Cons.prems(2)
      by (auto simp: hub_step_def begin_session_def end_session_def Dispatch_def Let_def
          split: hub_op.splits option.splits sum.splits if_splits prod.splits)
    have new: "agent_at s0 h \<noteq> None \<or> (\<exists>now reg. e = Connect now None (Inr reg) \<and> rm_Hostname reg = h \<and>
        rm_Token reg = token \<and> rm_Type reg = TypeRegister)" if "agent_at s1 h \<noteq> None"
    proof (cases e)
      case (Connect now u f)
      show ?thesis
      proof (cases "u = None \<and> (\<exists>reg. f = Inr reg \<and> rm_Type reg = TypeRegister \<and> rm_Token reg = token)")
        case True
        with Connect s1(1) that Cons.prems(2) show ?thesis
          by (auto simp: hub_step_def begin_session_def Let_def agents.lookup_insert split: if_splits)
      next
        case False
        then have "snd (begin_session now u f s0) = s0"
          using assms(1) Cons.prems(2) by (auto simp: begin_session_def split: option.splits sum.splits)
        with Connect s1(1) that show ?thesis by (simp add: hub_step_def)
      qed
    qed (use s1(1) that in \<open>auto simp: hub_step_def end_session_def agents.lookup_remove Dispatch_def Let_def
          split: option.splits sum.splits if_splits prod.splits\<close>)
    from Cons.IH [OF s1(2) t] new show ?case by auto
  qed
  from this [OF assms(2)] show ?thesis by (auto simp: New_hub_def agent_at_def)
qed

definition demo_register :: register_msg where
  "demo_register = \<lparr>rm_Type = TypeRegister, rm_Hostname = ''host'', rm_Token = ''t0ken''\<rparr>"

definition demo_command :: "string \<Rightarrow> command_msg" where
  "demo_command i = \<lparr>cm_Type = TypeCommand, cm_ID = i, cm_Action = ''update'', cm_Service = ''web'', cm_Image = []\<rparr>"

definition demo_hub :: agent_hub where
  "demo_hub = snd (begin_session 1 None (Inr demo_register) (New_hub ''t0ken''))"

lemma demo_session:
  "begin_session 1 None (Inr demo_register) (New_hub ''t0ken'') = (Inr 0, demo_hub)"
  by (simp add: demo_hub_def begin_session_def demo_register_def New_hub_def Let_def)

lemma demo_hub_inv: "hub_inv demo_hub"
  using begin_session_inv [OF New_hub_inv] by (simp add: demo_hub_def)

theorem agents_are_authenticated_witness:
  "\<exists>now reg. Connect now None (Inr reg) \<in> {Connect 1 None (Inr demo_register)} \<and> rm_Token reg = ''t0ken''"
proof -
  have "run_steps hub_step (New_hub ''t0ken'') [Connect 1 None (Inr demo_register)] = Inr demo_hub"
    by (simp add: hub_step_def demo_session)
  moreover have "agent_at demo_hub ''host'' = Some 0"
    by (simp add: demo_hub_def begin_session_def demo_register_def New_hub_def Let_def agents.lookup_insert)
  moreover have "''t0ken'' \<noteq> []" by simp
  ultimately show ?thesis
    using agents_are_authenticated [of "''t0ken''" "[Connect 1 None (Inr demo_register)]" demo_hub "''host''" 0] by auto
qed



text \<open>The commands a run puts into an agent's queue, and those it puts on the wire.\<close>

definition accepted :: "addr \<Rightarrow> agent_hub \<Rightarrow> hub_op \<Rightarrow> command_msg list" where
  "accepted a s e =
     (case e of
        Send h cmd \<Rightarrow>
          (case Dispatch h cmd s of Inr (None, _) \<Rightarrow> if agent_at s h = Some a then [cmd] else [] | _ \<Rightarrow> [])
      | _ \<Rightarrow> [])"

definition commands :: "frame list \<Rightarrow> command_msg list" where
  "commands fs = List.map_filter (\<lambda>f. case f of CommandFrame c \<Rightarrow> Some c | PingFrame _ \<Rightarrow> None) fs"

lemma commands_simps [simp]:
  "commands [] = []" "commands (CommandFrame c # fs) = c # commands fs" "commands (PingFrame b # fs) = commands fs"
  by (simp_all add: commands_def map_filter_simps)

definition written :: "addr \<Rightarrow> agent_hub \<Rightarrow> hub_op \<Rightarrow> command_msg list" where
  "written a s e =
     (case e of
        Written b ev \<Rightarrow> if b = a then commands (fst (write_step ev (ac_send (ah_heap s a)))) else []
      | _ \<Rightarrow> [])"

lemma hub_step_queue:
  assumes "hub_inv s" "a < ah_next s" "hub_step s e = Inr s'" "\<forall>x. e \<noteq> Written a (Take (Some x))"
  shows "ch_buf (ac_send (ah_heap s a)) @ accepted a s e = written a s e @ ch_buf (ac_send (ah_heap s' a)) \<and>
    a < ah_next s'"
proof (cases e)
  case (Send h cmd)
  show ?thesis
  proof (cases "agent_at s h")
    case (Some b)
    with assms Send show ?thesis
      by (auto simp: hub_step_def Dispatch_cases accepted_def written_def offer_def hub_inv_def split: if_splits)
  qed (use assms Send in \<open>auto simp: hub_step_def Dispatch_cases accepted_def written_def\<close>)
next
  case (Written b ev)
  show ?thesis
  proof (cases "b = a")
    case True
    with assms Written have s': "ac_send (ah_heap s' a) = snd (snd (write_step ev (ac_send (ah_heap s a))))" "ah_next s' = ah_next s"
      by (auto simp: hub_step_def)
    show ?thesis
    proof (cases ev)
      case (Take r)
      with assms(4) Written True have "r = None" by (cases r) auto
      with Take Written True s' assms(2) show ?thesis
        by (cases "ch_buf (ac_send (ah_heap s a))") (auto simp: accepted_def written_def write_step_def receive_def)
    qed (use Written True s' assms(2) in \<open>auto simp: accepted_def written_def write_step_def split: option.splits\<close>)
  qed (use assms Written in \<open>auto simp: hub_step_def accepted_def written_def\<close>)
qed (use assms in \<open>auto simp: hub_step_def accepted_def written_def begin_session_def end_session_def Let_def
      split: option.splits sum.splits if_splits\<close>)

interpretation agent_queue: fifo_machine hub_step hub_inv "\<lambda>s. a < ah_next s"
  "\<lambda>e. \<forall>x. e \<noteq> Written a (Take (Some x))" "\<lambda>s. ch_buf (ac_send (ah_heap s a))" "accepted a" "written a"
  for a
  by unfold_locales (use hub_step_queue in \<open>blast\<close>)

text \<open>Commands reach an agent in the order in which they were dispatched, none is lost or repeated and
  none reaches another agent, as long as the writes succeed: what was waiting and was accepted is
  what has been written followed by what still waits, and at most 32 commands wait.\<close>

theorem commands_in_order:
  assumes "hub_inv s" and "a < ah_next s" and "run_steps hub_step s ops = Inr s'"
    and "\<forall>x. Written a (Take (Some x)) \<notin> set ops"
  shows "ch_buf (ac_send (ah_heap s a)) @ observe (accepted a) hub_step s ops =
      observe (written a) hub_step s ops @ ch_buf (ac_send (ah_heap s' a)) \<and>
    length (ch_buf (ac_send (ah_heap s' a))) \<le> 32"
proof -
  have "\<forall>e \<in> set ops. \<forall>x. e \<noteq> Written a (Take (Some x))" using assms(4) by auto
  note q = agent_queue.fifo_run [OF assms(1,2) this assms(3)]
  have "hub_inv s'" by (rule hub.run_inv [OF assms(1,3)])
  with q show ?thesis by (metis hub_inv_def wf_chan_def)
qed

theorem commands_in_order_witness:
  "\<exists>s'. run_steps hub_step demo_hub
      [Send ''host'' (demo_command ''c1''), Written 0 (Tick None), Written 0 (Take None)] = Inr s' \<and>
    observe (accepted 0) hub_step demo_hub
      [Send ''host'' (demo_command ''c1''), Written 0 (Tick None), Written 0 (Take None)] =
    observe (written 0) hub_step demo_hub
      [Send ''host'' (demo_command ''c1''), Written 0 (Tick None), Written 0 (Take None)] @
    ch_buf (ac_send (ah_heap s' 0))"
proof -
  let ?ops = "[Send ''host'' (demo_command ''c1''), Written 0 (Tick None), Written 0 (Take None)]"
  obtain s' where r: "run_steps hub_step demo_hub ?ops = Inr s'" using hub.run_safe [OF demo_hub_inv] by blast
  have "(0 :: addr) < ah_next demo_hub" "ch_buf (ac_send (ah_heap demo_hub 0)) = []"
    "\<forall>x. Written 0 (Take (Some x)) \<notin> set ?ops"
    by (simp_all add: demo_hub_def begin_session_def demo_register_def New_hub_def Let_def)
  with commands_in_order [OF demo_hub_inv _ r, of 0] r show ?thesis by auto
qed

end
