(* ===== verification/Notifier.thy ===== *)
theory Notifier
  imports Bus
begin

text \<open>
  The notifier, \<open>internal/notifier/notifier.go\<close>: it subscribes to every topic of the bus and passes
  each event, as JSON text, to the connected browsers.  A client is a pointer whose channel is read
  by the request that serves it (\<open>handleSSE\<close> of the API), so the channels live in a heap.  The JSON
  encoder is an argument.  The five topics are handled by five goroutines, so events of different
  topics may be passed on in any order; \<open>dispatch\<close> is atomic for removals, because both take the lock.
\<close>

section \<open>Definitions\<close>

record notifier =
  nt_clients :: "(addr, unit) fmap"
  nt_chans :: "addr \<Rightarrow> string chan"
  nt_next :: addr

definition New_notifier :: notifier where
  "New_notifier = \<lparr>nt_clients = fmempty, nt_chans = (\<lambda>_. make_chan 0), nt_next = 0\<rparr>"

definition notifier_topics :: "topic list" where
  "notifier_topics =
     [TopicImageUpdated, TopicContainerUnhealthy, TopicUpdateApplied, TopicUpdateSkipped, TopicRollbackDone]"

text \<open>What \<open>Run\<close> subscribes to, one subscription for each topic, in the order the goroutines get to it.\<close>

fun run_topics :: "topic list \<Rightarrow> bus \<Rightarrow> subscriber list \<times> bus" where
  "run_topics [] b = ([], b)"
| "run_topics (t # ts) b =
     (let (s, b) = Subscribe t b; (ss, b) = run_topics ts b in (s # ss, b))"

text \<open>The non-blocking send to every client.\<close>

fun client_loop :: "string \<Rightarrow> addr list \<Rightarrow> notifier \<Rightarrow> panic + notifier" where
  "client_loop msg [] n = Inr n"
| "client_loop msg (c # cs) n =
     (case try_send msg (nt_chans n c) of
        Inl p \<Rightarrow> Inl p
      | Inr ch \<Rightarrow> client_loop msg cs (n\<lparr>nt_chans := (nt_chans n)(c := ch)\<rparr>))"

definition dispatch_event ::
  "(event \<Rightarrow> string option) \<Rightarrow> addr list \<Rightarrow> event \<Rightarrow> notifier \<Rightarrow> panic + notifier" where
  "dispatch_event marshal order ev n =
     (case marshal ev of
        None \<Rightarrow> Inr n
      | Some msg \<Rightarrow> client_loop msg order n)"

definition AddSSEClient :: "notifier \<Rightarrow> addr \<times> notifier" where
  "AddSSEClient n =
     (let c = nt_next n in
      (c, n\<lparr>nt_clients := fmupd c () (nt_clients n), nt_chans := (nt_chans n)(c := make_chan 32),
            nt_next := Suc c\<rparr>))"

text \<open>The cleanup function \<open>AddSSEClient\<close> returns.\<close>

definition remove_client :: "addr \<Rightarrow> notifier \<Rightarrow> panic + notifier" where
  "remove_client c n =
     (case close_chan (nt_chans n c) of
        Inl p \<Rightarrow> Inl p
      | Inr ch \<Rightarrow> Inr (n\<lparr>nt_clients := fmdrop c (nt_clients n), nt_chans := (nt_chans n)(c := ch)\<rparr>))"

text \<open>A client's request reading its channel.\<close>

definition read_client :: "addr \<Rightarrow> notifier \<Rightarrow> string received \<times> notifier" where
  "read_client c n =
     (let (r, ch) = receive (nt_chans n c) in (r, n\<lparr>nt_chans := (nt_chans n)(c := ch)\<rparr>))"

section \<open>Steps\<close>

text \<open>
  The cleanup function is called once by the request that got it (a deferred call), so \<open>Leave\<close> of a
  client that is not connected is not a call.  An event is dispatched to the clients in some order.
\<close>

datatype notify_op = Join | Leave addr | Event "addr list" event | Read addr

definition connected :: "addr \<Rightarrow> notifier \<Rightarrow> bool" where
  "connected c n \<longleftrightarrow> fmlookup (nt_clients n) c \<noteq> None"

definition notify_step :: "(event \<Rightarrow> string option) \<Rightarrow> notifier \<Rightarrow> notify_op \<Rightarrow> panic + notifier" where
  "notify_step marshal n e =
     (case e of
        Join \<Rightarrow> Inr (snd (AddSSEClient n))
      | Leave c \<Rightarrow> if connected c n then remove_client c n else Inr n
      | Event order ev \<Rightarrow> if range_order order (nt_clients n) then dispatch_event marshal order ev n else Inr n
      | Read c \<Rightarrow> Inr (snd (read_client c n)))"

definition notifier_inv :: "notifier \<Rightarrow> bool" where
  "notifier_inv n \<longleftrightarrow> (\<forall>c. wf_chan (nt_chans n c)) \<and>
     (\<forall>c. connected c n \<longrightarrow> c < nt_next n \<and> \<not> ch_closed (nt_chans n c) \<and> ch_cap (nt_chans n c) = 32)"

lemma New_notifier_inv: "notifier_inv New_notifier"
  by (simp add: notifier_inv_def New_notifier_def connected_def)

lemma connected_simps [simp]:
  "connected c (n\<lparr>nt_chans := f\<rparr>) = connected c n"
  "connected c (n\<lparr>nt_clients := fmupd d () m, nt_chans := f, nt_next := k\<rparr>) = (c = d \<or> fmlookup m c \<noteq> None)"
  "connected c (n\<lparr>nt_clients := fmdrop d m, nt_chans := f\<rparr>) = (c \<noteq> d \<and> fmlookup m c \<noteq> None)"
  by (auto simp: connected_def)

text \<open>A dispatch offers the text to each connected client.\<close>

lemma client_loop_eq:
  assumes "\<forall>c \<in> set cs. \<not> ch_closed (nt_chans n c)" "distinct cs"
  shows "client_loop msg cs n =
    Inr (n\<lparr>nt_chans := (\<lambda>c. if c \<in> set cs then offer msg (nt_chans n c) else nt_chans n c)\<rparr>)"
  using assms
proof (induction cs arbitrary: n)
  case (Cons c cs)
  let ?n = "n\<lparr>nt_chans := (nt_chans n)(c := offer msg (nt_chans n c))\<rparr>"
  have "client_loop msg cs ?n =
      Inr (?n\<lparr>nt_chans := (\<lambda>d. if d \<in> set cs then offer msg (nt_chans ?n d) else nt_chans ?n d)\<rparr>)"
    by (rule Cons.IH) (use Cons.prems in auto)
  moreover have "(\<lambda>d. if d \<in> set cs then offer msg (nt_chans ?n d) else nt_chans ?n d) =
      (\<lambda>d. if d \<in> set (c # cs) then offer msg (nt_chans n d) else nt_chans n d)"
    using Cons.prems(2) by auto
  ultimately show ?case using Cons.prems(1) by (simp add: try_send_open)
qed simp

lemma dispatch_event_eq:
  assumes "notifier_inv n" "range_order order (nt_clients n)"
  shows "dispatch_event marshal order ev n =
    Inr (case marshal ev of None \<Rightarrow> n | Some msg \<Rightarrow>
      n\<lparr>nt_chans := (\<lambda>c. if connected c n then offer msg (nt_chans n c) else nt_chans n c)\<rparr>)"
proof (cases "marshal ev")
  case (Some msg)
  have c: "c \<in> set order \<longleftrightarrow> connected c n" for c
    using assms(2) by (auto simp: range_order_def connected_def fmlookup_dom'_iff)
  have "client_loop msg order n =
      Inr (n\<lparr>nt_chans := (\<lambda>c. if c \<in> set order then offer msg (nt_chans n c) else nt_chans n c)\<rparr>)"
    by (rule client_loop_eq) (use assms c in \<open>auto simp: range_order_def notifier_inv_def\<close>)
  then show ?thesis by (simp add: dispatch_event_def Some c)
qed (simp add: dispatch_event_def)

lemma read_client_chans:
  "snd (read_client c n) = n\<lparr>nt_chans := (nt_chans n)(c := snd (receive (nt_chans n c)))\<rparr>"
  by (simp add: read_client_def Let_def split: prod.split)

lemma notify_step_safe:
  assumes "notifier_inv n"
  shows "\<exists>n'. notify_step marshal n e = Inr n' \<and> notifier_inv n'"
proof (cases e)
  case Join
  with assms show ?thesis
    by (auto simp: notify_step_def AddSSEClient_def Let_def notifier_inv_def connected_def less_SucI)
next
  case (Leave c)
  show ?thesis
  proof (cases "connected c n")
    case True
    with assms have "\<not> ch_closed (nt_chans n c)" "wf_chan (nt_chans n c)" by (auto simp: notifier_inv_def)
    with assms Leave True show ?thesis
      by (auto simp: notify_step_def remove_client_def close_chan_def notifier_inv_def connected_def wf_chan_def
          simp del: not_None_eq)
  qed (use assms Leave in \<open>simp add: notify_step_def\<close>)
next
  case (Event order ev)
  have "notifier_inv (n\<lparr>nt_chans := (\<lambda>c. if connected c n then offer msg (nt_chans n c) else nt_chans n c)\<rparr>)" for msg
    using assms by (auto simp: notifier_inv_def)
  with assms Event show ?thesis by (auto simp: notify_step_def dispatch_event_eq split: option.splits)
next
  case (Read c)
  with assms show ?thesis by (auto simp: notify_step_def notifier_inv_def read_client_chans wf_receive)
qed

interpretation notify: safe_machine "notify_step marshal" notifier_inv for marshal
  by unfold_locales (rule notify_step_safe)

section \<open>What a browser is sent\<close>

text \<open>The texts put into a client's channel by a step, and those the client's request read from it.\<close>

definition offered :: "(event \<Rightarrow> string option) \<Rightarrow> addr \<Rightarrow> notifier \<Rightarrow> notify_op \<Rightarrow> string list" where
  "offered marshal c n e =
     (case e of
        Event order ev \<Rightarrow>
          (if range_order order (nt_clients n) \<and> connected c n \<and> length (ch_buf (nt_chans n c)) < 32
           then (case marshal ev of None \<Rightarrow> [] | Some msg \<Rightarrow> [msg]) else [])
      | _ \<Rightarrow> [])"

definition client_read :: "addr \<Rightarrow> notifier \<Rightarrow> notify_op \<Rightarrow> string list" where
  "client_read c n e =
     (case e of
        Read d \<Rightarrow> if d = c then (case fst (read_client c n) of Received msg \<Rightarrow> [msg] | _ \<Rightarrow> []) else []
      | _ \<Rightarrow> [])"

lemma notify_step_queue:
  assumes "notifier_inv n" "connected c n" "e \<noteq> Leave c" "notify_step marshal n e = Inr n'"
  shows "connected c n' \<and>
    ch_buf (nt_chans n c) @ offered marshal c n e = client_read c n e @ ch_buf (nt_chans n' c)"
proof (cases e)
  case Join
  moreover have "c \<noteq> nt_next n" using assms(1,2) by (auto simp: notifier_inv_def)
  ultimately show ?thesis using assms
    by (auto simp: notify_step_def AddSSEClient_def Let_def offered_def client_read_def connected_def)
next
  case (Leave d)
  with assms show ?thesis
    by (auto simp: notify_step_def remove_client_def offered_def client_read_def connected_def
        split: if_splits sum.splits)
next
  case (Event order ev)
  have "ch_cap (nt_chans n c) = 32" using assms(1,2) by (simp add: notifier_inv_def)
  with Event assms show ?thesis
    by (auto simp: notify_step_def dispatch_event_eq offered_def client_read_def offer_def
        split: option.splits if_splits)
next
  case (Read d)
  with assms show ?thesis
    by (auto simp: notify_step_def read_client_chans offered_def client_read_def read_client_def receive_def Let_def
        split: list.splits)
qed

interpretation browser: fifo_machine "notify_step marshal" notifier_inv "connected c" "\<lambda>e. e \<noteq> Leave c"
  "\<lambda>n. ch_buf (nt_chans n c)" "offered marshal c" "client_read c" for marshal c
  by unfold_locales (rule notify_step_queue)

text \<open>A connected browser gets the events in the order in which they were dispatched, none twice: what
  its request has read, followed by what still waits, is what was waiting followed by the texts
  offered while fewer than 32 waited (those that found it full were dropped).  A slow browser does
  not hold the others up, and no sequence of joining, leaving, dispatching and reading panics.\<close>

theorem browser_events_in_order:
  assumes "notifier_inv n" and "connected c n" and "Leave c \<notin> set ops"
  shows "\<exists>n'. run_steps (notify_step marshal) n ops = Inr n' \<and> connected c n' \<and>
    ch_buf (nt_chans n c) @ observe (offered marshal c) (notify_step marshal) n ops =
      observe (client_read c) (notify_step marshal) n ops @ ch_buf (nt_chans n' c) \<and>
    length (ch_buf (nt_chans n' c)) \<le> 32"
proof -
  obtain n' where r: "run_steps (notify_step marshal) n ops = Inr n'" "notifier_inv n'"
    using notify.run_safe [OF assms(1)] by blast
  have "\<forall>e \<in> set ops. e \<noteq> Leave c" using assms(3) by auto
  note q = browser.fifo_run [OF assms(1,2) this r(1)]
  with r(2) have "length (ch_buf (nt_chans n' c)) \<le> 32" by (metis notifier_inv_def wf_chan_def)
  with q r(1) show ?thesis by blast
qed

definition demo_notifier :: notifier where "demo_notifier = snd (AddSSEClient New_notifier)"

definition demo_payload :: event where
  "demo_payload = \<lparr>ev_Topic = TopicRollbackDone, ev_Payload = RollbackDonePayload
     \<lparr>rd_ContainerID = ''c1'', rd_ContainerName = ''web'', rd_Image = ''nginx'',
      rd_RestoredDigest = ''d1'', rd_RolledBackAt = 7\<rparr>\<rparr>"

lemma demo_notifier_inv: "notifier_inv demo_notifier" "connected 0 demo_notifier"
  by (auto simp: demo_notifier_def AddSSEClient_def New_notifier_def notifier_inv_def connected_def Let_def)

theorem browser_events_in_order_witness:
  "\<exists>n'. run_steps (notify_step (\<lambda>ev. Some (ev_Topic ev))) demo_notifier [Event [0] demo_payload, Join, Read 0] = Inr n' \<and>
    observe (client_read 0) (notify_step (\<lambda>ev. Some (ev_Topic ev))) demo_notifier
      [Event [0] demo_payload, Join, Read 0] @ ch_buf (nt_chans n' 0) = [TopicRollbackDone]"
proof -
  have "ch_buf (nt_chans demo_notifier 0) @ observe (offered (\<lambda>ev. Some (ev_Topic ev)) 0)
      (notify_step (\<lambda>ev. Some (ev_Topic ev))) demo_notifier [Event [0] demo_payload, Join, Read 0] = [TopicRollbackDone]"
    by (simp add: offered_def notify_step_def AddSSEClient_def demo_notifier_def New_notifier_def
        dispatch_event_def range_order_def connected_def demo_payload_def read_client_def Let_def
        try_send_def offer_def receive_def)
  then show ?thesis
    using browser_events_in_order [OF demo_notifier_inv,
        of "[Event [0] demo_payload, Join, Read 0]" "\<lambda>ev. Some (ev_Topic ev)"]
    by auto
qed

end
