(* ===== verification/Api.thy ===== *)
theory Api
  imports World Agent_Server Notifier
begin

text \<open>
  The request handlers of \<open>internal/api/api.go\<close>.  A request is its method, path, query parameters, the
  wildcards of its route and its body; a reply is its status and the value that is written to it (as
  JSON, by the standard encoder).  The decoders of request bodies, the clock and the orders in which
  maps are ranged over are arguments; \<open>head\<close> is the registry client's \<open>HeadDigest\<close> as it answers during
  the call, \<open>seconds\<close> the whole part of \<open>time.Duration.Seconds\<close>, a floating-point number.  Which handler
  a request is given to is decided by \<open>net/http\<close>.
\<close>

section \<open>Requests and replies\<close>

record api_request =
  aq_Method :: string
  aq_Path :: string
  aq_Query :: "(string, string) fmap"
  aq_PathValue :: "(string, string) fmap"
  aq_Body :: string

record create_request =
  cq_Name :: string
  cq_Image :: string
  cq_ComposeFile :: string
  cq_TriggerMode :: string
  cq_PollerInterval :: int

record api =
  ax_jobRegistry :: bool
  ax_history :: bool
  ax_startedAt :: time
  ax_time :: time_io
  ax_seconds :: "int \<Rightarrow> int"
  ax_dispatch :: "string \<Rightarrow> (string \<times> string) option"
  ax_create :: "string \<Rightarrow> create_request option"
  ax_patch :: "string \<Rightarrow> (string \<times> int) option"

record container_row =
  cr_ID :: string
  cr_Name :: string
  cr_Image :: string
  cr_Digest :: string

datatype reply_body =
    Plain string
  | Health nat int
  | JobStatus job_snapshot
  | Rows "container_row list"
  | Said string string
  | Page nat int int "hist_entry list"
  | Agents "(string \<times> time) list"
  | DispatchedAs string
  | Services "svc_config list"
  | Service svc_config
  | Nothing

record reply =
  rp_Status :: nat
  rp_Body :: reply_body

definition api_error :: "string \<Rightarrow> nat \<Rightarrow> reply" where
  "api_error msg status = \<lparr>rp_Status = status, rp_Body = Plain msg\<rparr>"

definition ok_reply :: "reply_body \<Rightarrow> reply" where
  "ok_reply b = \<lparr>rp_Status = 200, rp_Body = b\<rparr>"

section \<open>Containers and deploys\<close>

definition handleHealthz :: "api \<Rightarrow> time \<Rightarrow> 'd world \<Rightarrow> reply" where
  "handleHealthz x now w =
     (let activeDeploys = (if ax_jobRegistry x then ActiveCount (w_jobs w) else 0)
      in ok_reply (Health activeDeploys (ax_seconds x (now - ax_startedAt x))))"

definition handleDeployStatus :: "api \<Rightarrow> api_request \<Rightarrow> 'd world \<Rightarrow> reply" where
  "handleDeployStatus x r w =
     (if aq_Method r \<noteq> ''GET'' then api_error ''method not allowed'' 405
      else if \<not> ax_jobRegistry x then api_error ''deploy tracking not available'' 503
      else
        let path = TrimPrefix (aq_Path r) ''/api/deploys/'';
            parts = SplitN path CHR ''/'' 2;
            i = parts ! 0
        in if i = [] then api_error ''deploy id required'' 400
           else case GetJob i (w_jobs w) of
                  None \<Rightarrow> api_error ''deploy not found'' 404
                | Some a \<Rightarrow> ok_reply (JobStatus (Snap (jr_heap (w_jobs w) a))))"

fun container_rows :: "addr list \<Rightarrow> store \<Rightarrow> container_row list" where
  "container_rows [] s = []"
| "container_rows (a # as) s =
     (let c = st_heap s a in
      \<lparr>cr_ID = cs_ID c, cr_Name = cs_Name c, cr_Image = cs_Image c, cr_Digest = CurrentDigest c\<rparr>
        # container_rows as s)"

definition handleContainers :: "string list \<Rightarrow> api_request \<Rightarrow> 'd world \<Rightarrow> reply" where
  "handleContainers order r w =
     (if aq_Method r \<noteq> ''GET'' then api_error ''method not allowed'' 405
      else ok_reply (Rows (container_rows (All order (w_store w)) (w_store w))))"

definition manual_update :: "time \<Rightarrow> string \<Rightarrow> container_state \<Rightarrow> image_updated" where
  "manual_update now latest cs =
     \<lparr>iu_ContainerID = cs_ID cs, iu_ContainerName = cs_Name cs, iu_Image = cs_Image cs,
      iu_OldDigest = CurrentDigest cs, iu_NewDigest = latest, iu_DetectedAt = now\<rparr>"

definition handleUpdate ::
  "(string \<Rightarrow> error + string) \<Rightarrow> time \<Rightarrow> api_request \<Rightarrow> 'd world \<Rightarrow> panic + reply \<times> 'd world" where
  "handleUpdate head now r w =
     (if aq_Method r \<noteq> ''POST'' then Inr (api_error ''method not allowed'' 405, w)
      else
        let i = TrimPrefix (aq_Path r) ''/api/update/'' in
        case Get i (w_store w) of
          None \<Rightarrow> Inr (api_error ''container not found'' 404, w)
        | Some a \<Rightarrow>
            let cs = st_heap (w_store w) a; current = CurrentDigest cs in
            (case head (cs_Image cs) of
               Inl e \<Rightarrow> Inr (api_error (''registry check failed: '' @ e) 502, w)
             | Inr latest \<Rightarrow>
                 if latest = current then Inr (ok_reply (Said ''up to date'' (cs_Name cs)), w)
                 else
                   (case publish_w TopicImageUpdated (ImageUpdatedPayload (manual_update now latest cs)) w of
                      Inl p \<Rightarrow> Inl p
                    | Inr w \<Rightarrow> Inr (ok_reply (Said ''update triggered'' (cs_Name cs)), w))))"

definition manual_rollback :: "time \<Rightarrow> container_state \<Rightarrow> container_unhealthy" where
  "manual_rollback now cs =
     \<lparr>cu_ContainerID = cs_ID cs, cu_ContainerName = cs_Name cs, cu_Image = cs_Image cs,
      cu_AppliedDigest = CurrentDigest cs, cu_PrevDigest = PreviousDigest cs, cu_FailedAt = now\<rparr>"

definition handleRollback :: "time \<Rightarrow> api_request \<Rightarrow> 'd world \<Rightarrow> panic + reply \<times> 'd world" where
  "handleRollback now r w =
     (if aq_Method r \<noteq> ''POST'' then Inr (api_error ''method not allowed'' 405, w)
      else
        let i = TrimPrefix (aq_Path r) ''/api/rollback/'' in
        case Get i (w_store w) of
          None \<Rightarrow> Inr (api_error ''container not found'' 404, w)
        | Some a \<Rightarrow>
            let cs = st_heap (w_store w) a; prev = PreviousDigest cs in
            if prev = [] then Inr (api_error ''no previous digest available for rollback'' 409, w)
            else
              (case publish_w TopicContainerUnhealthy (ContainerUnhealthyPayload (manual_rollback now cs)) w of
                 Inl p \<Rightarrow> Inl p
               | Inr w \<Rightarrow> Inr (ok_reply (Said ''rollback triggered'' (cs_Name cs)), w)))"

section \<open>History\<close>

definition parseIntParam :: "string \<Rightarrow> int \<Rightarrow> int" where
  "parseIntParam s defaultVal =
     (if s = [] then defaultVal
      else case Atoi s of
             None \<Rightarrow> defaultVal
           | Some v \<Rightarrow> if v < 0 then defaultVal else v)"

definition handleHistory :: "api \<Rightarrow> api_request \<Rightarrow> 'd world \<Rightarrow> reply \<times> 'd world" where
  "handleHistory x r w =
     (if aq_Method r \<noteq> ''GET'' then (api_error ''method not allowed'' 405, w)
      else if \<not> ax_history x then (ok_reply (Page 0 50 0 []), w)
      else
        let service = map_get (aq_Query r) ''service'';
            limit = parseIntParam (map_get (aq_Query r) ''limit'') 50;
            offset = parseIntParam (map_get (aq_Query r) ''offset'') 0
        in case Count service (w_hist w) of
             (Inl e, h) \<Rightarrow> (api_error ''internal error'' 500, w\<lparr>w_hist := h\<rparr>)
           | (Inr count, h) \<Rightarrow>
               (case List_history (ax_time x) service limit offset h of
                  (Inl e, h) \<Rightarrow> (api_error ''internal error'' 500, w\<lparr>w_hist := h\<rparr>)
                | (Inr entries, h) \<Rightarrow> (ok_reply (Page count limit offset entries), w\<lparr>w_hist := h\<rparr>)))"

section \<open>Agents\<close>

definition handleAgents :: "string list \<Rightarrow> api_request \<Rightarrow> agent_hub \<Rightarrow> reply" where
  "handleAgents order r s =
     (if aq_Method r \<noteq> ''GET'' then api_error ''method not allowed'' 405
      else ok_reply (Agents (ListAgents order s)))"

text \<open>\<open>nano\<close> is the decimal rendering of the clock's nanoseconds.\<close>

definition agent_command :: "string \<Rightarrow> string \<Rightarrow> string \<Rightarrow> command_msg" where
  "agent_command nano service img =
     \<lparr>cm_Type = TypeCommand, cm_ID = ''cmd-'' @ nano, cm_Action = ''update'', cm_Service = service, cm_Image = img\<rparr>"

definition handleAgentDispatch ::
  "api \<Rightarrow> string \<Rightarrow> api_request \<Rightarrow> agent_hub \<Rightarrow> panic + reply \<times> agent_hub" where
  "handleAgentDispatch x nano r s =
     (if aq_Method r \<noteq> ''POST'' then Inr (api_error ''method not allowed'' 405, s)
      else
        let path = TrimPrefix (aq_Path r) ''/api/agents/'';
            parts = SplitN path CHR ''/'' 2
        in
        if length parts < 2 \<or> parts ! 1 \<noteq> ''update'' then Inr (api_error ''not found'' 404, s)
        else
          (case ax_dispatch x (aq_Body r) of
             None \<Rightarrow> Inr (api_error ''invalid request body'' 400, s)
           | Some (service, img) \<Rightarrow>
               if service = [] then Inr (api_error ''service is required'' 400, s)
               else
                 let hostname = parts ! 0; cmd = agent_command nano service img in
                 (case Dispatch hostname cmd s of
                    Inl p \<Rightarrow> Inl p
                  | Inr (Some e, s) \<Rightarrow> Inr (api_error e 404, s)
                  | Inr (None, s) \<Rightarrow> Inr (ok_reply (DispatchedAs (cm_ID cmd)), s))))"

section \<open>Services\<close>

definition handleGetServices :: "string list \<Rightarrow> 'd world \<Rightarrow> reply" where
  "handleGetServices order w = ok_reply (Services (All_services order (w_config w)))"

definition create_defaults :: "create_request \<Rightarrow> create_request" where
  "create_defaults q =
     (let q = (if cq_TriggerMode q = [] then q\<lparr>cq_TriggerMode := ''poll''\<rparr> else q)
      in if cq_PollerInterval q = 0 then q\<lparr>cq_PollerInterval := 300\<rparr> else q)"

definition handleCreateService :: "api \<Rightarrow> string \<Rightarrow> api_request \<Rightarrow> 'd world \<Rightarrow> reply \<times> 'd world" where
  "handleCreateService x now r w =
     (case ax_create x (aq_Body r) of
        None \<Rightarrow> (api_error ''invalid JSON'' 400, w)
      | Some q \<Rightarrow>
          if cq_Name q = [] \<or> cq_Image q = [] then (api_error ''name and image are required'' 400, w)
          else
            let q = create_defaults q in
            if cq_PollerInterval q < 30 then (api_error ''poller_interval must be >= 30'' 400, w)
            else if cq_TriggerMode q \<noteq> ''poll'' \<and> cq_TriggerMode q \<noteq> ''webhook''
            then (api_error ''trigger_mode must be poll or webhook'' 400, w)
            else
              (case CreateConfig (ax_time x) now (cq_Name q) (cq_Image q) (cq_ComposeFile q)
                      (cq_TriggerMode q) (cq_PollerInterval q) (w_config w) of
                 (Some e, m) \<Rightarrow> (api_error ''internal error'' 500, w\<lparr>w_config := m\<rparr>)
               | (None, m) \<Rightarrow> (\<lparr>rp_Status = 201, rp_Body = Nothing\<rparr>, w\<lparr>w_config := m\<rparr>)))"

definition handleGetService :: "api_request \<Rightarrow> 'd world \<Rightarrow> reply" where
  "handleGetService r w =
     (let name = map_get (aq_PathValue r) ''name'' in
      if name = [] then api_error ''name required'' 400
      else case Get_service name (w_config w) of
             None \<Rightarrow> api_error ''not found'' 404
           | Some svc \<Rightarrow> ok_reply (Service svc))"

definition handlePatchServiceConfig :: "api \<Rightarrow> string \<Rightarrow> api_request \<Rightarrow> 'd world \<Rightarrow> reply \<times> 'd world" where
  "handlePatchServiceConfig x now r w =
     (let name = map_get (aq_PathValue r) ''name'' in
      if name = [] then (api_error ''name required'' 400, w)
      else
        (case Get_service name (w_config w) of
           None \<Rightarrow> (api_error ''not found'' 404, w)
         | Some svc \<Rightarrow>
             (case ax_patch x (aq_Body r) of
                None \<Rightarrow> (api_error ''invalid JSON'' 400, w)
              | Some (mode, interval) \<Rightarrow>
                  let mode = (if mode = [] then sv_TriggerMode svc else mode);
                      interval = (if interval = 0 then ax_seconds x (sv_PollerInterval svc) else interval)
                  in
                  if interval < 30 then (api_error ''poller_interval must be >= 30'' 400, w)
                  else if mode \<noteq> ''poll'' \<and> mode \<noteq> ''webhook''
                  then (api_error ''trigger_mode must be poll or webhook'' 400, w)
                  else
                    (case UpdateConfig (ax_time x) now name mode interval (w_config w) of
                       (Some e, m) \<Rightarrow> (api_error ''internal error'' 500, w\<lparr>w_config := m\<rparr>)
                     | (None, m) \<Rightarrow> (\<lparr>rp_Status = 204, rp_Body = Nothing\<rparr>, w\<lparr>w_config := m\<rparr>)))))"

section \<open>The handlers keep the state well formed\<close>

datatype api_call =
    CallUpdate "string \<Rightarrow> error + string" time api_request
  | CallRollback time api_request
  | CallHistory api_request
  | CallCreate string api_request
  | CallPatch string api_request

text \<open>The handlers that change what the components share; the others only read it.\<close>

definition api_step :: "api \<Rightarrow> 'd world \<Rightarrow> api_call \<Rightarrow> panic + 'd world" where
  "api_step x w e =
     (case e of
        CallUpdate head now r \<Rightarrow> map_sum id snd (handleUpdate head now r w)
      | CallRollback now r \<Rightarrow> map_sum id snd (handleRollback now r w)
      | CallHistory r \<Rightarrow> Inr (snd (handleHistory x r w))
      | CallCreate now r \<Rightarrow> Inr (snd (handleCreateService x now r w))
      | CallPatch now r \<Rightarrow> Inr (snd (handlePatchServiceConfig x now r w)))"

lemma handleUpdate_eq:
  assumes "world_inv w"
  shows "handleUpdate head now r w = Inr
    (if aq_Method r \<noteq> ''POST'' then (api_error ''method not allowed'' 405, w)
     else
       case state_of (w_store w) (TrimPrefix (aq_Path r) ''/api/update/'') of
         None \<Rightarrow> (api_error ''container not found'' 404, w)
       | Some cs \<Rightarrow>
           (case head (cs_Image cs) of
              Inl e \<Rightarrow> (api_error (''registry check failed: '' @ e) 502, w)
            | Inr latest \<Rightarrow>
                if latest = CurrentDigest cs then (ok_reply (Said ''up to date'' (cs_Name cs)), w)
                else (ok_reply (Said ''update triggered'' (cs_Name cs)),
                  w\<lparr>w_bus := deliver TopicImageUpdated (ImageUpdatedPayload (manual_update now latest cs)) (w_bus w)\<rparr>)))"
  using publish_w_eq [OF assms]
  by (auto simp: handleUpdate_def Let_def Get_def state_of_def split: option.split sum.split)

lemma handleRollback_eq:
  assumes "world_inv w"
  shows "handleRollback now r w = Inr
    (if aq_Method r \<noteq> ''POST'' then (api_error ''method not allowed'' 405, w)
     else
       case state_of (w_store w) (TrimPrefix (aq_Path r) ''/api/rollback/'') of
         None \<Rightarrow> (api_error ''container not found'' 404, w)
       | Some cs \<Rightarrow>
           if PreviousDigest cs = [] then (api_error ''no previous digest available for rollback'' 409, w)
           else (ok_reply (Said ''rollback triggered'' (cs_Name cs)),
             w\<lparr>w_bus := deliver TopicContainerUnhealthy (ContainerUnhealthyPayload (manual_rollback now cs)) (w_bus w)\<rparr>))"
  using publish_w_eq [OF assms]
  by (auto simp: handleRollback_def Let_def Get_def state_of_def split: option.split)

lemma Count_inv: "hist_inv h \<Longrightarrow> Count sv h = (res, h') \<Longrightarrow> hist_inv h'"
  by (auto simp: Count_def Let_def split: option.splits prod.splits dest!: statementD)

lemma List_history_inv: "hist_inv h \<Longrightarrow> List_history io sv l off h = (res, h') \<Longrightarrow> hist_inv h'"
  by (auto simp: List_history_def Let_def split: option.splits prod.splits if_splits dest!: statementD)

lemma handleHistory_inv: "world_inv w \<Longrightarrow> world_inv (snd (handleHistory x r w))"
  by (auto simp: handleHistory_def Let_def intro!: world_inv_upd split: prod.splits sum.splits
      dest: world_invD(4) Count_inv List_history_inv)

lemma CreateConfigD:
  "CreateConfig io now n im cf tm i m = (e, m') \<Longrightarrow> manager_inv m \<Longrightarrow> manager_inv m'"
  using CreateConfig_inv [of m io now n im cf tm i] by simp

lemma UpdateConfigD: "UpdateConfig io now n tm i m = (e, m') \<Longrightarrow> manager_inv m \<Longrightarrow> manager_inv m'"
  using UpdateConfig_inv [of m io now n tm i] by simp

lemma handleCreateService_inv: "world_inv w \<Longrightarrow> world_inv (snd (handleCreateService x now r w))"
  unfolding handleCreateService_def Let_def
  by (auto intro!: world_inv_upd(4) elim!: CreateConfigD dest: world_invD(5) split: prod.splits option.splits)

lemma handlePatchServiceConfig_inv: "world_inv w \<Longrightarrow> world_inv (snd (handlePatchServiceConfig x now r w))"
  unfolding handlePatchServiceConfig_def Let_def
  by (auto intro!: world_inv_upd(4) elim!: UpdateConfigD dest: world_invD(5) split: prod.splits option.splits)

lemma api_step_safe: "world_inv w \<Longrightarrow> \<exists>w'. api_step x w e = Inr w' \<and> world_inv w'"
  by (cases e)
    (auto simp: api_step_def handleUpdate_eq handleRollback_eq handleHistory_inv handleCreateService_inv
      handlePatchServiceConfig_inv deliver_world_inv split: option.split sum.split)

interpretation requests: safe_machine "api_step x" world_inv for x
  by unfold_locales (rule api_step_safe)

section \<open>Services through the API\<close>

lemma create_defaults_sel [simp]:
  "cq_Name (create_defaults q) = cq_Name q" "cq_Image (create_defaults q) = cq_Image q"
  "cq_ComposeFile (create_defaults q) = cq_ComposeFile q"
  by (simp_all add: create_defaults_def Let_def)

definition create_accepted :: "create_request \<Rightarrow> manager \<Rightarrow> bool" where
  "create_accepted q m \<longleftrightarrow> cq_Name q \<noteq> [] \<and> cq_Image q \<noteq> [] \<and>
     row_checks (cq_TriggerMode (create_defaults q)) (cq_PollerInterval (create_defaults q)) \<and>
     (\<forall>r \<in> set (mg_rows m). sr_name r \<noteq> cq_Name q)"

definition new_service :: "create_request \<Rightarrow> svc_config" where
  "new_service q =
     \<lparr>sv_Name = cq_Name q, sv_Image = cq_Image q, sv_ComposeFile = cq_ComposeFile q,
      sv_TriggerMode = cq_TriggerMode (create_defaults q),
      sv_PollerInterval = wrap64 (cq_PollerInterval (create_defaults q) * second_ns),
      sv_LastDigest = [], sv_LastCheckedAt = None\<rparr>"

lemma Reload_ok: "mg_faults m = [] \<Longrightarrow> Reload io m = (None, m\<lparr>mg_services := load_rows io (mg_rows m) fmempty\<rparr>)"
  by (cases m) (simp add: Reload_def db_fault_def)

lemma load_rows_append: "load_rows io (rs @ ss) s = load_rows io ss (load_rows io rs s)"
  by (induction rs arbitrary: s) auto

lemma CreateConfig_ok:
  assumes "mg_faults m = []"
  shows "fst (CreateConfig io now n im cf tm i m) = None \<longleftrightarrow>
      (\<forall>r \<in> set (mg_rows m). sr_name r \<noteq> n) \<and> row_checks tm i"
    and "fst (CreateConfig io now n im cf tm i m) \<noteq> None \<Longrightarrow> snd (CreateConfig io now n im cf tm i m) = m"
    and "fst (CreateConfig io now n im cf tm i m) = None \<Longrightarrow>
      Get_service n (snd (CreateConfig io now n im cf tm i m)) =
        Some \<lparr>sv_Name = n, sv_Image = im, sv_ComposeFile = cf, sv_TriggerMode = tm,
          sv_PollerInterval = wrap64 (i * second_ns), sv_LastDigest = [], sv_LastCheckedAt = None\<rparr>"
  using assms
  by (auto simp: CreateConfig_def db_fault_def Reload_ok list_ex_iff Get_service_def load_rows_append row_config_def
      split: if_splits)

text \<open>C29: With a working database, a creation request is answered with status 201 exactly if it names a
  service and an image, its mode and interval (300 s and \<open>poll\<close> when left out) are ones the table admits
  and the name is new; the service can then be read back with what was sent, and no other answer
  changes anything.  In particular the handler's checks and the table's agree.\<close>

theorem create_service_outcome:
  assumes "mg_faults (w_config w) = []" and "ax_create x (aq_Body r) = Some q"
    and "map_get (aq_PathValue g) ''name'' = cq_Name q"
  shows "(if create_accepted q (w_config w)
    then rp_Status (fst (handleCreateService x now r w)) = 201 \<and>
      handleGetService g (snd (handleCreateService x now r w)) = ok_reply (Service (new_service q))
    else rp_Status (fst (handleCreateService x now r w)) \<in> {400, 500} \<and> snd (handleCreateService x now r w) = w)"
proof (cases "cq_Name q = [] \<or> cq_Image q = []")
  case True
  then show ?thesis using assms(2) by (auto simp: handleCreateService_def create_accepted_def api_error_def)
next
  case False
  let ?q = "create_defaults q"
  let ?c = "CreateConfig (ax_time x) now (cq_Name q) (cq_Image q) (cq_ComposeFile q) (cq_TriggerMode ?q)
    (cq_PollerInterval ?q) (w_config w)"
  note c = CreateConfig_ok [OF assms(1), of "ax_time x" now "cq_Name q" "cq_Image q" "cq_ComposeFile q"
      "cq_TriggerMode ?q" "cq_PollerInterval ?q"]
  show ?thesis
  proof (cases "row_checks (cq_TriggerMode ?q) (cq_PollerInterval ?q)")
    case True
    have h: "handleCreateService x now r w =
        (if fst ?c = None then \<lparr>rp_Status = 201, rp_Body = Nothing\<rparr> else api_error ''internal error'' 500,
         w\<lparr>w_config := snd ?c\<rparr>)"
      using False True assms(2)
      by (auto simp: handleCreateService_def Let_def row_checks_def split: prod.split option.split)
    show ?thesis
    proof (cases "fst ?c = None")
      case True
      then show ?thesis using c(1,3) False h assms(3)
        by (simp add: create_accepted_def handleGetService_def new_service_def Let_def)
    next
      case ex: False
      then show ?thesis using c(1,2) False True h by (auto simp: create_accepted_def api_error_def)
    qed
  next
    case no: False
    then show ?thesis using False assms(2)
      by (auto simp: handleCreateService_def create_accepted_def row_checks_def api_error_def Let_def)
  qed
qed

text \<open>A creation request that leaves the mode out and gives its interval in nanoseconds, as the API reports it.\<close>

definition demo_create :: create_request where
  "demo_create = \<lparr>cq_Name = ''web'', cq_Image = ''web:1'', cq_ComposeFile = [], cq_TriggerMode = [],
     cq_PollerInterval = 60000000000\<rparr>"

definition demo_api :: api where
  "demo_api = \<lparr>ax_jobRegistry = True, ax_history = True, ax_startedAt = 0, ax_time = demo_io,
     ax_seconds = (\<lambda>d. d div second_ns), ax_dispatch = (\<lambda>_. None), ax_create = (\<lambda>_. Some demo_create), ax_patch = (\<lambda>_. Some (''webhook'', 0))\<rparr>"

definition demo_request :: "string \<Rightarrow> string \<Rightarrow> api_request" where
  "demo_request m path = \<lparr>aq_Method = m, aq_Path = path, aq_Query = fmempty,
     aq_PathValue = fmap_of_list [(''name'', ''web'')], aq_Body = []\<rparr>"

lemma demo_world_manager: "w_config demo_world = demo_manager" "mg_faults demo_manager = []"
  by (simp_all add: demo_world_def demo_manager_def)

theorem create_service_outcome_witness:
  "\<exists>w'. handleCreateService demo_api ''t0'' (demo_request ''POST'' ''/api/services'') demo_world =
      (\<lparr>rp_Status = 201, rp_Body = Nothing\<rparr>, w') \<and>
    handleGetService (demo_request ''GET'' ''/api/services/web'') w' =
      ok_reply (Service \<lparr>sv_Name = ''web'', sv_Image = ''web:1'', sv_ComposeFile = [], sv_TriggerMode = ''poll'',
        sv_PollerInterval = 4659767778871345152, sv_LastDigest = [], sv_LastCheckedAt = None\<rparr>)"
proof -
  let ?r = "demo_request ''POST'' ''/api/services''" and ?g = "demo_request ''GET'' ''/api/services/web''"
  have a: "create_accepted demo_create (w_config demo_world)"
    by (simp add: create_accepted_def demo_create_def create_defaults_def row_checks_def demo_world_def demo_manager_def)
  have n: "new_service demo_create = \<lparr>sv_Name = ''web'', sv_Image = ''web:1'', sv_ComposeFile = [],
      sv_TriggerMode = ''poll'', sv_PollerInterval = 4659767778871345152, sv_LastDigest = [], sv_LastCheckedAt = None\<rparr>"
    by (simp add: new_service_def demo_create_def create_defaults_def wrap64_def second_ns_def)
  have "ax_create demo_api (aq_Body ?r) = Some demo_create" "map_get (aq_PathValue ?g) ''name'' = cq_Name demo_create"
    by (simp_all add: demo_api_def demo_request_def demo_create_def map_get_def fmlookup_of_list)
  with create_service_outcome [of demo_world demo_api ?r demo_create ?g "''t0''"] a demo_world_manager
  have o: "rp_Status (fst (handleCreateService demo_api ''t0'' ?r demo_world)) = 201"
    "handleGetService ?g (snd (handleCreateService demo_api ''t0'' ?r demo_world)) = ok_reply (Service (new_service demo_create))"
    by simp_all
  from o(1) have "fst (handleCreateService demo_api ''t0'' ?r demo_world) = \<lparr>rp_Status = 201, rp_Body = Nothing\<rparr>"
    by (auto simp: handleCreateService_def api_error_def Let_def split: option.splits prod.splits if_splits)
  with o(2) show ?thesis unfolding n by (metis prod.collapse)
qed

section \<open>Manual triggers and the history\<close>

text \<open>A manual update check asks the registry about the container's image and announces an update exactly
  if the digest differs from the one recorded for the container: an unknown container is 404, a
  failing registry 502, and only the announcement changes anything.  A container that was never
  updated has no recorded digest, so for it every check that succeeds announces an update.\<close>

theorem manual_update_outcome:
  assumes "world_inv w" and "state_of (w_store w) i = Some cs"
    and "aq_Method r = ''POST''" and "aq_Path r = ''/api/update/'' @ i"
  shows "handleUpdate head now r w = Inr
    (case head (cs_Image cs) of
       Inl e \<Rightarrow> (api_error (''registry check failed: '' @ e) 502, w)
     | Inr latest \<Rightarrow>
         if latest = CurrentDigest cs then (ok_reply (Said ''up to date'' (cs_Name cs)), w)
         else (ok_reply (Said ''update triggered'' (cs_Name cs)),
           w\<lparr>w_bus := deliver TopicImageUpdated (ImageUpdatedPayload (manual_update now latest cs)) (w_bus w)\<rparr>)) \<and>
    (cs_digestHistory cs = [] \<longrightarrow> (\<forall>latest. head (cs_Image cs) = Inr latest \<and> latest \<noteq> [] \<longrightarrow>
       rp_Body (fst (projr (handleUpdate head now r w))) = Said ''update triggered'' (cs_Name cs)))"
proof -
  have "TrimPrefix (aq_Path r) ''/api/update/'' = i" by (simp add: assms(4) TrimPrefix_def)
  with assms(2,3) have e: "handleUpdate head now r w = Inr
    (case head (cs_Image cs) of
       Inl e \<Rightarrow> (api_error (''registry check failed: '' @ e) 502, w)
     | Inr latest \<Rightarrow>
         if latest = CurrentDigest cs then (ok_reply (Said ''up to date'' (cs_Name cs)), w)
         else (ok_reply (Said ''update triggered'' (cs_Name cs)),
           w\<lparr>w_bus := deliver TopicImageUpdated (ImageUpdatedPayload (manual_update now latest cs)) (w_bus w)\<rparr>))"
    by (simp add: handleUpdate_eq [OF assms(1)])
  moreover have "CurrentDigest cs = []" if "cs_digestHistory cs = []"
    using that by (simp add: CurrentDigest_def)
  ultimately show ?thesis by (simp add: ok_reply_def)
qed

theorem manual_update_outcome_witness:
  "handleUpdate (\<lambda>_. Inr ''sha256:old'') 5 (demo_request ''POST'' ''/api/update/c1'') demo_world =
     Inr (ok_reply (Said ''up to date'' ''web''), demo_world)"
proof -
  obtain cs where cs: "state_of demo_store ''c1'' = Some cs" "CurrentDigest cs = ''sha256:old''" "cs_Name cs = ''web''"
    using demo_state by (simp add: CurrentDigest_PushDigest)
  have "state_of (w_store demo_world) ''c1'' = Some cs" using cs(1) by (simp add: demo_world_def)
  from manual_update_outcome [OF demo_world_inv this, of "demo_request ''POST'' ''/api/update/c1''" "\<lambda>_. Inr ''sha256:old''" 5]
  show ?thesis using cs(2,3) by (simp add: demo_request_def)
qed

text \<open>With a working database a history request is answered with the page \<open>List\<close> gives and with the
  number of all matching entries; parameters that are missing, not numbers or negative count as their
  defaults.  A limit of 0 is echoed as 0, although 50 entries are given.\<close>

theorem history_request_page:
  assumes "hist_inv (w_hist w)" and "hs_faults (w_hist w) = []" and "ax_history x" and "aq_Method r = ''GET''"
  defines "sv \<equiv> map_get (aq_Query r) ''service''"
    and "limit \<equiv> parseIntParam (map_get (aq_Query r) ''limit'') 50"
    and "offset \<equiv> parseIntParam (map_get (aq_Query r) ''offset'') 0"
  shows "\<exists>entries. handleHistory x r w = (ok_reply (Page (length (matching sv (hs_rows (w_hist w)))) limit offset entries), w) \<and>
    entries = scanRows (ax_time x) (take (if limit = 0 then 50 else nat limit) (drop (nat offset)
      (rev (matching sv (hs_rows (w_hist w)))))) \<and> 0 \<le> limit \<and> 0 \<le> offset"
proof -
  have p: "0 \<le> parseIntParam s (d :: int)" if "0 \<le> d" for s d
    using that by (auto simp: parseIntParam_def split: option.split)
  have l: "0 \<le> limit" "0 \<le> offset" by (simp_all add: limit_def offset_def p)
  then have "nat (if limit \<le> 0 then 50 else limit) = (if limit = 0 then 50 else nat limit)" by simp
  with l show ?thesis using assms(3,4)
    by (simp add: handleHistory_def Count_ok [OF assms(1,2)] List_ok [OF assms(1,2)] Let_def flip: sv_def limit_def offset_def)
qed

definition demo_history_request :: api_request where
  "demo_history_request = (demo_request ''GET'' ''/api/history'')\<lparr>aq_Query := fmap_of_list [(''limit'', ''0''), (''offset'', ''-3'')]\<rparr>"

theorem history_request_page_witness:
  "\<exists>entries. handleHistory demo_api demo_history_request demo_world =
     (ok_reply (Page (length (hs_rows demo_hist)) 0 0 entries), demo_world)"
proof -
  have h: "w_hist demo_world = demo_hist" "hs_faults demo_hist = []" by (simp_all add: demo_world_def demo_hist_def)
  have i: "hist_inv (w_hist demo_world)" by (simp add: h demo_hist_inv)
  have m: "aq_Method demo_history_request = ''GET''" "ax_history demo_api"
    by (simp_all add: demo_history_request_def demo_request_def demo_api_def)
  have p: "map_get (aq_Query demo_history_request) ''service'' = []"
    "parseIntParam (map_get (aq_Query demo_history_request) ''limit'') 50 = 0"
    "parseIntParam (map_get (aq_Query demo_history_request) ''offset'') 0 = 0"
    by (simp_all add: demo_history_request_def demo_request_def map_get_def fmlookup_of_list parseIntParam_def Atoi_def
        atoi_digits_def decimal_def is_digit_def digit_val_def in_int64_def)
  have "matching [] (hs_rows demo_hist) = hs_rows demo_hist" by (simp add: matching_def)
  with history_request_page [OF i _ m(2,1)] show ?thesis unfolding h(1) p using h(2) by auto
qed

section \<open>Changing a service\<close>

text \<open>The row \<open>UpdateConfig\<close> leaves of a row.\<close>

definition patched_row :: "string \<Rightarrow> string \<Rightarrow> string \<Rightarrow> int \<Rightarrow> svc_row \<Rightarrow> svc_row" where
  "patched_row now name mode n r =
     (if sr_name r = name then r\<lparr>sr_trigger_mode := mode, sr_poller_interval := n, sr_updated_at := now\<rparr> else r)"

lemma patched_row_name [simp]: "sr_name (patched_row now name mode n r) = sr_name r"
  by (simp add: patched_row_def)

lemma find_map_name:
  "(\<And>r. sr_name (f r) = sr_name r) \<Longrightarrow>
   find (\<lambda>r. sr_name r = k) (map f rs) = map_option f (find (\<lambda>r. sr_name r = k) rs)"
  by (induction rs) auto

lemma Get_service_fresh:
  "manager_inv m \<Longrightarrow> cache_fresh io m \<Longrightarrow>
   Get_service k m = map_option (row_config io) (find (\<lambda>r. sr_name r = k) (mg_rows m))"
  by (simp add: Get_service_def cache_fresh_def manager_inv_def load_rows_lookup split: option.splits)

lemma UpdateConfig_ok:
  assumes "manager_inv m" "cache_fresh io m" "mg_faults m = []" "Get_service name m = Some svc" "row_checks mode n"
  shows "\<exists>m'. UpdateConfig io now name mode n m = (None, m') \<and>
    (\<forall>k. Get_service k m' =
       (if k = name then Some (svc\<lparr>sv_TriggerMode := mode, sv_PollerInterval := wrap64 (n * second_ns)\<rparr>)
        else Get_service k m))"
proof -
  let ?f = "patched_row now name mode n"
  have u: "UpdateConfig io now name mode n m = Reload io (m\<lparr>mg_rows := map ?f (mg_rows m)\<rparr>)"
    using assms(3,5) by (simp add: UpdateConfig_def db_fault_def patched_row_def fun_eq_iff cong: map_cong)
  obtain m' where m': "UpdateConfig io now name mode n m = (None, m')" "mg_rows m' = map ?f (mg_rows m)"
    unfolding u using assms(3) by (simp add: Reload_ok)
  have inv: "manager_inv m'" using UpdateConfigD [OF m'(1) assms(1)] .
  have fresh: "cache_fresh io m'" using Reload_fresh m'(1) unfolding u .
  have "Get_service k m' =
      (if k = name then Some (svc\<lparr>sv_TriggerMode := mode, sv_PollerInterval := wrap64 (n * second_ns)\<rparr>)
       else Get_service k m)" for k
  proof (cases "find (\<lambda>r. sr_name r = k) (mg_rows m)")
    case None
    then have "Get_service k m' = None" "Get_service k m = None"
      using Get_service_fresh [OF inv fresh, of k] Get_service_fresh [OF assms(1,2), of k] find_map_name [of ?f]
      by (simp_all add: m'(2))
    with assms(4) show ?thesis by auto
  next
    case (Some r)
    then have "Get_service k m' = Some (row_config io (?f r))" "Get_service k m = Some (row_config io r)"
      using Get_service_fresh [OF inv fresh, of k] Get_service_fresh [OF assms(1,2), of k] find_map_name [of ?f]
      by (simp_all add: m'(2))
    moreover have "sr_name r = k" using Some by (auto simp: find_Some_iff)
    ultimately show ?thesis using assms(4) by (auto simp: patched_row_def row_config_def)
  qed
  with m'(1) show ?thesis by blast
qed

text \<open>With a working database a patch changes the mode and the interval of the service it names and
  of no other; a field that is left out keeps its value, an inadmissible one is refused and nothing changes.
  The interval is taken in seconds and kept as a 64-bit number of nanoseconds.\<close>

theorem patch_service_outcome:
  fixes w :: "'d world"
  assumes "manager_inv (w_config w)" and "cache_fresh (ax_time x) (w_config w)" and "mg_faults (w_config w) = []"
    and "map_get (aq_PathValue r) ''name'' = name" and "name \<noteq> []" and "Get_service name (w_config w) = Some svc"
    and "ax_patch x (aq_Body r) = Some (mode, n)"
    and "sv_PollerInterval svc = k * second_ns" and "ax_seconds x (k * second_ns) = k"
  defines "mode' \<equiv> (if mode = [] then sv_TriggerMode svc else mode)" and "n' \<equiv> (if n = 0 then k else n)"
  shows "(if row_checks mode' n'
    then \<exists>w'. handlePatchServiceConfig x now r w = (\<lparr>rp_Status = 204, rp_Body = Nothing\<rparr>, w') \<and>
      (\<forall>i. Get_service i (w_config w') =
        (if i = name then Some (svc\<lparr>sv_TriggerMode := mode', sv_PollerInterval := wrap64 (n' * second_ns)\<rparr>)
         else Get_service i (w_config w)))
    else rp_Status (fst (handlePatchServiceConfig x now r w)) = 400 \<and> snd (handlePatchServiceConfig x now r w) = w)"
proof (cases "row_checks mode' n'")
  case True
  obtain m' where m': "UpdateConfig (ax_time x) now name mode' n' (w_config w) = (None, m')"
    "\<forall>i. Get_service i m' =
       (if i = name then Some (svc\<lparr>sv_TriggerMode := mode', sv_PollerInterval := wrap64 (n' * second_ns)\<rparr>)
        else Get_service i (w_config w))"
    using UpdateConfig_ok [OF assms(1-3,6) True] by blast
  have "handlePatchServiceConfig x now r w = (\<lparr>rp_Status = 204, rp_Body = Nothing\<rparr>, w\<lparr>w_config := m'\<rparr>)"
    using True m'(1) assms(4-9)
    by (auto simp: handlePatchServiceConfig_def mode'_def n'_def row_checks_def Let_def)
  with True m'(2) show ?thesis by simp
next
  case False
  with assms(4-9) show ?thesis
    by (auto simp: handlePatchServiceConfig_def mode'_def n'_def row_checks_def api_error_def Let_def)
qed

definition demo_services :: manager where
  "demo_services = snd (CreateConfig demo_io ''t0'' ''web'' ''web:1'' [] ''poll'' 60 demo_manager)"

theorem patch_service_outcome_witness:
  "\<exists>w'. handlePatchServiceConfig demo_api ''t1'' (demo_request ''PATCH'' ''/api/services/web/config'')
      (demo_world\<lparr>w_config := demo_services\<rparr>) = (\<lparr>rp_Status = 204, rp_Body = Nothing\<rparr>, w') \<and>
    map_option sv_TriggerMode (Get_service ''web'' (w_config w')) = Some ''webhook'' \<and>
    map_option sv_PollerInterval (Get_service ''web'' (w_config w')) = Some (60 * second_ns)"
proof -
  let ?w = "demo_world\<lparr>w_config := demo_services\<rparr>" and ?r = "demo_request ''PATCH'' ''/api/services/web/config''"
  have c: "CreateConfig demo_io ''t0'' ''web'' ''web:1'' [] ''poll'' 60 demo_manager = (None, demo_services)"
    by (simp add: demo_services_def CreateConfig_def demo_manager_def db_fault_def row_checks_def Reload_def)
  have i: "manager_inv (w_config ?w)" using CreateConfigD [OF c demo_manager_inv] by simp
  have f: "cache_fresh (ax_time demo_api) (w_config ?w)"
    using config_apply_fresh [of demo_io demo_manager demo_service demo_services] c
    by (simp add: demo_service_def demo_api_def)
  have e: "mg_faults (w_config ?w) = []"
    by (simp add: demo_services_def CreateConfig_def demo_manager_def db_fault_def row_checks_def Reload_def)
  obtain svc where g: "Get_service ''web'' (w_config ?w) = Some svc" "sv_PollerInterval svc = 60 * second_ns"
      "sv_TriggerMode svc = ''poll''"
    using CreateConfig_ok(3) [of demo_manager demo_io "''t0''" "''web''" "''web:1''" "[]" "''poll''" 60] c demo_world_manager(2)
    by (simp add: wrap64_def second_ns_def)
  have p: "map_get (aq_PathValue ?r) ''name'' = ''web''" "ax_patch demo_api (aq_Body ?r) = Some (''webhook'', 0)"
    "ax_seconds demo_api (60 * second_ns) = 60"
    by (simp_all add: demo_request_def map_get_def fmlookup_of_list demo_api_def second_ns_def)
  from patch_service_outcome [OF i f e p(1) _ g(1) p(2) g(2) p(3), of "''t1''"] show ?thesis
    by (auto simp: row_checks_def wrap64_def second_ns_def)
qed

section \<open>Commands for agents\<close>

text \<open>An update request for a host reaches the agent connected under that name, and no other: it is queued
  with its service and image and answered with its id, if the agent is connected and fewer than 32
  commands wait for it.  Otherwise the answer is 404 and nothing is queued; a connected agent whose
  queue is full is reported as not connected.\<close>

theorem agent_request_outcome:
  assumes "hub_inv s" and "aq_Method r = ''POST''" and "aq_Path r = ''/api/agents/'' @ h @ ''/update''"
    and "CHR ''/'' \<notin> set h" and "ax_dispatch x (aq_Body r) = Some (service, img)" and "service \<noteq> []"
  shows "handleAgentDispatch x nano r s = Inr
    (case agent_at s h of
       Some a \<Rightarrow>
         if length (ch_buf (ac_send (ah_heap s a))) < 32
         then (ok_reply (DispatchedAs (''cmd-'' @ nano)),
           s\<lparr>ah_heap := (ah_heap s)(a := (ah_heap s a)
             \<lparr>ac_send := offer (agent_command nano service img) (ac_send (ah_heap s a))\<rparr>)\<rparr>)
         else (api_error (''agent not connected: '' @ h) 404, s)
     | None \<Rightarrow> (api_error (''agent not connected: '' @ h) 404, s))"
proof -
  have "TrimPrefix (aq_Path r) ''/api/agents/'' = h @ CHR ''/'' # ''update''" by (simp add: assms(3) TrimPrefix_def)
  then have "SplitN (TrimPrefix (aq_Path r) ''/api/agents/'') CHR ''/'' 2 = [h, ''update'']"
    using assms(4) by (simp add: numeral_2_eq_2 takeWhile_append)
  then show ?thesis using assms(2,5,6)
    by (auto simp: handleAgentDispatch_def Dispatch_cases [OF assms(1)] agent_not_found_def agent_command_def Let_def
        split: option.split)
qed

theorem agent_request_outcome_witness:
  "\<exists>s'. handleAgentDispatch (demo_api\<lparr>ax_dispatch := \<lambda>_. Some (''web'', ''web:2'')\<rparr>) ''77''
      (demo_request ''POST'' ''/api/agents/host/update'') demo_hub = Inr (ok_reply (DispatchedAs ''cmd-77''), s') \<and>
    ch_buf (ac_send (ah_heap s' 0)) = [agent_command ''77'' ''web'' ''web:2'']"
proof -
  let ?x = "demo_api\<lparr>ax_dispatch := \<lambda>_. Some (''web'', ''web:2'')\<rparr>" and ?r = "demo_request ''POST'' ''/api/agents/host/update''"
  have h: "aq_Method ?r = ''POST''" "aq_Path ?r = ''/api/agents/'' @ ''host'' @ ''/update''" "CHR ''/'' \<notin> set ''host''"
    "ax_dispatch ?x (aq_Body ?r) = Some (''web'', ''web:2'')" "''web'' \<noteq> []"
    by (simp_all add: demo_request_def)
  have "agent_at demo_hub ''host'' = Some 0" "ac_send (ah_heap demo_hub 0) = make_chan 32"
    by (simp_all add: demo_hub_def begin_session_def demo_register_def New_hub_def Let_def agents.lookup_insert)
  with agent_request_outcome [OF demo_hub_inv h, of "''77''"] show ?thesis by (simp add: offer_def)
qed

end
