(* ===== verification/Viewer.thy ===== *)
theory Viewer
  imports Api
begin

text \<open>
  The two streaming handlers of \<open>internal/api/api.go\<close>.  \<open>handleDeployLogs\<close> is a machine beside the job it
  shows: the lines it still has to replay, whether its connection is open, and what it has written.
  One \<open>Turn\<close> is one iteration of the replay loop or of the loop over the job's channel, with the
  outcome of its write; while the channel is open and empty the handler waits.  \<open>handleSSE\<close> joins the
  notifier's clients and passes on what it reads.
\<close>

section \<open>Deploy logs\<close>

datatype ws_message = LogMessage log_line | DoneMessage job_status

record viewer =
  vw_replay :: "log_line list"
  vw_open :: bool
  vw_sent :: "ws_message list"

text \<open>The checks before the upgrade, whose outcome is \<open>accept\<close>; the job's address and the handler's
  state when the loops begin.\<close>

definition open_viewer ::
  "api \<Rightarrow> error option \<Rightarrow> api_request \<Rightarrow> 'd world \<Rightarrow> reply option + addr \<times> viewer" where
  "open_viewer x accept r w =
     (let deployID = map_get (aq_PathValue r) ''deploy_id'' in
      if deployID = [] then Inl (Some (api_error ''deploy id required'' 400))
      else if \<not> ax_jobRegistry x then Inl (Some (api_error ''deploy tracking not available'' 503))
      else
        (case GetJob deployID (w_jobs w) of
           None \<Rightarrow> Inl (Some (api_error ''not found'' 404))
         | Some a \<Rightarrow>
             (case accept of
                Some e \<Rightarrow> Inl None
              | None \<Rightarrow>
                  Inr (a, \<lparr>vw_replay = Logs (jr_heap (w_jobs w) a), vw_open = True, vw_sent = []\<rparr>))))"

definition viewer_turn :: "error option \<Rightarrow> viewer \<Rightarrow> deploy_job \<Rightarrow> viewer \<times> deploy_job" where
  "viewer_turn res v j =
     (if \<not> vw_open v then (v, j)
      else
        (case vw_replay v of
           line # rest \<Rightarrow>
             (if res = None
              then v\<lparr>vw_replay := rest, vw_sent := vw_sent v @ [LogMessage line]\<rparr>
              else v\<lparr>vw_open := False\<rparr>, j)
         | [] \<Rightarrow>
             (case recv_log j of
                (Received line, j) \<Rightarrow>
                  (if res = None then v\<lparr>vw_sent := vw_sent v @ [LogMessage line]\<rparr>
                   else v\<lparr>vw_open := False\<rparr>, j)
              | (Closed, j) \<Rightarrow>
                  (if res = None
                   then v\<lparr>vw_open := False, vw_sent := vw_sent v @ [DoneMessage (sn_Status (Snap j))]\<rparr>
                   else v\<lparr>vw_open := False\<rparr>, j)
              | (Blocked, j) \<Rightarrow> (v, j))))"

datatype view_op = Turn "error option" | Job job_op

definition view_step :: "viewer \<times> deploy_job \<Rightarrow> view_op \<Rightarrow> panic + viewer \<times> deploy_job" where
  "view_step s e =
     (case s of (v, j) \<Rightarrow>
        (case e of
           Turn res \<Rightarrow> Inr (viewer_turn res v j)
         | Job e \<Rightarrow> (case job_step j e of Inl p \<Rightarrow> Inl p | Inr j \<Rightarrow> Inr (v, j))))"

definition view_inv :: "viewer \<times> deploy_job \<Rightarrow> bool" where
  "view_inv s \<longleftrightarrow> job_inv (snd s)"

lemma viewer_turn_job: "snd (viewer_turn res v j) = j \<or> snd (viewer_turn res v j) = snd (recv_log j)"
  by (auto simp: viewer_turn_def split: list.split prod.split received.split)

lemma view_step_safe: "view_inv s \<Longrightarrow> \<exists>s'. view_step s e = Inr s' \<and> view_inv s'"
proof (cases s)
  case (Pair v j)
  assume i: "view_inv s"
  show ?thesis
  proof (cases e)
    case (Turn res)
    with i Pair viewer_turn_job [of res v j] recv_log_inv [of j] show ?thesis
      by (auto simp: view_step_def view_inv_def)
  next
    case (Job e)
    have "job_inv j" using i Pair by (simp add: view_inv_def)
    then obtain j' where "job_step j e = Inr j'" "job_inv j'" using job_step_safe by blast
    with Job Pair show ?thesis by (simp add: view_step_def view_inv_def)
  qed
qed

section \<open>What a viewer has been sent\<close>

fun lines_of :: "ws_message list \<Rightarrow> log_line list" where
  "lines_of [] = []"
| "lines_of (LogMessage l # ms) = l # lines_of ms"
| "lines_of (DoneMessage st # ms) = lines_of ms"

lemma lines_of_append [simp]: "lines_of (ms @ ns) = lines_of ms @ lines_of ns"
  by (induction ms rule: lines_of.induct) auto

definition only_lines :: "ws_message list \<Rightarrow> bool" where
  "only_lines ms \<longleftrightarrow> (\<forall>m \<in> set ms. \<exists>l. m = LogMessage l)"

lemma only_lines_simps [simp]:
  "only_lines []" "only_lines (ms @ ns) = (only_lines ms \<and> only_lines ns)"
  "only_lines (LogMessage l # ms) = only_lines ms"
  by (auto simp: only_lines_def)

lemma only_lines_eq: "only_lines ms \<Longrightarrow> map LogMessage (lines_of ms) = ms"
  by (induction ms rule: lines_of.induct) (auto simp: only_lines_def)

lemma lines_of_map [simp]: "lines_of (map LogMessage ls) = ls"
  by (induction ls) auto

text \<open>Lines a step puts into the job's channel.\<close>

definition queued_lines :: "viewer \<times> deploy_job \<Rightarrow> view_op \<Rightarrow> log_line list" where
  "queued_lines s e =
     (case e of
        Job (Append source msg now) \<Rightarrow>
          (if \<not> terminal (dj_status (snd s)) \<and> length (ch_buf (dj_LogCh (snd s))) < 256
           then [next_line (snd s) source msg now] else [])
      | _ \<Rightarrow> [])"

text \<open>As long as nobody else reads the channel and no write fails, the handler has sent lines only, and the
  final status once it is closed.\<close>

definition view_live :: "viewer \<times> deploy_job \<Rightarrow> bool" where
  "view_live s \<longleftrightarrow>
     (if vw_open (fst s) then only_lines (vw_sent (fst s))
      else (\<exists>ms. vw_sent (fst s) = ms @ [DoneMessage (dj_status (snd s))] \<and> only_lines ms) \<and>
        terminal (dj_status (snd s)) \<and> vw_replay (fst s) = [] \<and> ch_buf (dj_LogCh (snd s)) = [])"

definition pending :: "viewer \<times> deploy_job \<Rightarrow> log_line list" where
  "pending s = lines_of (vw_sent (fst s)) @ vw_replay (fst s) @ ch_buf (dj_LogCh (snd s))"

definition undisturbed :: "view_op \<Rightarrow> bool" where
  "undisturbed e \<longleftrightarrow> e \<noteq> Job RecvLog \<and> (\<forall>x. e \<noteq> Turn (Some x))"

lemma recv_log_cases:
  "recv_log j =
     (case ch_buf (dj_LogCh j) of
        l # ls \<Rightarrow> (Received l, j\<lparr>dj_LogCh := (dj_LogCh j)\<lparr>ch_buf := ls\<rparr>\<rparr>)
      | [] \<Rightarrow> (if ch_closed (dj_LogCh j) then Closed else Blocked, j))"
  by (simp add: recv_log_def receive_def split: list.split)

lemma turn_keeps:
  assumes "job_inv j" "view_live (v, j)"
  shows "view_live (viewer_turn None v j) \<and> pending (viewer_turn None v j) = pending (v, j)"
proof (cases "vw_open v")
  case True
  with assms(2) have sent: "only_lines (vw_sent v)" by (simp add: view_live_def)
  have cl: "ch_closed (dj_LogCh j) \<longleftrightarrow> terminal (dj_status j)" using assms(1) by (simp add: job_inv_def)
  show ?thesis
  proof (cases "vw_replay v")
    case (Cons l ls)
    with True sent show ?thesis by (simp add: viewer_turn_def view_live_def pending_def)
  next
    case Nil
    with True sent cl show ?thesis
      by (cases "ch_buf (dj_LogCh j)") (auto simp: viewer_turn_def view_live_def pending_def recv_log_cases Snap_def)
  qed
qed (use assms in \<open>simp add: viewer_turn_def\<close>)

lemma job_keeps:
  assumes "job_inv j" "view_live (v, j)" "job_step j e = Inr j'" "e \<noteq> RecvLog"
  shows "view_live (v, j') \<and> pending (v, j) @ queued_lines (v, j) (Job e) = pending (v, j')"
proof (cases e)
  case (Append source msg now)
  have j': "j' = j\<lparr>dj_seq := Suc (dj_seq j),
           dj_logs := (if dj_seq j < maxLogLines then dj_logs j @ [next_line j source msg now] else dj_logs j),
           dj_LogCh := (if terminal (dj_status j) then dj_LogCh j else offer (next_line j source msg now) (dj_LogCh j))\<rparr>"
    using AppendLog_eq [OF assms(1), of source msg now] assms(3) Append by simp
  have cap: "ch_cap (dj_LogCh j) = 256" using assms(1) by (simp add: job_inv_def)
  show ?thesis
  proof (cases "terminal (dj_status j)")
    case True
    with assms(2) show ?thesis by (auto simp: j' view_live_def pending_def queued_lines_def Append)
  next
    case False
    with assms(2) cap show ?thesis
      by (auto simp: j' view_live_def pending_def queued_lines_def Append offer_def split: if_splits)
  qed
next
  case (MoveTo st now)
  then have "j' = (if terminal (dj_status j) then j else if terminal st
         then j\<lparr>dj_status := st, dj_ended := Some now, dj_chDone := True, dj_once := True,
                dj_LogCh := (dj_LogCh j)\<lparr>ch_closed := True\<rparr>\<rparr>
         else j\<lparr>dj_status := st\<rparr>)"
    using Transition_eq [OF assms(1), of st now] assms(3) by simp
  with assms(2) show ?thesis
    by (auto simp: view_live_def pending_def queued_lines_def MoveTo split: if_splits)
qed (use assms in simp)

interpretation view: fifo_machine view_step view_inv view_live undisturbed pending queued_lines "\<lambda>s e. []"
proof
  fix s s' e
  assume a: "view_inv s" "view_live s" "undisturbed e" "view_step s e = Inr s'"
  obtain v j where s: "s = (v, j)" by (cases s)
  show "view_live s' \<and> pending s @ queued_lines s e = [] @ pending s'"
  proof (cases e)
    case (Turn res)
    with a(3) have "res = None" by (cases res) (auto simp: undisturbed_def)
    with Turn a turn_keeps [of j v] s show ?thesis
      by (auto simp: view_step_def view_inv_def queued_lines_def)
  next
    case (Job e)
    with a(4) s obtain j' where "job_step j e = Inr j'" "s' = (v, j')"
      by (auto simp: view_step_def split: sum.splits)
    with job_keeps [of j v e j'] Job a s show ?thesis by (simp add: view_inv_def undisturbed_def)
  qed
qed (rule view_step_safe)

lemma open_viewer_cases:
  "open_viewer x accept r w = Inr (a, v) \<Longrightarrow>
     v = \<lparr>vw_replay = dj_logs (jr_heap (w_jobs w) a), vw_open = True, vw_sent = []\<rparr> \<and>
     GetJob (map_get (aq_PathValue r) ''deploy_id'') (w_jobs w) = Some a"
  by (auto simp: open_viewer_def Let_def Logs_def split: if_splits option.splits)

lemma view_step_Turn [simp]: "view_step (v, j) (Turn res) = Inr (viewer_turn res v j)"
  by (simp add: view_step_def)

lemma turns_status:
  "run_steps view_step (v, j) (replicate m (Turn None)) = Inr (v', j') \<Longrightarrow> dj_status j' = dj_status j"
proof (induction m arbitrary: v j)
  case (Suc m)
  obtain v1 j1 where t: "viewer_turn None v j = (v1, j1)" by (cases "viewer_turn None v j")
  then have "dj_status j1 = dj_status j" using viewer_turn_job [of None v j] by (auto simp: recv_log_sel)
  moreover have "dj_status j' = dj_status j1" using Suc.IH [of v1 j1] Suc.prems t by simp
  ultimately show ?case by simp
qed simp

lemma turn_closes:
  assumes "job_inv j" "terminal (dj_status j)" "vw_open v" "length (vw_replay v) + length (ch_buf (dj_LogCh j)) < n"
  shows "\<exists>v' j'. run_steps view_step (v, j) (replicate n (Turn None)) = Inr (v', j') \<and> \<not> vw_open v'"
  using assms
proof (induction n arbitrary: v j)
  case (Suc n)
  have cl: "ch_closed (dj_LogCh j)" using Suc.prems(1,2) by (simp add: job_inv_def)
  obtain v1 j1 where t: "viewer_turn None v j = (v1, j1)" by (cases "viewer_turn None v j")
  have stay: "run_steps view_step (u, i) (replicate m (Turn None)) = Inr (u, i)" if "\<not> vw_open u" for u i m
    using that by (induction m) (simp_all add: viewer_turn_def)
  show ?case
  proof (cases "vw_open v1")
    case True
    have "job_inv j1 \<and> terminal (dj_status j1) \<and> length (vw_replay v1) + length (ch_buf (dj_LogCh j1)) < n"
    proof (cases "vw_replay v")
      case (Cons l ls)
      then show ?thesis using t Suc.prems by (auto simp: viewer_turn_def)
    next
      case Nil
      then obtain l ls where b: "ch_buf (dj_LogCh j) = l # ls"
        using t True Suc.prems(3) cl by (cases "ch_buf (dj_LogCh j)") (auto simp: viewer_turn_def recv_log_cases)
      then have "j1 = snd (recv_log j)" "v1 = v\<lparr>vw_sent := vw_sent v @ [LogMessage l]\<rparr>"
        using t Nil Suc.prems(3) by (auto simp: viewer_turn_def recv_log_cases)
      then show ?thesis using Suc.prems recv_log_inv [of j] b Nil by (simp add: recv_log_cases)
    qed
    with Suc.IH [of j1 v1] True t show ?thesis by simp
  next
    case False
    with stay [OF False] t show ?thesis by simp
  qed
qed simp

section \<open>Properties\<close>

text \<open>C33: What a viewer of a deploy has been sent when the server ends the stream: the log as it was when
  the viewer connected, then everything that was waiting in the job's channel at that moment, which
  are lines of that log again, then the lines that found room in the channel since, and the final
  status; so a line logged before the viewer connected and not read by another one is sent twice.
  The stream of a job that never ends is never ended.\<close>

theorem deploy_log_stream:
  fixes w :: "'d world"
  assumes "open_viewer x None r w = Inr (a, v)" and "world_inv w"
    and "run_steps view_step (v, jr_heap (w_jobs w) a) ops = Inr (v', j')"
    and "\<forall>e \<in> set ops. undisturbed e" and "\<not> vw_open v'"
  defines "j \<equiv> jr_heap (w_jobs w) a"
  shows "vw_sent v' =
      map LogMessage (dj_logs j @ ch_buf (dj_LogCh j) @ observe queued_lines view_step (v, j) ops) @
      [DoneMessage (dj_status j')] \<and> terminal (dj_status j')"
proof -
  have v: "v = \<lparr>vw_replay = dj_logs j, vw_open = True, vw_sent = []\<rparr>"
    using open_viewer_cases [OF assms(1)] by (simp add: j_def)
  have i: "view_inv (v, j)" using registry_invD(1) [OF world_invD(3) [OF assms(2)]] by (simp add: view_inv_def j_def)
  have l: "view_live (v, j)" by (simp add: view_live_def v)
  have n: "observe (\<lambda>s e. []) view_step s es = ([] :: log_line list)" for s es
    by (induction es arbitrary: s) (auto split: sum.split)
  note f = view.fifo_run [OF i l assms(4) assms(3) [folded j_def]]
  then have p: "dj_logs j @ ch_buf (dj_LogCh j) @ observe queued_lines view_step (v, j) ops = pending (v', j')"
    by (simp add: n) (simp add: pending_def v)
  obtain ms where ms: "vw_sent v' = ms @ [DoneMessage (dj_status j')]" "only_lines ms"
    and e: "terminal (dj_status j')" "vw_replay v' = []" "ch_buf (dj_LogCh j') = []"
    using f assms(5) by (auto simp: view_live_def)
  have "pending (v', j') = lines_of ms" using ms e by (simp add: pending_def)
  then have "map LogMessage (pending (v', j')) = ms" using only_lines_eq [OF ms(2)] by simp
  with ms(1) e(1) p show ?thesis by simp
qed

text \<open>A job that logged one line before its viewer came and one afterwards.\<close>

definition demo_log_job :: deploy_job where
  "demo_log_job = (case run_steps job_step (NewJob (replicate 16 0) 1 ''web'' ''web:2'' ''poll'')
     [MoveTo StatusRunning 2, Append ''stdout'' ''pull'' 3] of Inr j \<Rightarrow> j)"

definition demo_log_request :: api_request where
  "demo_log_request = \<lparr>aq_Method = ''GET'', aq_Path = ''/api/deploys/d/logs'', aq_Query = fmempty,
     aq_PathValue = fmap_of_list [(''deploy_id'', dj_ID demo_log_job)], aq_Body = []\<rparr>"

definition demo_log_world :: "demo_daemon world" where
  "demo_log_world = demo_world\<lparr>w_jobs := registered demo_log_job NewRegistry\<rparr>"

lemma demo_log_job_eq:
  "demo_log_job = (NewJob (replicate 16 0) 1 ''web'' ''web:2'' ''poll'')\<lparr>dj_status := StatusRunning, dj_seq := 1,
     dj_logs := [\<lparr>ll_Seq = 1, ll_Ts = 3, ll_Source = ''stdout'', ll_Text = ''pull''\<rparr>],
     dj_LogCh := \<lparr>ch_cap = 256, ch_buf = [\<lparr>ll_Seq = 1, ll_Ts = 3, ll_Source = ''stdout'', ll_Text = ''pull''\<rparr>],
       ch_closed = False\<rparr>\<rparr>"
  by (simp add: demo_log_job_def Transition_def AppendLog_def NewJob_def terminal_def maxLogLines_def try_send_def
      offer_def make_chan_def Let_def)

lemma demo_log_job_inv: "job_inv demo_log_job"
  by (simp add: demo_log_job_eq job_inv_def NewJob_def maxLogLines_def wf_chan_def terminal_def)

lemma demo_log_world_inv: "world_inv demo_log_world"
  unfolding demo_log_world_def
  by (intro world_inv_upd(1) demo_world_inv registered_inv NewRegistry_inv demo_log_job_inv)

theorem deploy_log_stream_witness:
  "\<exists>a v v' j'. open_viewer demo_api None demo_log_request demo_log_world = Inr (a, v) \<and>
    run_steps view_step (v, jr_heap (w_jobs demo_log_world) a)
      [Turn None, Job (MoveTo StatusSuccess 9), Turn None, Turn None] = Inr (v', j') \<and>
    vw_sent v' = map LogMessage (dj_logs demo_log_job @ dj_logs demo_log_job) @ [DoneMessage StatusSuccess]"
proof -
  let ?ops = "[Turn None, Job (MoveTo StatusSuccess 9), Turn None, Turn None]"
  have h: "jr_heap (w_jobs demo_log_world) 0 = demo_log_job"
    and g: "GetJob (dj_ID demo_log_job) (w_jobs demo_log_world) = Some 0"
    by (simp_all add: demo_log_world_def registered_def alloc_job_def Register_def set_active_def GetJob_def
        NewRegistry_def Let_def)
  let ?v = "\<lparr>vw_replay = dj_logs demo_log_job, vw_open = True, vw_sent = []\<rparr>"
  have o: "open_viewer demo_api None demo_log_request demo_log_world = Inr (0, ?v)"
  proof -
    have "dj_ID demo_log_job \<noteq> []" by (simp add: demo_log_job_eq NewJob_def newUUID_def Let_def)
    then show ?thesis
      by (simp add: open_viewer_def demo_log_request_def map_get_def fmlookup_of_list demo_api_def g h Logs_def Let_def)
  qed
  obtain v' j' where r: "run_steps view_step (?v, demo_log_job) ?ops = Inr (v', j')"
    and c: "\<not> vw_open v'" "dj_status j' = StatusSuccess"
    and q: "observe queued_lines view_step (?v, demo_log_job) ?ops = []"
    by (simp add: demo_log_job_eq NewJob_def view_step_def viewer_turn_def Transition_def terminal_def close_chan_def
        recv_log_def receive_def queued_lines_def Let_def)
  have u: "\<forall>e \<in> set ?ops. undisturbed e" by (simp add: undisturbed_def)
  from deploy_log_stream [OF o demo_log_world_inv _ u c(1)] r q c(2) o h show ?thesis
    by (simp add: demo_log_job_eq)
qed

text \<open>Once a job has ended, its stream ends: a connected viewer whose writes succeed is sent what
  remains and the final status within as many turns as there are lines left, and one more.\<close>

theorem deploy_log_stream_ends:
  assumes "job_inv j" and "terminal (dj_status j)" and "vw_open v"
    and "length (vw_replay v) + length (ch_buf (dj_LogCh j)) < n"
  shows "\<exists>v' j'. run_steps view_step (v, j) (replicate n (Turn None)) = Inr (v', j') \<and> \<not> vw_open v' \<and>
    (only_lines (vw_sent v) \<longrightarrow> DoneMessage (dj_status j) \<in> set (vw_sent v'))"
proof -
  obtain v' j' where r: "run_steps view_step (v, j) (replicate n (Turn None)) = Inr (v', j')" "\<not> vw_open v'"
    using turn_closes [OF assms] by blast
  have "DoneMessage (dj_status j) \<in> set (vw_sent v')" if "only_lines (vw_sent v)"
  proof -
    have "view_live (v', j')"
      using view.fifo_run [of "(v, j)" "replicate n (Turn None)" "(v', j')"] assms(1,3) that r
      by (auto simp: view_inv_def view_live_def undisturbed_def)
    then show ?thesis using r(2) turns_status [OF r(1)] by (auto simp: view_live_def)
  qed
  with r show ?thesis by blast
qed

theorem deploy_log_stream_ends_witness:
  "\<exists>v' j'. run_steps view_step
      (\<lparr>vw_replay = [], vw_open = True, vw_sent = []\<rparr>, demo_log_job\<lparr>dj_status := StatusFailed, dj_ended := Some 4,
         dj_chDone := True, dj_once := True, dj_LogCh := (dj_LogCh demo_log_job)\<lparr>ch_closed := True\<rparr>\<rparr>)
      (replicate 2 (Turn None)) = Inr (v', j') \<and> \<not> vw_open v' \<and> DoneMessage StatusFailed \<in> set (vw_sent v')"
proof -
  let ?j = "demo_log_job\<lparr>dj_status := StatusFailed, dj_ended := Some 4, dj_chDone := True, dj_once := True,
    dj_LogCh := (dj_LogCh demo_log_job)\<lparr>ch_closed := True\<rparr>\<rparr>"
  let ?v = "\<lparr>vw_replay = [], vw_open = True, vw_sent = []\<rparr> :: viewer"
  have "job_inv ?j" using demo_log_job_inv by (simp add: job_inv_def wf_chan_def terminal_def)
  moreover have "length (vw_replay ?v) + length (ch_buf (dj_LogCh ?j)) < 2" by (simp add: demo_log_job_eq)
  ultimately show ?thesis using deploy_log_stream_ends [of ?j ?v 2] by (simp add: terminal_def)
qed

section \<open>Events\<close>

text \<open>The start of \<open>handleSSE\<close>, whose response writer can be flushed or not, one iteration of its loop, and
  the deferred cleanup.\<close>

definition open_sse :: "bool \<Rightarrow> notifier \<Rightarrow> (reply + addr) \<times> notifier" where
  "open_sse flusher n =
     (if \<not> flusher then (Inl (api_error ''streaming not supported'' 500), n)
      else let (c, n) = AddSSEClient n in (Inr c, n))"

definition sse_frame :: "string \<Rightarrow> string" where
  "sse_frame msg = ''data: '' @ msg @ [CHR 0x0A, CHR 0x0A]"

text \<open>What is written, and whether the loop goes on; \<open>done\<close> if the request's context is selected.\<close>

definition sse_turn :: "bool \<Rightarrow> addr \<Rightarrow> notifier \<Rightarrow> (string \<times> bool) \<times> notifier" where
  "sse_turn ctx_done c n =
     (if ctx_done then (([], False), n)
      else
        (case read_client c n of
           (Received msg, n) \<Rightarrow> ((sse_frame msg, True), n)
         | (Closed, n) \<Rightarrow> (([], False), n)
         | (Blocked, n) \<Rightarrow> (([], True), n)))"

definition close_sse :: "addr \<Rightarrow> notifier \<Rightarrow> panic + notifier" where
  "close_sse c n = remove_client c n"

text \<open>What a browser makes of the stream: the data of each event, an event ending at an empty line.\<close>

fun sse_turns :: "nat \<Rightarrow> addr \<Rightarrow> notifier \<Rightarrow> string \<times> notifier" where
  "sse_turns 0 c n = ([], n)"
| "sse_turns (Suc k) c n =
     (let ((s, go), n) = sse_turn False c n in
      if go then (let (t, n) = sse_turns k c n in (s @ t, n)) else (s, n))"

definition event_data :: "string \<Rightarrow> string list" where
  "event_data stream =
     map (\<lambda>l. drop 6 l) (filter (\<lambda>l. take 6 l = ''data: '') (Split stream (CHR 0x0A)))"

lemma sse_turns_stream:
  assumes "\<not> ch_closed (nt_chans n c)"
  shows "fst (sse_turns k c n) = concat (map sse_frame (take k (ch_buf (nt_chans n c))))"
  using assms
proof (induction k arbitrary: n)
  case (Suc k)
  show ?case
  proof (cases "ch_buf (nt_chans n c)")
    case Nil
    have "fst (sse_turns m c n) = []" for m
      using Nil Suc.prems
      by (induction m) (simp_all add: sse_turn_def read_client_def receive_def Let_def case_prod_beta)
    with Nil show ?thesis by (metis concat.simps(1) list.map(1) take_Nil)
  next
    case (Cons m ms)
    let ?n = "n\<lparr>nt_chans := (nt_chans n)(c := (nt_chans n c)\<lparr>ch_buf := ms\<rparr>)\<rparr>"
    have "sse_turn False c n = ((sse_frame m, True), ?n)"
      by (simp add: sse_turn_def read_client_def receive_def Cons Let_def)
    with Suc.IH [of ?n] Suc.prems Cons show ?thesis by (simp add: Let_def case_prod_beta)
  qed
qed simp

lemma event_data_frame:
  assumes "CHR 0x0A \<notin> set m"
  shows "event_data (sse_frame m @ s) = m # event_data s"
proof -
  have "Split ((''data: '' @ m) @ CHR 0x0A # CHR 0x0A # s) (CHR 0x0A) = (''data: '' @ m) # [] # Split s (CHR 0x0A)"
    using Split_append [of "CHR 0x0A" "''data: '' @ m"] assms by simp
  then show ?thesis by (simp add: event_data_def sse_frame_def)
qed

text \<open>A browser reads back from the stream exactly the events that were queued for it, in order: JSON
  text holds no line break, so an event never spills into the next one.\<close>

theorem event_stream_roundtrip:
  assumes "notifier_inv n" and "connected c n"
    and "\<forall>m \<in> set (ch_buf (nt_chans n c)). CHR 0x0A \<notin> set m"
  shows "event_data (fst (sse_turns k c n)) = take k (ch_buf (nt_chans n c))"
proof -
  have e: "event_data [] = []" by (simp add: event_data_def)
  have "event_data (concat (map sse_frame ms)) = ms" if "\<forall>m \<in> set ms. CHR 0x0A \<notin> set m" for ms
    using that by (induction ms) (auto simp: e event_data_frame)
  moreover have "\<forall>m \<in> set (take k (ch_buf (nt_chans n c))). CHR 0x0A \<notin> set m"
    using assms(3) by (auto dest: in_set_takeD)
  moreover have "\<not> ch_closed (nt_chans n c)" using assms(1,2) by (simp add: notifier_inv_def)
  ultimately show ?thesis by (simp add: sse_turns_stream)
qed

theorem event_stream_roundtrip_witness:
  "\<exists>n. run_steps (notify_step (\<lambda>ev. Some (ev_Topic ev))) demo_notifier [Event [0] Notifier.demo_payload] = Inr n \<and>
    event_data (fst (sse_turns 3 0 n)) = [TopicRollbackDone]"
proof -
  obtain n where n: "run_steps (notify_step (\<lambda>ev. Some (ev_Topic ev))) demo_notifier [Event [0] Notifier.demo_payload] = Inr n"
    and i: "notifier_inv n" using notify.run_safe [OF demo_notifier_inv(1)] by blast
  moreover have "connected 0 n \<and> ch_buf (nt_chans n 0) = [TopicRollbackDone]"
    using n by (auto simp: notify_step_def AddSSEClient_def demo_notifier_def New_notifier_def dispatch_event_def
        range_order_def connected_def Notifier.demo_payload_def Let_def try_send_def offer_def split: if_splits)
  moreover have "CHR 0x0A \<notin> set TopicRollbackDone" by (simp add: TopicRollbackDone_def)
  ultimately show ?thesis using event_stream_roundtrip [of n 0 3] by auto
qed

end
