(* ===== verification/Registry_Client.thy ===== *)
theory Registry_Client
  imports Image_Ref
begin

text \<open>
  The registry client, \<open>internal/registry/registry.go\<close>: \<open>HeadDigest\<close> asks a registry for the
  digest of an image tag, obtaining a token or sending credentials when the registry demands it.
  The network is a state \<open>'s\<close> and \<open>re_http\<close> what one call of the HTTP client's \<open>Do\<close> comes to.  The other
  arguments are library routines: \<open>re_checkURL\<close> the error of building a request for a URL,
  \<open>re_addQuery\<close> parsing a URL and setting query parameters, \<open>re_decodeToken\<close> the JSON decoding of a
  token response into \<open>token\<close> and \<open>access_token\<close>, \<open>re_decodeHub\<close> that of a Docker Hub token,
  \<open>re_quote\<close> the \<open>%q\<close> format of an error text.
\<close>

section \<open>Definitions\<close>

datatype http_auth = NoAuth | BearerAuth string | BasicAuth string string

record http_request =
  hq_Method :: string
  hq_URL :: string
  hq_Accept :: string
  hq_Auth :: http_auth

record http_response =
  hp_StatusCode :: nat
  hp_WwwAuthenticate :: string
  hp_Digest :: string
  hp_Body :: string

record 's registry_env =
  re_http :: "http_request \<Rightarrow> 's \<Rightarrow> (error + http_response) \<times> 's"
  re_checkURL :: "string \<Rightarrow> error option"
  re_addQuery :: "string \<Rightarrow> (string \<times> string) list \<Rightarrow> error + string"
  re_decodeToken :: "string \<Rightarrow> error + string \<times> string"
  re_decodeHub :: "string \<Rightarrow> error + string"
  re_quote :: "string \<Rightarrow> string"

record registry_config =
  rg_DockerHubUsername :: string
  rg_DockerHubPassword :: string
  rg_GHCRToken :: string
  rg_RegistryUsername :: string
  rg_RegistryPassword :: string

definition ghcrHost :: string where "ghcrHost = ''ghcr.io''"
definition dockerHubAuthURL :: string where "dockerHubAuthURL = ''https://auth.docker.io/token''"
definition dockerHubRegistry :: string where "dockerHubRegistry = ''https://registry-1.docker.io''"

definition manifestAccept :: string where
  "manifestAccept = ''application/vnd.docker.distribution.manifest.v2+json,'' @
     ''application/vnd.oci.image.manifest.v1+json,'' @
     ''application/vnd.docker.distribution.manifest.list.v2+json,'' @
     ''application/vnd.oci.image.index.v1+json''"

definition credsFor :: "registry_config \<Rightarrow> string \<Rightarrow> string \<times> string" where
  "credsFor cfg host =
     (if host = hubHost then (rg_DockerHubUsername cfg, rg_DockerHubPassword cfg)
      else if host = ghcrHost \<and> rg_GHCRToken cfg \<noteq> [] then (''token'', rg_GHCRToken cfg)
      else (rg_RegistryUsername cfg, rg_RegistryPassword cfg))"

text \<open>\<open>http.NewRequest\<close> and \<open>c.http.Do\<close>: a request that cannot be built is not sent.  \<open>re_http\<close> stands for one whole
  call of \<open>Do\<close>: the client has no \<open>CheckRedirect\<close>, so \<open>net/http\<close> may follow redirects within it, and the
  response is that of the last one.  What the library sends on the way is not seen here.\<close>

definition send_request ::
  "'s registry_env \<Rightarrow> error \<Rightarrow> http_request \<Rightarrow> 's \<Rightarrow> (error + http_response) \<times> 's" where
  "send_request env pre q s =
     (case re_checkURL env (hq_URL q) of
        Some e \<Rightarrow> (Inl e, s)
      | None \<Rightarrow>
          (case re_http env q s of
             (Inl e, s) \<Rightarrow> (Inl (pre @ e), s)
           | (Inr r, s) \<Rightarrow> (Inr r, s)))"

definition extractDigest :: "http_response \<Rightarrow> string \<Rightarrow> error + string" where
  "extractDigest r manifestURL =
     (if hp_StatusCode r \<noteq> 200
      then Inl (''registry returned '' @ show_nat (hp_StatusCode r) @ '' for '' @ manifestURL)
      else if hp_Digest r = [] then Inl (''no Docker-Content-Digest header from '' @ manifestURL)
      else Inr (hp_Digest r))"

definition headWithBearer :: "'s registry_env \<Rightarrow> string \<Rightarrow> string \<Rightarrow> 's \<Rightarrow> (error + string) \<times> 's" where
  "headWithBearer env manifestURL token s =
     (case send_request env ''manifest head: ''
         \<lparr>hq_Method = ''HEAD'', hq_URL = manifestURL, hq_Accept = manifestAccept, hq_Auth = BearerAuth token\<rparr> s of
        (Inl e, s) \<Rightarrow> (Inl e, s)
      | (Inr r, s) \<Rightarrow> (extractDigest r manifestURL, s))"

definition headWithBasic ::
  "'s registry_env \<Rightarrow> string \<Rightarrow> string \<Rightarrow> string \<Rightarrow> 's \<Rightarrow> (error + string) \<times> 's" where
  "headWithBasic env manifestURL username password s =
     (case send_request env ''manifest head: ''
         \<lparr>hq_Method = ''HEAD'', hq_URL = manifestURL, hq_Accept = manifestAccept,
          hq_Auth = BasicAuth username password\<rparr> s of
        (Inl e, s) \<Rightarrow> (Inl e, s)
      | (Inr r, s) \<Rightarrow> (extractDigest r manifestURL, s))"

definition basic_if_set :: "string \<Rightarrow> string \<Rightarrow> http_auth" where
  "basic_if_set username password =
     (if username \<noteq> [] \<or> password \<noteq> [] then BasicAuth username password else NoAuth)"

fun challenge_loop ::
  "string list \<Rightarrow> string \<Rightarrow> (string, string) fmap \<Rightarrow> string \<times> (string, string) fmap" where
  "challenge_loop [] realm params = (realm, params)"
| "challenge_loop (part # parts) realm params =
     (let (key, val, ok) = Cut (TrimSpace part) CHR ''='' in
      if \<not> ok then challenge_loop parts realm params
      else
        let val = Trim1 val CHR 0x22 in
        if key = ''realm'' then challenge_loop parts val params
        else challenge_loop parts realm (fmupd key val params))"

definition parseBearerChallenge ::
  "(string \<Rightarrow> string) \<Rightarrow> string \<Rightarrow> error + string \<times> (string, string) fmap" where
  "parseBearerChallenge quote header =
     (let (after, ok) = CutPrefix header ''Bearer '' in
      if \<not> ok then Inl (''expected Bearer challenge, got '' @ quote header)
      else
        let (realm, params) = challenge_loop (Split after CHR '','') [] fmempty in
        if realm = [] then Inl (''no realm in Bearer challenge: '' @ quote header)
        else Inr (realm, params))"

text \<open>The query parameters that are set on the realm.\<close>

definition token_query :: "(string, string) fmap \<Rightarrow> (string \<times> string) list" where
  "token_query params =
     (let svc = map_get params ''service''; scope = map_get params ''scope'' in
      (if svc \<noteq> [] then [(''service'', svc)] else []) @ (if scope \<noteq> [] then [(''scope'', scope)] else []))"

definition wwwBearerToken ::
  "'s registry_env \<Rightarrow> string \<Rightarrow> string \<Rightarrow> string \<Rightarrow> 's \<Rightarrow> (error + string) \<times> 's" where
  "wwwBearerToken env wwwAuth username password s =
     (case parseBearerChallenge (re_quote env) wwwAuth of
        Inl e \<Rightarrow> (Inl e, s)
      | Inr (realm, params) \<Rightarrow>
          (case re_addQuery env realm (token_query params) of
             Inl e \<Rightarrow> (Inl (''invalid realm URL '' @ re_quote env realm @ '': '' @ e), s)
           | Inr tokenURL \<Rightarrow>
               (case send_request env (''token request to '' @ realm @ '': '')
                   \<lparr>hq_Method = ''GET'', hq_URL = tokenURL, hq_Accept = [],
                    hq_Auth = basic_if_set username password\<rparr> s of
                  (Inl e, s) \<Rightarrow> (Inl e, s)
                | (Inr r, s) \<Rightarrow>
                    (if hp_StatusCode r \<noteq> 200
                     then (Inl (''token endpoint returned '' @ show_nat (hp_StatusCode r)), s)
                     else
                       (case re_decodeToken env (hp_Body r) of
                          Inl e \<Rightarrow> (Inl (''decode token response: '' @ e), s)
                        | Inr (token, accessToken) \<Rightarrow>
                            let token = (if token = [] then accessToken else token) in
                            if token = [] then (Inl (''empty token in response from '' @ realm), s)
                            else (Inr token, s))))))"

definition fetchDockerHubToken ::
  "'s registry_env \<Rightarrow> registry_config \<Rightarrow> string \<Rightarrow> 's \<Rightarrow> (error + string) \<times> 's" where
  "fetchDockerHubToken env cfg name s =
     (case send_request env []
         \<lparr>hq_Method = ''GET'',
          hq_URL = dockerHubAuthURL @ ''?service=registry.docker.io&scope=repository:'' @ name @ '':pull'',
          hq_Accept = [],
          hq_Auth = basic_if_set (rg_DockerHubUsername cfg) (rg_DockerHubPassword cfg)\<rparr> s of
        (Inl e, s) \<Rightarrow> (Inl e, s)
      | (Inr r, s) \<Rightarrow>
          (case re_decodeHub env (hp_Body r) of
             Inl e \<Rightarrow> (Inl (''decode token: '' @ e), s)
           | Inr token \<Rightarrow>
               if token = [] then (Inl ''empty token in Docker Hub response'', s) else (Inr token, s)))"

text \<open>
  \<open>strings.ToLower\<close>, as far as comparing its result with an ASCII word can tell: ASCII letters, and
  the two other letters whose lower case is ASCII, U+0130 and U+212A.
\<close>

fun ToLower :: "string \<Rightarrow> string" where
  "ToLower [] = []"
| "ToLower (c # s) =
     (if c = CHR 0xC4 \<and> take 1 s = [CHR 0xB0] then CHR ''i'' # ToLower (drop 1 s)
      else if c = CHR 0xE2 \<and> take 2 s = [CHR 0x84, CHR 0xAA] then CHR ''k'' # ToLower (drop 2 s)
      else
        (let n = of_char c :: nat in if 65 \<le> n \<and> n \<le> 90 then char_of (n + 32) else c) # ToLower s)"

declare ToLower.simps [simp del]

definition authenticatedHead ::
  "'s registry_env \<Rightarrow> string \<Rightarrow> string \<Rightarrow> string \<Rightarrow> string \<Rightarrow> string \<Rightarrow> string \<Rightarrow> 's \<Rightarrow>
     (error + string) \<times> 's" where
  "authenticatedHead env manifestURL host name wwwAuth username password s =
     (let (scheme, _, _) = Cut wwwAuth CHR '' '' in
      if ToLower scheme = ''bearer'' then
        (case wwwBearerToken env wwwAuth username password s of
           (Inl e, s) \<Rightarrow> (Inl (''bearer token for '' @ host @ ''/'' @ name @ '': '' @ e), s)
         | (Inr token, s) \<Rightarrow> headWithBearer env manifestURL token s)
      else if ToLower scheme = ''basic'' then
        (if username = [] \<and> password = []
         then (Inl (''registry at '' @ host @ '' requires Basic auth but no credentials configured '' @
                 ''(set DOCKWATCH_REGISTRY_USERNAME / DOCKWATCH_REGISTRY_PASSWORD)''), s)
         else headWithBasic env manifestURL username password s)
      else (Inl (''unsupported auth scheme '' @ re_quote env scheme @ '' from '' @ host), s))"

definition manifest_url :: "string \<Rightarrow> string \<Rightarrow> string \<Rightarrow> string" where
  "manifest_url base name tag = base @ ''/v2/'' @ name @ ''/manifests/'' @ tag"

definition headGeneric ::
  "'s registry_env \<Rightarrow> registry_config \<Rightarrow> string \<Rightarrow> string \<Rightarrow> string \<Rightarrow> 's \<Rightarrow> (error + string) \<times> 's" where
  "headGeneric env cfg host name tag s =
     (let manifestURL = manifest_url (''https://'' @ host) name tag in
      case send_request env ''registry head: ''
          \<lparr>hq_Method = ''HEAD'', hq_URL = manifestURL, hq_Accept = manifestAccept, hq_Auth = NoAuth\<rparr> s of
        (Inl e, s) \<Rightarrow> (Inl e, s)
      | (Inr r, s) \<Rightarrow>
          if hp_StatusCode r = 200 then (extractDigest r manifestURL, s)
          else if hp_StatusCode r \<noteq> 401
          then (Inl (''registry returned '' @ show_nat (hp_StatusCode r) @ '' for '' @ host @ ''/'' @ name @
                  '':'' @ tag), s)
          else if hp_WwwAuthenticate r = []
          then (Inl (''registry returned 401 with no WWW-Authenticate header for '' @ host @ ''/'' @ name @
                  '':'' @ tag), s)
          else
            let (username, password) = credsFor cfg host in
            authenticatedHead env manifestURL host name (hp_WwwAuthenticate r) username password s)"

definition headDockerHub ::
  "'s registry_env \<Rightarrow> registry_config \<Rightarrow> string \<Rightarrow> string \<Rightarrow> 's \<Rightarrow> (error + string) \<times> 's" where
  "headDockerHub env cfg name tag s =
     (case fetchDockerHubToken env cfg name s of
        (Inl e, s) \<Rightarrow> (Inl (''dockerhub auth: '' @ e), s)
      | (Inr token, s) \<Rightarrow> headWithBearer env (manifest_url dockerHubRegistry name tag) token s)"

definition HeadDigest :: "'s registry_env \<Rightarrow> registry_config \<Rightarrow> string \<Rightarrow> 's \<Rightarrow> (error + string) \<times> 's" where
  "HeadDigest env cfg img s =
     (let (host, name, tag) = parseImageRef img in
      if host = hubHost then headDockerHub env cfg name tag s else headGeneric env cfg host name tag s)"

section \<open>Recorded exchanges\<close>

text \<open>
  The environment that also records every exchange, newest last: what a registry sees.
\<close>

type_synonym exchange = "http_request \<times> (error + http_response)"

definition recorded :: "'s registry_env \<Rightarrow> ('s \<times> exchange list) registry_env" where
  "recorded env =
     \<lparr>re_http = (\<lambda>q (s, l). let (a, s) = re_http env q s in (a, s, l @ [(q, a)])),
      re_checkURL = re_checkURL env, re_addQuery = re_addQuery env, re_decodeToken = re_decodeToken env,
      re_decodeHub = re_decodeHub env, re_quote = re_quote env\<rparr>"

lemma recorded_sel [simp]:
  "re_checkURL (recorded env) = re_checkURL env" "re_addQuery (recorded env) = re_addQuery env"
  "re_decodeToken (recorded env) = re_decodeToken env" "re_decodeHub (recorded env) = re_decodeHub env"
  "re_quote (recorded env) = re_quote env"
  by (simp_all add: recorded_def)

text \<open>Recording does not change what is answered.\<close>

lemma send_recorded:
  "send_request (recorded env) pre q (s, l) =
     (case send_request env pre q s of
        (a, s') \<Rightarrow> (a, s', if re_checkURL env (hq_URL q) = None then l @ [(q, fst (re_http env q s))] else l))"
  by (auto simp: send_request_def recorded_def Let_def split: option.splits sum.splits prod.splits)

lemma send_log:
  assumes "send_request (recorded env) pre q (s, l) = (a, s', l')"
  obtains (unsent) e where "a = Inl e" "l' = l" "s' = s"
    | (sent) b where "re_checkURL env (hq_URL q) = None" "l' = l @ [(q, b)]" "re_http env q s = (b, s')"
        "\<And>r. a = Inr r \<longleftrightarrow> b = Inr r"
  using assms unfolding send_recorded unfolding send_request_def
  by (cases "re_checkURL env (hq_URL q)"; cases "re_http env q s"; cases "fst (re_http env q s)") auto

text \<open>A HEAD request with an authorization adds at most one exchange.\<close>

definition head_request :: "string \<Rightarrow> http_auth \<Rightarrow> http_request" where
  "head_request url auth =
     \<lparr>hq_Method = ''HEAD'', hq_URL = url, hq_Accept = manifestAccept, hq_Auth = auth\<rparr>"

definition token_request :: "string \<Rightarrow> string \<Rightarrow> string \<Rightarrow> http_request" where
  "token_request url u p =
     \<lparr>hq_Method = ''GET'', hq_URL = url, hq_Accept = [], hq_Auth = basic_if_set u p\<rparr>"

definition answered :: "string \<Rightarrow> exchange list \<Rightarrow> error + string \<Rightarrow> bool" where
  "answered url l res \<longleftrightarrow> (\<forall>d. res = Inr d \<longrightarrow> d \<noteq> [] \<and>
     (\<exists>auth r l0. l = l0 @ [(head_request url auth, Inr r)] \<and> hp_StatusCode r = 200 \<and> hp_Digest r = d))"

lemma answered_Inl [simp]: "answered url l (Inl e)"
  by (simp add: answered_def)

lemma answered_extract:
  "answered url (l @ [(head_request url auth, Inr r)]) (extractDigest r url)"
  by (auto simp: answered_def extractDigest_def)

lemma head_send_log:
  assumes "(case send_request (recorded env) pre (head_request url auth) (s, l) of
        (Inl e, s) \<Rightarrow> (Inl e, s) | (Inr r, s) \<Rightarrow> (extractDigest r url, s)) = (res, s', l')"
  shows "(l' = l \<or> (\<exists>b. l' = l @ [(head_request url auth, b)])) \<and> answered url l' res"
proof -
  obtain a s1 l1 where a: "send_request (recorded env) pre (head_request url auth) (s, l) = (a, s1, l1)"
    by (metis prod.exhaust)
  from a show ?thesis
  proof (cases rule: send_log)
    case (sent b)
    show ?thesis
    proof (cases a)
      case (Inr r)
      with sent(4) have "b = Inr r" by blast
      with assms a Inr sent(2) answered_extract show ?thesis by auto
    qed (use assms a sent(2) in auto)
  qed (use assms a in auto)
qed

lemma headWithBearer_log:
  "headWithBearer (recorded env) url token (s, l) = (res, s', l') \<Longrightarrow>
     (l' = l \<or> (\<exists>b. l' = l @ [(head_request url (BearerAuth token), b)])) \<and> answered url l' res"
  unfolding headWithBearer_def head_request_def [symmetric] by (rule head_send_log)

lemma headWithBasic_log:
  "headWithBasic (recorded env) url u p (s, l) = (res, s', l') \<Longrightarrow>
     (l' = l \<or> (\<exists>b. l' = l @ [(head_request url (BasicAuth u p), b)])) \<and> answered url l' res"
  unfolding headWithBasic_def head_request_def [symmetric] by (rule head_send_log)

lemma wwwBearerToken_log:
  assumes "wwwBearerToken (recorded env) wwwAuth u p (s, l) = (res, s', l')"
  shows "(l' = l \<and> (\<exists>e. res = Inl e)) \<or>
    (\<exists>realm params url b. parseBearerChallenge (re_quote env) wwwAuth = Inr (realm, params) \<and>
       re_addQuery env realm (token_query params) = Inr url \<and> l' = l @ [(token_request url u p, b)])"
proof (cases "parseBearerChallenge (re_quote env) wwwAuth")
  case (Inr rp)
  obtain realm params where rp: "rp = (realm, params)" by (cases rp)
  show ?thesis
  proof (cases "re_addQuery env realm (token_query params)")
    case (Inr url)
    obtain a s1 l1 where a: "send_request (recorded env) (''token request to '' @ realm @ '': '')
        (token_request url u p) (s, l) = (a, s1, l1)" by (metis prod.exhaust)
    note w = assms [unfolded wwwBearerToken_def, folded token_request_def]
    have l: "l' = l1"
      using w a \<open>parseBearerChallenge (re_quote env) wwwAuth = Inr rp\<close> Inr
      by (cases a) (auto simp: rp token_request_def Let_def split: if_splits sum.splits)
    from a show ?thesis
    proof (cases rule: send_log)
      case (unsent e)
      then show ?thesis
        using w a \<open>parseBearerChallenge (re_quote env) wwwAuth = Inr rp\<close> Inr l by (auto simp: rp token_request_def)
    next
      case (sent b)
      then show ?thesis using \<open>parseBearerChallenge (re_quote env) wwwAuth = Inr rp\<close> Inr l rp by auto
    qed
  qed (use assms Inr rp in \<open>auto simp: wwwBearerToken_def\<close>)
qed (use assms in \<open>auto simp: wwwBearerToken_def\<close>)

definition hub_token_url :: "string \<Rightarrow> string" where
  "hub_token_url name =
     dockerHubAuthURL @ ''?service=registry.docker.io&scope=repository:'' @ name @ '':pull''"

lemma fetchDockerHubToken_log:
  assumes "fetchDockerHubToken (recorded env) cfg name (s, l) = (res, s', l')"
  shows "(l' = l \<and> (\<exists>e. res = Inl e)) \<or>
    (\<exists>b. l' = l @ [(token_request (hub_token_url name) (rg_DockerHubUsername cfg) (rg_DockerHubPassword cfg), b)])"
proof -
  let ?q = "token_request (hub_token_url name) (rg_DockerHubUsername cfg) (rg_DockerHubPassword cfg)"
  obtain a s1 l1 where a: "send_request (recorded env) [] ?q (s, l) = (a, s1, l1)" by (metis prod.exhaust)
  note w = assms [unfolded fetchDockerHubToken_def, folded hub_token_url_def token_request_def]
  have l: "l' = l1" using w a by (cases a) (auto split: if_splits sum.splits)
  from a show ?thesis
  proof (cases rule: send_log)
    case (unsent e)
    then show ?thesis using w a l by auto
  qed (use l in auto)
qed

text \<open>What may follow an anonymous request that was answered with a challenge.\<close>

definition challenged ::
  "'s registry_env \<Rightarrow> registry_config \<Rightarrow> string \<Rightarrow> string \<Rightarrow> string \<Rightarrow> http_request list \<Rightarrow> bool" where
  "challenged env cfg host url wwwAuth qs \<longleftrightarrow>
     (case credsFor cfg host of (u, p) \<Rightarrow>
       qs = [] \<or>
       (ToLower (fst (Cut wwwAuth CHR '' '')) = ''basic'' \<and> (u \<noteq> [] \<or> p \<noteq> []) \<and>
          qs = [head_request url (BasicAuth u p)]) \<or>
       (\<exists>realm params tokenURL. parseBearerChallenge (re_quote env) wwwAuth = Inr (realm, params) \<and>
          re_addQuery env realm (token_query params) = Inr tokenURL \<and>
          (qs = [token_request tokenURL u p] \<or>
           (\<exists>token. qs = [token_request tokenURL u p, head_request url (BearerAuth token)]))))"

lemma authenticatedHead_log:
  assumes "authenticatedHead (recorded env) url host name wwwAuth u p (s, l) = (res, s', l')"
    and "credsFor cfg host = (u, p)"
  shows "\<exists>l1. l' = l @ l1 \<and> challenged env cfg host url wwwAuth (map fst l1) \<and> answered url l' res"
proof -
  obtain scheme rest ok where c: "Cut wwwAuth CHR '' '' = (scheme, rest, ok)" by (cases "Cut wwwAuth CHR '' ''")
  consider (bearer) "ToLower scheme = ''bearer''" | (basic) "ToLower scheme = ''basic''" "u \<noteq> [] \<or> p \<noteq> []"
    | (neither) "ToLower scheme \<noteq> ''bearer''" "ToLower scheme = ''basic'' \<Longrightarrow> u = [] \<and> p = []" by blast
  then show ?thesis
  proof cases
    case bearer
    obtain tk s1 l1 where t: "wwwBearerToken (recorded env) wwwAuth u p (s, l) = (tk, s1, l1)"
      by (metis prod.exhaust)
    note tl = wwwBearerToken_log [OF t]
    show ?thesis
    proof (cases tk)
      case (Inl e)
      with assms(1) bearer c t have "l' = l1" "answered url l' res" by (auto simp: authenticatedHead_def)
      with tl show ?thesis by (auto simp: challenged_def assms(2))
    next
      case (Inr token)
      with assms(1) bearer c t have h: "headWithBearer (recorded env) url token (s1, l1) = (res, s', l')"
        by (simp add: authenticatedHead_def)
      from tl Inr obtain realm params tu b where ch: "parseBearerChallenge (re_quote env) wwwAuth = Inr (realm, params)"
        "re_addQuery env realm (token_query params) = Inr tu" "l1 = l @ [(token_request tu u p, b)]" by auto
      from headWithBearer_log [OF h] ch(3) obtain l2 where l2: "l' = l @ (token_request tu u p, b) # l2"
        "map fst l2 = [] \<or> map fst l2 = [head_request url (BearerAuth token)]" "answered url l' res" by auto
      then have "challenged env cfg host url wwwAuth (map fst ((token_request tu u p, b) # l2))"
        using ch(1,2) unfolding challenged_def assms(2) by auto
      with l2(1,3) show ?thesis by blast
    qed
  next
    case basic
    with assms(1) c have "headWithBasic (recorded env) url u p (s, l) = (res, s', l')"
      by (auto simp: authenticatedHead_def)
    from headWithBasic_log [OF this] basic c show ?thesis by (auto simp: challenged_def assms(2))
  next
    case neither
    with assms(1) c have "l' = l" "answered url l' res" by (auto simp: authenticatedHead_def split: if_splits)
    then show ?thesis by (auto simp: challenged_def assms(2))
  qed
qed

text \<open>The exchanges of one \<open>HeadDigest\<close>.\<close>

definition generic_log ::
  "'s registry_env \<Rightarrow> registry_config \<Rightarrow> string \<Rightarrow> string \<Rightarrow> exchange list \<Rightarrow> bool" where
  "generic_log env cfg host url l \<longleftrightarrow> l = [] \<or>
     (\<exists>b. l = [(head_request url NoAuth, b)]) \<or>
     (\<exists>r l1. l = (head_request url NoAuth, Inr r) # l1 \<and> hp_StatusCode r = 401 \<and>
        challenged env cfg host url (hp_WwwAuthenticate r) (map fst l1))"

lemma headGeneric_log:
  assumes "headGeneric (recorded env) cfg host name tag (s, []) = (res, s', l')"
  defines "url \<equiv> manifest_url (''https://'' @ host) name tag"
  shows "generic_log env cfg host url l' \<and> answered url l' res"
proof -
  obtain a s1 l1 where a: "send_request (recorded env) ''registry head: '' (head_request url NoAuth) (s, []) = (a, s1, l1)"
    by (metis prod.exhaust)
  note w = assms(1) [unfolded headGeneric_def Let_def, folded url_def head_request_def]
  from a show ?thesis
  proof (cases rule: send_log)
    case (unsent e)
    with w a have "l' = []" "res = Inl e" by auto
    then show ?thesis by (simp add: generic_log_def)
  next
    case (sent b)
    show ?thesis
    proof (cases a)
      case (Inl e)
      with w a sent(2) show ?thesis by (auto simp: generic_log_def)
    next
      case (Inr r)
      with sent(4) have b: "b = Inr r" by blast
      obtain u p where cr: "credsFor cfg host = (u, p)" by fastforce
      consider (ok) "hp_StatusCode r = 200" | (auth) "hp_StatusCode r = 401" "hp_WwwAuthenticate r \<noteq> []"
        | (no) "hp_StatusCode r \<noteq> 200" "hp_StatusCode r = 401 \<Longrightarrow> hp_WwwAuthenticate r = []" by blast
      then show ?thesis
      proof cases
        case ok
        with w a Inr sent(2) b answered_extract [of url "[]" NoAuth r] show ?thesis by (auto simp: generic_log_def)
      next
        case auth
        with w a Inr cr have "authenticatedHead (recorded env) url host name (hp_WwwAuthenticate r) u p (s1, l1) = (res, s', l')"
          by simp
        from authenticatedHead_log [OF this cr] sent(2) b auth(1) show ?thesis
          unfolding generic_log_def by auto
      next
        case no
        with w a Inr sent(2) b have "l' = [(head_request url NoAuth, b)]" "answered url l' res"
          by (auto split: if_splits)
        then show ?thesis by (auto simp: generic_log_def)
      qed
    qed
  qed
qed

definition hub_log :: "registry_config \<Rightarrow> string \<Rightarrow> string \<Rightarrow> exchange list \<Rightarrow> bool" where
  "hub_log cfg name url l \<longleftrightarrow>
     (let t = token_request (hub_token_url name) (rg_DockerHubUsername cfg) (rg_DockerHubPassword cfg) in
      l = [] \<or> map fst l = [t] \<or> (\<exists>token. map fst l = [t, head_request url (BearerAuth token)]))"

lemma headDockerHub_log:
  assumes "headDockerHub (recorded env) cfg name tag (s, []) = (res, s', l')"
  defines "url \<equiv> manifest_url dockerHubRegistry name tag"
  shows "hub_log cfg name url l' \<and> answered url l' res"
proof -
  obtain tk s1 l1 where t: "fetchDockerHubToken (recorded env) cfg name (s, []) = (tk, s1, l1)"
    by (metis prod.exhaust)
  note tl = fetchDockerHubToken_log [OF t]
  show ?thesis
  proof (cases tk)
    case (Inl e)
    with assms(1) t tl show ?thesis by (auto simp: headDockerHub_def hub_log_def Let_def)
  next
    case (Inr token)
    with assms(1) t have "headWithBearer (recorded env) url token (s1, l1) = (res, s', l')"
      by (simp add: headDockerHub_def url_def)
    from headWithBearer_log [OF this] tl Inr show ?thesis by (auto simp: hub_log_def Let_def)
  qed
qed

lemma HeadDigest_log:
  assumes "HeadDigest (recorded env) cfg img (s, []) = (res, s', l)" "parseImageRef img = (host, name, tag)"
  shows "if host = hubHost
    then hub_log cfg name (manifest_url dockerHubRegistry name tag) l \<and>
      answered (manifest_url dockerHubRegistry name tag) l res
    else generic_log env cfg host (manifest_url (''https://'' @ host) name tag) l \<and>
      answered (manifest_url (''https://'' @ host) name tag) l res"
proof (cases "host = hubHost")
  case True
  with assms have "headDockerHub (recorded env) cfg name tag (s, []) = (res, s', l)"
    by (simp add: HeadDigest_def)
  from headDockerHub_log [OF this] True show ?thesis by simp
next
  case False
  with assms have "headGeneric (recorded env) cfg host name tag (s, []) = (res, s', l)"
    by (simp add: HeadDigest_def)
  from headGeneric_log [OF this] False show ?thesis by simp
qed

section \<open>Challenges\<close>

lemma trim_left_id: "\<forall>w \<in> set ws. w \<noteq> [] \<and> hd w \<noteq> c \<Longrightarrow> trim_left ws (c # s) = c # s"
proof -
  assume a: "\<forall>w \<in> set ws. w \<noteq> [] \<and> hd w \<noteq> c"
  have "\<not> prefix w (c # s)" if "w \<in> set ws" for w
    using a that by (cases w) auto
  then have "find (\<lambda>w. prefix w (c # s)) ws = None" by (simp add: find_None_iff)
  then show ?thesis by (subst trim_left.simps) (simp add: leading_def)
qed

definition no_space_end :: "char \<Rightarrow> bool" where
  "no_space_end c \<longleftrightarrow> c \<in> set (CHR 0x22 # ''abcdefghijklmnopqrstuvwxyz'')"

lemma spaces_ends:
  assumes "no_space_end c"
  shows "\<forall>w \<in> set spaces. w \<noteq> [] \<and> hd w \<noteq> c" "\<forall>w \<in> set (map rev spaces). w \<noteq> [] \<and> hd w \<noteq> c"
  using assms by (auto simp: no_space_end_def spaces_def)

lemma TrimSpace_id: "no_space_end c \<Longrightarrow> no_space_end d \<Longrightarrow> TrimSpace (c # s @ [d]) = c # s @ [d]"
proof -
  assume a: "no_space_end c" "no_space_end d"
  have "trim_left spaces (c # s @ [d]) = c # s @ [d]"
    using trim_left_id [OF spaces_ends(1) [OF a(1)], of "s @ [d]"] by simp
  moreover have "trim_left (map rev spaces) (d # rev s @ [c]) = d # rev s @ [c]"
    using trim_left_id [OF spaces_ends(2) [OF a(2)], of "rev s @ [c]"] by simp
  ultimately show ?thesis by (simp add: TrimSpace_def)
qed

text \<open>A challenge as registries print it.\<close>

definition quoted_param :: "string \<Rightarrow> string \<Rightarrow> string" where
  "quoted_param key val = key @ ''='' @ [CHR 0x22] @ val @ [CHR 0x22]"

definition print_challenge :: "string \<Rightarrow> string \<Rightarrow> string \<Rightarrow> string" where
  "print_challenge realm service scope =
     ''Bearer '' @ quoted_param ''realm'' realm @ '','' @ quoted_param ''service'' service @ '','' @
     quoted_param ''scope'' scope"

definition plain_value :: "string \<Rightarrow> bool" where
  "plain_value s \<longleftrightarrow> CHR '','' \<notin> set s \<and> CHR 0x22 \<notin> set s"

lemma dropWhile_not_hd: "s = [] \<or> hd s \<noteq> c \<Longrightarrow> dropWhile (\<lambda>x. x = c) s = s"
  by (cases s) auto

lemma Trim1_quoted: "CHR 0x22 \<notin> set s \<Longrightarrow> Trim1 (CHR 0x22 # s @ [CHR 0x22]) CHR 0x22 = s"
proof (cases "s = []")
  case False
  assume q: "CHR 0x22 \<notin> set s"
  have "hd s \<in> set s" "hd (rev s) \<in> set s"
    using False hd_in_set [of s] hd_in_set [of "rev s"] by auto
  with q have "hd s \<noteq> CHR 0x22" "hd (rev s) \<noteq> CHR 0x22" by metis+
  then have "dropWhile (\<lambda>x. x = CHR 0x22) (s @ [CHR 0x22]) = s @ [CHR 0x22]"
    "dropWhile (\<lambda>x. x = CHR 0x22) (rev s) = rev s"
    using False by (auto intro: dropWhile_not_hd)
  then show ?thesis by (simp add: Trim1_def)
qed (simp add: Trim1_def)

lemma Trim1_half_quoted: "CHR 0x22 \<notin> set s \<Longrightarrow> Trim1 (CHR 0x22 # s) CHR 0x22 = s"
proof (cases "s = []")
  case False
  assume q: "CHR 0x22 \<notin> set s"
  have "hd s \<in> set s" "hd (rev s) \<in> set s"
    using False hd_in_set [of s] hd_in_set [of "rev s"] by auto
  with q have "hd s \<noteq> CHR 0x22" "hd (rev s) \<noteq> CHR 0x22" by metis+
  then have "dropWhile (\<lambda>x. x = CHR 0x22) s = s" "dropWhile (\<lambda>x. x = CHR 0x22) (rev s) = rev s"
    using False by (auto intro: dropWhile_not_hd)
  then show ?thesis by (simp add: Trim1_def)
qed (simp add: Trim1_def)

lemma challenge_loop_quoted:
  assumes "key = k # ks" "no_space_end k" "CHR ''='' \<notin> set key" "CHR 0x22 \<notin> set val"
  shows "challenge_loop (quoted_param key val # parts) realm params =
    (if key = ''realm'' then challenge_loop parts val params
     else challenge_loop parts realm (fmupd key val params))"
proof -
  have "no_space_end (CHR 0x22)" by (simp add: no_space_end_def)
  from TrimSpace_id [OF assms(2) this, of "ks @ ''='' @ CHR 0x22 # val"]
  have "TrimSpace (quoted_param key val) = key @ CHR ''='' # CHR 0x22 # val @ [CHR 0x22]"
    by (simp add: quoted_param_def assms(1))
  with Cut_append [OF assms(3), of "CHR 0x22 # val @ [CHR 0x22]"] Trim1_quoted [OF assms(4)]
  show ?thesis by simp
qed

lemma challenge_loop_skip: "CHR ''='' \<notin> set (TrimSpace part) \<Longrightarrow>
  challenge_loop (part # parts) realm params = challenge_loop parts realm params"
  by simp

section \<open>Properties\<close>

text \<open>A registry that wants Basic credentials.\<close>

definition demo_response :: "nat \<Rightarrow> string \<Rightarrow> string \<Rightarrow> http_response" where
  "demo_response status challenge digest =
     \<lparr>hp_StatusCode = status, hp_WwwAuthenticate = challenge, hp_Digest = digest, hp_Body = []\<rparr>"

definition demo_registry_env :: "unit registry_env" where
  "demo_registry_env =
     \<lparr>re_http = (\<lambda>q s. (Inr (if hq_Auth q = BasicAuth ''token'' ''tok'' then demo_response 200 [] ''sha256:new''
          else demo_response 401 ''Basic'' []), s)),
      re_checkURL = (\<lambda>_. None), re_addQuery = (\<lambda>u _. Inr u), re_decodeToken = (\<lambda>_. Inl ''EOF''),
      re_decodeHub = (\<lambda>_. Inl ''EOF''), re_quote = (\<lambda>s. s)\<rparr>"

definition demo_credentials :: registry_config where
  "demo_credentials =
     \<lparr>rg_DockerHubUsername = [], rg_DockerHubPassword = [], rg_GHCRToken = ''tok'',
      rg_RegistryUsername = [], rg_RegistryPassword = []\<rparr>"

lemma demo_parse: "parseImageRef ''ghcr.io/o/app:1'' = (''ghcr.io'', ''o/app'', ''1'')"
  by code_simp

lemma demo_send:
  "send_request (recorded demo_registry_env) pre q ((), l) =
     (let r = (if hq_Auth q = BasicAuth ''token'' ''tok'' then demo_response 200 [] ''sha256:new''
          else demo_response 401 ''Basic'' []) in (Inr r, (), l @ [(q, Inr r)]))"
  unfolding send_recorded unfolding send_request_def by (simp add: demo_registry_env_def Let_def)

lemma demo_HeadDigest:
  "HeadDigest (recorded demo_registry_env) demo_credentials ''ghcr.io/o/app:1'' ((), []) =
     (Inr ''sha256:new'', (),
      [(head_request (manifest_url ''https://ghcr.io'' ''o/app'' ''1'') NoAuth, Inr (demo_response 401 ''Basic'' [])),
       (head_request (manifest_url ''https://ghcr.io'' ''o/app'' ''1'') (BasicAuth ''token'' ''tok''),
        Inr (demo_response 200 [] ''sha256:new''))])"
proof -
  have c: "credsFor demo_credentials ''ghcr.io'' = (''token'', ''tok'')" "''ghcr.io'' \<noteq> hubHost"
    by (simp_all add: credsFor_def hubHost_def ghcrHost_def demo_credentials_def)
  have "ToLower ''Basic'' = ''basic''" by code_simp
  then have "authenticatedHead (recorded demo_registry_env) url ''ghcr.io'' ''o/app'' ''Basic'' ''token'' ''tok'' ((), l) =
      (Inr ''sha256:new'', (),
       l @ [(head_request url (BasicAuth ''token'' ''tok''), Inr (demo_response 200 [] ''sha256:new''))])" for url l
    by (simp add: authenticatedHead_def headWithBasic_def demo_send head_request_def Let_def)
      (simp add: extractDigest_def demo_response_def)
  then show ?thesis unfolding HeadDigest_def demo_parse
    by (simp add: c headGeneric_def demo_send Let_def head_request_def) (simp add: demo_response_def)
qed

text \<open>C34: Credentials stay where they belong.  Whatever a registry answers, one \<open>HeadDigest\<close> makes at
  most three requests; user name and password are the ones configured for the image's registry and
  are only sent to Docker Hub's token service or, for another registry, after that registry has
  answered 401, to the realm its challenge names or to the manifest itself; a token is only sent
  with the manifest request.\<close>

theorem registry_credentials_contained:
  assumes "HeadDigest (recorded env) cfg img (s, []) = (res, s', l)" and "parseImageRef img = (host, name, tag)"
  defines "url \<equiv> manifest_url (if host = hubHost then dockerHubRegistry else ''https://'' @ host) name tag"
  shows "length l \<le> 3 \<and>
    (\<forall>(q, a) \<in> set l. \<forall>u p. hq_Auth q = BasicAuth u p \<longrightarrow> (u, p) = credsFor cfg host \<and>
       (if host = hubHost then hq_URL q = hub_token_url name
        else \<exists>r. (head_request url NoAuth, Inr r) \<in> set l \<and> hp_StatusCode r = 401 \<and>
          (hq_URL q = url \<or> (\<exists>realm params. re_addQuery env realm (token_query params) = Inr (hq_URL q) \<and>
             parseBearerChallenge (re_quote env) (hp_WwwAuthenticate r) = Inr (realm, params))))) \<and>
    (\<forall>(q, a) \<in> set l. \<forall>token. hq_Auth q = BearerAuth token \<longrightarrow> hq_URL q = url \<and> hq_Method q = ''HEAD'')"
proof (cases "host = hubHost")
  case True
  with HeadDigest_log [OF assms(1,2)] have "hub_log cfg name url l" by (simp add: url_def)
  moreover have "credsFor cfg hubHost = (rg_DockerHubUsername cfg, rg_DockerHubPassword cfg)"
    by (simp add: credsFor_def)
  ultimately show ?thesis using True
    by (auto simp: hub_log_def Let_def token_request_def head_request_def basic_if_set_def map_eq_Cons_conv
        split: if_splits)
next
  case False
  obtain u p where cr: "credsFor cfg host = (u, p)" by fastforce
  from False HeadDigest_log [OF assms(1,2)] have g: "generic_log env cfg host url l" by (simp add: url_def)
  then show ?thesis unfolding generic_log_def
  proof (elim disjE exE conjE)
    fix r l1
    assume l: "l = (head_request url NoAuth, Inr r) # l1" "hp_StatusCode r = 401"
      "challenged env cfg host url (hp_WwwAuthenticate r) (map fst l1)"
    then show ?thesis using False
      by (auto simp: challenged_def cr token_request_def head_request_def basic_if_set_def map_eq_Cons_conv
          split: if_splits)
  qed (auto simp: False head_request_def)
qed

theorem registry_credentials_contained_witness:
  "\<exists>s' l. HeadDigest (recorded demo_registry_env) demo_credentials ''ghcr.io/o/app:1'' ((), []) =
      (Inr ''sha256:new'', s', l) \<and> length l \<le> 3 \<and>
    (\<exists>(q, a) \<in> set l. hq_Auth q = BasicAuth ''token'' ''tok'') \<and>
    (\<forall>(q, a) \<in> set l. \<forall>u p. hq_Auth q = BasicAuth u p \<longrightarrow> (u, p) = (''token'', ''tok''))"
proof -
  note r = registry_credentials_contained [OF demo_HeadDigest demo_parse]
  have c: "credsFor demo_credentials ''ghcr.io'' = (''token'', ''tok'')"
    by (simp add: credsFor_def hubHost_def ghcrHost_def demo_credentials_def)
  show ?thesis unfolding demo_HeadDigest using r unfolding c
    by (simp add: head_request_def)
qed

text \<open>A digest that \<open>HeadDigest\<close> returns is never empty and is the one the image's registry gave, with
  status 200, to the last request, a HEAD of the manifest of the image's tag.\<close>

theorem head_digest_from_registry:
  assumes "HeadDigest (recorded env) cfg img (s, []) = (Inr d, s', l)" and "parseImageRef img = (host, name, tag)"
  shows "d \<noteq> [] \<and> (\<exists>l0 q r. l = l0 @ [(q, Inr r)] \<and> hp_StatusCode r = 200 \<and> hp_Digest r = d \<and>
    hq_Method q = ''HEAD'' \<and>
    hq_URL q = manifest_url (if host = hubHost then dockerHubRegistry else ''https://'' @ host) name tag)"
proof -
  have "answered (manifest_url (if host = hubHost then dockerHubRegistry else ''https://'' @ host) name tag) l (Inr d)"
    using HeadDigest_log [OF assms] by (simp split: if_splits)
  then show ?thesis by (force simp: answered_def head_request_def)
qed

theorem head_digest_from_registry_witness:
  "\<exists>l0 q r. snd (snd (HeadDigest (recorded demo_registry_env) demo_credentials ''ghcr.io/o/app:1'' ((), []))) =
      l0 @ [(q, Inr r)] \<and> hp_Digest r = ''sha256:new''"
  using head_digest_from_registry [OF demo_HeadDigest demo_parse] unfolding demo_HeadDigest by auto

lemma parse_print_challenge:
  assumes "plain_value realm" "realm \<noteq> []" "plain_value service"
    and "Split (quoted_param ''scope'' scope) CHR '','' = parts"
    and "challenge_loop parts realm (fmupd ''service'' service fmempty) = (realm, params)"
  shows "parseBearerChallenge quote (print_challenge realm service scope) = Inr (realm, params)"
proof -
  let ?r = "quoted_param ''realm'' realm" and ?s = "quoted_param ''service'' service"
  have "CHR '','' \<notin> set ?r" "CHR '','' \<notin> set ?s"
    using assms(1,3) by (auto simp: quoted_param_def plain_value_def)
  then have "Split (?r @ '','' @ ?s @ '','' @ quoted_param ''scope'' scope) CHR '','' = ?r # ?s # parts"
    using Split_append [of "CHR '',''" ?r] Split_append [of "CHR '',''" ?s] assms(4) by simp
  moreover have "CutPrefix (print_challenge realm service scope) ''Bearer '' =
      (?r @ '','' @ ?s @ '','' @ quoted_param ''scope'' scope, True)"
    by (simp add: CutPrefix_def print_challenge_def)
  moreover have "challenge_loop (?r # ?s # parts) [] fmempty = (realm, params)"
    using assms(1,3,5) by (simp add: challenge_loop_quoted no_space_end_def plain_value_def del: challenge_loop.simps)
  ultimately show ?thesis using assms(2) by (simp add: parseBearerChallenge_def)
qed

lemma challenge_loop_scope:
  assumes "plain_value scope"
  shows "challenge_loop [quoted_param ''scope'' scope] realm params = (realm, fmupd ''scope'' scope params)"
proof -
  have "no_space_end (CHR ''s'')" by (simp add: no_space_end_def)
  from challenge_loop_quoted [OF _ this, of "''scope''" "''cope''" scope "[]"] assms show ?thesis
    by (simp add: plain_value_def)
qed

lemma challenge_loop_half:
  assumes "plain_value scope"
  shows "challenge_loop [''scope='' @ CHR 0x22 # scope @ '':pull'', ''push'' @ [CHR 0x22]] realm params =
    (realm, fmupd ''scope'' (scope @ '':pull'') params)"
proof -
  have n: "no_space_end (CHR ''s'')" "no_space_end (CHR ''l'')" "no_space_end (CHR ''p'')" "no_space_end (CHR 0x22)"
    by (simp_all add: no_space_end_def)
  have t: "TrimSpace (''scope='' @ CHR 0x22 # scope @ '':pull'') = ''scope'' @ CHR ''='' # CHR 0x22 # scope @ '':pull''"
    using TrimSpace_id [OF n(1,2), of "''cope='' @ CHR 0x22 # scope @ '':pul''"] by simp
  have "TrimSpace (''push'' @ [CHR 0x22]) = ''push'' @ [CHR 0x22]"
    using TrimSpace_id [OF n(3,4), of "''ush''"] by simp
  then have "challenge_loop [''push'' @ [CHR 0x22]] realm params = (realm, params)" for params
    by (subst challenge_loop_skip) simp_all
  moreover have "Trim1 (CHR 0x22 # scope @ '':pull'') CHR 0x22 = scope @ '':pull''"
    using assms by (intro Trim1_half_quoted) (simp add: plain_value_def)
  ultimately show ?thesis
    using Cut_append [of "CHR ''=''" "''scope''"] unfolding challenge_loop.simps(2) [of "''scope='' @ CHR 0x22 # scope @ '':pull''"] t
    by (simp del: challenge_loop.simps append_Cons)
qed

text \<open>C35: A Bearer challenge as registries print it, whose values contain no comma and no quote, is read
  back: the realm, the service and the scope.  A scope that contains a comma, such as
  \<open>repository:app:pull,push\<close>, is cut at the comma.\<close>

theorem bearer_challenge_roundtrip:
  assumes "plain_value realm" and "realm \<noteq> []" and "plain_value service" and "plain_value scope"
  shows "parseBearerChallenge quote (print_challenge realm service scope) =
      Inr (realm, fmupd ''scope'' scope (fmupd ''service'' service fmempty)) \<and>
    parseBearerChallenge quote (print_challenge realm service (scope @ '':pull,push'')) =
      Inr (realm, fmupd ''scope'' (scope @ '':pull'') (fmupd ''service'' service fmempty))"
proof
  have "Split (quoted_param ''scope'' scope) CHR '','' = [quoted_param ''scope'' scope]"
    using assms(4) by (intro Split_single) (auto simp: quoted_param_def plain_value_def)
  from parse_print_challenge [OF assms(1-3) this challenge_loop_scope [OF assms(4)]]
  show "parseBearerChallenge quote (print_challenge realm service scope) =
      Inr (realm, fmupd ''scope'' scope (fmupd ''service'' service fmempty))" .
next
  let ?half = "''scope='' @ CHR 0x22 # scope @ '':pull''"
  have "Split (quoted_param ''scope'' (scope @ '':pull,push'')) CHR '','' = [?half, ''push'' @ [CHR 0x22]]"
    using Split_append [of "CHR '',''" ?half "''push'' @ [CHR 0x22]"] assms(4)
    by (simp add: quoted_param_def plain_value_def)
  from parse_print_challenge [OF assms(1-3) this challenge_loop_half [OF assms(4)]]
  show "parseBearerChallenge quote (print_challenge realm service (scope @ '':pull,push'')) =
      Inr (realm, fmupd ''scope'' (scope @ '':pull'') (fmupd ''service'' service fmempty))" .
qed

theorem bearer_challenge_roundtrip_witness:
  "parseBearerChallenge (\<lambda>s. s) (print_challenge ''https://ghcr.io/token'' ''ghcr.io'' ''repository:o/app:pull'') =
     Inr (''https://ghcr.io/token'',
       fmupd ''scope'' ''repository:o/app:pull'' (fmupd ''service'' ''ghcr.io'' fmempty))"
  using bearer_challenge_roundtrip [of "''https://ghcr.io/token''" "''ghcr.io''" "''repository:o/app:pull''" "\<lambda>s. s"]
  by (simp add: plain_value_def)

text \<open>The scheme of a challenge is compared without regard to case, as HTTP asks for, but the
  challenge is then only parsed when it is spelled \<open>Bearer\<close>: any other spelling fails without
  a request, and so the image is never checked.\<close>

theorem challenge_scheme_case:
  assumes "ToLower (fst (Cut wwwAuth CHR '' '')) = ''bearer''" and "\<not> prefix ''Bearer '' wwwAuth"
  shows "authenticatedHead env url host name wwwAuth username password s =
    (Inl (''bearer token for '' @ host @ ''/'' @ name @ '': expected Bearer challenge, got '' @ re_quote env wwwAuth), s)"
proof -
  obtain scheme rest ok where "Cut wwwAuth CHR '' '' = (scheme, rest, ok)" by (cases "Cut wwwAuth CHR '' ''")
  with assms show ?thesis
    by (simp add: authenticatedHead_def wwwBearerToken_def parseBearerChallenge_def CutPrefix_def)
qed

theorem challenge_scheme_case_witness:
  "fst (authenticatedHead demo_registry_env [] ''ghcr.io'' ''o/app''
      (''bearer realm='' @ [CHR 0x22] @ ''https://ghcr.io/token'' @ [CHR 0x22]) [] [] ()) \<noteq> Inr d"
proof -
  let ?c = "''bearer realm='' @ [CHR 0x22] @ ''https://ghcr.io/token'' @ [CHR 0x22]"
  have "fst (Cut ?c CHR '' '') = ''bearer''" "ToLower ''bearer'' = ''bearer''" "\<not> prefix ''Bearer '' ?c"
    by (simp add: Cut_def, code_simp, simp)
  then show ?thesis by (subst challenge_scheme_case) simp_all
qed

end
