(* ===== verification/Config.thy ===== *)
theory Config
  imports Registry_Client Docker_Client
begin

text \<open>
  The configuration, \<open>config/config.go\<close>, and the two places of \<open>cmd/dockwatch/main.go\<close> that hand the
  registry credentials on.  The environment is a map, read after \<open>godotenv.Load\<close> (a dependency that may
  have added entries from a file); a variable that is not set reads as the empty string.  The parser
  of durations is an argument, as in the health monitor.
\<close>

section \<open>Definitions\<close>

record config =
  cf_Addr :: string
  cf_DockerHost :: string
  cf_LogLevel :: string
  cf_RegistryCron :: string
  cf_HealthGrace :: int
  cf_DryRun :: bool
  cf_WebhookSecret :: string
  cf_GitHubToken :: string
  cf_HistoryDBPath :: string
  cf_HistoryDir :: string
  cf_AgentToken :: string
  cf_DockerHubUsername :: string
  cf_DockerHubPassword :: string
  cf_GHCRToken :: string
  cf_RegistryUsername :: string
  cf_RegistryPassword :: string

type_synonym environment = "(string, string) fmap"

abbreviation Getenv :: "environment \<Rightarrow> string \<Rightarrow> string" where
  "Getenv env key \<equiv> map_get env key"

definition getEnv :: "environment \<Rightarrow> string \<Rightarrow> string \<Rightarrow> string" where
  "getEnv env key dflt = (let v = Getenv env key in if v \<noteq> [] then v else dflt)"

definition getDuration :: "(string \<Rightarrow> int option) \<Rightarrow> environment \<Rightarrow> string \<Rightarrow> int \<Rightarrow> int" where
  "getDuration parseDuration env key dflt =
     (let v = Getenv env key in
      if v = [] then dflt
      else case parseDuration v of None \<Rightarrow> dflt | Some d \<Rightarrow> d)"

definition getBool :: "environment \<Rightarrow> string \<Rightarrow> bool \<Rightarrow> bool" where
  "getBool env key dflt =
     (let v = Getenv env key in
      if v = [] then dflt else v = ''true'' \<or> v = ''1'' \<or> v = ''yes'')"

definition Load_config :: "(string \<Rightarrow> int option) \<Rightarrow> environment \<Rightarrow> config" where
  "Load_config parseDuration env =
     (let ghcrToken = Getenv env ''DOCKWATCH_GHCR_TOKEN'';
          ghcrToken = (if ghcrToken = [] then Getenv env ''GITHUB_TOKEN'' else ghcrToken)
      in \<lparr>cf_Addr = getEnv env ''DOCKWATCH_ADDR'' '':3010'',
          cf_DockerHost = getEnv env ''DOCKWATCH_DOCKER_HOST'' [],
          cf_LogLevel = getEnv env ''DOCKWATCH_LOG_LEVEL'' ''info'',
          cf_RegistryCron = getEnv env ''DOCKWATCH_REGISTRY_CRON'' ''0 0 4 * * *'',
          cf_HealthGrace = getDuration parseDuration env ''DOCKWATCH_HEALTH_GRACE'' (30 * second_ns),
          cf_DryRun = getBool env ''DOCKWATCH_DRY_RUN'' False,
          cf_WebhookSecret = getEnv env ''DOCKWATCH_WEBHOOK_SECRET'' [],
          cf_GitHubToken = getEnv env ''GITHUB_TOKEN'' [],
          cf_HistoryDBPath = getEnv env ''DOCKWATCH_HISTORY_DB'' ''./data/dockwatch.db'',
          cf_HistoryDir = getEnv env ''DOCKWATCH_HISTORY_DIR'' ''./data/history'',
          cf_AgentToken = getEnv env ''DOCKWATCH_AGENT_TOKEN'' [],
          cf_DockerHubUsername = getEnv env ''DOCKWATCH_DOCKERHUB_USERNAME'' [],
          cf_DockerHubPassword = getEnv env ''DOCKWATCH_DOCKERHUB_PASSWORD'' [],
          cf_GHCRToken = ghcrToken,
          cf_RegistryUsername = getEnv env ''DOCKWATCH_REGISTRY_USERNAME'' [],
          cf_RegistryPassword = getEnv env ''DOCKWATCH_REGISTRY_PASSWORD'' []\<rparr>)"

text \<open>The credentials function \<open>main\<close> gives the Docker client, a switch on the host.\<close>

definition main_credsFor :: "config \<Rightarrow> string \<Rightarrow> string \<times> string" where
  "main_credsFor cfg host =
     (if host = ''ghcr.io'' \<and> cf_GHCRToken cfg \<noteq> [] then (''token'', cf_GHCRToken cfg)
      else if host = ''registry-1.docker.io'' then (cf_DockerHubUsername cfg, cf_DockerHubPassword cfg)
      else (cf_RegistryUsername cfg, cf_RegistryPassword cfg))"

text \<open>The configuration \<open>main\<close> gives the registry client.\<close>

definition main_registry :: "config \<Rightarrow> registry_config" where
  "main_registry cfg =
     \<lparr>rg_DockerHubUsername = cf_DockerHubUsername cfg, rg_DockerHubPassword = cf_DockerHubPassword cfg,
      rg_GHCRToken = cf_GHCRToken cfg, rg_RegistryUsername = cf_RegistryUsername cfg,
      rg_RegistryPassword = cf_RegistryPassword cfg\<rparr>"

section \<open>Properties\<close>

lemma main_credsFor_eq: "main_credsFor cfg = credsFor (main_registry cfg)"
  by (rule ext) (simp add: main_credsFor_def credsFor_def main_registry_def hubHost_def ghcrHost_def)

text \<open>An update pulls an image with the credentials with which the registry client has looked its
  digest up, unless the image names Docker Hub by its alias \<open>docker.io\<close>: then the Docker Hub account
  is not used and Docker Hub is sent the credentials meant for other registries.\<close>

theorem pull_uses_lookup_credentials:
  "PullImage cli dryRun (Some (main_credsFor cfg)) ref d =
   PullImage cli dryRun (Some (\<lambda>_.
     if registryHost ref = dockerIo then (cf_RegistryUsername cfg, cf_RegistryPassword cfg)
     else credsFor (main_registry cfg) (fst (parseImageRef ref)))) ref d"
proof -
  have "credsFor (main_registry cfg) (registryHost ref) =
      (if registryHost ref = dockerIo then (cf_RegistryUsername cfg, cf_RegistryPassword cfg)
       else credsFor (main_registry cfg) (fst (parseImageRef ref)))"
    by (simp add: parse_host_registryHost)
      (simp add: credsFor_def main_registry_def dockerIo_def hubHost_def ghcrHost_def)
  then show ?thesis by (simp add: PullImage_def main_credsFor_eq)
qed

text \<open>C28: The daemon is sent exactly the configured credentials.  For an image whose registry has some, a pull
  passes the daemon a text which, decoded as base 64 and JSON, names the user and the password that \<open>main\<close>
  looks up for the image's host, byte for byte, whatever quotes, control characters, angle brackets or
  separators they contain, as long as they are well-formed UTF-8; without credentials it passes none.\<close>

theorem pull_sends_credentials:
  assumes "main_credsFor cfg (registryHost ref) = (user, pass)" and "valid_utf8 user" and "valid_utf8 pass"
  shows "\<exists>auth. PullImage cli False (Some (main_credsFor cfg)) ref d =
      (case sdk_ImagePull cli ref auth d of
         (Inl e, d') \<Rightarrow> (Some (''pull '' @ ref @ '': '' @ e), d')
       | (Inr (Some e), d') \<Rightarrow> (Some (''pull '' @ ref @ '': drain: '' @ e), d')
       | (Inr None, d') \<Rightarrow> (None, d')) \<and>
    (if user = [] \<and> pass = [] then auth = []
     else read_auth auth = [(''username'', user), (''password'', pass)])"
proof -
  have "read_auth (encodeAuth user pass) = [(''username'', user), (''password'', pass)]"
    by (rule read_auth_encodeAuth; rule json_read_chars; fact)
  then show ?thesis using assms(1)
    by (intro exI [of _ "if user \<noteq> [] \<or> pass \<noteq> [] then encodeAuth user pass else []"]) (simp add: PullImage_def)
qed

text \<open>A password with a quote, a control character and a non-ASCII letter.\<close>

definition demo_credentials :: config where
  "demo_credentials = (Load_config (\<lambda>_. None) fmempty)\<lparr>cf_RegistryUsername := ''ci'',
     cf_RegistryPassword := [CHR 0x22, CHR 0x0A, CHR 0xC3, CHR 0xA9, CHR ''<'']\<rparr>"

theorem pull_sends_credentials_witness:
  "\<exists>auth. fst (PullImage demo_sdk False (Some (main_credsFor demo_credentials)) ''reg.io/web:1'' demo_start) =
      (case fst (sdk_ImagePull demo_sdk ''reg.io/web:1'' auth demo_start) of
         Inl e \<Rightarrow> Some (''pull reg.io/web:1: '' @ e)
       | Inr (Some e) \<Rightarrow> Some (''pull reg.io/web:1: drain: '' @ e)
       | Inr None \<Rightarrow> None) \<and>
    read_auth auth = [(''username'', ''ci''), (''password'', [CHR 0x22, CHR 0x0A, CHR 0xC3, CHR 0xA9, CHR ''<''])]"
proof -
  have h: "registryHost ''reg.io/web:1'' = ''reg.io''" by code_simp
  have c: "main_credsFor demo_credentials (registryHost ''reg.io/web:1'') =
      (''ci'', [CHR 0x22, CHR 0x0A, CHR 0xC3, CHR 0xA9, CHR ''<''])"
    by (simp add: h main_credsFor_def demo_credentials_def)
  have "valid_utf8 ''ci''" "valid_utf8 [CHR 0x22, CHR 0x0A, CHR 0xC3, CHR 0xA9, CHR ''<'']" by code_simp+
  from pull_sends_credentials [OF c this, of demo_sdk demo_start] obtain auth where
    p: "PullImage demo_sdk False (Some (main_credsFor demo_credentials)) ''reg.io/web:1'' demo_start =
      (case sdk_ImagePull demo_sdk ''reg.io/web:1'' auth demo_start of
         (Inl e, d') \<Rightarrow> (Some (''pull '' @ ''reg.io/web:1'' @ '': '' @ e), d')
       | (Inr (Some e), d') \<Rightarrow> (Some (''pull '' @ ''reg.io/web:1'' @ '': drain: '' @ e), d')
       | (Inr None, d') \<Rightarrow> (None, d'))"
    and a: "if ''ci'' = [] \<and> [CHR 0x22, CHR 0x0A, CHR 0xC3, CHR 0xA9, CHR ''<''] = [] then auth = []
      else read_auth auth = [(''username'', ''ci''), (''password'', [CHR 0x22, CHR 0x0A, CHR 0xC3, CHR 0xA9, CHR ''<''])]"
    by (elim exE conjE)
  from a show ?thesis
    by (intro exI [of _ auth]) (simp add: p split: prod.split sum.split option.split)
qed

text \<open>What a variable's value decides.\<close>

lemma getBool_cases:
  "getBool env key dflt \<longleftrightarrow>
     (Getenv env key = [] \<and> dflt) \<or> Getenv env key \<in> {''true'', ''1'', ''yes''}"
  by (auto simp: getBool_def Let_def)

lemma map_get_fmap_of_list:
  "map_get (fmap_of_list ((k, v) # kvs)) k' = (if k' = k then v else map_get (fmap_of_list kvs) k')"
  by (simp add: map_get_def fmlookup_of_list)

text \<open>A dry run must be asked for in one of three exact spellings: with any other value, \<open>TRUE\<close> or
  \<open>on\<close> among them, the Docker client the server is started with stops containers for real.\<close>

theorem dry_run_spellings:
  assumes "Getenv env ''DOCKWATCH_DRY_RUN'' \<notin> {''true'', ''1'', ''yes''}"
  shows "sc_Stop (Client cli (cf_DryRun (Load_config pd env)) creds) = sdk_ContainerStop cli \<and>
    sc_Remove (Client cli (cf_DryRun (Load_config pd env)) creds) = sdk_ContainerRemove cli"
proof -
  have "\<not> cf_DryRun (Load_config pd env)" using assms by (simp add: Load_config_def getBool_cases Let_def)
  then show ?thesis by (simp add: Client_def StopContainer_def RemoveContainer_def fun_eq_iff)
qed

theorem dry_run_spellings_witness:
  "sc_Stop (Client demo_sdk (cf_DryRun (Load_config (\<lambda>_. None)
      (fmap_of_list [(''DOCKWATCH_DRY_RUN'', ''TRUE'')]))) None) = sdk_ContainerStop demo_sdk"
  using dry_run_spellings [of "fmap_of_list [(''DOCKWATCH_DRY_RUN'', ''TRUE'')]" demo_sdk "\<lambda>_. None" None]
  by (simp add: map_get_fmap_of_list)

end
