(* ===== verification/Event_Stream.thy ===== *)
theory Event_Stream
  imports Watcher
begin

text \<open>
  How Docker's events reach the watcher: the goroutine of \<open>StreamEvents\<close>
  (\<open>internal/dockerclient/scoped.go\<close>), which projects the SDK's messages and hands them over an
  unbuffered channel, and the loop of \<open>Watcher.Run\<close> (\<open>internal/watcher/watcher.go\<close>), which takes
  them.  The goroutine holds at most one event at a time; a handover is one step of both.  A receive
  from the closed channel yields the event with all fields empty.
\<close>

section \<open>Definitions\<close>

record stream =
  es_held :: "docker_event option"
  es_closed :: bool

definition StreamEvents :: stream where
  "StreamEvents = \<lparr>es_held = None, es_closed = False\<rparr>"

text \<open>A message is taken from the SDK only when the previous one has been handed over.\<close>

definition stream_message :: "event_message \<Rightarrow> stream \<Rightarrow> stream" where
  "stream_message m s =
     (if es_closed s \<or> es_held s \<noteq> None then s else s\<lparr>es_held := Some (to_event m)\<rparr>)"

text \<open>The SDK closed its channel, or the context was cancelled; the second also ends a handover.\<close>

definition stream_end :: "bool \<Rightarrow> stream \<Rightarrow> stream" where
  "stream_end cancelled s =
     (if es_held s \<noteq> None \<and> \<not> cancelled then s else \<lparr>es_held = None, es_closed = True\<rparr>)"

definition zero_event :: docker_event where
  "zero_event = \<lparr>dv_Type = [], dv_Action = [], dv_ID = [], dv_Name = [], dv_Image = []\<rparr>"

definition take_event :: "stream \<Rightarrow> docker_event option \<times> stream" where
  "take_event s =
     (case es_held s of
        Some ev \<Rightarrow> (Some ev, s\<lparr>es_held := None\<rparr>)
      | None \<Rightarrow> (if es_closed s then Some zero_event else None, s))"

text \<open>The watcher's loop: the case its \<open>select\<close> takes.  \<open>rn_returned\<close> is what \<open>Run\<close> has returned.\<close>

datatype select_case = ContextDone error | ErrorReceived "error option" | EventReceived "string list" "nat \<Rightarrow> time"

record 'd watcher_run =
  rn_stream :: stream
  rn_world :: "'d world"
  rn_returned :: "error option"

definition watcher_select :: "'d scoped \<Rightarrow> select_case \<Rightarrow> 'd watcher_run \<Rightarrow> panic + 'd watcher_run" where
  "watcher_select docker c r =
     (if rn_returned r \<noteq> None then Inr r
      else
        (case c of
           ContextDone e \<Rightarrow> Inr (r\<lparr>rn_returned := Some e\<rparr>)
         | ErrorReceived None \<Rightarrow> Inr r
         | ErrorReceived (Some e) \<Rightarrow> Inr (r\<lparr>rn_returned := Some e\<rparr>)
         | EventReceived order now \<Rightarrow>
             (case take_event (rn_stream r) of
                (None, s) \<Rightarrow> Inr r
              | (Some ev, s) \<Rightarrow>
                  (case handleEvent docker order now ev (rn_world r) of
                     Inl p \<Rightarrow> Inl p
                   | Inr w \<Rightarrow> Inr (r\<lparr>rn_stream := s, rn_world := w\<rparr>)))))"

datatype stream_op = Message event_message | StreamEnd bool | Select select_case

definition run_watcher :: "'d scoped \<Rightarrow> 'd watcher_run \<Rightarrow> stream_op \<Rightarrow> panic + 'd watcher_run" where
  "run_watcher docker r e =
     (case e of
        Message m \<Rightarrow> Inr (r\<lparr>rn_stream := stream_message m (rn_stream r)\<rparr>)
      | StreamEnd cancelled \<Rightarrow> Inr (r\<lparr>rn_stream := stream_end cancelled (rn_stream r)\<rparr>)
      | Select c \<Rightarrow> watcher_select docker c r)"

section \<open>The order of events\<close>

definition held_events :: "'d watcher_run \<Rightarrow> docker_event list" where
  "held_events r = (case es_held (rn_stream r) of Some ev \<Rightarrow> [ev] | None \<Rightarrow> [])"

definition accepted_events :: "'d watcher_run \<Rightarrow> stream_op \<Rightarrow> docker_event list" where
  "accepted_events r e =
     (case e of
        Message m \<Rightarrow> if es_closed (rn_stream r) \<or> es_held (rn_stream r) \<noteq> None then [] else [to_event m]
      | _ \<Rightarrow> [])"

definition run_inv :: "'d watcher_run \<Rightarrow> bool" where
  "run_inv r \<longleftrightarrow> world_inv (rn_world r)"

lemma run_watcher_safe:
  assumes "run_inv r"
  shows "\<exists>r'. run_watcher docker r e = Inr r' \<and> run_inv r'"
proof (cases e)
  case (Select c)
  show ?thesis
  proof (cases c)
    case (EventReceived order now)
    obtain x s where t: "take_event (rn_stream r) = (x, s)" by fastforce
    show ?thesis
    proof (cases "rn_returned r = None \<and> x \<noteq> None")
      case True
      then obtain ev where x: "x = Some ev" by auto
      obtain w where "handleEvent docker order now ev (rn_world r) = Inr w" "world_inv w"
        using handleEvent_safe [of "rn_world r" docker order now ev] assms by (auto simp: run_inv_def)
      then have "run_watcher docker r e = Inr (r\<lparr>rn_stream := s, rn_world := w\<rparr>)" "run_inv (r\<lparr>rn_stream := s, rn_world := w\<rparr>)"
        using True t x Select EventReceived by (simp_all add: run_watcher_def watcher_select_def run_inv_def)
      then show ?thesis by blast
    next
      case False
      then have "run_watcher docker r e = Inr r"
        using t Select EventReceived by (auto simp: run_watcher_def watcher_select_def)
      with assms show ?thesis by simp
    qed
  next
    case (ErrorReceived x)
    with assms Select show ?thesis by (cases x) (auto simp: run_watcher_def watcher_select_def run_inv_def)
  qed (use assms Select in \<open>auto simp: run_watcher_def watcher_select_def run_inv_def\<close>)
qed (use assms in \<open>auto simp: run_watcher_def run_inv_def\<close>)

interpretation event_stream: safe_machine "run_watcher docker" run_inv for docker
  by unfold_locales (rule run_watcher_safe)

lemma zero_event_ignored: "handleEvent docker order now zero_event w = Inr w"
  by (simp add: handleEvent_def zero_event_def)

text \<open>Handling a list of events, each with the order in which the store is gone through and the clock.\<close>

definition handle_all ::
  "'d scoped \<Rightarrow> (string list \<times> (nat \<Rightarrow> time) \<times> docker_event) list \<Rightarrow> 'd world \<Rightarrow> panic + 'd world" where
  "handle_all docker hs w = run_steps (\<lambda>w (order, now, ev). handleEvent docker order now ev w) w hs"

definition received_as :: "string list \<times> (nat \<Rightarrow> time) \<times> docker_event \<Rightarrow> stream_op" where
  "received_as h = Select (EventReceived (fst h) (fst (snd h)))"

lemma run_watcher_handles:
  assumes "run_watcher docker r e = Inr r'"
  shows "\<exists>hs. handle_all docker hs (rn_world r) = Inr (rn_world r') \<and> subseq (map received_as hs) [e] \<and>
    (e = StreamEnd True \<or> held_events r @ accepted_events r e = map (\<lambda>h. snd (snd h)) hs @ held_events r')"
proof (cases "\<exists>order now ev. e = Select (EventReceived order now) \<and> rn_returned r = None \<and> es_held (rn_stream r) = Some ev")
  case True
  then obtain order now ev where e: "e = Select (EventReceived order now)" "rn_returned r = None"
    "es_held (rn_stream r) = Some ev" by blast
  with assms have "handleEvent docker order now ev (rn_world r) = Inr (rn_world r')" "held_events r' = []"
    by (auto simp: run_watcher_def watcher_select_def take_event_def held_events_def split: sum.splits)
  with e show ?thesis
    by (intro exI [of _ "[(order, now, ev)]"]) (simp add: handle_all_def received_as_def held_events_def accepted_events_def)
next
  case False
  have "rn_world r' = rn_world r \<and> (e = StreamEnd True \<or> held_events r @ accepted_events r e = held_events r')"
  proof (cases e)
    case (Select c)
    show ?thesis
    proof (cases c)
      case (ErrorReceived x)
      with assms Select show ?thesis
        by (cases x) (auto simp: run_watcher_def watcher_select_def accepted_events_def held_events_def split: if_splits)
    qed (use assms Select False in \<open>auto simp: run_watcher_def watcher_select_def accepted_events_def
        held_events_def take_event_def zero_event_ignored split: if_splits option.splits sum.splits\<close>)
  qed (use assms in \<open>auto simp: run_watcher_def stream_message_def stream_end_def accepted_events_def
      held_events_def split: if_splits option.splits\<close>)
  then show ?thesis by (intro exI [of _ "[]"]) (simp add: handle_all_def)
qed

lemma run_watcher_trace:
  assumes "run_steps (run_watcher docker) r ops = Inr r'" "StreamEnd True \<notin> set ops"
  shows "\<exists>hs. handle_all docker hs (rn_world r) = Inr (rn_world r') \<and> subseq (map received_as hs) ops \<and>
    held_events r @ observe accepted_events (run_watcher docker) r ops = map (\<lambda>h. snd (snd h)) hs @ held_events r'"
  using assms
proof (induction ops arbitrary: r)
  case Nil
  then show ?case by (intro exI [of _ "[]"]) (simp add: handle_all_def)
next
  case (Cons e ops)
  obtain r1 where r1: "run_watcher docker r e = Inr r1" "run_steps (run_watcher docker) r1 ops = Inr r'"
    using Cons.prems(1) by (rule run_steps_ConsE)
  obtain hs1 where h1: "handle_all docker hs1 (rn_world r) = Inr (rn_world r1)" "subseq (map received_as hs1) [e]"
    "held_events r @ accepted_events r e = map (\<lambda>h. snd (snd h)) hs1 @ held_events r1"
    using run_watcher_handles [OF r1(1)] Cons.prems(2) by auto
  obtain hs2 where h2: "handle_all docker hs2 (rn_world r1) = Inr (rn_world r')" "subseq (map received_as hs2) ops"
    "held_events r1 @ observe accepted_events (run_watcher docker) r1 ops = map (\<lambda>h. snd (snd h)) hs2 @ held_events r'"
    using Cons.IH [OF r1(2)] Cons.prems(2) by auto
  have "handle_all docker (hs1 @ hs2) (rn_world r) = Inr (rn_world r')"
    using h1(1) h2(1) by (simp add: handle_all_def run_steps_append)
  moreover have "subseq (map received_as (hs1 @ hs2)) (e # ops)"
    using list_emb_append_mono [OF h1(2) h2(2)] by simp
  moreover have "held_events r @ observe accepted_events (run_watcher docker) r (e # ops) =
      map (\<lambda>h. snd (snd h)) (hs1 @ hs2) @ held_events r'"
    using h1(3) h2(3) r1(1) by (metis append.assoc map_append observe.simps(2) sum.simps(6))
  ultimately show ?case by blast
qed

text \<open>C24: Until the context is cancelled the watcher handles every Docker event the stream has taken, in
  order and once, and never panics: what the run has made of the world is what \<open>handleEvent\<close> makes of it on those
  events one after the other, each in one of the loop's receives, but for at most one event that is on its way.
  After the stream has closed, the loop keeps receiving an empty event, which changes nothing, until an error or the
  context ends it.\<close>

theorem docker_events_in_order:
  fixes r :: "'d watcher_run"
  assumes "world_inv (rn_world r)" and "rn_stream r = StreamEvents" and "StreamEnd True \<notin> set ops"
  shows "\<exists>r' hs. run_steps (run_watcher docker) r ops = Inr r' \<and> world_inv (rn_world r') \<and>
    run_steps (\<lambda>w (order, now, ev). handleEvent docker order now ev w) (rn_world r) hs = Inr (rn_world r') \<and>
    subseq (map (\<lambda>(order, now, ev). Select (EventReceived order now)) hs) ops \<and>
    observe accepted_events (run_watcher docker) r ops = map (\<lambda>(order, now, ev). ev) hs @ held_events r' \<and>
    length (held_events r') \<le> 1 \<and>
    (es_closed (rn_stream r') \<and> es_held (rn_stream r') = None \<longrightarrow>
      run_watcher docker r' (Select (EventReceived order now)) = Inr r')"
proof -
  have i: "run_inv r" using assms(1) by (simp add: run_inv_def)
  obtain r' where r': "run_steps (run_watcher docker) r ops = Inr r'" "run_inv r'"
    using event_stream.run_safe [OF i] by blast
  have "held_events r = []" using assms(2) by (simp add: held_events_def StreamEvents_def)
  with run_watcher_trace [OF r'(1) assms(3)] obtain hs where hs:
    "handle_all docker hs (rn_world r) = Inr (rn_world r')" "subseq (map received_as hs) ops"
    "observe accepted_events (run_watcher docker) r ops = map (\<lambda>h. snd (snd h)) hs @ held_events r'" by auto
  have m: "map received_as hs = map (\<lambda>(order, now, ev). Select (EventReceived order now)) hs"
    "map (\<lambda>h. snd (snd h)) hs = map (\<lambda>(order, now, ev). ev) hs"
    by (simp_all add: received_as_def case_prod_beta)
  have "length (held_events r') \<le> 1" by (simp add: held_events_def split: option.split)
  moreover have "run_watcher docker r' (Select (EventReceived order now)) = Inr r'"
    if "es_closed (rn_stream r')" "es_held (rn_stream r') = None"
    using that by (simp add: run_watcher_def watcher_select_def take_event_def zero_event_ignored)
  moreover have "world_inv (rn_world r')" using r'(2) by (simp add: run_inv_def)
  ultimately show ?thesis using r'(1) hs [unfolded handle_all_def m]
    by (intro exI [of _ r'] exI [of _ hs] conjI impI) auto
qed

definition demo_message :: event_message where
  "demo_message = \<lparr>em_Type = ''container'', em_Action = ''destroy'', em_ActorID = ''c1'', em_Attributes = fmempty\<rparr>"

definition demo_stream_ops :: "stream_op list" where
  "demo_stream_ops = [Message demo_message, Message demo_message, Select (EventReceived [] (\<lambda>_. 1)), StreamEnd False]"

definition demo_watcher :: "demo_daemon watcher_run" where
  "demo_watcher = \<lparr>rn_stream = StreamEvents, rn_world = demo_world, rn_returned = None\<rparr>"

theorem docker_events_in_order_witness:
  "\<exists>r' hs. run_steps (run_watcher (demo_docker True)) demo_watcher demo_stream_ops = Inr r' \<and>
    run_steps (\<lambda>w (order, now, ev). handleEvent (demo_docker True) order now ev w) demo_world hs = Inr (rn_world r') \<and>
    observe accepted_events (run_watcher (demo_docker True)) demo_watcher demo_stream_ops =
      map (\<lambda>(order, now, ev). ev) hs @ held_events r'"
proof -
  have r: "world_inv (rn_world demo_watcher)" "rn_stream demo_watcher = StreamEvents" "rn_world demo_watcher = demo_world"
    "StreamEnd True \<notin> set demo_stream_ops"
    using demo_world_inv by (simp_all add: demo_watcher_def demo_stream_ops_def)
  from docker_events_in_order [OF r(1,2,4), of "demo_docker True"] show ?thesis unfolding r(3) by blast
qed

end
