(* ===== verification/Server.thy ===== *)
theory Server
  imports Executor Rollback Watcher Healthmon Poller Webhook Viewer Config Event_Stream "HOL-Library.Multiset"
begin

text \<open>
  The server as \<open>cmd/dockwatch/main.go\<close> puts it together: the log level, the containers the store is
  seeded with, the subscriptions the components make when their goroutines start, and the machine
  whose steps are the handlers of all components on the shared state.  Each component's \<open>Run\<close> is in
  its own goroutine, so handlers of different components come in any order.
\<close>

section \<open>Start-up\<close>

datatype log_level = LevelDebug | LevelInfo | LevelWarn | LevelError

definition main_log_level :: "config \<Rightarrow> log_level" where
  "main_log_level cfg =
     (if cf_LogLevel cfg = ''debug'' then LevelDebug
      else if cf_LogLevel cfg = ''warn'' then LevelWarn
      else if cf_LogLevel cfg = ''error'' then LevelError
      else LevelInfo)"

text \<open>Seeding the store; the log line of each container slices its id.\<close>

fun seed_loop :: "container_summary list \<Rightarrow> store \<Rightarrow> panic + store" where
  "seed_loop [] st = Inr st"
| "seed_loop (c # cs) st =
     (let name = (case sm_Names c of [] \<Rightarrow> [] | n # _ \<Rightarrow> TrimPrefix n ''/'');
          (_, st) = Upsert (sm_ID c) name (sm_Image c) (sm_Labels c) st
      in case checked_slice_to (sm_ID c) 12 of
           Inl p \<Rightarrow> Inl p
         | Inr _ \<Rightarrow> seed_loop cs st)"

definition seed_store :: "'d scoped \<Rightarrow> 'd \<Rightarrow> store \<Rightarrow> panic + store" where
  "seed_store docker d st =
     (case sc_List docker d of
        Inl e \<Rightarrow> Inr st
      | Inr existing \<Rightarrow> seed_loop existing st)"

text \<open>
  The topics the components subscribe to when they start: executor, health monitor, rollback engine,
  and the notifier's five.  \<open>topics\<close> below is the order in which the goroutines get to it.
\<close>

definition component_topics :: "topic list" where
  "component_topics = [TopicImageUpdated, TopicUpdateApplied, TopicContainerUnhealthy] @ notifier_topics"

definition start_world ::
  "'d scoped \<Rightarrow> topic list \<Rightarrow> hist \<Rightarrow> manager \<Rightarrow> fs \<Rightarrow> 'd \<Rightarrow> panic + 'd world" where
  "start_world docker topics h m files d =
     (case seed_store docker d New_store of
        Inl p \<Rightarrow> Inl p
      | Inr st \<Rightarrow>
          Inr \<lparr>w_bus = snd (run_topics topics New_bus), w_store = st, w_jobs = NewRegistry, w_hist = h,
               w_config = m, w_fs = files, w_docker = d\<rparr>)"

section \<open>What the store starts with\<close>

definition seeded :: "container_summary \<Rightarrow> container_state" where
  "seeded c = \<lparr>cs_ID = sm_ID c, cs_Name = (case sm_Names c of [] \<Rightarrow> [] | n # _ \<Rightarrow> TrimPrefix n ''/''),
     cs_Image = sm_Image c, cs_Labels = sm_Labels c, cs_digestHistory = []\<rparr>"

lemma seed_loop_states:
  assumes "\<forall>c \<in> set cs. 12 \<le> length (sm_ID c)" "distinct (map sm_ID cs)" "store_inv st"
    "\<forall>c \<in> set cs. state_of st (sm_ID c) = None"
  shows "\<exists>st'. seed_loop cs st = Inr st' \<and> store_inv st' \<and>
    (\<forall>i. state_of st' i = (case find (\<lambda>c. sm_ID c = i) cs of Some c \<Rightarrow> Some (seeded c) | None \<Rightarrow> state_of st i))"
  using assms
proof (induction cs arbitrary: st)
  case (Cons c cs)
  let ?n = "case sm_Names c of [] \<Rightarrow> [] | n # _ \<Rightarrow> TrimPrefix n ''/''"
  let ?st = "snd (Upsert (sm_ID c) ?n (sm_Image c) (sm_Labels c) st)"
  have inv: "store_inv ?st" by (rule Upsert_inv [OF Cons.prems(3)])
  have up: "state_of ?st i = (if i = sm_ID c then Some (seeded c) else state_of st i)" for i
    using state_of_Upsert [OF Cons.prems(3), of "sm_ID c" ?n "sm_Image c" "sm_Labels c" i] Cons.prems(4)
    by (simp add: seeded_def)
  have fresh: "\<forall>c' \<in> set cs. state_of ?st (sm_ID c') = None"
    using Cons.prems(2,4) by (auto simp: up) (metis imageI)
  have s: "seed_loop (c # cs) st = seed_loop cs ?st"
    using Cons.prems(1) by (simp add: checked_slice_to_def case_prod_beta Let_def)
  obtain st' where st': "seed_loop cs ?st = Inr st'" "store_inv st'"
    "\<forall>i. state_of st' i = (case find (\<lambda>c. sm_ID c = i) cs of Some c \<Rightarrow> Some (seeded c) | None \<Rightarrow> state_of ?st i)"
    using Cons.IH [OF _ _ inv fresh] Cons.prems(1,2) by auto
  have "find (\<lambda>c'. sm_ID c' = sm_ID c) cs = None"
    using Cons.prems(2) by (auto simp: find_None_iff image_iff)
  with st' s show ?case by (auto simp: up split: option.split)
qed simp

section \<open>Who hears what\<close>

lemma run_topics_inv: "bus_inv b \<Longrightarrow> bus_inv (snd (run_topics ts b))"
  by (induction ts arbitrary: b) (simp_all add: case_prod_beta Let_def Subscribe_inv)

lemma run_topics_count:
  "length (subs_of (snd (run_topics ts b)) t) = length (subs_of b t) + count_list ts t"
  by (induction ts arbitrary: b) (simp_all add: case_prod_beta Let_def Subscribe_sel(1))

section \<open>All components on one state\<close>

text \<open>
  One step of the server: a handler of a component with what it was given, a component taking an event
  from its channel, a method of a job (a viewer reading its log), or the daemon changing by itself.
  The health monitor's step is a tick of its watch \<open>k\<close>.
\<close>

datatype 'd server_op =
    Execute "nat \<Rightarrow> time" "byte list" image_updated
  | RollBack "nat \<Rightarrow> time" container_unhealthy
  | Watch "string list" "nat \<Rightarrow> time" docker_event
  | HealthTick time nat monitor
  | Sweep "string \<Rightarrow> error + string" "nat \<Rightarrow> time" "string list"
  | Check time_io "string \<Rightarrow> error + string" string time "string list" svc_config
  | Hook "hook \<times> (nat \<Rightarrow> time) \<times> time \<times> byte list \<times> string list \<times> string list \<times> request"
  | Request api_call
  | TakeEvent addr
  | JobMethod addr job_op
  | Daemon 'd

record 'd server =
  sr_executor :: "'d executor"
  sr_docker :: "'d scoped"
  sr_webhook :: webhook
  sr_api :: api

definition server_step :: "'d server \<Rightarrow> 'd world \<Rightarrow> 'd server_op \<Rightarrow> panic + 'd world" where
  "server_step s w e =
     (case e of
        Execute now rand p \<Rightarrow> exec_step (sr_executor s) w (now, rand, p)
      | RollBack now p \<Rightarrow> handle_rollback (sr_docker s) now p w
      | Watch order now ev \<Rightarrow> watch_step (sr_docker s) w (order, now, ev)
      | HealthTick now k m \<Rightarrow> map_sum id snd (tick_watch (sr_docker s) now k m w)
      | Sweep head now order \<Rightarrow> poll head now order w
      | Check io head t now order svc \<Rightarrow> checkService io head t now order svc w
      | Hook ev \<Rightarrow> hook_step (sr_webhook s) w ev
      | Request c \<Rightarrow> api_step (sr_api s) w c
      | TakeEvent a \<Rightarrow> Inr (w\<lparr>w_bus := snd (bus_receive a (w_bus w))\<rparr>)
      | JobMethod a op \<Rightarrow> map_sum id (\<lambda>r. w\<lparr>w_jobs := r\<rparr>) (job_at a op (w_jobs w))
      | Daemon d \<Rightarrow> Inr (w\<lparr>w_docker := d\<rparr>))"

text \<open>The one thing the handlers do not survive.\<close>

definition digest_long_enough :: "'d server_op \<Rightarrow> bool" where
  "digest_long_enough e \<longleftrightarrow> (\<forall>now p. e = RollBack now p \<longrightarrow> 16 \<le> length (cu_AppliedDigest p))"

lemma tick_watch_safe:
  "world_inv w \<Longrightarrow> \<exists>m' w'. tick_watch docker now k m w = Inr (m', w') \<and> world_inv w'"
  by (auto simp: tick_watch_def publish_w_eq deliver_world_inv Let_def split: sum.split bool.split)

lemma server_step_safe:
  assumes "world_inv w" "digest_long_enough e"
  shows "\<exists>w'. server_step s w e = Inr w' \<and> world_inv w'"
proof (cases e)
  case (HealthTick now k m)
  with tick_watch_safe [OF assms(1), of "sr_docker s" now k m] show ?thesis by (auto simp: server_step_def)
next
  case (RollBack now p)
  with assms handle_rollback_safe [OF assms(1), of p] show ?thesis
    by (simp add: server_step_def digest_long_enough_def)
next
  case (JobMethod a op)
  with job_at_safe [OF world_invD(3) [OF assms(1)], of a op] show ?thesis
    by (auto simp: server_step_def world_inv_upd(1) assms(1))
next
  case (TakeEvent a)
  with assms(1) show ?thesis by (simp add: server_step_def world_inv_def bus_receive_inv)
qed (simp_all add: server_step_def assms(1) exec.step_safe watch.step_safe hooks.step_safe requests.step_safe
    poll_safe checkService_safe)

interpretation server: checked_machine "server_step s" world_inv digest_long_enough for s
  by unfold_locales (rule server_step_safe)

section \<open>Taking events\<close>

text \<open>What waits in the channel at address \<open>a\<close>.\<close>

definition inbox :: "'d world \<Rightarrow> addr \<Rightarrow> event list" where
  "inbox w a = ch_buf (bs_chans (w_bus w) a)"

lemma inbox_receive:
  "inbox w a = ev # evs \<Longrightarrow> fst (bus_receive a (w_bus w)) = Received ev"
  by (simp add: inbox_def bus_receive_def receive_def Let_def)

lemma take_events:
  "run_steps (server_step s) w (replicate n (TakeEvent a)) = Inr w' \<Longrightarrow> inbox w' a = drop n (inbox w a)"
proof (induction n arbitrary: w)
  case (Suc n)
  let ?w = "w\<lparr>w_bus := snd (bus_receive a (w_bus w))\<rparr>"
  have "inbox ?w a = drop 1 (inbox w a)"
    by (cases "inbox w a") (simp_all add: inbox_def bus_receive_def receive_def Let_def)
  with Suc.IH [of ?w] Suc.prems show ?case by (simp add: server_step_def)
qed simp

lemma deliver_updates_chan:
  "bs_chans (deliver_updates ps b) a =
     (if bus_listens b TopicImageUpdated a
      then fold offer (map (\<lambda>p. \<lparr>ev_Topic = TopicImageUpdated, ev_Payload = ImageUpdatedPayload p\<rparr>) ps) (bs_chans b a)
      else bs_chans b a)"
  by (induction ps arbitrary: b) (auto simp: deliver_chan bus_listens_def)

lemma inbox_updates:
  assumes "bus_listens b TopicImageUpdated a" "ch_buf (bs_chans b a) = []" "length ps \<le> ch_cap (bs_chans b a)"
  shows "ch_buf (bs_chans (deliver_updates ps b) a) =
    map (\<lambda>p. \<lparr>ev_Topic = TopicImageUpdated, ev_Payload = ImageUpdatedPayload p\<rparr>) ps"
  using assms by (simp add: deliver_updates_chan fold_offer_buf)

text \<open>The channels the components get at the start.\<close>

lemma run_topics_fresh:
  assumes "\<forall>a < bs_next b. ch_buf (bs_chans b a) = [] \<and> ch_cap (bs_chans b a) = 64"
  shows "\<forall>a < bs_next (snd (run_topics ts b)). ch_buf (bs_chans (snd (run_topics ts b)) a) = [] \<and>
    ch_cap (bs_chans (snd (run_topics ts b)) a) = 64"
  using assms
proof (induction ts arbitrary: b)
  case (Cons t ts)
  have "\<forall>a < bs_next (snd (Subscribe t b)). ch_buf (bs_chans (snd (Subscribe t b)) a) = [] \<and>
      ch_cap (bs_chans (snd (Subscribe t b)) a) = 64"
    using Cons.prems by (simp add: Subscribe_sel less_Suc_eq)
  from Cons.IH [OF this] show ?case by (simp add: case_prod_beta Let_def)
qed simp

lemma started_inbox:
  assumes "w_bus w = snd (run_topics topics New_bus)" "bus_inv (w_bus w)" "bus_listens (w_bus w) t a"
  shows "inbox w a = []" "ch_cap (bs_chans (w_bus w) a) = 64"
proof -
  have "a < bs_next (w_bus w)" using assms(2,3) by (auto simp: bus_listens_def dest: bus_invD(3))
  moreover have "\<forall>a < bs_next (snd (run_topics topics New_bus)).
      ch_buf (bs_chans (snd (run_topics topics New_bus)) a) = [] \<and> ch_cap (bs_chans (snd (run_topics topics New_bus)) a) = 64"
    by (rule run_topics_fresh) (simp add: New_bus_def)
  ultimately show "inbox w a = []" "ch_cap (bs_chans (w_bus w) a) = 64"
    by (simp_all add: inbox_def assms(1))
qed

section \<open>Properties\<close>

lemma start_world_eq:
  assumes "\<forall>c \<in> set cs. 12 \<le> length (sm_ID c)" "distinct (map sm_ID cs)" "sc_List docker d = Inr cs"
    "hist_inv h" "manager_inv m"
  shows "\<exists>w. start_world docker topics h m files d = Inr w \<and> world_inv w \<and>
    w_bus w = snd (run_topics topics New_bus) \<and> w_docker w = d \<and> w_config w = m \<and> w_jobs w = NewRegistry \<and>
    (\<forall>i. state_of (w_store w) i = map_option seeded (find (\<lambda>c. sm_ID c = i) cs))"
proof -
  obtain st where st: "seed_loop cs New_store = Inr st" "store_inv st"
    "\<forall>i. state_of st i = (case find (\<lambda>c. sm_ID c = i) cs of Some c \<Rightarrow> Some (seeded c) | None \<Rightarrow> None)"
    using seed_loop_states [OF assms(1,2) New_store_inv] by (auto simp: state_of_New cong: option.case_cong)
  have "state_of st i = map_option seeded (find (\<lambda>c. sm_ID c = i) cs)" for i
    using st(3) by (simp split: option.split)
  with st(1,2) assms(3-5) show ?thesis
    by (simp add: start_world_def seed_store_def world_inv_def run_topics_inv New_bus_inv NewRegistry_inv)
qed

text \<open>However the components' goroutines are scheduled, the server starts in a well-formed state in which
  exactly the containers Docker lists are tracked, each with its name, image and labels and with no digest, and
  every topic has the listeners it is meant for: one handler for detected updates, applied updates
  and unhealthy containers each, and the notifier for all five.\<close>

theorem server_starts:
  assumes "\<forall>c \<in> set cs. 12 \<le> length (sm_ID c)" and "distinct (map sm_ID cs)" and "sc_List docker d = Inr cs"
    and "hist_inv h" and "manager_inv m" and "mset topics = mset component_topics"
  shows "\<exists>w. start_world docker topics h m files d = Inr w \<and> world_inv w \<and>
    (\<forall>i. state_of (w_store w) i = map_option seeded (find (\<lambda>c. sm_ID c = i) cs)) \<and>
    (\<forall>t. length (subs_of (w_bus w) t) =
      (if t \<in> {TopicImageUpdated, TopicUpdateApplied, TopicContainerUnhealthy} then 2
       else if t \<in> {TopicUpdateSkipped, TopicRollbackDone} then 1 else 0))"
proof -
  obtain w where w: "start_world docker topics h m files d = Inr w" "world_inv w"
    "w_bus w = snd (run_topics topics New_bus)"
    "\<forall>i. state_of (w_store w) i = map_option seeded (find (\<lambda>c. sm_ID c = i) cs)"
    using start_world_eq [OF assms(1-5)] by blast
  have "count_list topics t = count_list component_topics t" for t
    using assms(6) by (metis count_mset)
  then have "length (subs_of (w_bus w) t) = (if t \<in> {TopicImageUpdated, TopicUpdateApplied, TopicContainerUnhealthy} then 2
       else if t \<in> {TopicUpdateSkipped, TopicRollbackDone} then 1 else 0)" for t
    by (auto simp: w(3) run_topics_count component_topics_def notifier_topics_def)
  with w show ?thesis by blast
qed

definition demo_listed :: container_summary where
  "demo_listed = \<lparr>sm_ID = ''0123456789ab'', sm_Names = [''/web''], sm_Image = ''web:1'', sm_Labels = fmempty\<rparr>"

definition demo_host :: "demo_daemon scoped" where
  "demo_host = (demo_docker True)\<lparr>sc_List := \<lambda>_. Inr [demo_listed]\<rparr>"

lemma demo_host_list:
  "sc_List demo_host demo_start = Inr [demo_listed]" "\<forall>c \<in> set [demo_listed]. 12 \<le> length (sm_ID c)"
  "distinct (map sm_ID [demo_listed])"
  by (simp_all add: demo_host_def demo_listed_def)

theorem server_starts_witness:
  "\<exists>w. start_world demo_host (rev component_topics) demo_hist demo_manager demo_fs demo_start = Inr w \<and> world_inv w \<and>
    map_option cs_Name (state_of (w_store w) ''0123456789ab'') = Some ''web'' \<and>
    length (subs_of (w_bus w) TopicImageUpdated) = 2"
proof -
  have "mset (rev component_topics) = mset component_topics" by simp
  from server_starts [OF demo_host_list(2,3,1) demo_hist_inv demo_manager_inv this, of demo_fs]
  obtain w where w: "start_world demo_host (rev component_topics) demo_hist demo_manager demo_fs demo_start = Inr w"
    "world_inv w" "\<forall>i. state_of (w_store w) i = map_option seeded (find (\<lambda>c. sm_ID c = i) [demo_listed])"
    "length (subs_of (w_bus w) TopicImageUpdated) = 2"
    by auto
  have "map_option cs_Name (state_of (w_store w) ''0123456789ab'') = Some ''web''"
    by (simp add: w(3) demo_listed_def seeded_def TrimPrefix_def)
  with w show ?thesis by blast
qed

lemma seed_loop_inv: "seed_loop cs st = Inr st' \<Longrightarrow> store_inv st \<Longrightarrow> store_inv st'"
proof (induction cs arbitrary: st)
  case (Cons c cs)
  then show ?case by (auto simp: Let_def Upsert_inv split: prod.splits sum.splits) (metis Upsert_inv snd_conv)
qed simp

lemma start_world_inv:
  assumes "start_world docker topics h m files d = Inr w" "hist_inv h" "manager_inv m"
  shows "world_inv w"
  using assms seed_loop_inv
  by (auto simp: start_world_def seed_store_def world_inv_def run_topics_inv New_bus_inv NewRegistry_inv New_store_inv
      split: sum.splits)

text \<open>From its start, whatever the handlers of all components are given and in whatever order they, the
  viewers and the Docker daemon take their steps, the server keeps its state well formed and no
  handler panics, except the rollback engine on an applied digest of fewer than 16 bytes.\<close>

theorem server_never_panics:
  assumes "start_world docker topics h m files d = Inr w" and "hist_inv h" and "manager_inv m"
    and "\<forall>e \<in> set steps. digest_long_enough e"
  shows "\<exists>w'. run_steps (server_step s) w steps = Inr w' \<and> world_inv w'"
  by (rule server.checked_run [OF start_world_inv [OF assms(1-3)] assms(4)])

definition demo_server :: "demo_daemon server" where
  "demo_server = \<lparr>sr_executor = demo_exec, sr_docker = demo_host, sr_webhook = demo_hook, sr_api = demo_api\<rparr>"

lemma demo_started:
  "\<exists>w. start_world demo_host component_topics demo_hist demo_manager demo_fs demo_start = Inr w"
  using start_world_eq [OF demo_host_list(2,3,1) demo_hist_inv demo_manager_inv] by blast

theorem server_never_panics_witness:
  "\<exists>w w'. start_world demo_host component_topics demo_hist demo_manager demo_fs demo_start = Inr w \<and>
    run_steps (server_step demo_server) w
      [Request (CallUpdate demo_head 3 (demo_request ''POST'' ''/api/update/0123456789ab'')),
       RollBack (\<lambda>_. 4) demo_broken, Daemon demo_start] = Inr w' \<and> world_inv w'"
proof -
  obtain w where w: "start_world demo_host component_topics demo_hist demo_manager demo_fs demo_start = Inr w"
    using demo_started by blast
  have "\<forall>e \<in> set [Request (CallUpdate demo_head 3 (demo_request ''POST'' ''/api/update/0123456789ab'')),
       RollBack (\<lambda>_. 4) demo_broken, Daemon demo_start]. digest_long_enough e"
    by (simp add: digest_long_enough_def demo_broken_def)
  from server_never_panics [OF w demo_hist_inv demo_manager_inv this] w show ?thesis by blast
qed

end
