(* ===== verification/Digests.thy ===== *)
theory Digests
  imports Executor Rollback Watcher Healthmon Poller Webhook Api
begin

text \<open>
  Where digests go.  A digest enters the server in an answer of a registry, a push, an event of the
  Docker daemon or the services table it opened, and from there it is copied: into events, the rings
  of the container states, the health watches, and the pinned references that are deployed.
  \<open>clean good up w\<close> says that every digest a world holds satisfies \<open>good\<close>, and the lemmas that every
  handler keeps it so if the digests the handler is given satisfy it.
\<close>

section \<open>The digests a world holds\<close>

definition known :: "(string \<Rightarrow> bool) \<Rightarrow> string \<Rightarrow> bool" where
  "known good d \<longleftrightarrow> d = [] \<or> good d"

definition ring_clean :: "(string \<Rightarrow> bool) \<Rightarrow> container_state \<Rightarrow> bool" where
  "ring_clean good c \<longleftrightarrow> (\<forall>d \<in> set (digests c). good d)"

definition payload_clean :: "(string \<Rightarrow> bool) \<Rightarrow> payload \<Rightarrow> bool" where
  "payload_clean good pl =
     (case pl of
        ImageUpdatedPayload p \<Rightarrow> good (iu_NewDigest p)
      | ContainerUnhealthyPayload p \<Rightarrow> good (cu_AppliedDigest p) \<and> known good (cu_PrevDigest p)
      | UpdateAppliedPayload p \<Rightarrow> good (ua_NewDigest p)
      | UpdateSkippedPayload p \<Rightarrow> good (us_NewDigest p)
      | RollbackDonePayload p \<Rightarrow> good (rd_RestoredDigest p))"

text \<open>With \<open>up\<close>, also that no channel has been closed, as is the case until the process is told to stop.\<close>

definition bus_clean :: "(string \<Rightarrow> bool) \<Rightarrow> bool \<Rightarrow> bus \<Rightarrow> bool" where
  "bus_clean good up b \<longleftrightarrow> (\<forall>a. \<forall>ev \<in> set (ch_buf (bs_chans b a)). payload_clean good (ev_Payload ev)) \<and>
     (up \<longrightarrow> (\<forall>a. \<not> ch_closed (bs_chans b a)))"

definition store_clean :: "(string \<Rightarrow> bool) \<Rightarrow> store \<Rightarrow> bool" where
  "store_clean good s \<longleftrightarrow> (\<forall>a. ring_clean good (st_heap s a))"

definition config_clean :: "(string \<Rightarrow> bool) \<Rightarrow> manager \<Rightarrow> bool" where
  "config_clean good m \<longleftrightarrow>
     (\<forall>r \<in> set (mg_rows m). \<forall>d. sr_last_digest r = Some d \<longrightarrow> known good d) \<and>
     (\<forall>n svc. fmlookup (mg_services m) n = Some svc \<longrightarrow> known good (sv_LastDigest svc))"

text \<open>A predicate on worlds that looks at the bus, the store and the services separately.\<close>

definition flows :: "(bus \<Rightarrow> bool) \<Rightarrow> (store \<Rightarrow> bool) \<Rightarrow> (manager \<Rightarrow> bool) \<Rightarrow> 'd world \<Rightarrow> bool" where
  "flows B S M w \<longleftrightarrow> B (w_bus w) \<and> S (w_store w) \<and> M (w_config w)"

definition clean :: "(string \<Rightarrow> bool) \<Rightarrow> bool \<Rightarrow> 'd world \<Rightarrow> bool" where
  "clean good up = flows (bus_clean good up) (store_clean good) (config_clean good)"

lemma flowsD:
  assumes "flows B S M w" shows "B (w_bus w)" "S (w_store w)" "M (w_config w)"
  using assms by (simp_all add: flows_def)

lemma flows_frame [simp]:
  "flows B S M (w\<lparr>w_jobs := r\<rparr>) = flows B S M w" "flows B S M (w\<lparr>w_hist := h\<rparr>) = flows B S M w"
  "flows B S M (w\<lparr>w_fs := f\<rparr>) = flows B S M w" "flows B S M (w\<lparr>w_docker := d\<rparr>) = flows B S M w"
  by (simp_all add: flows_def)

lemma flows_upd:
  "flows B S M w \<Longrightarrow> B b \<Longrightarrow> flows B S M (w\<lparr>w_bus := b\<rparr>)"
  "flows B S M w \<Longrightarrow> S s \<Longrightarrow> flows B S M (w\<lparr>w_store := s\<rparr>)"
  "flows B S M w \<Longrightarrow> M m \<Longrightarrow> flows B S M (w\<lparr>w_config := m\<rparr>)"
  by (simp_all add: flows_def)

lemma ring_digests:
  assumes "ring_clean good c"
  shows "CurrentDigest c \<noteq> [] \<Longrightarrow> good (CurrentDigest c)" "known good (PreviousDigest c)"
    and "PreviousDigest c \<noteq> [] \<Longrightarrow> good (CurrentDigest c)" "good [] \<Longrightarrow> good (CurrentDigest c)"
  using assms
  by (auto simp: ring_clean_def known_def CurrentDigest_digests PreviousDigest_digests split: list.splits)

section \<open>Bus, store and services\<close>

lemma set_offer: "x \<in> set (ch_buf (offer v c)) \<Longrightarrow> x = v \<or> x \<in> set (ch_buf c)"
  by (auto simp: offer_def split: if_splits)

lemma deliver_clean: "bus_clean good up b \<Longrightarrow> payload_clean good p \<Longrightarrow> bus_clean good up (deliver t p b)"
  by (auto simp: bus_clean_def deliver_chan dest!: set_offer)

lemma receive_closed [simp]: "ch_closed (bs_chans (snd (bus_receive a b)) a') = ch_closed (bs_chans b a')"
  by (auto simp: bus_receive_def receive_def Let_def split: list.split)

lemma receive_clean:
  assumes "bus_clean good up b"
  shows "bus_clean good up (snd (bus_receive a b))"
    and "fst (bus_receive a b) = Received ev \<Longrightarrow> payload_clean good (ev_Payload ev)"
proof -
  have "set (ch_buf (bs_chans (snd (bus_receive a b)) a')) \<subseteq> set (ch_buf (bs_chans b a'))" for a'
    by (auto simp: bus_receive_def receive_def Let_def split: list.split)
  with assms show "bus_clean good up (snd (bus_receive a b))" unfolding bus_clean_def receive_closed by blast
  assume "fst (bus_receive a b) = Received ev"
  then have "ev \<in> set (ch_buf (bs_chans b a))"
    by (auto simp: bus_receive_def receive_def case_prod_beta split: list.splits if_splits)
  with assms show "payload_clean good (ev_Payload ev)" by (auto simp: bus_clean_def)
qed

lemma unsub_clean:
  assumes "bus_inv b" "bus_clean good up b" "unsub t i b = Inr b'"
  shows "bus_clean good False b'"
  using assms(1)
proof (cases rule: unsub_cases [where i = i and t = t])
  case (present s x y b1)
  with assms(2,3) show ?thesis by (simp add: bus_clean_def)
qed (use assms in \<open>simp add: bus_clean_def\<close>)

lemma Subscribe_clean: "bus_clean good up b \<Longrightarrow> bus_clean good up (snd (Subscribe t b))"
  by (simp add: bus_clean_def Subscribe_sel)

lemma push_at_clean: "store_clean good s \<Longrightarrow> good d \<Longrightarrow> store_clean good (push_at a img d now s)"
  by (auto simp: store_clean_def push_at_def ring_clean_def digests_PushDigest dest!: in_set_takeD)

lemma store_ring: "store_clean good s \<Longrightarrow> ring_clean good (st_heap s a)"
  by (simp add: store_clean_def)

lemma Upsert_clean: "store_clean good s \<Longrightarrow> store_clean good (snd (Upsert i n im l s))"
  by (auto simp: store_clean_def Upsert_def ring_clean_def digests_def split: option.splits)

lemma Rekey_clean: "store_clean good s \<Longrightarrow> store_clean good (snd (Rekey old new s))"
  by (auto simp: store_clean_def Rekey_def ring_clean_def digests_def split: option.splits)

lemma Remove_clean: "store_clean good s \<Longrightarrow> store_clean good (Remove i s)"
  by (simp add: store_clean_def Remove_def)

lemma db_fault_clean: "db_fault m = (r, m') \<Longrightarrow> config_clean good m' = config_clean good m"
  by (auto simp: config_clean_def dest!: db_fault_frame)

lemma load_rows_clean:
  assumes "\<forall>r \<in> set rs. \<forall>d. sr_last_digest r = Some d \<longrightarrow> known good d"
    and "\<forall>n svc. fmlookup s n = Some svc \<longrightarrow> known good (sv_LastDigest svc)"
  shows "fmlookup (load_rows io rs s) n = Some svc \<Longrightarrow> known good (sv_LastDigest svc)"
  using assms
proof (induction rs arbitrary: s)
  case (Cons r rs)
  have "known good (sv_LastDigest (row_config io r))"
    using Cons.prems(2) by (auto simp: row_config_def known_def split: option.split)
  then show ?case using Cons.prems
    by (intro Cons.IH [of "fmupd (sv_Name (row_config io r)) (row_config io r) s"]) auto
qed simp

lemma Reload_clean:
  assumes "config_clean good m" shows "config_clean good (snd (Reload io m))"
proof -
  obtain f m1 where f: "db_fault m = (f, m1)" by fastforce
  with assms have m1: "config_clean good m1" using db_fault_clean by blast
  show ?thesis
  proof (cases f)
    case None
    have "config_clean good (m1\<lparr>mg_services := load_rows io (mg_rows m1) fmempty\<rparr>)"
      using m1 load_rows_clean [of "mg_rows m1" good fmempty io] by (auto simp: config_clean_def)
    with f None show ?thesis by (simp add: Reload_def)
  qed (use f m1 in \<open>simp add: Reload_def\<close>)
qed

lemma UpdateDigest_clean:
  assumes "config_clean good m" "known good d"
  shows "config_clean good (snd (UpdateDigest io now n d m))"
proof -
  obtain f m1 where f: "db_fault m = (f, m1)" by fastforce
  with assms(1) have "config_clean good m1" using db_fault_clean by blast
  with assms(2) have "config_clean good (m1\<lparr>mg_rows := List.map (\<lambda>r. if sr_name r = n
      then r\<lparr>sr_last_digest := Some d, sr_last_checked_at := Some now, sr_updated_at := now\<rparr> else r) (mg_rows m1)\<rparr>)"
    by (auto simp: config_clean_def)
  from Reload_clean [OF this] \<open>config_clean good m1\<close> f show ?thesis
    by (cases f) (simp_all add: UpdateDigest_def)
qed

lemma UpdateConfig_clean:
  assumes "config_clean good m" shows "config_clean good (snd (UpdateConfig io now n tm i m))"
proof -
  obtain f m1 where f: "db_fault m = (f, m1)" by fastforce
  with assms have m1: "config_clean good m1" using db_fault_clean by blast
  then have "config_clean good (m1\<lparr>mg_rows := List.map (\<lambda>r. if sr_name r = n
      then r\<lparr>sr_trigger_mode := tm, sr_poller_interval := i, sr_updated_at := now\<rparr> else r) (mg_rows m1)\<rparr>)"
    by (auto simp: config_clean_def)
  from Reload_clean [OF this] m1 f show ?thesis
    by (cases f) (simp_all add: UpdateConfig_def)
qed

lemma CreateConfig_clean:
  assumes "config_clean good m" shows "config_clean good (snd (CreateConfig io now n im cf tm i m))"
proof -
  obtain f m1 where f: "db_fault m = (f, m1)" by fastforce
  with assms have m1: "config_clean good m1" using db_fault_clean by blast
  then have "config_clean good (m1\<lparr>mg_rows := mg_rows m1 @ [\<lparr>sr_name = n, sr_image = im, sr_compose_file = cf,
      sr_trigger_mode = tm, sr_poller_interval = i, sr_last_digest = None, sr_last_checked_at = None,
      sr_updated_at = now\<rparr>]\<rparr>)"
    by (auto simp: config_clean_def)
  from Reload_clean [OF this] m1 f show ?thesis
    by (cases f) (simp_all add: CreateConfig_def)
qed

text \<open>What an event of the daemon may bring: the digest of a pulled image, or, as the applied digest
  of a container it reports unhealthy, the empty one.\<close>

definition event_brings :: "(string \<Rightarrow> bool) \<Rightarrow> docker_event \<Rightarrow> bool" where
  "event_brings good ev \<longleftrightarrow>
     (dv_Type ev = ''image'' \<and> dv_Action ev = ''pull'' \<longrightarrow> good (dv_ID ev)) \<and>
     (dv_Type ev = ''container'' \<and> dv_Action ev = ''health_status: unhealthy'' \<longrightarrow> good [])"

text \<open>What a registry may answer.\<close>

definition head_brings :: "(string \<Rightarrow> bool) \<Rightarrow> (string \<Rightarrow> error + string) \<Rightarrow> bool" where
  "head_brings good head \<longleftrightarrow> (\<forall>img d. head img = Inr d \<longrightarrow> good d)"

text \<open>What a call of a webhook brings: the digest of the push it carries, if it gets that far; Docker Hub's pushes
  carry none, and the empty digest is announced.\<close>

definition hook_digests :: "webhook \<Rightarrow> hook \<Rightarrow> request \<Rightarrow> string list" where
  "hook_digests x k r =
     (if rq_Method r \<noteq> ''POST'' then []
      else case k of
        PushHook \<Rightarrow>
          (case readAndVerify x r of
             Inl resp \<Rightarrow> []
           | Inr body \<Rightarrow>
               (case wh_push x body of
                  None \<Rightarrow> []
                | Some p \<Rightarrow> if pp_Image p = [] \<or> pp_Tag p = [] then [] else [pp_Digest p]))
      | HubHook \<Rightarrow>
          (case read_limited r of
             None \<Rightarrow> []
           | Some body \<Rightarrow>
               (case wh_hub x body of
                  None \<Rightarrow> []
                | Some p \<Rightarrow> if hb_RepoName p = [] \<or> hb_Tag p = [] then [] else [[]])))"

text \<open>What a request may bring: only the registry's answer to a manual update.\<close>

definition call_brings :: "(string \<Rightarrow> bool) \<Rightarrow> api_call \<Rightarrow> bool" where
  "call_brings good e \<longleftrightarrow> (\<forall>head now r. e = CallUpdate head now r \<longrightarrow> head_brings good head)"

section \<open>What the handlers rely on\<close>

text \<open>
  The contract between the handlers and what they write to: a predicate on the bus that a publication
  with good digests keeps, one on the store that its operations keep if they are given good digests,
  and that only holds if the rings hold good ones, and one on the services.  Every handler then keeps
  all three, provided what it is given brings good digests.
\<close>

locale handler_flow =
  fixes good :: "string \<Rightarrow> bool" and B :: "bus \<Rightarrow> bool" and S :: "store \<Rightarrow> bool" and M :: "manager \<Rightarrow> bool"
  assumes deliver_flow: "B b \<Longrightarrow> payload_clean good p \<Longrightarrow> B (deliver t p b)"
    and push_at_flow: "S s \<Longrightarrow> good d \<Longrightarrow> S (push_at a img d now s)"
    and Upsert_flow: "S s \<Longrightarrow> S (snd (Upsert i n im l s))"
    and Rekey_flow: "S s \<Longrightarrow> S (snd (Rekey old new s))"
    and Remove_flow: "S s \<Longrightarrow> S (Remove i s)"
    and ring_flow: "S s \<Longrightarrow> ring_clean good (st_heap s a)"
    and UpdateDigest_flow: "M m \<Longrightarrow> known good d \<Longrightarrow> M (snd (UpdateDigest io tx n d m))"
    and UpdateConfig_flow: "M m \<Longrightarrow> M (snd (UpdateConfig io tx n tm k m))"
    and CreateConfig_flow: "M m \<Longrightarrow> M (snd (CreateConfig io tx n im cf tm k m))"
begin

lemma deliver_updates_flow:
  "B b \<Longrightarrow> \<forall>p \<in> set ps. good (iu_NewDigest p) \<Longrightarrow> B (deliver_updates ps b)"
  by (induction ps arbitrary: b) (simp_all add: deliver_flow payload_clean_def)

lemma carry_state_flow:
  "S s \<Longrightarrow> good d \<Longrightarrow> S (carry_state now old img d a new s)"
  using Rekey_flow [of s old new] by (auto simp: carry_state_def intro!: push_at_flow split: prod.splits)

lemma rollback_carry_flow:
  "S s \<Longrightarrow> good d \<Longrightarrow> S (rollback_carry now old img d new s)"
  using Rekey_flow [of s old new]
  by (auto simp: rollback_carry_def intro!: push_at_flow split: prod.splits option.splits)

lemma state_flow: "S s \<Longrightarrow> state_of s i = Some c \<Longrightarrow> ring_clean good c"
  by (auto simp: state_of_def ring_flow)

lemma publish_flow:
  "world_inv w \<Longrightarrow> publish_w t p w = Inr w' \<Longrightarrow> flows B S M w \<Longrightarrow> payload_clean good p \<Longrightarrow> flows B S M w'"
  by (auto simp: publish_w_eq intro!: flows_upd deliver_flow dest: flowsD)

lemma begin_job_flow: "begin_job e now rand p w = Inr (job, w') \<Longrightarrow> flows B S M w' = flows B S M w"
  by (auto simp: begin_job_def Let_def split: if_splits sum.splits prod.splits)

lemma record_start_flow [simp]: "flows B S M (record_start e now p cs job w) = flows B S M w"
  by (simp add: record_start_def split: option.split)

lemma end_job_flow: "end_job e st text now endedAt job w = Inr w' \<Longrightarrow> flows B S M w' = flows B S M w"
  by (auto simp: end_job_def Let_def split: option.splits sum.splits if_splits)

lemma finish_job_flow [simp]: "flows B S M (finish_job job w) = flows B S M w"
  by (simp add: finish_job_def split: option.split)

lemma handle_result_flow:
  assumes "world_inv w" "flows B S M w" "good (iu_NewDigest p)"
    and "handle_result e now p a job result w = Inr w'"
  shows "flows B S M w'"
proof -
  obtain newID bp err where r: "result = (newID, bp, err)" by (cases result)
  show ?thesis
  proof (cases err)
    case None
    obtain w1 where w1: "end_job e StatusSuccess ''success'' (now 3)
        (\<lambda>j. case sn_EndedAt (Snap j) of Some t \<Rightarrow> t | None \<Rightarrow> now 4) job w = Inr w1" "world_inv w1"
      using end_job_safe [OF assms(1)] by blast
    let ?w2 = "w1\<lparr>w_store := carry_state (now 5) (iu_ContainerID p) (iu_Image p) (iu_NewDigest p) a newID (w_store w1)\<rparr>"
    have c1: "flows B S M w1" using end_job_flow [OF w1(1)] assms(2) by blast
    have c2: "flows B S M ?w2"
      by (rule flows_upd(2) [OF c1 carry_state_flow [OF flowsD(2) [OF c1] assms(3)]])
    have i2: "world_inv ?w2" by (intro world_inv_upd(2) [OF w1(2)] carry_state_inv world_invD(2) [OF w1(2)])
    have "publish_w TopicUpdateApplied (applied_payload (now 6) p newID) ?w2 = Inr w'"
      using assms(4) w1(1) unfolding handle_result_def r None by (simp only: prod.case option.case sum.case)
    from publish_flow [OF i2 this c2] assms(3) show ?thesis
      by (simp add: applied_payload_def payload_clean_def)
  next
    case (Some e0)
    with assms(2,4) end_job_flow show ?thesis by (simp add: handle_result_def r) blast
  qed
qed

lemma handle_flow:
  assumes "world_inv w" "flows B S M w" "good (iu_NewDigest p)" and "handle e now rand p w = Inr w'"
  shows "flows B S M w'"
proof (cases "Get (iu_ContainerID p) (w_store w)")
  case (Some a)
  let ?cs = "st_heap (w_store w) a"
  obtain job w1 where w1: "begin_job e (now 0) rand p w = Inr (job, w1)" "world_inv w1"
    using begin_job_safe [OF assms(1)] by blast
  let ?w2 = "record_start e (now 1) p ?cs job w1"
  have w2: "world_inv ?w2" by (rule record_start_inv [OF w1(2)])
  obtain res f r d where a: "apply_update e (now 2) p ?cs job ?w2 = Inr (res, ?w2\<lparr>w_fs := f, w_jobs := r, w_docker := d\<rparr>)"
    "registry_inv r" using apply_update_safe [OF w2] by blast
  let ?w3 = "?w2\<lparr>w_fs := f, w_jobs := r, w_docker := d\<rparr>"
  have i3: "world_inv ?w3" using w2 a(2) by (simp add: world_inv_def)
  have c3: "flows B S M ?w3" using begin_job_flow [OF w1(1)] assms(2) by simp
  obtain w4 where w4: "handle_result e now p a job res ?w3 = Inr w4"
    using handle_result_safe [OF i3] by blast
  have c4: "flows B S M (finish_job job w4)" using handle_result_flow [OF i3 c3 assms(3) w4] by simp
  have skip: "flows B S M w'" if "publish_w TopicUpdateSkipped (UpdateSkippedPayload (skip_payload e (now 0) p ?cs)) w = Inr w'"
    using publish_flow [OF assms(1) that assms(2)] assms(3) by (simp add: payload_clean_def skip_payload_def Let_def)
  show ?thesis using assms(2,4) Some w1(1) a(1) w4 c4 skip
    unfolding handle_def by (auto simp: Let_def split: if_splits)
qed (use assms in \<open>simp add: handle_def\<close>)

lemma handle_rollback_flow:
  assumes "world_inv w" "flows B S M w" "known good (cu_PrevDigest p)"
    and "handle_rollback docker now p w = Inr w'"
  shows "flows B S M w'"
proof (cases "length (cu_AppliedDigest p) < 16 \<or> cu_PrevDigest p = []")
  case True
  with assms(2,4) show ?thesis
    by (auto simp: handle_rollback_def checked_slice_to_def split: if_splits)
next
  case False
  obtain newID err d where r: "restore docker p (w_docker w) = ((newID, err), d)" by (metis prod.exhaust)
  show ?thesis
  proof (cases err)
    case None
    have g: "good (cu_PrevDigest p)" using assms(3) False by (simp add: known_def)
    from False have "16 \<le> length (cu_AppliedDigest p)" "cu_PrevDigest p \<noteq> []" by auto
    from handle_rollback_done [OF assms(1) this r [unfolded None]] assms(4)
    have "w' = w\<lparr>w_docker := d,
           w_store := rollback_carry (now 0) (cu_ContainerID p) (cu_Image p) (cu_PrevDigest p) newID (w_store w),
           w_bus := deliver TopicRollbackDone (rolled_back (now 1) p newID) (w_bus w)\<rparr>" by simp
    with g show ?thesis
      using flowsD [OF assms(2)]
      by (simp add: flows_def rollback_carry_flow deliver_flow payload_clean_def rolled_back_def)
  qed (use assms(2,4) False r in \<open>auto simp: handle_rollback_def checked_slice_to_def split: if_splits\<close>)
qed

lemma pull_payloads_flow: "good d \<Longrightarrow> \<forall>p \<in> set (pull_payloads now k n d cs). good (iu_NewDigest p)"
  by (induction now k n d cs rule: pull_payloads.induct) (simp_all add: pull_payload_def)

lemma handleImageEvent_flow:
  assumes "world_inv w" "flows B S M w" "dv_Action ev = ''pull'' \<longrightarrow> good (dv_ID ev)"
    and "handleImageEvent order now ev w = Inr w'"
  shows "flows B S M w'"
  using assms
  by (auto simp: handleImageEvent_def pull_loop_eq Let_def pull_payloads_flow
      intro!: flows_upd(1) deliver_updates_flow dest: flowsD(1) split: if_splits)

lemma handleContainerEvent_flow:
  assumes "world_inv w" "flows B S M w" "dv_Action ev = ''health_status: unhealthy'' \<longrightarrow> good []"
    and "handleContainerEvent docker now ev w = Inr w'"
  shows "flows B S M w'"
proof (cases "dv_Action ev = ''health_status: unhealthy''")
  case True
  show ?thesis
  proof (cases "Get (dv_ID ev) (w_store w)")
    case (Some a)
    let ?p = "unhealthy_payload (now 0) (st_heap (w_store w) a)"
    have "ring_clean good (st_heap (w_store w) a)" using flowsD(2) [OF assms(2)] by (rule ring_flow)
    with assms(3) True have "payload_clean good (ContainerUnhealthyPayload ?p)"
      by (simp add: payload_clean_def unhealthy_payload_def ring_digests(2,4))
    with publish_flow [OF assms(1) _ assms(2)] assms(4) True Some show ?thesis
      by (simp add: handleContainerEvent_def)
  qed (use assms True in \<open>simp add: handleContainerEvent_def\<close>)
next
  case False
  with assms(2,4) show ?thesis
    by (auto simp: handleContainerEvent_def Let_def intro!: flows_upd(2) Upsert_flow Remove_flow dest: flowsD(2)
        split: if_splits sum.splits option.splits prod.splits)
qed

lemma handleEvent_flow:
  "world_inv w \<Longrightarrow> flows B S M w \<Longrightarrow> event_brings good ev \<Longrightarrow> handleEvent docker order now ev w = Inr w' \<Longrightarrow>
   flows B S M w'"
  by (auto simp: handleEvent_def event_brings_def split: if_splits
      intro: handleImageEvent_flow handleContainerEvent_flow)

lemma tick_flow:
  assumes "world_inv w" "flows B S M w" "good (ua_NewDigest (wt_p (mn_watches m ! k)))"
    and "tick_watch docker now k m w = Inr (m', w')"
  shows "flows B S M w'"
proof -
  let ?p = "wt_p (mn_watches m ! k)"
  have "known good (PreviousDigest c)" if "state_of (w_store w) i = Some c" for i c
    using ring_digests(2) [OF state_flow [OF flowsD(2) [OF assms(2)] that]] .
  then have "payload_clean good (ContainerUnhealthyPayload (failed_payload now ?p (w_store w)))"
    using assms(3) by (auto simp: payload_clean_def failed_payload_def known_def Get_def state_of_def split: option.splits)
  with publish_flow [OF assms(1) _ assms(2)] assms(2,4) show ?thesis
    by (auto simp: tick_watch_def Let_def split: sum.splits bool.splits)
qed

lemma poll_flow:
  assumes "world_inv w" "flows B S M w" "head_brings good head" "poll head now order w = Inr w'"
  shows "flows B S M w'"
proof -
  have "good (iu_NewDigest (sweep_payload head c))" if "sweep_concerns head (w_config w) c" for c
    using assms(3) that by (auto simp: sweep_payload_def sweep_concerns_def detected_def head_brings_def split: sum.splits)
  with assms(1,2,4) show ?thesis
    by (auto simp: poll_def poll_loop_eq intro!: flows_upd(1) deliver_updates_flow dest: flowsD(1))
qed

lemma compareAndPublish_flow:
  assumes "world_inv w" "flows B S M w" "good digest" "\<forall>c. svc = Some c \<longrightarrow> known good (sv_LastDigest c)"
    and "compareAndPublish now a svc digest w = Inr w'"
  shows "flows B S M w'"
proof -
  let ?cs = "st_heap (w_store w) a"
  have pub: "flows B S M w2"
    if "world_inv w1" "flows B S M w1"
      "publish_w TopicImageUpdated (ImageUpdatedPayload (detected cur digest ?cs)) w1 = Inr w2" for w1 cur w2
    using publish_flow [OF that(1,3,2)] assms(3) by (simp add: payload_clean_def detected_def)
  show ?thesis
  proof (cases "\<exists>c. svc = Some c \<and> CurrentDigest ?cs = [] \<and> sv_LastDigest c \<noteq> []")
    case True
    then obtain c where c: "svc = Some c" "CurrentDigest ?cs = []" "sv_LastDigest c \<noteq> []" by blast
    let ?w = "w\<lparr>w_store := push_at a (cs_Image ?cs) (sv_LastDigest c) now (w_store w)\<rparr>"
    have "good (sv_LastDigest c)" using assms(4) c by (simp add: known_def)
    then have "flows B S M ?w" by (intro flows_upd(2) [OF assms(2)] push_at_flow [OF flowsD(2) [OF assms(2)]])
    moreover have "world_inv ?w" by (intro world_inv_upd(2) assms(1) push_at_inv world_invD(2))
    ultimately show ?thesis using assms(5) c pub [of ?w]
      by (simp add: compareAndPublish_def Let_def split: if_splits)
  next
    case False
    then show ?thesis using assms(1,2,5) pub [of w]
      by (auto simp: compareAndPublish_def Let_def split: option.splits if_splits)
  qed
qed

lemma checkService_flow:
  assumes "world_inv w" "flows B S M w" "head_brings good head" "known good (sv_LastDigest svc)"
    and "checkService io head t now order svc w = Inr w'"
  shows "flows B S M w'"
proof (cases "head (sv_Image svc)")
  case (Inr digest)
  let ?w = "w\<lparr>w_config := snd (UpdateDigest io t (sv_Name svc) digest (w_config w))\<rparr>"
  have g: "good digest" using assms(3) Inr by (simp add: head_brings_def)
  have "M (snd (UpdateDigest io t (sv_Name svc) digest (w_config w)))"
    using g by (intro UpdateDigest_flow flowsD(3) [OF assms(2)]) (simp add: known_def)
  then have c: "flows B S M ?w" by (rule flows_upd(3) [OF assms(2)])
  have i: "world_inv ?w" by (intro world_inv_upd(4) assms(1) UpdateDigest_inv world_invD(5))
  show ?thesis
    using assms(5) Inr c compareAndPublish_flow [OF i c g, of "Some svc"] assms(4)
    by (auto simp: checkService_def Let_def split: option.splits)
qed (use assms in \<open>simp add: checkService_def\<close>)

lemma stamp_flow: "good d \<Longrightarrow> \<forall>p \<in> set (stamp now k full d cs). good (iu_NewDigest p)"
  by (induction now k full d cs rule: stamp.induct) (simp_all add: pushed_def)

lemma dispatch_push_flow:
  assumes "world_inv w" "flows B S M w" "good d" "dispatch_push now order img tag d w = Inr w'"
  shows "flows B S M w'"
  using assms
  by (auto simp: dispatch_push_def push_loop_eq stamp_flow intro!: flows_upd(1) deliver_updates_flow dest: flowsD(1))

lemma queue_job_flow: "queue_job h now rand p w = (i, w') \<Longrightarrow> flows B S M w' = flows B S M w"
  by (auto simp: queue_job_def Let_def split: if_splits prod.splits)

lemma reject_poll_flow: "reject_poll h now p n w = (r, w') \<Longrightarrow> flows B S M w' = flows B S M w"
  by (auto simp: reject_poll_def split: if_splits)

lemma handlePush_flow:
  assumes "world_inv w" "flows B S M w" "\<forall>d \<in> set (hook_digests h PushHook r). good d"
    and "handlePush h now now_job rand o1 o2 r w = Inr (resp, w')"
  shows "flows B S M w'"
  using assms(2,4) dispatch_push_flow [OF assms(1,2)] assms(3)
  by (auto simp: handlePush_def hook_digests_def split: if_splits sum.splits option.splits prod.splits
      dest!: reject_poll_flow queue_job_flow)

lemma handleDockerHub_flow:
  assumes "world_inv w" "flows B S M w" "\<forall>d \<in> set (hook_digests h HubHook r). good d"
    and "handleDockerHub h now order r w = Inr (resp, w')"
  shows "flows B S M w'"
  using assms(2,4) dispatch_push_flow [OF assms(1,2)] assms(3)
  by (auto simp: handleDockerHub_def hook_digests_def split: if_splits sum.splits option.splits)

lemma handleUpdate_flow:
  assumes "world_inv w" "flows B S M w" "head_brings good head" "handleUpdate head now r w = Inr (resp, w')"
  shows "flows B S M w'"
  using assms(2,3,4)
  by (auto simp: handleUpdate_eq [OF assms(1)] head_brings_def payload_clean_def manual_update_def
      intro!: flows_upd(1) deliver_flow dest: flowsD(1) split: if_splits option.splits sum.splits)

lemma handleRollback_flow:
  assumes "world_inv w" "flows B S M w" "handleRollback now r w = Inr (resp, w')"
  shows "flows B S M w'"
proof (cases "aq_Method r = ''POST'' \<and> (\<exists>c. state_of (w_store w) (TrimPrefix (aq_Path r) ''/api/rollback/'') = Some c \<and>
    PreviousDigest c \<noteq> [])")
  case True
  then obtain c where c: "aq_Method r = ''POST''"
    "state_of (w_store w) (TrimPrefix (aq_Path r) ''/api/rollback/'') = Some c" "PreviousDigest c \<noteq> []" by blast
  have "ring_clean good c" by (rule state_flow [OF flowsD(2) [OF assms(2)] c(2)])
  with c(3) have "payload_clean good (ContainerUnhealthyPayload (manual_rollback now c))"
    by (simp add: payload_clean_def manual_rollback_def ring_digests)
  with c assms(2,3) show ?thesis
    by (auto simp: handleRollback_eq [OF assms(1)] intro!: flows_upd(1) deliver_flow dest: flowsD(1))
next
  case False
  with assms(2,3) show ?thesis
    by (auto simp: handleRollback_eq [OF assms(1)] split: if_splits option.splits)
qed

lemma CreateConfig_flowD:
  "CreateConfig io now n im cf tm i m = (e, m') \<Longrightarrow> M m \<Longrightarrow> M m'"
  using CreateConfig_flow [of m io now n im cf tm i] by simp

lemma UpdateConfig_flowD:
  "UpdateConfig io now n tm i m = (e, m') \<Longrightarrow> M m \<Longrightarrow> M m'"
  using UpdateConfig_flow [of m io now n tm i] by simp

lemma handleHistory_flow: "flows B S M (snd (handleHistory x r w)) = flows B S M w"
  by (simp add: handleHistory_def Let_def split: prod.split sum.split)

lemma handleCreateService_flow:
  "flows B S M w \<Longrightarrow> flows B S M (snd (handleCreateService x now r w))"
  unfolding handleCreateService_def Let_def
  by (auto intro!: flows_upd(3) elim!: CreateConfig_flowD dest: flowsD(3) split: prod.splits option.splits)

lemma handlePatchServiceConfig_flow:
  "flows B S M w \<Longrightarrow> flows B S M (snd (handlePatchServiceConfig x now r w))"
  unfolding handlePatchServiceConfig_def Let_def
  by (auto intro!: flows_upd(3) elim!: UpdateConfig_flowD dest: flowsD(3) split: prod.splits option.splits)

lemma api_step_flow:
  assumes "world_inv w" "flows B S M w" "call_brings good e" "api_step x w e = Inr w'"
  shows "flows B S M w'"
proof (cases e)
  case (CallUpdate head now r)
  then obtain resp where "handleUpdate head now r w = Inr (resp, w')"
    using assms(4) by (cases "handleUpdate head now r w") (auto simp: api_step_def)
  from handleUpdate_flow [OF assms(1,2) _ this] assms(3) CallUpdate show ?thesis
    by (simp add: call_brings_def)
next
  case (CallRollback now r)
  then obtain resp where "handleRollback now r w = Inr (resp, w')"
    using assms(4) by (cases "handleRollback now r w") (auto simp: api_step_def)
  from handleRollback_flow [OF assms(1,2) this] show ?thesis .
qed (use assms(2,4) in \<open>auto simp: api_step_def handleHistory_flow handleCreateService_flow
    handlePatchServiceConfig_flow\<close>)

end

section \<open>The contract holds\<close>

text \<open>No handler subscribes or unsubscribes, so what the bus's subscriptions are can be kept along with it.\<close>

interpretation digest_flow: handler_flow good "\<lambda>b. bus_clean good up b \<and> subs_of b = subs" "store_clean good"
    "config_clean good" for good up subs
  by unfold_locales
    (auto intro: deliver_clean push_at_clean Upsert_clean Rekey_clean Remove_clean UpdateDigest_clean
      UpdateConfig_clean CreateConfig_clean store_ring)

end
