(* ===== verification/Loops.thy ===== *)
theory Loops
  imports Executor Rollback Healthmon Notifier Poller
begin

text \<open>
  The loops of the components that listen to the bus: \<open>Run\<close> of the executor, the rollback engine and
  the health monitor, and \<open>runTopic\<close> of the notifier.  Each subscribes, then selects between the
  cancelled context, on which its deferred unsubscription runs and it returns, and its channel,
  whose event it hands to its handler if the payload has the type it expects.  One call of a
  definition is one such action, so a run of a loop is a sequence of calls.  \<open>Run\<close> of the poller is of
  the same kind, with its schedule and its ticker in place of a channel.
\<close>

section \<open>A subscription in a loop\<close>

datatype select = Cancelled | Arrived

datatype loop = NotStarted | Running subscriber | Returned

text \<open>
  The part the four loops share.  A receive from a closed channel yields the zero event, whose payload
  is nil and of none of the types (a running loop's channel is never closed); a receive from an empty one
  waits.
\<close>

definition loop_select :: "topic \<Rightarrow> select \<Rightarrow> loop \<Rightarrow> bus \<Rightarrow> panic + event option \<times> loop \<times> bus" where
  "loop_select topic sel l b =
     (case l of
        NotStarted \<Rightarrow> let (sub, b) = Subscribe topic b in Inr (None, Running sub, b)
      | Running sub \<Rightarrow>
          (case sel of
             Cancelled \<Rightarrow>
               (case unsub topic (sub_id sub) b of
                  Inl p \<Rightarrow> Inl p
                | Inr b \<Rightarrow> Inr (None, Returned, b))
           | Arrived \<Rightarrow>
               (case bus_receive (sub_ch sub) b of
                  (Received ev, b) \<Rightarrow> Inr (Some ev, l, b)
                | (_, b) \<Rightarrow> Inr (None, l, b)))
      | Returned \<Rightarrow> Inr (None, l, b))"

section \<open>The loops\<close>

definition Run_executor ::
  "'d executor \<Rightarrow> select \<Rightarrow> (nat \<Rightarrow> time) \<Rightarrow> byte list \<Rightarrow> loop \<Rightarrow> 'd world \<Rightarrow> panic + loop \<times> 'd world" where
  "Run_executor e sel now rand l w =
     (case loop_select TopicImageUpdated sel l (w_bus w) of
        Inl x \<Rightarrow> Inl x
      | Inr (ev, l, b) \<Rightarrow>
          let w = w\<lparr>w_bus := b\<rparr> in
          (case map_option ev_Payload ev of
             Some (ImageUpdatedPayload p) \<Rightarrow>
               (case handle e now rand p w of Inl x \<Rightarrow> Inl x | Inr w \<Rightarrow> Inr (l, w))
           | _ \<Rightarrow> Inr (l, w)))"

definition Run_rollback ::
  "'d scoped \<Rightarrow> select \<Rightarrow> (nat \<Rightarrow> time) \<Rightarrow> loop \<Rightarrow> 'd world \<Rightarrow> panic + loop \<times> 'd world" where
  "Run_rollback docker sel now l w =
     (case loop_select TopicContainerUnhealthy sel l (w_bus w) of
        Inl x \<Rightarrow> Inl x
      | Inr (ev, l, b) \<Rightarrow>
          let w = w\<lparr>w_bus := b\<rparr> in
          (case map_option ev_Payload ev of
             Some (ContainerUnhealthyPayload p) \<Rightarrow>
               (case handle_rollback docker now p w of Inl x \<Rightarrow> Inl x | Inr w \<Rightarrow> Inr (l, w))
           | _ \<Rightarrow> Inr (l, w)))"

definition Run_monitor ::
  "(string \<Rightarrow> time option) \<Rightarrow> select \<Rightarrow> loop \<Rightarrow> monitor \<Rightarrow> 'd world \<Rightarrow> panic + loop \<times> monitor \<times> 'd world" where
  "Run_monitor parseDuration sel l m w =
     (case loop_select TopicUpdateApplied sel l (w_bus w) of
        Inl x \<Rightarrow> Inl x
      | Inr (ev, l, b) \<Rightarrow>
          let w = w\<lparr>w_bus := b\<rparr> in
          (case map_option ev_Payload ev of
             Some (UpdateAppliedPayload p) \<Rightarrow> Inr (l, startWatch parseDuration p (w_store w) m, w)
           | _ \<Rightarrow> Inr (l, m, w)))"

definition runTopic ::
  "(event \<Rightarrow> string option) \<Rightarrow> topic \<Rightarrow> select \<Rightarrow> addr list \<Rightarrow> loop \<Rightarrow> notifier \<Rightarrow> bus \<Rightarrow>
     panic + loop \<times> notifier \<times> bus" where
  "runTopic marshal topic sel order l n b =
     (case loop_select topic sel l b of
        Inl x \<Rightarrow> Inl x
      | Inr (None, l, b) \<Rightarrow> Inr (l, n, b)
      | Inr (Some ev, l, b) \<Rightarrow>
          (case dispatch_event marshal order ev n of Inl x \<Rightarrow> Inl x | Inr n \<Rightarrow> Inr (l, n, b)))"

text \<open>
  The poller, with whether the cron library accepts the schedule.  It returns at once if not.  The result
  carries the services whose check has been started.
\<close>

datatype poll_case =
    PollCancelled
  | CronFires "string \<Rightarrow> error + string" "nat \<Rightarrow> time" "string list"
  | TickerFires "nat \<Rightarrow> time" "string list"

datatype poll_state = PollNotStarted | PollRunning | PollReturned

definition Run_poller ::
  "bool \<Rightarrow> poll_case \<Rightarrow> poll_state \<Rightarrow> poller \<Rightarrow> 'd world \<Rightarrow>
     panic + poll_state \<times> svc_config list \<times> poller \<times> 'd world" where
  "Run_poller schedule_ok c st p w =
     (case st of
        PollNotStarted \<Rightarrow> Inr (if schedule_ok then PollRunning else PollReturned, [], p, w)
      | PollRunning \<Rightarrow>
          (case c of
             PollCancelled \<Rightarrow> Inr (PollReturned, [], p, w)
           | CronFires head now order \<Rightarrow>
               (case poll head now order w of Inl x \<Rightarrow> Inl x | Inr w \<Rightarrow> Inr (PollRunning, [], p, w))
           | TickerFires now order \<Rightarrow>
               let (due, p) = dispatch_services now order (w_config w) p in Inr (PollRunning, due, p, w))
      | PollReturned \<Rightarrow> Inr (PollReturned, [], p, w))"

section \<open>What a turn does to the bus\<close>

lemma loop_select_safe:
  assumes "bus_inv b"
  shows "\<exists>ev l' b'. loop_select t sel l b = Inr (ev, l', b') \<and> bus_inv b'"
proof (cases l)
  case NotStarted
  with Subscribe_inv [OF assms, of t] show ?thesis
    by (cases "Subscribe t b") (simp add: loop_select_def)
next
  case (Running s)
  show ?thesis
  proof (cases sel)
    case Cancelled
    with Running unsub_safe [OF assms, of t "sub_id s"] show ?thesis by (auto simp: loop_select_def)
  next
    case Arrived
    with Running bus_receive_inv [OF assms, of "sub_ch s"] show ?thesis
      by (cases "bus_receive (sub_ch s) b") (auto simp: loop_select_def split: received.split)
  qed
qed (use assms in \<open>simp add: loop_select_def\<close>)

lemma loop_select_waiting:
  assumes "ch_buf (bs_chans b (sub_ch s)) = ev # evs"
  shows "loop_select t Arrived (Running s) b =
    Inr (Some ev, Running s, b\<lparr>bs_chans := (bs_chans b)(sub_ch s := (bs_chans b (sub_ch s))\<lparr>ch_buf := evs\<rparr>)\<rparr>)"
  by (simp add: loop_select_def bus_receive_def receive_def assms)

lemma world_bus: "world_inv w \<Longrightarrow> bus_inv b \<Longrightarrow> world_inv (w\<lparr>w_bus := b\<rparr>)"
  by (simp add: world_inv_def)

end
