(* ===== verification/System.thy ===== *)
theory System
  imports Server Digests Loops
begin

text \<open>
  The running server as one machine.  In \<open>Server\<close> a handler may be called with anything; here the
  executor, the rollback engine, the health monitor and the notifier are only given what their loops
  receive from the bus, the watches of the monitor are those it has started, and the services that
  are checked those the poller has found due.  What remains are the inputs from outside: requests,
  answers of registries, events and state of the Docker daemon, timers and the scheduler, which
  decides what happens next.
\<close>

section \<open>State and steps\<close>

text \<open>What the components were constructed with (\<open>cmd/dockwatch/main.go\<close>).\<close>

record 'd host =
  ho_server :: "'d server"
  ho_parseDuration :: "string \<Rightarrow> time option"
  ho_marshal :: "event \<Rightarrow> string option"
  ho_time :: time_io
  ho_schedule_ok :: bool

text \<open>
  The loops, in the order of \<open>component_topics\<close>: executor, health monitor, rollback engine and the
  five of the notifier.  \<open>sy_checks\<close> are the goroutines \<open>checkService\<close> that have been started and not
  run, with the service each was given.  \<open>sy_late\<close> are the sends that have not been made yet, each with its
  channel: \<open>Publish\<close> (\<open>bus.go\<close>) takes the subscribers under the lock and sends after releasing it, so
  other goroutines may act between a publication and its sends.
\<close>

record 'd system =
  sy_world :: "'d world"
  sy_loops :: "loop list"
  sy_monitor :: monitor
  sy_notifier :: notifier
  sy_poller :: poller
  sy_polling :: poll_state
  sy_checks :: "svc_config list"
  sy_late :: "(addr \<times> event) list"

definition start_system :: "'d host \<Rightarrow> hist \<Rightarrow> manager \<Rightarrow> fs \<Rightarrow> 'd \<Rightarrow> panic + 'd system" where
  "start_system h hist m files d =
     (case start_world (sr_docker (ho_server h)) [] hist m files d of
        Inl p \<Rightarrow> Inl p
      | Inr w \<Rightarrow> Inr \<lparr>sy_world = w, sy_loops = replicate (length component_topics) NotStarted,
          sy_monitor = New_monitor, sy_notifier = New_notifier, sy_poller = New_poller, sy_polling = PollNotStarted, sy_checks = [],
          sy_late = []\<rparr>)"

datatype 'd system_op =
    ExecutorTurn select "nat \<Rightarrow> time" "byte list"
  | MonitorTurn select
  | RollbackTurn select "nat \<Rightarrow> time"
  | NotifierTurn nat select "addr list"
  | WatchTick time nat
  | WatchEnds nat
  | BrowserJoins
  | BrowserLeaves addr
  | BrowserReads addr
  | PollerTurn poll_case
  | CheckRuns nat "string \<Rightarrow> error + string" string time "string list"
  | DockerEvent "string list" "nat \<Rightarrow> time" docker_event
  | WebhookCall "hook \<times> (nat \<Rightarrow> time) \<times> time \<times> byte list \<times> string list \<times> string list \<times> request"
  | ApiCall api_call
  | ViewerReads addr
  | DaemonChanges 'd
  | SendWaits addr
  | SendHappens nat bool

text \<open>A step that cannot happen (a watch that has returned, a loop or check that does not exist)
  leaves the state as it is.\<close>

definition on_world :: "'d system \<Rightarrow> panic + 'd world \<Rightarrow> panic + 'd system" where
  "on_world s r = (case r of Inl p \<Rightarrow> Inl p | Inr w \<Rightarrow> Inr (s\<lparr>sy_world := w\<rparr>))"

text \<open>
  A handler publishes in one step; \<open>SendWaits a\<close> after it takes back the newest event of a channel, which
  makes its send a late one, and \<open>SendHappens\<close> makes a late send, which panics if the channel has been closed by then.
  Lifting events out and putting them back around a publication also gives the sends that were late and met a full
  buffer, or room where there was none before.  The flag lets a send happen again: an unsubscription that
  runs between a publication and its sends moves the later subscribers down in the slice the publication is
  reading (\<open>stale_slice\<close> of \<open>Bus\<close>), so that the last one may be sent to twice.  A late send that never
  happens is one that the moved slice has skipped.
\<close>

definition send_waits :: "addr \<Rightarrow> bus \<Rightarrow> event option \<times> bus" where
  "send_waits a b =
     (let c = bs_chans b a in
      if ch_buf c = [] then (None, b)
      else (Some (last (ch_buf c)), b\<lparr>bs_chans := (bs_chans b)(a := c\<lparr>ch_buf := butlast (ch_buf c)\<rparr>)\<rparr>))"

definition late_send :: "addr \<Rightarrow> event \<Rightarrow> bus \<Rightarrow> panic + bus" where
  "late_send a ev b =
     (case try_send ev (bs_chans b a) of
        Inl p \<Rightarrow> Inl p
      | Inr c \<Rightarrow> Inr (b\<lparr>bs_chans := (bs_chans b)(a := c)\<rparr>))"

definition system_step :: "'d host \<Rightarrow> 'd system \<Rightarrow> 'd system_op \<Rightarrow> panic + 'd system" where
  "system_step h s e =
     (let w = sy_world s; ls = sy_loops s; sr = ho_server h in
      case e of
        ExecutorTurn sel now rand \<Rightarrow>
          (case Run_executor (sr_executor sr) sel now rand (ls ! 0) w of
             Inl p \<Rightarrow> Inl p
           | Inr (l, w) \<Rightarrow> Inr (s\<lparr>sy_world := w, sy_loops := ls[0 := l]\<rparr>))
      | MonitorTurn sel \<Rightarrow>
          (case Run_monitor (ho_parseDuration h) sel (ls ! 1) (sy_monitor s) w of
             Inl p \<Rightarrow> Inl p
           | Inr (l, m, w) \<Rightarrow> Inr (s\<lparr>sy_world := w, sy_loops := ls[1 := l], sy_monitor := m\<rparr>))
      | RollbackTurn sel now \<Rightarrow>
          (case Run_rollback (sr_docker sr) sel now (ls ! 2) w of
             Inl p \<Rightarrow> Inl p
           | Inr (l, w) \<Rightarrow> Inr (s\<lparr>sy_world := w, sy_loops := ls[2 := l]\<rparr>))
      | NotifierTurn k sel order \<Rightarrow>
          if k < length notifier_topics \<and> range_order order (nt_clients (sy_notifier s)) then
            (case runTopic (ho_marshal h) (notifier_topics ! k) sel order (ls ! (3 + k)) (sy_notifier s) (w_bus w) of
               Inl p \<Rightarrow> Inl p
             | Inr (l, n, b) \<Rightarrow> Inr (s\<lparr>sy_world := w\<lparr>w_bus := b\<rparr>, sy_loops := ls[3 + k := l], sy_notifier := n\<rparr>))
          else Inr s
      | WatchTick now k \<Rightarrow>
          if live (sy_monitor s) k then
            (case tick_watch (sr_docker sr) now k (sy_monitor s) w of
               Inl p \<Rightarrow> Inl p
             | Inr (m, w) \<Rightarrow> Inr (s\<lparr>sy_world := w, sy_monitor := m\<rparr>))
          else Inr s
      | WatchEnds k \<Rightarrow>
          Inr (if live (sy_monitor s) k then s\<lparr>sy_monitor := exit_watch k (sy_monitor s)\<rparr> else s)
      | BrowserJoins \<Rightarrow> Inr (s\<lparr>sy_notifier := snd (AddSSEClient (sy_notifier s))\<rparr>)
      | BrowserLeaves c \<Rightarrow>
          if connected c (sy_notifier s) then
            (case remove_client c (sy_notifier s) of
               Inl p \<Rightarrow> Inl p
             | Inr n \<Rightarrow> Inr (s\<lparr>sy_notifier := n\<rparr>))
          else Inr s
      | BrowserReads c \<Rightarrow> Inr (s\<lparr>sy_notifier := snd (read_client c (sy_notifier s))\<rparr>)
      | PollerTurn c \<Rightarrow>
          (case Run_poller (ho_schedule_ok h) c (sy_polling s) (sy_poller s) w of
             Inl p \<Rightarrow> Inl p
           | Inr (st, due, p, w) \<Rightarrow>
               Inr (s\<lparr>sy_world := w, sy_poller := p, sy_polling := st, sy_checks := sy_checks s @ due\<rparr>))
      | CheckRuns k head tx now order \<Rightarrow>
          if k < length (sy_checks s) then
            on_world (s\<lparr>sy_checks := take k (sy_checks s) @ drop (Suc k) (sy_checks s)\<rparr>)
              (checkService (ho_time h) head tx now order (sy_checks s ! k) w)
          else Inr s
      | DockerEvent order now ev \<Rightarrow> on_world s (handleEvent (sr_docker sr) order now ev w)
      | WebhookCall c \<Rightarrow> on_world s (hook_step (sr_webhook sr) w c)
      | ApiCall c \<Rightarrow> on_world s (api_step (sr_api sr) w c)
      | ViewerReads a \<Rightarrow> on_world s (map_sum id (\<lambda>r. w\<lparr>w_jobs := r\<rparr>) (job_at a RecvLog (w_jobs w)))
      | DaemonChanges d \<Rightarrow> Inr (s\<lparr>sy_world := w\<lparr>w_docker := d\<rparr>\<rparr>)
      | SendWaits a \<Rightarrow>
          (case send_waits a (w_bus w) of
             (None, b) \<Rightarrow> Inr s
           | (Some ev, b) \<Rightarrow> Inr (s\<lparr>sy_world := w\<lparr>w_bus := b\<rparr>, sy_late := sy_late s @ [(a, ev)]\<rparr>))
      | SendHappens k again \<Rightarrow>
          if k < length (sy_late s) then
            (case late_send (fst (sy_late s ! k)) (snd (sy_late s ! k)) (w_bus w) of
               Inl p \<Rightarrow> Inl p
             | Inr b \<Rightarrow> Inr (s\<lparr>sy_world := w\<lparr>w_bus := b\<rparr>,
                 sy_late := (if again then sy_late s else take k (sy_late s) @ drop (Suc k) (sy_late s))\<rparr>))
          else Inr s)"

text \<open>The turns in which a loop that listens to the bus sees its context cancelled and unsubscribes.\<close>

definition stops :: "'d system_op \<Rightarrow> bool" where
  "stops e \<longleftrightarrow>
     (case e of
        ExecutorTurn sel now rand \<Rightarrow> sel = Cancelled
      | MonitorTurn sel \<Rightarrow> sel = Cancelled
      | RollbackTurn sel now \<Rightarrow> sel = Cancelled
      | NotifierTurn k sel order \<Rightarrow> sel = Cancelled
      | _ \<Rightarrow> False)"

section \<open>Digests in the whole server\<close>

text \<open>What a step brings in from outside.\<close>

definition brings :: "(string \<Rightarrow> bool) \<Rightarrow> 'd host \<Rightarrow> 'd system_op \<Rightarrow> bool" where
  "brings good h e =
     (case e of
        PollerTurn (CronFires head now order) \<Rightarrow> head_brings good head
      | CheckRuns k head tx now order \<Rightarrow> head_brings good head
      | DockerEvent order now ev \<Rightarrow> event_brings good ev
      | WebhookCall (k, now, t, rand, order1, order2, r) \<Rightarrow>
          (\<forall>d \<in> set (hook_digests (sr_webhook (ho_server h)) k r). good d)
      | ApiCall c \<Rightarrow> call_brings good c
      | _ \<Rightarrow> True)"

lemma brings_anything: "brings (\<lambda>_. True) h e"
  by (simp add: brings_def head_brings_def event_brings_def call_brings_def split: system_op.split poll_case.split prod.split)

definition system_clean :: "(string \<Rightarrow> bool) \<Rightarrow> bool \<Rightarrow> 'd system \<Rightarrow> bool" where
  "system_clean good up s \<longleftrightarrow> clean good up (sy_world s) \<and>
     (\<forall>(a, ev) \<in> set (sy_late s). payload_clean good (ev_Payload ev)) \<and>
     (\<forall>t \<in> set (mn_watches (sy_monitor s)). good (ua_NewDigest (wt_p t))) \<and>
     (\<forall>svc \<in> set (sy_checks s). known good (sv_LastDigest svc))"

lemma clean_anything: "system_clean (\<lambda>_. True) False s"
proof -
  have "payload_clean (\<lambda>_. True) pl" for pl by (simp add: payload_clean_def known_def split: payload.split)
  then show ?thesis
    by (simp add: system_clean_def clean_def flows_def bus_clean_def store_clean_def config_clean_def ring_clean_def
        known_def case_prod_beta)
qed

text \<open>Every running loop has one of the bus's subscriptions to its topic for itself, and the bus has no
  others.\<close>

definition own_subscriptions :: "loop list \<Rightarrow> bus \<Rightarrow> bool" where
  "own_subscriptions ls b \<longleftrightarrow> length ls = length component_topics \<and>
     (\<forall>t sub. sub \<in> set (subs_of b t) \<longleftrightarrow>
        (\<exists>k < length ls. component_topics ! k = t \<and> ls ! k = Running sub)) \<and>
     (\<forall>j < length ls. \<forall>k < length ls. \<forall>sub. ls ! j = Running sub \<longrightarrow> ls ! k = Running sub \<longrightarrow> j = k)"

definition system_inv :: "'d system \<Rightarrow> bool" where
  "system_inv s \<longleftrightarrow> world_inv (sy_world s) \<and> notifier_inv (sy_notifier s) \<and>
     own_subscriptions (sy_loops s) (w_bus (sy_world s))"

section \<open>A turn of a loop\<close>

lemma own_subscriptions_subs:
  "own_subscriptions ls b \<Longrightarrow> subs_of b' = subs_of b \<Longrightarrow> own_subscriptions ls b'"
  by (simp add: own_subscriptions_def)

lemma running_upd:
  "k < length ls \<Longrightarrow> (\<exists>j < length ls. T j = t \<and> ls[k := l] ! j = Running sub) \<longleftrightarrow>
     (T k = t \<and> l = Running sub) \<or> (\<exists>j < length ls. j \<noteq> k \<and> T j = t \<and> ls ! j = Running sub)"
  by (metis nth_list_update_eq nth_list_update_neq)

lemma unique_upd:
  assumes "\<forall>i < length ls. \<forall>j < length ls. \<forall>sub. ls ! i = Running sub \<longrightarrow> ls ! j = Running sub \<longrightarrow> i = j"
    and "\<And>j sub. l = Running sub \<Longrightarrow> j < length ls \<Longrightarrow> ls ! j \<noteq> Running sub"
    and "ls[k := l] ! i = Running sub" "ls[k := l] ! j = Running sub" "i < length ls" "j < length ls"
  shows "i = j"
proof (cases "i = k"; cases "j = k")
  assume "i = k" "j \<noteq> k"
  with assms(2-6) show ?thesis by (metis nth_list_update_eq nth_list_update_neq)
next
  assume "i \<noteq> k" "j = k"
  with assms(2-6) show ?thesis by (metis nth_list_update_eq nth_list_update_neq)
next
  assume "i \<noteq> k" "j \<noteq> k"
  with assms(3,4) have "ls ! i = Running sub" "ls ! j = Running sub" by simp_all
  with assms(1,5,6) show ?thesis by blast
qed simp

lemma own_start:
  assumes inv: "bus_inv b" and own: "own_subscriptions ls b" and k: "k < length ls" "ls ! k = NotStarted"
  shows "own_subscriptions (ls[k := Running (fst (Subscribe (component_topics ! k) b))])
    (snd (Subscribe (component_topics ! k) b))"
proof -
  let ?t = "component_topics ! k" let ?s = "fst (Subscribe ?t b)"
  have fresh: "ls ! j \<noteq> Running ?s" if "j < length ls" for j
  proof
    assume "ls ! j = Running ?s"
    with own that have "?s \<in> set (subs_of b (component_topics ! j))" unfolding own_subscriptions_def by blast
    from bus_invD(3) [OF inv this] show False by (simp add: Subscribe_sel)
  qed
  have "sub \<in> set (subs_of (snd (Subscribe ?t b)) t) \<longleftrightarrow>
      (\<exists>j < length ls. component_topics ! j = t \<and> ls[k := Running ?s] ! j = Running sub)" for t sub
  proof -
    have "sub \<in> set (subs_of b t) \<longleftrightarrow> (\<exists>j < length ls. component_topics ! j = t \<and> ls ! j = Running sub)"
      using own by (simp add: own_subscriptions_def)
    also have "\<dots> \<longleftrightarrow> (\<exists>j < length ls. j \<noteq> k \<and> component_topics ! j = t \<and> ls ! j = Running sub)"
      using k(2) by (metis loop.distinct(1))
    finally show ?thesis by (auto simp: running_upd [OF k(1)] Subscribe_sel(1))
  qed
  moreover have "i = j"
    if "i < length ls" "j < length ls" "ls[k := Running ?s] ! i = Running sub" "ls[k := Running ?s] ! j = Running sub"
    for i j sub
    by (rule unique_upd [OF _ _ that(3,4,1,2)]) (use own fresh in \<open>auto simp: own_subscriptions_def\<close>)
  ultimately show ?thesis using own by (simp add: own_subscriptions_def)
qed

lemma own_stop:
  assumes inv: "bus_inv b" and own: "own_subscriptions ls b" and k: "k < length ls" "ls ! k = Running sub"
    and u: "unsub (component_topics ! k) (sub_id sub) b = Inr b'"
  shows "own_subscriptions (ls[k := Returned]) b'"
proof -
  let ?t = "component_topics ! k"
  have mem: "sub \<in> set (subs_of b ?t)" using own k unfolding own_subscriptions_def by blast
  from inv show ?thesis
  proof (cases rule: unsub_cases [where i = "sub_id sub" and t = ?t])
    case absent
    with mem show ?thesis by blast
  next
    case (present s x y b1)
    have "s = sub"
      using bus_invD(1) [OF inv, of ?t] mem present(1,2) by (auto simp: distinct_map inj_on_def)
    have "distinct (subs_of b ?t)" by (rule distinct_subs [OF inv])
    with present have rest: "set (subs_of b' ?t) = set (subs_of b ?t) - {sub}"
      using u \<open>s = sub\<close> by auto
    have others: "subs_of b' t = subs_of b t" if "t \<noteq> ?t" for t using present u that by auto
    have only: "j = k" if "j < length ls" "ls ! j = Running sub" for j
      using own k that unfolding own_subscriptions_def by blast
    have "z \<in> set (subs_of b' t) \<longleftrightarrow>
        (\<exists>j < length ls. component_topics ! j = t \<and> ls[k := Returned] ! j = Running z)" for t z
    proof -
      have z: "z \<in> set (subs_of b t) \<longleftrightarrow> (\<exists>j < length ls. component_topics ! j = t \<and> ls ! j = Running z)"
        using own by (simp add: own_subscriptions_def)
      have "z \<in> set (subs_of b' t) \<longleftrightarrow> z \<in> set (subs_of b t) \<and> (t = ?t \<longrightarrow> z \<noteq> sub)"
        using rest others by (cases "t = ?t") auto
      also have "\<dots> \<longleftrightarrow> (\<exists>j < length ls. j \<noteq> k \<and> component_topics ! j = t \<and> ls ! j = Running z)"
        unfolding z using only k by (metis loop.inject)
      finally show ?thesis by (simp add: running_upd [OF k(1)])
    qed
    moreover have "i = j"
      if "i < length ls" "j < length ls" "ls[k := Returned] ! i = Running z" "ls[k := Returned] ! j = Running z" for i j z
      by (rule unique_upd [OF _ _ that(3,4,1,2)]) (use own in \<open>auto simp: own_subscriptions_def\<close>)
    ultimately show ?thesis using own by (simp add: own_subscriptions_def)
  qed
qed

lemma loop_select_own:
  assumes "bus_inv b" "own_subscriptions ls b" "k < length ls"
    and "loop_select (component_topics ! k) sel (ls ! k) b = Inr (ev, l', b')"
  shows "own_subscriptions (ls[k := l']) b'"
proof (cases "ls ! k")
  case NotStarted
  with own_start [OF assms(1-3) NotStarted] assms(4) show ?thesis
    by (cases "Subscribe (component_topics ! k) b") (simp add: loop_select_def)
next
  case (Running sub)
  show ?thesis
  proof (cases sel)
    case Cancelled
    with Running assms(4) have "l' = Returned" "unsub (component_topics ! k) (sub_id sub) b = Inr b'"
      by (auto simp: loop_select_def split: sum.splits)
    with own_stop [OF assms(1-3) Running] show ?thesis by simp
  next
    case Arrived
    with Running assms(4) have "l' = ls ! k" "b' = snd (bus_receive (sub_ch sub) b)"
      by (auto simp: loop_select_def split: prod.splits received.splits)
    then show ?thesis
      using own_subscriptions_subs [OF assms(2), of b'] by (simp add: bus_receive_def split_beta Let_def fun_eq_iff)
  qed
next
  case Returned
  then have "ls[k := Returned] = ls" by (metis list_update_id)
  with Returned assms show ?thesis by (simp add: loop_select_def)
qed

lemma loop_select_clean:
  assumes "bus_inv b" "bus_clean good up b" "loop_select t sel l b = Inr (ev, l', b')"
    and "up \<Longrightarrow> sel \<noteq> Cancelled"
  shows "bus_clean good up b'" and "ev = Some e \<Longrightarrow> payload_clean good (ev_Payload e)"
proof -
  have r: "bus_clean good up b' \<and> (\<forall>e. ev = Some e \<longrightarrow> payload_clean good (ev_Payload e))"
  proof (cases l)
    case NotStarted
    with assms Subscribe_clean [OF assms(2), of t] show ?thesis
      by (cases "Subscribe t b") (auto simp: loop_select_def)
  next
    case (Running sub)
    show ?thesis
    proof (cases sel)
      case Cancelled
      with assms(4) have "\<not> up" by blast
      with Cancelled Running assms(3) unsub_clean [OF assms(1,2)] show ?thesis
        by (auto simp: loop_select_def bus_clean_def split: sum.splits)
    next
      case Arrived
      with Running assms(3) receive_clean [OF assms(2), of "sub_ch sub"] show ?thesis
        by (cases "bus_receive (sub_ch sub) b") (auto simp: loop_select_def split: received.splits)
    qed
  qed (use assms in \<open>simp add: loop_select_def\<close>)
  from r show "bus_clean good up b'" by blast
  from r show "ev = Some e \<Longrightarrow> payload_clean good (ev_Payload e)" by blast
qed

section \<open>Every step\<close>

text \<open>What a world may become in a step of the system: well formed and clean, with the same subscriptions.\<close>

definition follows :: "(string \<Rightarrow> bool) \<Rightarrow> bool \<Rightarrow> 'd world \<Rightarrow> 'd world \<Rightarrow> bool" where
  "follows good up w w' \<longleftrightarrow> world_inv w' \<and> clean good up w' \<and> subs_of (w_bus w') = subs_of (w_bus w)"

lemma followsI:
  "world_inv w' \<Longrightarrow> flows (\<lambda>b. bus_clean good up b \<and> subs_of b = subs_of (w_bus w)) (store_clean good) (config_clean good) w' \<Longrightarrow>
   follows good up w w'"
  by (simp add: follows_def clean_def flows_def)

lemma clean_here:
  "clean good up w \<Longrightarrow> flows (\<lambda>b. bus_clean good up b \<and> subs_of b = subs_of (w_bus w)) (store_clean good) (config_clean good) w"
  by (simp add: clean_def flows_def)

lemma handle_follows:
  assumes "world_inv w" "clean good up w" "good (iu_NewDigest p)"
  shows "\<exists>w'. handle e now rand p w = Inr w' \<and> follows good up w w'"
proof -
  obtain w' where w': "handle e now rand p w = Inr w'" "world_inv w'"
    using handle_safe [OF assms(1), of e now rand p] by blast
  from digest_flow.handle_flow [where good = good, OF assms(1) clean_here [OF assms(2)] assms(3) w'(1)] w'
  show ?thesis by (auto intro: followsI)
qed

lemma handle_rollback_follows:
  assumes "world_inv w" "clean good up w" "16 \<le> length (cu_AppliedDigest p)" "known good (cu_PrevDigest p)"
  shows "\<exists>w'. handle_rollback docker now p w = Inr w' \<and> follows good up w w'"
proof -
  obtain w' where w': "handle_rollback docker now p w = Inr w'" "world_inv w'"
    using handle_rollback_safe [OF assms(1,3), of docker now] by blast
  from digest_flow.handle_rollback_flow [where good = good, OF assms(1) clean_here [OF assms(2)] assms(4) w'(1)] w'
  show ?thesis by (auto intro: followsI)
qed

lemma handleEvent_follows:
  assumes "world_inv w" "clean good up w" "event_brings good ev"
  shows "\<exists>w'. handleEvent docker order now ev w = Inr w' \<and> follows good up w w'"
proof -
  obtain w' where w': "handleEvent docker order now ev w = Inr w'" "world_inv w'"
    using handleEvent_safe [OF assms(1), of docker order now ev] by blast
  from digest_flow.handleEvent_flow [where good = good, OF assms(1) clean_here [OF assms(2)] assms(3) w'(1)] w'
  show ?thesis by (auto intro: followsI)
qed

lemma tick_follows:
  assumes "world_inv w" "clean good up w" "good (ua_NewDigest (wt_p (mn_watches m ! k)))"
  shows "\<exists>m' w'. tick_watch docker t k m w = Inr (m', w') \<and> follows good up w w' \<and> (m' = m \<or> m' = exit_watch k m)"
proof -
  obtain m' w' where w': "tick_watch docker t k m w = Inr (m', w')" "world_inv w'"
    using tick_watch_safe [OF assms(1), of docker t k m] by blast
  moreover have "m' = m \<or> m' = exit_watch k m"
    using w'(1) by (auto simp: tick_watch_def Let_def split: sum.splits bool.splits)
  ultimately show ?thesis
    using digest_flow.tick_flow [where good = good, OF assms(1) clean_here [OF assms(2)] assms(3) w'(1)]
    by (auto intro: followsI)
qed

lemma poll_follows:
  assumes "world_inv w" "clean good up w" "head_brings good head"
  shows "\<exists>w'. poll head now order w = Inr w' \<and> follows good up w w'"
proof -
  obtain w' where w': "poll head now order w = Inr w'" "world_inv w'"
    using poll_safe [OF assms(1), of head now order] by blast
  from digest_flow.poll_flow [where good = good, OF assms(1) clean_here [OF assms(2)] assms(3) w'(1)] w'
  show ?thesis by (auto intro: followsI)
qed

lemma checkService_follows:
  assumes "world_inv w" "clean good up w" "head_brings good head" "known good (sv_LastDigest svc)"
  shows "\<exists>w'. checkService io head tx t order svc w = Inr w' \<and> follows good up w w'"
proof -
  obtain w' where w': "checkService io head tx t order svc w = Inr w'" "world_inv w'"
    using checkService_safe [OF assms(1), of io head tx t order svc] by blast
  from digest_flow.checkService_flow [where good = good, OF assms(1) clean_here [OF assms(2)] assms(3,4) w'(1)] w'
  show ?thesis by (auto intro: followsI)
qed

lemma api_step_follows:
  assumes "world_inv w" "clean good up w" "call_brings good c"
  shows "\<exists>w'. api_step x w c = Inr w' \<and> follows good up w w'"
proof -
  obtain w' where w': "api_step x w c = Inr w'" "world_inv w'"
    using api_step_safe [OF assms(1), of x c] by blast
  from digest_flow.api_step_flow [where good = good, OF assms(1) clean_here [OF assms(2)] assms(3) w'(1)] w'
  show ?thesis by (auto intro: followsI)
qed

lemma hook_step_follows:
  assumes "world_inv w" "clean good up w"
    and "\<forall>d \<in> set (hook_digests x k r). good d"
  shows "\<exists>w'. hook_step x w (k, now, t, rand, o1, o2, r) = Inr w' \<and> follows good up w w'"
proof -
  obtain w' where w': "hook_step x w (k, now, t, rand, o1, o2, r) = Inr w'" "world_inv w'"
    using hook_step_safe [OF assms(1), of x "(k, now, t, rand, o1, o2, r)"] by blast
  show ?thesis
  proof (cases k)
    case PushHook
    then obtain resp where "handlePush x now t rand o1 o2 r w = Inr (resp, w')"
      using w'(1) by (auto simp: hook_step_def split: sum.splits)
    from digest_flow.handlePush_flow [where good = good, OF assms(1) clean_here [OF assms(2)] assms(3) [unfolded PushHook] this] w'
    show ?thesis by (auto intro: followsI)
  next
    case HubHook
    then obtain resp where "handleDockerHub x now o1 r w = Inr (resp, w')"
      using w'(1) by (auto simp: hook_step_def split: sum.splits)
    from digest_flow.handleDockerHub_flow [where good = good, OF assms(1) clean_here [OF assms(2)] assms(3) [unfolded HubHook] this] w'
    show ?thesis by (auto intro: followsI)
  qed
qed

lemma turn:
  assumes "system_inv s" "system_clean good up s" "k < length component_topics" "component_topics ! k = t"
    and sel: "loop_select t sel (sy_loops s ! k) (w_bus (sy_world s)) = Inr (ev, l, b)"
    and up: "up \<Longrightarrow> sel \<noteq> Cancelled"
  shows "world_inv ((sy_world s)\<lparr>w_bus := b\<rparr>)" "clean good up ((sy_world s)\<lparr>w_bus := b\<rparr>)"
    and "own_subscriptions ((sy_loops s)[k := l]) b"
    and "ev = Some x \<Longrightarrow> payload_clean good (ev_Payload x)"
proof -
  let ?b = "w_bus (sy_world s)"
  have w: "world_inv (sy_world s)" "own_subscriptions (sy_loops s) ?b" "clean good up (sy_world s)"
    using assms(1,2) by (simp_all add: system_inv_def system_clean_def)
  have b: "bus_inv ?b" "bus_clean good up ?b"
    using world_invD(1) [OF w(1)] w(3) by (simp_all add: clean_def flows_def)
  have "bus_inv b" using loop_select_safe [OF b(1), of t sel "sy_loops s ! k"] sel by auto
  then show "world_inv ((sy_world s)\<lparr>w_bus := b\<rparr>)" by (rule world_bus [OF w(1)])
  show "clean good up ((sy_world s)\<lparr>w_bus := b\<rparr>)"
    using w(3) loop_select_clean(1) [OF b sel up] by (simp add: clean_def flows_def)
  show "own_subscriptions ((sy_loops s)[k := l]) b"
  proof (rule loop_select_own [OF b(1) w(2)])
    show "k < length (sy_loops s)" using assms(3) w(2) by (simp add: own_subscriptions_def)
  qed (use sel assms(4) in simp)
  show "ev = Some x \<Longrightarrow> payload_clean good (ev_Payload x)" by (rule loop_select_clean(2) [OF b sel up])
qed

text \<open>After a turn's handler, or after a handler outside the loops.\<close>

lemma after_turn:
  assumes "system_inv s" "system_clean good up s" "follows good up ((sy_world s)\<lparr>w_bus := b\<rparr>) w'"
    and "own_subscriptions ls b"
  shows "system_inv (s\<lparr>sy_world := w', sy_loops := ls\<rparr>) \<and> system_clean good up (s\<lparr>sy_world := w', sy_loops := ls\<rparr>)"
  using assms own_subscriptions_subs [OF assms(4), of "w_bus w'"]
  by (simp add: system_inv_def system_clean_def follows_def)

lemma after_handler:
  assumes "system_inv s" "system_clean good up s" "follows good up (sy_world s) w'"
  shows "system_inv (s\<lparr>sy_world := w'\<rparr>) \<and> system_clean good up (s\<lparr>sy_world := w'\<rparr>)"
  using assms own_subscriptions_subs [of "sy_loops s" "w_bus (sy_world s)" "w_bus w'"]
  by (simp add: system_inv_def system_clean_def follows_def)

lemma follows_refl: "world_inv w \<Longrightarrow> clean good up w \<Longrightarrow> follows good up w w"
  by (simp add: follows_def)

definition sound :: "(string \<Rightarrow> bool) \<Rightarrow> bool \<Rightarrow> panic + 'd system \<Rightarrow> bool" where
  "sound good up r =
     (case r of
        Inl p \<Rightarrow> \<exists>d. good d \<and> length d < 16
      | Inr s \<Rightarrow> system_inv s \<and> system_clean good up s)"

lemma executor_turn:
  assumes "system_inv s" "system_clean good up s" "up \<Longrightarrow> sel \<noteq> Cancelled"
  shows "sound good up (system_step h s (ExecutorTurn sel now rand))"
proof -
  have k: "0 < length component_topics" "component_topics ! 0 = TopicImageUpdated"
    by (simp_all add: component_topics_def)
  obtain ev l b where r: "loop_select TopicImageUpdated sel (sy_loops s ! 0) (w_bus (sy_world s)) = Inr (ev, l, b)"
    using loop_select_safe [OF world_invD(1)] assms(1) by (metis system_inv_def)
  note t = turn [OF assms(1,2) k r assms(3)]
  let ?w = "(sy_world s)\<lparr>w_bus := b\<rparr>"
  have "\<exists>w'. Run_executor (sr_executor (ho_server h)) sel now rand (sy_loops s ! 0) (sy_world s) = Inr (l, w') \<and>
      follows good up ?w w'"
  proof (cases "\<exists>p x. ev = Some x \<and> ev_Payload x = ImageUpdatedPayload p")
    case True
    then obtain p x where p: "ev = Some x" "ev_Payload x = ImageUpdatedPayload p" by blast
    with t(4) have "good (iu_NewDigest p)" by (simp add: payload_clean_def)
    from handle_follows [OF t(1,2) this, of "sr_executor (ho_server h)" now rand] p r show ?thesis
      by (auto simp: Run_executor_def)
  next
    case False
    with r have "Run_executor (sr_executor (ho_server h)) sel now rand (sy_loops s ! 0) (sy_world s) = Inr (l, ?w)"
      by (auto simp: Run_executor_def Let_def split: option.split payload.split)
    with follows_refl [OF t(1,2)] show ?thesis by blast
  qed
  then obtain w' where "Run_executor (sr_executor (ho_server h)) sel now rand (sy_loops s ! 0) (sy_world s) = Inr (l, w')"
    "follows good up ?w w'" by blast
  with after_turn [OF assms(1,2) this(2) t(3)] show ?thesis by (simp add: system_step_def sound_def)
qed

lemma rollback_turn:
  assumes "system_inv s" "system_clean good up s" "up \<Longrightarrow> sel \<noteq> Cancelled"
  shows "sound good up (system_step h s (RollbackTurn sel now))"
proof -
  have k: "2 < length component_topics" "component_topics ! 2 = TopicContainerUnhealthy"
    by (simp_all add: component_topics_def)
  obtain ev l b where r: "loop_select TopicContainerUnhealthy sel (sy_loops s ! 2) (w_bus (sy_world s)) = Inr (ev, l, b)"
    using loop_select_safe [OF world_invD(1)] assms(1) by (metis system_inv_def)
  note t = turn [OF assms(1,2) k r assms(3)]
  let ?w = "(sy_world s)\<lparr>w_bus := b\<rparr>"
  let ?run = "Run_rollback (sr_docker (ho_server h)) sel now (sy_loops s ! 2) (sy_world s)"
  show ?thesis
  proof (cases "\<exists>p x. ev = Some x \<and> ev_Payload x = ContainerUnhealthyPayload p")
    case True
    then obtain p x where p: "ev = Some x" "ev_Payload x = ContainerUnhealthyPayload p" by blast
    with t(4) have g: "good (cu_AppliedDigest p)" "known good (cu_PrevDigest p)" by (simp_all add: payload_clean_def)
    show ?thesis
    proof (cases "16 \<le> length (cu_AppliedDigest p)")
      case True
      from handle_rollback_follows [OF t(1,2) True g(2), of "sr_docker (ho_server h)" now] p r
      obtain w' where "?run = Inr (l, w')" "follows good up ?w w'" by (auto simp: Run_rollback_def)
      with after_turn [OF assms(1,2) this(2) t(3)] show ?thesis by (simp add: system_step_def sound_def)
    next
      case False
      with p r have "?run = Inl SliceOutOfRange" by (simp add: Run_rollback_def handle_rollback_short)
      with g(1) False show ?thesis by (auto simp: system_step_def sound_def not_le)
    qed
  next
    case False
    with r have "?run = Inr (l, ?w)" by (auto simp: Run_rollback_def Let_def split: option.split payload.split)
    with after_turn [OF assms(1,2) follows_refl [OF t(1,2)] t(3)] show ?thesis by (simp add: system_step_def sound_def)
  qed
qed

lemma startWatch_clean:
  assumes "\<forall>t \<in> set (mn_watches m). good (ua_NewDigest (wt_p t))" "good (ua_NewDigest p)"
  shows "\<forall>t \<in> set (mn_watches (startWatch pd p s m)). good (ua_NewDigest (wt_p t))"
proof -
  have "good (ua_NewDigest (wt_p t))" if "t \<in> set (mn_watches (cancel k m))" for t k
    using that assms(1) by (cases "k < length (mn_watches m)")
      (auto simp: cancel_def set_conv_nth nth_list_update split: if_splits)
  with assms show ?thesis by (auto simp: startWatch_def Let_def split: option.splits)
qed

lemma exit_watch_clean:
  assumes "\<forall>t \<in> set (mn_watches m). good (ua_NewDigest (wt_p t))"
  shows "\<forall>t \<in> set (mn_watches (exit_watch k m)). good (ua_NewDigest (wt_p t))"
  using assms by (cases "k < length (mn_watches m)")
    (auto simp: exit_watch_def set_conv_nth nth_list_update split: if_splits)

lemma monitor_turn:
  assumes "system_inv s" "system_clean good up s" "up \<Longrightarrow> sel \<noteq> Cancelled"
  shows "sound good up (system_step h s (MonitorTurn sel))"
proof -
  have k: "1 < length component_topics" "component_topics ! 1 = TopicUpdateApplied"
    by (simp_all add: component_topics_def)
  obtain ev l b where r: "loop_select TopicUpdateApplied sel (sy_loops s ! 1) (w_bus (sy_world s)) = Inr (ev, l, b)"
    using loop_select_safe [OF world_invD(1)] assms(1) by (metis system_inv_def)
  note t = turn [OF assms(1,2) k r assms(3)]
  let ?w = "(sy_world s)\<lparr>w_bus := b\<rparr>"
  have m: "\<forall>t \<in> set (mn_watches (sy_monitor s)). good (ua_NewDigest (wt_p t))"
    using assms(2) by (simp add: system_clean_def)
  obtain m' where m': "Run_monitor (ho_parseDuration h) sel (sy_loops s ! 1) (sy_monitor s) (sy_world s) = Inr (l, m', ?w)"
    "\<forall>t \<in> set (mn_watches m'). good (ua_NewDigest (wt_p t))"
  proof (cases "\<exists>p x. ev = Some x \<and> ev_Payload x = UpdateAppliedPayload p")
    case True
    then obtain p x where p: "ev = Some x" "ev_Payload x = UpdateAppliedPayload p" by blast
    with t(4) have "good (ua_NewDigest p)" by (simp add: payload_clean_def)
    from startWatch_clean [where good = good, OF m this] p r show ?thesis
      by (intro that [of "startWatch (ho_parseDuration h) p (w_store ?w) (sy_monitor s)"]) (simp_all add: Run_monitor_def)
  next
    case False
    with r m show ?thesis
      by (intro that [of "sy_monitor s"]) (auto simp: Run_monitor_def Let_def split: option.split payload.split)
  qed
  with after_turn [OF assms(1,2) follows_refl [OF t(1,2)] t(3)] show ?thesis
    by (simp add: system_step_def sound_def system_inv_def system_clean_def)
qed

lemma notifier_turn:
  assumes "system_inv s" "system_clean good up s" "up \<Longrightarrow> sel \<noteq> Cancelled"
  shows "sound good up (system_step h s (NotifierTurn k sel order))"
proof (cases "k < length notifier_topics \<and> range_order order (nt_clients (sy_notifier s))")
  case True
  then have k: "3 + k < length component_topics" "component_topics ! (3 + k) = notifier_topics ! k"
    by (simp_all add: component_topics_def)
  obtain ev l b where r: "loop_select (notifier_topics ! k) sel (sy_loops s ! (3 + k)) (w_bus (sy_world s)) = Inr (ev, l, b)"
    using loop_select_safe [OF world_invD(1)] assms(1) by (metis system_inv_def)
  note t = turn [OF assms(1,2) k r assms(3)]
  have n: "notifier_inv (sy_notifier s)" using assms(1) by (simp add: system_inv_def)
  obtain n' where n': "runTopic (ho_marshal h) (notifier_topics ! k) sel order (sy_loops s ! (3 + k)) (sy_notifier s)
      (w_bus (sy_world s)) = Inr (l, n', b)" "notifier_inv n'"
  proof (cases ev)
    case None
    with r n show ?thesis by (intro that [of "sy_notifier s"]) (simp_all add: runTopic_def)
  next
    case (Some x)
    from notify_step_safe [OF n, of "ho_marshal h" "Event order x"] True
    obtain n' where "dispatch_event (ho_marshal h) order x (sy_notifier s) = Inr n'" "notifier_inv n'"
      by (auto simp: notify_step_def)
    with r Some show ?thesis by (intro that [of n']) (simp_all add: runTopic_def)
  qed
  with True after_turn [OF assms(1,2) follows_refl [OF t(1,2)] t(3)] show ?thesis
    by (simp add: system_step_def sound_def system_inv_def system_clean_def)
next
  case False
  with assms show ?thesis by (auto simp: system_step_def sound_def)
qed

lemma watch_tick:
  assumes "system_inv s" "system_clean good up s"
  shows "sound good up (system_step h s (WatchTick now k))"
proof (cases "live (sy_monitor s) k")
  case True
  have w: "world_inv (sy_world s)" "clean good up (sy_world s)"
    and m: "\<forall>t \<in> set (mn_watches (sy_monitor s)). good (ua_NewDigest (wt_p t))"
    using assms by (simp_all add: system_inv_def system_clean_def)
  have g: "good (ua_NewDigest (wt_p (mn_watches (sy_monitor s) ! k)))" using m True by (simp add: live_def)
  obtain m' w' where t: "tick_watch (sr_docker (ho_server h)) now k (sy_monitor s) (sy_world s) = Inr (m', w')"
    "follows good up (sy_world s) w'" "m' = sy_monitor s \<or> m' = exit_watch k (sy_monitor s)"
    using tick_follows [OF w g, of "sr_docker (ho_server h)" now] by blast
  have m': "\<forall>t \<in> set (mn_watches m'). good (ua_NewDigest (wt_p t))"
    using t(3) m exit_watch_clean [OF m] by auto
  with True t(1) after_handler [OF assms t(2)] show ?thesis
    by (simp add: system_step_def sound_def system_inv_def system_clean_def)
qed (use assms in \<open>simp add: system_step_def sound_def\<close>)

lemma on_world_sound:
  assumes "system_inv s" "system_clean good up s" "\<exists>w'. r = Inr w' \<and> follows good up (sy_world s) w'"
  shows "sound good up (on_world s r)"
  using assms(3) after_handler [OF assms(1,2)] by (auto simp: on_world_def sound_def)

lemma browser_step:
  assumes "system_inv s" "system_clean good up s" "notify_step marshal (sy_notifier s) e = Inr n"
  shows "sound good up (Inr (s\<lparr>sy_notifier := n\<rparr>))"
  using assms notify.step_inv [of "sy_notifier s" marshal e n]
  by (simp add: sound_def system_inv_def system_clean_def)

lemma dispatch_due: "dispatch_loop now k svcs p = (due, p') \<Longrightarrow> svc \<in> set due \<Longrightarrow> svc \<in> set svcs"
proof (induction svcs arbitrary: k p due)
  case (Cons c svcs)
  then show ?case by (force simp: Let_def split: if_splits prod.splits)
qed simp

lemma poller_turn:
  assumes "system_inv s" "system_clean good up s" "\<forall>head now order. c = CronFires head now order \<longrightarrow> head_brings good head"
  shows "sound good up (system_step h s (PollerTurn c))"
proof -
  let ?w = "sy_world s"
  have w: "world_inv ?w" "clean good up ?w" using assms(1,2) by (simp_all add: system_inv_def system_clean_def)
  have known: "known good (sv_LastDigest svc)" if "svc \<in> set (All_services order (w_config ?w))" for svc order
    using that assms(2)
    by (auto simp: All_services_def system_clean_def clean_def flows_def config_clean_def dest: in_range_valuesD)
  obtain st due p w' where r: "Run_poller (ho_schedule_ok h) c (sy_polling s) (sy_poller s) ?w = Inr (st, due, p, w')"
    "follows good up ?w w'" "\<forall>svc \<in> set due. known good (sv_LastDigest svc)"
  proof (cases "sy_polling s = PollRunning")
    case True
    show ?thesis
    proof (cases c)
      case PollCancelled
      with True follows_refl [OF w] show ?thesis
        by (intro that [of PollReturned "[]" "sy_poller s" ?w]) (simp_all add: Run_poller_def)
    next
      case (CronFires head now order)
      with poll_follows [OF w, of head now order] assms(3) obtain w' where
        "poll head now order ?w = Inr w'" "follows good up ?w w'" by blast
      with True CronFires show ?thesis
        by (intro that [of PollRunning "[]" "sy_poller s" w']) (simp_all add: Run_poller_def)
    next
      case (TickerFires now order)
      obtain due p where d: "dispatch_services now order (w_config ?w) (sy_poller s) = (due, p)" by fastforce
      then have "\<forall>svc \<in> set due. known good (sv_LastDigest svc)"
        using dispatch_due known unfolding dispatch_services_def by blast
      with True TickerFires d follows_refl [OF w] show ?thesis
        by (intro that [of PollRunning due p ?w]) (simp_all add: Run_poller_def)
    qed
  next
    case False
    with follows_refl [OF w] show ?thesis
      by (cases "sy_polling s")
        (auto simp: Run_poller_def intro: that [of _ "[]" "sy_poller s" ?w])
  qed
  have "\<forall>svc \<in> set (sy_checks s @ due). known good (sv_LastDigest svc)"
    using r(3) assms(2) by (auto simp: system_clean_def)
  with after_handler [OF assms(1,2) r(2)] r(1) show ?thesis
    by (simp add: system_step_def sound_def system_inv_def system_clean_def)
qed

lemma check_runs:
  assumes "system_inv s" "system_clean good up s" "head_brings good head"
  shows "sound good up (system_step h s (CheckRuns k head tx now order))"
proof (cases "k < length (sy_checks s)")
  case True
  let ?s = "s\<lparr>sy_checks := take k (sy_checks s) @ drop (Suc k) (sy_checks s)\<rparr>"
  have w: "world_inv (sy_world s)" "clean good up (sy_world s)" "known good (sv_LastDigest (sy_checks s ! k))"
    using assms(1,2) True by (simp_all add: system_inv_def system_clean_def)
  have "system_inv ?s" "system_clean good up ?s"
    using assms(1,2) by (auto simp: system_inv_def system_clean_def dest: in_set_takeD in_set_dropD)
  from on_world_sound [OF this] checkService_follows [OF w(1,2) assms(3) w(3)] True
  show ?thesis by (simp add: system_step_def)
qed (use assms in \<open>simp add: system_step_def sound_def\<close>)

text \<open>Late sends.\<close>

lemma bus_upd_chan:
  assumes "wf_chan c" "ch_closed c = ch_closed (bs_chans b a)"
  shows "bus_inv b \<Longrightarrow> bus_inv (b\<lparr>bs_chans := (bs_chans b)(a := c)\<rparr>)"
    and "bus_clean good up b \<Longrightarrow> \<forall>ev \<in> set (ch_buf c). payload_clean good (ev_Payload ev) \<Longrightarrow>
      bus_clean good up (b\<lparr>bs_chans := (bs_chans b)(a := c)\<rparr>)"
  using assms by (auto simp: bus_inv_def bus_clean_def)

lemma send_waits_safe:
  assumes "send_waits a b = (r, b')"
  shows "bus_inv b \<Longrightarrow> bus_inv b'" "bus_clean good up b \<Longrightarrow> bus_clean good up b'" "subs_of b' = subs_of b"
    and "bus_clean good up b \<Longrightarrow> r = Some ev \<Longrightarrow> payload_clean good (ev_Payload ev)"
proof -
  let ?c = "bs_chans b a"
  let ?b = "b\<lparr>bs_chans := (bs_chans b)(a := ?c\<lparr>ch_buf := butlast (ch_buf ?c)\<rparr>)\<rparr>"
  have r: "r = (if ch_buf ?c = [] then None else Some (last (ch_buf ?c)))" "b' = (if ch_buf ?c = [] then b else ?b)"
    using assms by (auto simp: send_waits_def Let_def split: if_splits)
  have wf: "bus_inv b \<Longrightarrow> wf_chan (?c\<lparr>ch_buf := butlast (ch_buf ?c)\<rparr>)"
    using bus_invD(6) [of b a] by (simp add: wf_chan_def)
  show "bus_inv b'" if "bus_inv b" unfolding r(2) using that bus_upd_chan(1) [OF wf [OF that], of b a] by simp
  have "set (butlast (ch_buf ?c)) \<subseteq> set (ch_buf ?c)" by (auto dest: in_set_butlastD)
  then show "bus_clean good up b \<Longrightarrow> bus_clean good up b'" unfolding r(2) by (auto simp: bus_clean_def)
  show "subs_of b' = subs_of b" unfolding r(2) by (simp add: fun_eq_iff)
  assume "bus_clean good up b" "r = Some ev"
  then have "ev \<in> set (ch_buf ?c)" using r(1) by (auto split: if_splits)
  with \<open>bus_clean good up b\<close> show "payload_clean good (ev_Payload ev)" by (auto simp: bus_clean_def)
qed

lemma late_send_open:
  "\<not> ch_closed (bs_chans b a) \<Longrightarrow>
   late_send a ev b = Inr (b\<lparr>bs_chans := (bs_chans b)(a := offer ev (bs_chans b a))\<rparr>)"
  by (simp add: late_send_def try_send_open)

lemma late_send_closed: "ch_closed (bs_chans b a) \<Longrightarrow> late_send a ev b = Inl SendOnClosedChannel"
  by (simp add: late_send_def try_send_def)

text \<open>A late send meets a closed channel.\<close>

definition sends_closed :: "'d system \<Rightarrow> 'd system_op \<Rightarrow> bool" where
  "sends_closed s e \<longleftrightarrow> (\<exists>k again. e = SendHappens k again \<and> k < length (sy_late s) \<and>
     ch_closed (bs_chans (w_bus (sy_world s)) (fst (sy_late s ! k))))"

lemma sends_closed_panics: "sends_closed s e \<Longrightarrow> system_step h s e = Inl SendOnClosedChannel"
  by (auto simp: sends_closed_def system_step_def late_send_closed)

lemma sends_closed_down: "sends_closed s e \<Longrightarrow> system_clean good up s \<Longrightarrow> \<not> up"
  by (auto simp: sends_closed_def system_clean_def clean_def flows_def bus_clean_def)

lemma sends_late:
  assumes "system_inv s" "system_clean good up s"
  shows "sound good up (system_step h s (SendWaits a))"
    "\<not> sends_closed s (SendHappens k again) \<Longrightarrow> sound good up (system_step h s (SendHappens k again))"
proof -
  let ?b = "w_bus (sy_world s)"
  have b: "bus_inv ?b" "bus_clean good up ?b" "own_subscriptions (sy_loops s) ?b"
    using assms by (simp_all add: system_inv_def system_clean_def clean_def flows_def world_inv_def)
  have upd: "system_inv (s\<lparr>sy_world := (sy_world s)\<lparr>w_bus := b'\<rparr>, sy_late := l\<rparr>) \<and>
      system_clean good up (s\<lparr>sy_world := (sy_world s)\<lparr>w_bus := b'\<rparr>, sy_late := l\<rparr>)"
    if "bus_inv b'" "bus_clean good up b'" "subs_of b' = subs_of ?b" "\<forall>(a, ev) \<in> set l. payload_clean good (ev_Payload ev)" for b' l
    using assms that own_subscriptions_subs [OF b(3) that(3)]
    by (simp add: system_inv_def system_clean_def clean_def flows_def world_bus)
  obtain r b' where r: "send_waits a ?b = (r, b')" by fastforce
  note w = send_waits_safe [OF r]
  show "sound good up (system_step h s (SendWaits a))"
  proof (cases r)
    case (Some ev)
    have "\<forall>(a, ev) \<in> set (sy_late s @ [(a, ev)]). payload_clean good (ev_Payload ev)"
      using assms(2) w(4) [OF b(2) Some] by (simp add: system_clean_def)
    from upd [OF w(1) [OF b(1)] w(2) [OF b(2)] w(3) this] r Some show ?thesis
      by (simp add: system_step_def sound_def)
  qed (use assms r in \<open>simp add: system_step_def sound_def\<close>)
  assume open_chan: "\<not> sends_closed s (SendHappens k again)"
  show "sound good up (system_step h s (SendHappens k again))"
  proof (cases "k < length (sy_late s)")
    case True
    obtain a ev where k: "sy_late s ! k = (a, ev)" by fastforce
    have late: "\<forall>(a, ev) \<in> set (sy_late s). payload_clean good (ev_Payload ev)"
      using assms(2) by (simp add: system_clean_def)
    with True k have ev: "payload_clean good (ev_Payload ev)" by (metis (mono_tags, lifting) case_prodD nth_mem)
    have "\<not> ch_closed (bs_chans ?b a)" using open_chan True k by (auto simp: sends_closed_def)
    let ?b' = "?b\<lparr>bs_chans := (bs_chans ?b)(a := offer ev (bs_chans ?b a))\<rparr>"
    let ?l = "if again then sy_late s else take k (sy_late s) @ drop (Suc k) (sy_late s)"
    have "bus_inv ?b'" using bus_invD(6) [OF b(1), of a] by (intro bus_upd_chan(1) b(1)) simp_all
    moreover have "bus_clean good up ?b'"
      using b(2) ev by (auto simp: bus_clean_def dest!: set_offer)
    moreover have "\<forall>(a, ev) \<in> set ?l. payload_clean good (ev_Payload ev)"
      using late by (auto dest: in_set_takeD in_set_dropD)
    ultimately have "system_inv (s\<lparr>sy_world := (sy_world s)\<lparr>w_bus := ?b'\<rparr>, sy_late := ?l\<rparr>) \<and>
        system_clean good up (s\<lparr>sy_world := (sy_world s)\<lparr>w_bus := ?b'\<rparr>, sy_late := ?l\<rparr>)"
      by (intro upd) (simp_all add: fun_eq_iff)
    with True k \<open>\<not> ch_closed _\<close> show ?thesis
      by (cases again) (simp_all add: system_step_def sound_def late_send_open Let_def)
  qed (use assms in \<open>simp add: system_step_def sound_def\<close>)
qed

lemma system_step_sound:
  assumes "system_inv s" "system_clean good up s" "brings good h e" "up \<Longrightarrow> \<not> stops e" "\<not> sends_closed s e"
  shows "sound good up (system_step h s e)"
proof -
  let ?n = "sy_notifier s"
  have w: "world_inv (sy_world s)" "clean good up (sy_world s)" "notifier_inv ?n"
    using assms(1,2) by (simp_all add: system_inv_def system_clean_def)
  note outside = on_world_sound [OF assms(1,2)]
  show ?thesis
  proof (cases e)
    case (WatchEnds k)
    then show ?thesis using assms(1,2) exit_watch_clean [of "sy_monitor s" good k]
      by (simp add: system_step_def sound_def system_inv_def system_clean_def)
  next
    case BrowserJoins
    with browser_step [OF assms(1,2), of "ho_marshal h" Join] show ?thesis
      by (simp add: system_step_def notify_step_def)
  next
    case (BrowserReads c)
    with browser_step [OF assms(1,2), of "ho_marshal h" "Read c"] show ?thesis
      by (simp add: system_step_def notify_step_def)
  next
    case (BrowserLeaves c)
    obtain n where n: "notify_step (ho_marshal h) ?n (Leave c) = Inr n" using notify_step_safe [OF w(3)] by blast
    with BrowserLeaves browser_step [OF assms(1,2) n] assms(1,2) show ?thesis
      by (auto simp: system_step_def notify_step_def sound_def split: if_splits)
  next
    case (WebhookCall c)
    obtain k now t rand o1 o2 r where c: "c = (k, now, t, rand, o1, o2, r)" by (cases c)
    have "\<exists>w'. hook_step (sr_webhook (ho_server h)) (sy_world s) (k, now, t, rand, o1, o2, r) = Inr w' \<and>
        follows good up (sy_world s) w'"
      using assms(3) WebhookCall c by (intro hook_step_follows [OF w(1,2)]) (auto simp: brings_def)
    with outside WebhookCall c show ?thesis by (simp add: system_step_def)
  next
    case (ViewerReads a)
    obtain r where r: "job_at a RecvLog (w_jobs (sy_world s)) = Inr r" "registry_inv r"
      using job_at_safe [OF world_invD(3) [OF w(1)]] by blast
    have "follows good up (sy_world s) ((sy_world s)\<lparr>w_jobs := r\<rparr>)"
      using w(1,2) world_inv_upd(1) [OF w(1) r(2)] by (simp add: follows_def clean_def)
    with outside r(1) ViewerReads show ?thesis by (simp add: system_step_def)
  next
    case (DaemonChanges d)
    have "follows good up (sy_world s) ((sy_world s)\<lparr>w_docker := d\<rparr>)"
      using w(1,2) by (simp add: follows_def clean_def)
    with outside [of "Inr ((sy_world s)\<lparr>w_docker := d\<rparr>)"] DaemonChanges show ?thesis
      by (simp add: system_step_def on_world_def)
  next
    case (PollerTurn c)
    with assms(3) poller_turn [OF assms(1,2), of c h] show ?thesis by (auto simp: brings_def split: poll_case.splits)
  next
    case (DockerEvent order now ev)
    with assms(3) outside handleEvent_follows [OF w(1,2)] show ?thesis by (simp add: system_step_def brings_def)
  next
    case (ApiCall c)
    with assms(3) outside api_step_follows [OF w(1,2)] show ?thesis by (simp add: system_step_def brings_def)
  next
    case (CheckRuns k head tx now order)
    with assms(3) check_runs [OF assms(1,2)] show ?thesis by (simp add: brings_def)
  qed (use assms(4,5) in \<open>simp_all add: assms(1,2) executor_turn monitor_turn rollback_turn notifier_turn watch_tick
      sends_late stops_def\<close>)
qed

interpretation digests: flow_machine "system_step h" "\<lambda>s. system_inv s \<and> system_clean good up s"
    "\<lambda>e. brings good h e \<and> (up \<longrightarrow> \<not> stops e)" "\<lambda>p. (\<exists>d. good d \<and> length d < 16) \<or> (\<not> up \<and> p = SendOnClosedChannel)"
  for h :: "'d host" and good up
proof
  fix s :: "'d system" and e assume "system_inv s \<and> system_clean good up s" "brings good h e \<and> (up \<longrightarrow> \<not> stops e)"
  with system_step_sound [of s good up h e] sends_closed_panics [of s e h] sends_closed_down [of s e good up]
  show "case system_step h s e of
      Inl p \<Rightarrow> (\<exists>d. good d \<and> length d < 16) \<or> (\<not> up \<and> p = SendOnClosedChannel)
    | Inr s' \<Rightarrow> system_inv s' \<and> system_clean good up s'"
    by (cases "sends_closed s e") (auto simp: sound_def split: sum.splits)
qed

section \<open>The start\<close>

lemma seed_loop_clean: "seed_loop cs st = Inr st' \<Longrightarrow> store_clean good st \<Longrightarrow> store_clean good st'"
proof (induction cs arbitrary: st)
  case (Cons c cs)
  then show ?case
    by (auto simp: Let_def split: prod.splits sum.splits) (metis Upsert_clean snd_conv)
qed simp

lemma start_system_inv:
  assumes "start_system h hist m files d = Inr s" "hist_inv hist" "manager_inv m" "config_clean good m"
  shows "system_inv s" "system_clean good up s"
proof -
  obtain w where w: "start_world (sr_docker (ho_server h)) [] hist m files d = Inr w" "sy_world s = w"
    "sy_loops s = replicate (length component_topics) NotStarted" "sy_monitor s = New_monitor"
    "sy_notifier s = New_notifier" "sy_checks s = []" "sy_late s = []"
    using assms(1) by (auto simp: start_system_def split: sum.splits)
  obtain st where st: "seed_store (sr_docker (ho_server h)) d New_store = Inr st"
    "w_bus w = New_bus" "w_store w = st" "w_config w = m"
    using w(1) by (auto simp: start_world_def split: sum.splits)
  have "store_clean good New_store"
    by (simp add: store_clean_def New_store_def no_state_def ring_clean_def digests_def)
  with st(1) have "store_clean good st"
    by (auto simp: seed_store_def split: sum.splits intro: seed_loop_clean)
  moreover have "bus_clean good up New_bus" by (simp add: bus_clean_def New_bus_def)
  ultimately show "system_clean good up s"
    using assms(4) w(2,4,6,7) st(2-4) by (simp add: system_clean_def clean_def flows_def New_monitor_def)
  have "own_subscriptions (sy_loops s) New_bus" by (simp add: own_subscriptions_def w(3))
  with start_world_inv [OF w(1) assms(2,3)] w(2,5) st(2) show "system_inv s"
    by (simp add: system_inv_def New_notifier_inv)
qed

section \<open>Properties\<close>

text \<open>A decoder that, like the real one, accepts pushes with and without a digest.\<close>

definition demo_decode :: "string \<Rightarrow> push_payload option" where
  "demo_decode body = Some \<lparr>pp_Image = ''web'', pp_Tag = ''2'',
     pp_Digest = (if body = ''{}'' then ''sha256:0123456789'' else []), pp_Source = []\<rparr>"

definition demo_run_host :: "demo_daemon host" where
  "demo_run_host = \<lparr>ho_server = demo_server\<lparr>sr_webhook := demo_hook\<lparr>wh_secret := [], wh_push := demo_decode\<rparr>\<rparr>,
     ho_parseDuration = (\<lambda>_. None), ho_marshal = (\<lambda>_. Some ''{}''), ho_time = demo_io,
     ho_schedule_ok = True\<rparr>"

definition demo_answer :: "string \<Rightarrow> error + string" where
  "demo_answer img = Inr ''sha256:0123456789''"

text \<open>The loops subscribe, a sweep announces an update of the one container, the executor takes it, and if something was
  sent to the rollback engine, it was sent late.\<close>

definition demo_steps :: "demo_daemon system_op list" where
  "demo_steps = [ExecutorTurn Arrived (\<lambda>_. 1) [], MonitorTurn Arrived, RollbackTurn Arrived (\<lambda>_. 1),
     PollerTurn PollCancelled, PollerTurn (CronFires demo_answer (\<lambda>_. 2) [''0123456789ab'']), ExecutorTurn Arrived (\<lambda>_. 3) (replicate 16 0),
     MonitorTurn Arrived, WatchTick 4 0, SendWaits 2, SendHappens 0 False]"

lemma demo_system_starts:
  "\<exists>s. start_system demo_run_host demo_hist demo_manager demo_fs demo_start = Inr s"
proof -
  have "sr_docker (ho_server demo_run_host) = demo_host" by (simp add: demo_run_host_def demo_server_def)
  with start_world_eq [OF demo_host_list(2,3,1) demo_hist_inv demo_manager_inv, of "[]" demo_fs] show ?thesis
    by (auto simp: start_system_def)
qed

lemma demo_steps_bring: "good ''sha256:0123456789'' \<Longrightarrow> \<forall>e \<in> set demo_steps. brings good h e \<and> \<not> stops e"
  by (simp add: demo_steps_def brings_def head_brings_def demo_answer_def stops_def)

lemma demo_manager_clean: "config_clean good demo_manager"
  by (simp add: config_clean_def demo_manager_def)

text \<open>Until it is told to stop, the server can only be brought down by a short digest.  Start it on any database whose
  recorded digests are long enough, and let requests, registries, the daemon, timers and the scheduler do what
  they like, sends of publications being late included, as long as every digest that a push, a registry or an image event
  brings has at least 16 bytes, Docker Hub's own webhook announces nothing, the daemon does not itself report a container
  unhealthy and no loop has been cancelled: then no component ever panics, and the shared state stays well formed.\<close>

theorem server_survives:
  assumes "start_system h hist m files d = Inr s" and "hist_inv hist" and "manager_inv m"
    and "config_clean (\<lambda>d. 16 \<le> length d) m" and "\<forall>e \<in> set steps. brings (\<lambda>d. 16 \<le> length d) h e \<and> \<not> stops e"
  shows "\<exists>s'. run_steps (system_step h) s steps = Inr s' \<and> world_inv (sy_world s')"
proof -
  have "system_inv s \<and> system_clean (\<lambda>d. 16 \<le> length d) True s" using start_system_inv [OF assms(1-4)] by blast
  from digests.flow_run [OF this, of steps h] assms(5) show ?thesis
    by (auto simp: system_inv_def split: sum.splits)
qed

theorem server_survives_witness:
  "\<exists>s s'. start_system demo_run_host demo_hist demo_manager demo_fs demo_start = Inr s \<and>
    run_steps (system_step demo_run_host) s demo_steps = Inr s' \<and> world_inv (sy_world s')"
proof -
  obtain s where s: "start_system demo_run_host demo_hist demo_manager demo_fs demo_start = Inr s"
    using demo_system_starts by blast
  have "\<forall>e \<in> set demo_steps. brings (\<lambda>d. 16 \<le> length d) demo_run_host e \<and> \<not> stops e" by (rule demo_steps_bring) simp
  from server_survives [OF s demo_hist_inv demo_manager_inv demo_manager_clean this] s show ?thesis by blast
qed


lemma demo_steps_run:
  "\<exists>s s'. start_system demo_run_host demo_hist demo_manager demo_fs demo_start = Inr s \<and>
    run_steps (system_step demo_run_host) s demo_steps = Inr s'"
proof -
  obtain s where s: "start_system demo_run_host demo_hist demo_manager demo_fs demo_start = Inr s"
    using demo_system_starts by blast
  have "\<forall>e \<in> set demo_steps. brings (\<lambda>d. 16 \<le> length d) demo_run_host e \<and> \<not> stops e" by (rule demo_steps_bring) simp
  moreover have "system_inv s \<and> system_clean (\<lambda>d. 16 \<le> length d) True s"
    using start_system_inv [OF s demo_hist_inv demo_manager_inv demo_manager_clean] by blast
  ultimately show ?thesis
    using digests.flow_run [of s "\<lambda>d. 16 \<le> length d" True demo_steps demo_run_host] s by (auto split: sum.splits)
qed


text \<open>C14: Subscriptions do not leak and are not shared.  However the goroutines are scheduled and whenever
  their context is cancelled, each running loop has exactly one subscription, to its own topic and
  used by no other loop, and the bus has no further ones; so when all loops have returned, nobody is
  subscribed.\<close>

theorem subscriptions_are_owned:
  assumes "start_system h hist m files d = Inr s" and "hist_inv hist" and "manager_inv m"
    and "run_steps (system_step h) s steps = Inr s'"
  defines "ls \<equiv> sy_loops s'" and "b \<equiv> w_bus (sy_world s')"
  shows "length ls = length component_topics \<and>
    (\<forall>t sub. sub \<in> set (subs_of b t) \<longleftrightarrow> (\<exists>k < length ls. component_topics ! k = t \<and> ls ! k = Running sub)) \<and>
    (\<forall>j < length ls. \<forall>k < length ls. \<forall>sub sub'. ls ! j = Running sub \<and> ls ! k = Running sub' \<and>
       sub_ch sub = sub_ch sub' \<longrightarrow> j = k) \<and>
    ((\<forall>l \<in> set ls. l = Returned) \<longrightarrow> (\<forall>t. subs_of b t = []))"
proof -
  have "config_clean (\<lambda>_. True) m" by (simp add: config_clean_def known_def)
  from start_system_inv [OF assms(1-3) this] have "system_inv s \<and> system_clean (\<lambda>_. True) False s" by blast
  moreover have "\<forall>e \<in> set steps. brings (\<lambda>_. True) h e" by (simp add: brings_anything)
  ultimately have "system_inv s'" using digests.flow_run [of s "\<lambda>_. True" False steps h] assms(4) by simp
  then have o: "own_subscriptions ls b" and i: "bus_inv b"
    by (simp_all add: system_inv_def ls_def b_def world_inv_def)
  have mem: "sub \<in> set (subs_of b t) \<longleftrightarrow> (\<exists>k < length ls. component_topics ! k = t \<and> ls ! k = Running sub)" for t sub
    using o by (simp add: own_subscriptions_def)
  have "j = k" if "j < length ls" "k < length ls" "ls ! j = Running sub" "ls ! k = Running sub'" "sub_ch sub = sub_ch sub'"
    for j k sub sub'
  proof -
    have "sub \<in> set (subs_of b (component_topics ! j))" "sub' \<in> set (subs_of b (component_topics ! k))"
      using that mem by blast+
    then have "sub = sub'" using bus_invD(5) [OF i _ _ that(5)] by blast
    with that o show ?thesis unfolding own_subscriptions_def by blast
  qed
  moreover have "subs_of b t = []" if "\<forall>l \<in> set ls. l = Returned" for t
  proof -
    have "sub \<notin> set (subs_of b t)" for sub unfolding mem using that by (metis loop.distinct(5) nth_mem)
    then show ?thesis by (cases "subs_of b t") auto
  qed
  ultimately show ?thesis using mem o by (auto simp: own_subscriptions_def)
qed

theorem subscriptions_are_owned_witness:
  "\<exists>s s'. start_system demo_run_host demo_hist demo_manager demo_fs demo_start = Inr s \<and>
    run_steps (system_step demo_run_host) s demo_steps = Inr s' \<and>
    (\<forall>sub. sub \<in> set (subs_of (w_bus (sy_world s')) TopicImageUpdated) \<longleftrightarrow>
       (\<exists>k < 8. component_topics ! k = TopicImageUpdated \<and> sy_loops s' ! k = Running sub))"
proof -
  obtain s s' where s: "start_system demo_run_host demo_hist demo_manager demo_fs demo_start = Inr s"
    "run_steps (system_step demo_run_host) s demo_steps = Inr s'" using demo_steps_run by blast
  have "length component_topics = 8" by (simp add: component_topics_def notifier_topics_def)
  with subscriptions_are_owned [OF s(1) demo_hist_inv demo_manager_inv s(2)] s show ?thesis by auto
qed

text \<open>A schedule that the cron library refuses turns off all polling.  The poller's goroutine then returns at
  its start, before it makes the ticker, so whatever happens no service is ever checked, although
  services have intervals of their own and the rest of the server runs on.\<close>

theorem invalid_schedule_stops_polling:
  assumes "start_system h hist m files d = Inr s" and "\<not> ho_schedule_ok h"
    and "run_steps (system_step h) s steps = Inr s'"
  shows "sy_checks s' = [] \<and> sy_polling s' \<noteq> PollRunning \<and>
    (\<forall>c. c \<noteq> PollCancelled \<longrightarrow> (\<exists>s2. system_step h s' (PollerTurn c) = Inr s2 \<and> sy_world s2 = sy_world s'))"
proof -
  let ?off = "\<lambda>s. sy_checks s = [] \<and> sy_polling s \<noteq> PollRunning"
  have off: "?off s2" if "?off s1" "system_step h s1 e = Inr s2" for s1 e s2
  proof (cases e)
    case (PollerTurn c)
    with that assms(2) show ?thesis
      by (cases "sy_polling s1") (auto simp: system_step_def Run_poller_def)
  next
    case (CheckRuns k head tx now order)
    with that show ?thesis by (simp add: system_step_def)
  qed (use that in \<open>auto simp: system_step_def on_world_def Let_def split: sum.splits if_splits prod.splits option.splits\<close>)
  have "?off s'" if "?off s0" "run_steps (system_step h) s0 steps = Inr s'" for s0
    using that
  proof (induction steps arbitrary: s0)
    case (Cons e es)
    obtain s1 where "system_step h s0 e = Inr s1" "run_steps (system_step h) s1 es = Inr s'"
      using Cons.prems(2) by (rule run_steps_ConsE)
    with Cons.IH off [OF Cons.prems(1)] show ?case by blast
  qed simp
  moreover have "?off s" using assms(1) by (auto simp: start_system_def split: sum.splits)
  ultimately have "?off s'" using assms(3) by blast
  then show ?thesis using assms(2)
    by (cases "sy_polling s'") (auto simp: system_step_def Run_poller_def)
qed

theorem invalid_schedule_stops_polling_witness:
  "\<exists>s s'. start_system (demo_run_host\<lparr>ho_schedule_ok := False\<rparr>) demo_hist demo_manager demo_fs demo_start = Inr s \<and>
    run_steps (system_step (demo_run_host\<lparr>ho_schedule_ok := False\<rparr>)) s demo_steps = Inr s' \<and>
    sy_checks s' = [] \<and>
    (\<exists>s2. system_step (demo_run_host\<lparr>ho_schedule_ok := False\<rparr>) s' (PollerTurn (TickerFires (\<lambda>_. 6) [])) = Inr s2 \<and>
      sy_world s2 = sy_world s')"
proof -
  let ?h = "demo_run_host\<lparr>ho_schedule_ok := False\<rparr>"
  obtain s where s: "start_system ?h demo_hist demo_manager demo_fs demo_start = Inr s"
    using demo_system_starts by (auto simp: start_system_def)
  have "\<forall>e \<in> set demo_steps. brings (\<lambda>d. 16 \<le> length d) ?h e \<and> \<not> stops e" by (rule demo_steps_bring) simp
  moreover have "system_inv s \<and> system_clean (\<lambda>d. 16 \<le> length d) True s"
    using start_system_inv [OF s demo_hist_inv demo_manager_inv demo_manager_clean] by blast
  ultimately obtain s' where s': "run_steps (system_step ?h) s demo_steps = Inr s'"
    using digests.flow_run [of s "\<lambda>d. 16 \<le> length d" True demo_steps ?h] by (auto split: sum.splits)
  have "\<not> ho_schedule_ok ?h" "TickerFires (\<lambda>_. 6) [] \<noteq> PollCancelled" by simp_all
  with invalid_schedule_stops_polling [OF s _ s'] s s' show ?thesis by blast
qed

end
