(* ===== verification/Lifecycle.thy ===== *)
theory Lifecycle
  imports System
begin

text \<open>
  An update through the running server, from the event in the executor's channel to the rollback:
  what each loop leaves in the channels of the others, and the four turns in a row.
\<close>

section \<open>What a loop takes and leaves\<close>

definition taken :: "subscriber \<Rightarrow> bus \<Rightarrow> bus" where
  "taken s b = snd (bus_receive (sub_ch s) b)"

lemma taken_sel [simp]:
  "subs_of (taken s b) = subs_of b"
  "bs_chans (taken s b) a = (if a = sub_ch s then snd (receive (bs_chans b a)) else bs_chans b a)"
  by (simp_all add: taken_def bus_receive_def split_beta Let_def fun_eq_iff)

lemma taken_inv: "bus_inv b \<Longrightarrow> bus_inv (taken s b)"
  by (simp add: taken_def bus_receive_inv)

lemma loop_select_taken:
  "ch_buf (bs_chans b (sub_ch s)) = ev # evs \<Longrightarrow>
   loop_select t Arrived (Running s) b = Inr (Some ev, Running s, taken s b)"
  by (simp add: loop_select_def taken_def bus_receive_def receive_def split_beta Let_def)

lemma Run_executor_takes:
  assumes "inbox w (sub_ch s) = \<lparr>ev_Topic = t, ev_Payload = ImageUpdatedPayload p\<rparr> # evs"
    and "handle e now rand p (w\<lparr>w_bus := taken s (w_bus w)\<rparr>) = Inr w'"
  shows "Run_executor e Arrived now rand (Running s) w = Inr (Running s, w')"
  using assms by (simp add: Run_executor_def inbox_def loop_select_taken)

lemma Run_monitor_takes:
  assumes "inbox w (sub_ch s) = \<lparr>ev_Topic = t, ev_Payload = UpdateAppliedPayload p\<rparr> # evs"
  shows "Run_monitor pd Arrived (Running s) m w =
    Inr (Running s, startWatch pd p (w_store w) m, w\<lparr>w_bus := taken s (w_bus w)\<rparr>)"
  using assms by (simp add: Run_monitor_def inbox_def loop_select_taken)

lemma Run_rollback_takes:
  assumes "inbox w (sub_ch s) = \<lparr>ev_Topic = t, ev_Payload = ContainerUnhealthyPayload p\<rparr> # evs"
    and "handle_rollback docker now p (w\<lparr>w_bus := taken s (w_bus w)\<rparr>) = Inr w'"
  shows "Run_rollback docker Arrived now (Running s) w = Inr (Running s, w')"
  using assms by (simp add: Run_rollback_def inbox_def loop_select_taken)

text \<open>An event reaches the channels of its topic and no others.\<close>

lemma other_topic:
  assumes "bus_inv b" "s \<in> set (subs_of b t)" "t' \<noteq> t"
  shows "sub_ch s \<notin> sub_ch ` set (subs_of b t')"
  using bus_invD(5) [OF assms(1,2)] assms(3) by fastforce

lemma deliver_own:
  "s \<in> set (subs_of b t) \<Longrightarrow> bs_chans (deliver t p b) (sub_ch s) = offer \<lparr>ev_Topic = t, ev_Payload = p\<rparr> (bs_chans b (sub_ch s))"
  by (simp add: deliver_chan)

lemma deliver_other:
  "bus_inv b \<Longrightarrow> s \<in> set (subs_of b t) \<Longrightarrow> t' \<noteq> t \<Longrightarrow> bs_chans (deliver t' p b) (sub_ch s) = bs_chans b (sub_ch s)"
  using other_topic [of b s t t'] by (simp add: deliver_chan)

lemma offer_empty: "ch_buf c = [] \<Longrightarrow> 0 < ch_cap c \<Longrightarrow> ch_buf (offer v c) = [v]"
  by (simp add: offer_def)

lemma started_watch:
  assumes "ua_ContainerID p \<noteq> []"
  shows "live (startWatch pd p st m) (length (mn_watches m))"
    and "wt_p (mn_watches (startWatch pd p st m) ! length (mn_watches m)) = p"
  using assms
  by (auto simp: startWatch_def live_def cancel_sel Let_def nth_append split: option.split)

lemma tick_reports:
  assumes "world_inv w" "wt_p (mn_watches m ! k) = p" "checkHealth docker (ua_ContainerID p) (w_docker w) = Inr False"
  shows "tick_watch docker now k m w = Inr (exit_watch k m, w\<lparr>w_bus := deliver TopicContainerUnhealthy
    (ContainerUnhealthyPayload (failed_payload now p (w_store w))) (w_bus w)\<rparr>)"
  using assms by (simp add: tick_watch_def Let_def publish_w_eq)

lemma loop_subscribed:
  "own_subscriptions ls b \<Longrightarrow> k < length ls \<Longrightarrow> ls ! k = Running sub \<Longrightarrow> sub \<in> set (subs_of b (component_topics ! k))"
  unfolding own_subscriptions_def by blast

lemma worker_topics:
  "component_topics ! 0 = TopicImageUpdated" "component_topics ! 1 = TopicUpdateApplied"
  "component_topics ! 2 = TopicContainerUnhealthy"
  by (simp_all add: component_topics_def)

section \<open>The four turns\<close>

text \<open>The store after an update and its rollback.\<close>

definition undone_store :: "time \<Rightarrow> time \<Rightarrow> image_updated \<Rightarrow> string \<Rightarrow> string \<Rightarrow> string \<Rightarrow> store \<Rightarrow> store" where
  "undone_store t t' p old i1 i2 s =
     rollback_carry t' i1 (iu_Image p) old i2 (executor_carry t (iu_ContainerID p) (iu_Image p) (iu_NewDigest p) i1 s)"

lemma undone_store_state:
  assumes "store_inv s" "state_of s (iu_ContainerID p) = Some cs" "i1 \<noteq> []" "i2 \<noteq> []" "old = CurrentDigest cs"
  shows "\<exists>c. state_of (undone_store t t' p old i1 i2 s) i2 = Some c \<and> CurrentDigest c = old \<and>
    PreviousDigest c = iu_NewDigest p \<and> cs_Labels c = cs_Labels cs \<and> cs_Image c = cs_Image cs \<and> cs_ID c = i2"
    and "j \<noteq> i2 \<Longrightarrow> state_of (undone_store t t' p old i1 i2 s) j =
      (if j \<in> {iu_ContainerID p, i1} then None else state_of s j)"
proof -
  let ?s1 = "executor_carry t (iu_ContainerID p) (iu_Image p) (iu_NewDigest p) i1 s"
  obtain c1 where c1: "state_of ?s1 i1 = Some c1" "CurrentDigest c1 = iu_NewDigest p" "PreviousDigest c1 = old"
    "cs_Labels c1 = cs_Labels cs" "cs_Image c1 = cs_Image cs"
    using exec_carrier.carried_digests [OF assms(1,2,3)] assms(5) by blast
  have inv: "store_inv ?s1" by (rule exec_carrier.carry_inv [OF assms(1)])
  note st = rollback_carrier.carry_state_of [OF inv c1(1) assms(4)]
  from rollback_carrier.carried_digests [OF inv c1(1) assms(4), of t' "iu_Image p" old] c1
  obtain c where "state_of (undone_store t t' p old i1 i2 s) i2 = Some c" "CurrentDigest c = old"
    "PreviousDigest c = iu_NewDigest p" "cs_Labels c = cs_Labels cs" "cs_Image c = cs_Image cs"
    unfolding undone_store_def by auto
  moreover from this(1) have "cs_ID c = i2" unfolding undone_store_def st by auto
  ultimately show "\<exists>c. state_of (undone_store t t' p old i1 i2 s) i2 = Some c \<and> CurrentDigest c = old \<and>
    PreviousDigest c = iu_NewDigest p \<and> cs_Labels c = cs_Labels cs \<and> cs_Image c = cs_Image cs \<and> cs_ID c = i2" by blast
  show "state_of (undone_store t t' p old i1 i2 s) j = (if j \<in> {iu_ContainerID p, i1} then None else state_of s j)"
    if "j \<noteq> i2"
    using that unfolding undone_store_def st exec_carrier.carry_state_of [OF assms(1,2,3)] by simp
qed

text \<open>The subscriptions of the three workers have channels of their own.\<close>

lemma worker_channels:
  assumes "bus_inv b" "ex \<in> set (subs_of b TopicImageUpdated)" "mo \<in> set (subs_of b TopicUpdateApplied)"
    "rb \<in> set (subs_of b TopicContainerUnhealthy)"
  shows "sub_ch mo \<noteq> sub_ch ex" "sub_ch rb \<noteq> sub_ch ex" "sub_ch rb \<noteq> sub_ch mo"
  using bus_invD(5) [OF assms(1,3,2)] bus_invD(5) [OF assms(1,4,2)] bus_invD(5) [OF assms(1,4,3)]
  by (auto simp: TopicImageUpdated_def TopicUpdateApplied_def TopicContainerUnhealthy_def)

text \<open>First turn: what a handler that publishes the applied update leaves to the two others.\<close>

lemma after_executor:
  assumes inv: "world_inv w" and mem: "ex \<in> set (subs_of (w_bus w) TopicImageUpdated)"
      "mo \<in> set (subs_of (w_bus w) TopicUpdateApplied)" "rb \<in> set (subs_of (w_bus w) TopicContainerUnhealthy)"
    and mo: "inbox w (sub_ch mo) = []" "ch_cap (bs_chans (w_bus w) (sub_ch mo)) = 64"
    and bus: "w_bus w' = deliver TopicUpdateApplied q (taken ex (w_bus w))"
  shows "inbox w' (sub_ch mo) = [\<lparr>ev_Topic = TopicUpdateApplied, ev_Payload = q\<rparr>]"
    and "bs_chans (w_bus w') (sub_ch rb) = bs_chans (w_bus w) (sub_ch rb)"
proof -
  note bi = world_invD(1) [OF inv]
  note apart = worker_channels [OF bi mem]
  show "inbox w' (sub_ch mo) = [\<lparr>ev_Topic = TopicUpdateApplied, ev_Payload = q\<rparr>]"
    using mo mem(2) apart(1) by (simp add: inbox_def bus deliver_own offer_empty)
  have "TopicUpdateApplied \<noteq> TopicContainerUnhealthy"
    by (simp add: TopicUpdateApplied_def TopicContainerUnhealthy_def)
  with deliver_other [OF taken_inv [OF bi, of ex], of rb TopicContainerUnhealthy TopicUpdateApplied] mem(3) apart(2)
  show "bs_chans (w_bus w') (sub_ch rb) = bs_chans (w_bus w) (sub_ch rb)" by (simp add: bus)
qed

text \<open>Second turn and tick: the monitor takes the event, watches the container, and reports it.\<close>

lemma monitor_reports:
  assumes inv: "world_inv w" and box: "inbox w (sub_ch mo) = [\<lparr>ev_Topic = tp, ev_Payload = UpdateAppliedPayload q\<rparr>]"
    and rb: "rb \<in> set (subs_of (w_bus w) TopicContainerUnhealthy)" "sub_ch rb \<noteq> sub_ch mo"
      "inbox w (sub_ch rb) = []" "ch_cap (bs_chans (w_bus w) (sub_ch rb)) = 64"
    and q: "ua_ContainerID q \<noteq> []" "checkHealth docker (ua_ContainerID q) (w_docker w) = Inr False"
  shows "\<exists>m1 m2 w1 w2. Run_monitor pd Arrived (Running mo) m w = Inr (Running mo, m1, w1) \<and>
    live m1 (length (mn_watches m)) \<and> tick_watch docker t (length (mn_watches m)) m1 w1 = Inr (m2, w2) \<and>
    world_inv w2 \<and> w_docker w2 = w_docker w \<and> w_store w2 = w_store w \<and> w_hist w2 = w_hist w \<and>
    inbox w2 (sub_ch rb) = [\<lparr>ev_Topic = TopicContainerUnhealthy,
      ev_Payload = ContainerUnhealthyPayload (failed_payload t q (w_store w))\<rparr>]"
proof -
  let ?m1 = "startWatch pd q (w_store w) m" and ?w1 = "w\<lparr>w_bus := taken mo (w_bus w)\<rparr>"
  let ?r = "failed_payload t q (w_store w)"
  let ?w2 = "?w1\<lparr>w_bus := deliver TopicContainerUnhealthy (ContainerUnhealthyPayload ?r) (w_bus ?w1)\<rparr>"
  have i1: "world_inv ?w1" by (rule world_bus [OF inv taken_inv [OF world_invD(1) [OF inv]]])
  have "tick_watch docker t (length (mn_watches m)) ?m1 ?w1 = Inr (exit_watch (length (mn_watches m)) ?m1, ?w2)"
    using tick_reports [OF i1 started_watch(2) [OF q(1), of pd "w_store w" m], of docker t] q(2) by simp
  moreover have "inbox ?w2 (sub_ch rb) = [\<lparr>ev_Topic = TopicContainerUnhealthy, ev_Payload = ContainerUnhealthyPayload ?r\<rparr>]"
    using rb by (simp add: inbox_def deliver_own offer_empty)
  moreover have "world_inv ?w2" by (rule deliver_world_inv [OF i1])
  ultimately show ?thesis
    using Run_monitor_takes [OF box, of pd m] started_watch(1) [OF q(1), of pd "w_store w" m]
    by (intro exI [of _ ?m1] exI [of _ "exit_watch (length (mn_watches m)) ?m1"] exI [of _ ?w1] exI [of _ ?w2]) simp
qed

text \<open>Last turn: the engine restores the digest that the report names.\<close>

lemma engine_restores:
  assumes inv: "world_inv w" and box: "inbox w (sub_ch rb) = [\<lparr>ev_Topic = tp, ev_Payload = ContainerUnhealthyPayload r\<rparr>]"
    and "16 \<le> length (cu_AppliedDigest r)" "cu_PrevDigest r \<noteq> []"
    and "restore docker r (w_docker w) = ((i2, None), d)"
  shows "\<exists>w'. Run_rollback docker Arrived now (Running rb) w = Inr (Running rb, w') \<and> w_docker w' = d \<and>
    w_store w' = rollback_carry (now 0) (cu_ContainerID r) (cu_Image r) (cu_PrevDigest r) i2 (w_store w)"
proof -
  let ?w1 = "w\<lparr>w_bus := taken rb (w_bus w)\<rparr>"
  have i1: "world_inv ?w1" by (rule world_bus [OF inv taken_inv [OF world_invD(1) [OF inv]]])
  have "restore docker r (w_docker ?w1) = ((i2, None), d)" using assms(5) by simp
  note h = handle_rollback_done [OF i1 assms(3,4) this, of now]
  show ?thesis using Run_rollback_takes [OF box h] by simp
qed

text \<open>The whole way of an update through the three workers' channels.\<close>

lemma workers_undo:
  assumes inv: "world_inv w" and mem: "ex \<in> set (subs_of (w_bus w) TopicImageUpdated)"
      "mo \<in> set (subs_of (w_bus w) TopicUpdateApplied)" "rb \<in> set (subs_of (w_bus w) TopicContainerUnhealthy)"
    and input: "inbox w (sub_ch ex) = \<lparr>ev_Topic = TopicImageUpdated, ev_Payload = ImageUpdatedPayload p\<rparr> # evs"
    and waiting: "inbox w (sub_ch mo) = []" "inbox w (sub_ch rb) = []"
      "ch_cap (bs_chans (w_bus w) (sub_ch mo)) = 64" "ch_cap (bs_chans (w_bus w) (sub_ch rb)) = 64"
    and applied: "\<exists>w2. handle e now rand p (w\<lparr>w_bus := taken ex (w_bus w)\<rparr>) = Inr w2 \<and> w_docker w2 = d1 \<and>
      w_store w2 = executor_carry (now 5) (iu_ContainerID p) (iu_Image p) (iu_NewDigest p) i1 (w_store w) \<and>
      w_bus w2 = deliver TopicUpdateApplied (applied_payload (now 6) p i1) (taken ex (w_bus w))"
    and st: "store_inv (w_store w)" "state_of (w_store w) (iu_ContainerID p) = Some cs"
    and digests: "CurrentDigest cs = old" "old \<noteq> []" "16 \<le> length (iu_NewDigest p)"
    and sick: "checkHealth docker i1 d1 = Inr False" "i1 \<noteq> []"
    and undone: "Recreate docker i1 (iu_Image p @ ''@'' @ old) d1 = ((i2, None), d2)"
  shows "\<exists>w2 m3 w3 m4 w4 w6. Run_executor e Arrived now rand (Running ex) w = Inr (Running ex, w2) \<and>
    Run_monitor pd Arrived (Running mo) m w2 = Inr (Running mo, m3, w3) \<and> live m3 (length (mn_watches m)) \<and>
    tick_watch docker t (length (mn_watches m)) m3 w3 = Inr (m4, w4) \<and>
    Run_rollback docker Arrived now' (Running rb) w4 = Inr (Running rb, w6) \<and> w_docker w6 = d2 \<and>
    w_store w6 = undone_store (now 5) (now' 0) p old i1 i2 (w_store w)"
proof -
  let ?k = "length (mn_watches m)" and ?w1 = "w\<lparr>w_bus := taken ex (w_bus w)\<rparr>"
  note bi = world_invD(1) [OF inv]
  have inv1: "world_inv ?w1" by (rule world_bus [OF inv taken_inv [OF bi]])
  obtain w2 where w2: "handle e now rand p ?w1 = Inr w2" "w_docker w2 = d1"
    "w_store w2 = executor_carry (now 5) (iu_ContainerID p) (iu_Image p) (iu_NewDigest p) i1 (w_store w)"
    "w_bus w2 = deliver TopicUpdateApplied (applied_payload (now 6) p i1) (taken ex (w_bus w))"
    using applied by blast
  have inv2: "world_inv w2" using handle_safe [OF inv1, of e now rand p] w2(1) by auto
  note box = after_executor [OF inv mem waiting(1,3) w2(4)]
  obtain q where q: "applied_payload (now 6) p i1 = UpdateAppliedPayload q" "ua_ContainerID q = i1"
    "ua_Image q = iu_Image p" "ua_NewDigest q = iu_NewDigest p"
    by (simp add: applied_payload_def)
  have rb: "rb \<in> set (subs_of (w_bus w2) TopicContainerUnhealthy)" "inbox w2 (sub_ch rb) = []"
    "ch_cap (bs_chans (w_bus w2) (sub_ch rb)) = 64"
    using mem(3) waiting(2,4) box(2) by (simp_all add: w2(4) inbox_def)
  have sick2: "ua_ContainerID q \<noteq> []" "checkHealth docker (ua_ContainerID q) (w_docker w2) = Inr False"
    using sick q(2) w2(2) by simp_all
  define r where "r = failed_payload t q (w_store w2)"
  obtain m3 m4 w3 w4 where mon: "Run_monitor pd Arrived (Running mo) m w2 = Inr (Running mo, m3, w3)"
      "live m3 ?k" "tick_watch docker t ?k m3 w3 = Inr (m4, w4)"
    and w4: "world_inv w4" "w_docker w4 = w_docker w2" "w_store w4 = w_store w2"
      "inbox w4 (sub_ch rb) = [\<lparr>ev_Topic = TopicContainerUnhealthy, ev_Payload = ContainerUnhealthyPayload r\<rparr>]"
    using monitor_reports [OF inv2 box(1) [unfolded q(1)] rb(1) worker_channels(3) [OF bi mem] rb(2,3) sick2]
    unfolding r_def by metis
  obtain c1 where "state_of (w_store w2) i1 = Some c1" "PreviousDigest c1 = old"
    using exec_carrier.carried_digests [OF st sick(2)] digests(1) w2(3) by force
  then have rs: "cu_AppliedDigest r = iu_NewDigest p" "cu_PrevDigest r = old" "cu_ContainerID r = i1" "cu_Image r = iu_Image p"
    using q by (auto simp: r_def failed_payload_def Get_def state_of_def)
  have "16 \<le> length (cu_AppliedDigest r)" "cu_PrevDigest r \<noteq> []" "restore docker r (w_docker w4) = ((i2, None), d2)"
    using undone digests rs by (simp_all add: restore_def w4(2) w2(2))
  from engine_restores [OF w4(1,4) this, of now'] obtain w6 where
    "Run_rollback docker Arrived now' (Running rb) w4 = Inr (Running rb, w6)" "w_docker w6 = d2"
    "w_store w6 = undone_store (now 5) (now' 0) p old i1 i2 (w_store w)"
    by (auto simp: undone_store_def w4(3) w2(3) rs)
  with Run_executor_takes [OF input w2(1)] mon show ?thesis by blast
qed

text \<open>Four turns in which the loops go on running.\<close>

lemma four_turns:
  assumes "Run_executor (sr_executor (ho_server h)) Arrived now rand (sy_loops s ! 0) (sy_world s) = Inr (sy_loops s ! 0, w2)"
    and "Run_monitor (ho_parseDuration h) Arrived (sy_loops s ! 1) (sy_monitor s) w2 = Inr (sy_loops s ! 1, m3, w3)"
    and "live m3 k" "tick_watch (sr_docker (ho_server h)) t k m3 w3 = Inr (m4, w4)"
    and "Run_rollback (sr_docker (ho_server h)) Arrived now' (sy_loops s ! 2) w4 = Inr (l, w6)"
  shows "\<exists>s'. run_steps (system_step h) s [ExecutorTurn Arrived now rand, MonitorTurn Arrived, WatchTick t k,
      RollbackTurn Arrived now'] = Inr s' \<and> sy_world s' = w6"
proof -
  let ?ls = "sy_loops s"
  let ?s1 = "s\<lparr>sy_world := w2, sy_loops := ?ls\<rparr>"
  let ?s2 = "s\<lparr>sy_world := w3, sy_loops := ?ls, sy_monitor := m3\<rparr>"
  let ?s3 = "s\<lparr>sy_world := w4, sy_loops := ?ls, sy_monitor := m4\<rparr>"
  have "system_step h s (ExecutorTurn Arrived now rand) = Inr ?s1" by (simp add: system_step_def assms(1))
  moreover have "system_step h ?s1 (MonitorTurn Arrived) = Inr ?s2" using assms(2) by (simp add: system_step_def)
  moreover have "system_step h ?s2 (WatchTick t k) = Inr ?s3" using assms(3,4) by (simp add: system_step_def)
  moreover have "\<exists>s'. system_step h ?s3 (RollbackTurn Arrived now') = Inr s' \<and> sy_world s' = w6"
    using assms(5) by (simp add: system_step_def)
  ultimately show ?thesis by auto
qed

section \<open>Properties\<close>

text \<open>C3: The running server undoes an update that makes a container sick.  An event waits in the executor's
  channel; the health monitor and the rollback engine are waiting.  If the daemon can recreate the container and then
  reports the new one unhealthy, one turn of each loop, with the monitor's tick in between, leaves the container
  recreated from the image pinned to the digest it ran before, tracked under its new id with that digest
  as the current one; the other containers keep their states.  But the ring then names the
  bad digest as the previous one, so one more failure report deploys the bad digest again.\<close>

theorem bad_update_is_undone:
  fixes s :: "'d system" and h :: "'d host"
  defines "w \<equiv> sy_world s" and "e \<equiv> sr_executor (ho_server h)" and "docker \<equiv> sr_docker (ho_server h)"
  assumes "system_inv s"
    and loops: "sy_loops s ! 0 = Running ex" "sy_loops s ! 1 = Running mo" "sy_loops s ! 2 = Running rb"
    and input: "inbox w (sub_ch ex) = \<lparr>ev_Topic = TopicImageUpdated, ev_Payload = ImageUpdatedPayload p\<rparr> # evs"
    and waiting: "inbox w (sub_ch mo) = []" "inbox w (sub_ch rb) = []"
      "ch_cap (bs_chans (w_bus w) (sub_ch mo)) = 64" "ch_cap (bs_chans (w_bus w) (sub_ch rb)) = 64"
    and e: "e_docker e = docker" "e_jobRegistry e" "e_history e"
    and tracked: "Get (iu_ContainerID p) (w_store w) = Some ca" "st_heap (w_store w) ca = cs"
    and wanted: "watchEnabled (cs_Labels cs)"
      "evaluate (effective_strategy (cs_Labels cs)) (iu_Image p) (cs_Image cs)"
      "map_get (cs_Labels cs) labelComposeUpdate \<noteq> ''auto'' \<or> FromLabels (cs_Labels cs) = None"
    and recorded: "hs_faults (w_hist w) = []" "length rand = 16" "now 0 \<noteq> zero_time"
      "\<forall>r \<in> set (hs_rows (w_hist w)). r_deploy_id r \<noteq> Some (newUUID rand)"
    and digests: "CurrentDigest cs = old" "old \<noteq> []" "16 \<le> length (iu_NewDigest p)"
    and deployed: "Recreate docker (iu_ContainerID p) (imageRef (iu_Image p) (iu_NewDigest p)) (w_docker w) = ((i1, None), d1)"
    and sick: "checkHealth docker i1 d1 = Inr False"
    and undone: "Recreate docker i1 (iu_Image p @ ''@'' @ old) d1 = ((i2, None), d2)"
    and ids: "i1 \<noteq> []" "i2 \<noteq> []"
  shows "\<exists>s' c. run_steps (system_step h) s [ExecutorTurn Arrived now rand, MonitorTurn Arrived,
        WatchTick t (length (mn_watches (sy_monitor s))), RollbackTurn Arrived now'] = Inr s' \<and>
    w_docker (sy_world s') = d2 \<and> state_of (w_store (sy_world s')) i2 = Some c \<and>
    CurrentDigest c = old \<and> cs_Labels c = cs_Labels cs \<and> cs_Image c = cs_Image cs \<and>
    (\<forall>j. j \<noteq> i2 \<longrightarrow> state_of (w_store (sy_world s')) j =
      (if j \<in> {iu_ContainerID p, i1} then None else state_of (w_store w) j)) \<and>
    restore docker (unhealthy_payload t' c) d' = Recreate docker i2 (cs_Image cs @ ''@'' @ iu_NewDigest p) d'"
proof -
  let ?ls = "sy_loops s" and ?k = "length (mn_watches (sy_monitor s))" and ?w1 = "w\<lparr>w_bus := taken ex (w_bus w)\<rparr>"
  have inv: "world_inv w" and own: "own_subscriptions ?ls (w_bus w)"
    using assms(4) by (simp_all add: system_inv_def w_def)
  have len: "length ?ls = 8"
    using own by (simp add: own_subscriptions_def component_topics_def notifier_topics_def)
  have mem: "ex \<in> set (subs_of (w_bus w) TopicImageUpdated)" "mo \<in> set (subs_of (w_bus w) TopicUpdateApplied)"
    "rb \<in> set (subs_of (w_bus w) TopicContainerUnhealthy)"
    using loop_subscribed [OF own, of 0 ex] loop_subscribed [OF own, of 1 mo] loop_subscribed [OF own, of 2 rb]
      loops len worker_topics by simp_all
  have inv1: "world_inv ?w1" by (rule world_bus [OF inv taken_inv [OF world_invD(1) [OF inv]]])
  have same: "hs_faults (w_hist ?w1) = []" "Get (iu_ContainerID p) (w_store ?w1) = Some ca" "st_heap (w_store ?w1) ca = cs"
    "\<forall>r \<in> set (hs_rows (w_hist ?w1)). r_deploy_id r \<noteq> Some (newUUID rand)"
    "Recreate (e_docker e) (iu_ContainerID p) (imageRef (iu_Image p) (iu_NewDigest p)) (w_docker ?w1) = ((i1, None), d1)"
    using recorded(1,4) tracked deployed e(1) by simp_all
  have applied: "\<exists>w2. handle e now rand p ?w1 = Inr w2 \<and> w_docker w2 = d1 \<and>
    w_store w2 = executor_carry (now 5) (iu_ContainerID p) (iu_Image p) (iu_NewDigest p) i1 (w_store w) \<and>
    w_bus w2 = deliver TopicUpdateApplied (applied_payload (now 6) p i1) (taken ex (w_bus w))"
    using handle_applied [where now = now and e = e, OF inv1 e(2,3) same(1) recorded(2,3) same(4,2,3) wanted same(5)] by auto
  have st: "store_inv (w_store w)" "state_of (w_store w) (iu_ContainerID p) = Some cs"
    using world_invD(2) [OF inv] Get_state [OF tracked(1)] tracked(2) by simp_all
  obtain w2 m3 w3 m4 w4 w6 where turns: "Run_executor e Arrived now rand (Running ex) w = Inr (Running ex, w2)"
      "Run_monitor (ho_parseDuration h) Arrived (Running mo) (sy_monitor s) w2 = Inr (Running mo, m3, w3)" "live m3 ?k"
      "tick_watch docker t ?k m3 w3 = Inr (m4, w4)" "Run_rollback docker Arrived now' (Running rb) w4 = Inr (Running rb, w6)"
    and w6: "w_docker w6 = d2" "w_store w6 = undone_store (now 5) (now' 0) p old i1 i2 (w_store w)"
    using workers_undo [where now = now, OF inv mem input waiting applied st digests sick ids(1) undone] by metis
  obtain s' where run: "run_steps (system_step h) s [ExecutorTurn Arrived now rand, MonitorTurn Arrived,
      WatchTick t ?k, RollbackTurn Arrived now'] = Inr s'" "sy_world s' = w6"
    using four_turns [of h now rand s w2 m3 w3 ?k t m4 w4 now' "Running rb" w6, unfolded loops]
      turns [unfolded w_def e_def docker_def] by blast
  from undone_store_state(1) [OF st ids digests(1) [symmetric], of "now 5" "now' 0"] obtain c where c:
    "state_of (w_store w6) i2 = Some c" "CurrentDigest c = old" "PreviousDigest c = iu_NewDigest p"
    "cs_Labels c = cs_Labels cs" "cs_Image c = cs_Image cs" "cs_ID c = i2"
    unfolding w6(2) by blast
  moreover have "state_of (w_store w6) j = (if j \<in> {iu_ContainerID p, i1} then None else state_of (w_store w) j)"
    if "j \<noteq> i2" for j
    unfolding w6(2) using undone_store_state(2) [OF st ids digests(1) [symmetric] that] .
  moreover have "restore docker (unhealthy_payload t' c) d' = Recreate docker i2 (cs_Image cs @ ''@'' @ iu_NewDigest p) d'"
    using c by (simp add: restore_def unhealthy_payload_def)
  ultimately show ?thesis using run w6(1) by blast
qed

text \<open>A daemon whose containers are all unhealthy, and a server whose workers have subscribed when an event
  arrives.\<close>

definition sick_docker :: "demo_daemon scoped" where
  "sick_docker = (demo_docker True)\<lparr>sc_Inspect := \<lambda>i d.
     map_sum id (\<lambda>r. r\<lparr>ir_State := Some (Some ''unhealthy'')\<rparr>) (sc_Inspect (demo_docker True) i d)\<rparr>"

definition sick_host :: "demo_daemon host" where
  "sick_host = demo_run_host\<lparr>ho_server :=
     demo_server\<lparr>sr_executor := demo_exec\<lparr>e_docker := sick_docker\<rparr>, sr_docker := sick_docker\<rparr>\<rparr>"

definition worker_buses :: "bus list" where
  "worker_buses = (let b1 = snd (Subscribe TopicImageUpdated New_bus); b2 = snd (Subscribe TopicUpdateApplied b1);
     b3 = snd (Subscribe TopicContainerUnhealthy b2) in [New_bus, b1, b2, b3])"

definition worker_sub :: "nat \<Rightarrow> subscriber" where
  "worker_sub k = fst (Subscribe (component_topics ! k) (worker_buses ! k))"

definition sick_update :: image_updated where
  "sick_update = demo_update\<lparr>iu_NewDigest := ''sha256:ffffffffff''\<rparr>"

definition sick_system :: "demo_daemon system" where
  "sick_system = \<lparr>sy_world = demo_world\<lparr>w_bus := deliver TopicImageUpdated (ImageUpdatedPayload sick_update) (worker_buses ! 3)\<rparr>,
     sy_loops = (replicate (length component_topics) NotStarted)[0 := Running (worker_sub 0), 1 := Running (worker_sub 1),
       2 := Running (worker_sub 2)],
     sy_monitor = New_monitor, sy_notifier = New_notifier, sy_poller = New_poller, sy_polling = PollNotStarted, sy_checks = [],
     sy_late = []\<rparr>"

lemma worker_bus_step:
  "worker_buses ! 0 = New_bus"
  "k < 3 \<Longrightarrow> worker_buses ! Suc k = snd (Subscribe (component_topics ! k) (worker_buses ! k))"
proof -
  show "worker_buses ! 0 = New_bus" by (simp add: worker_buses_def Let_def)
  assume "k < 3"
  then consider "k = 0" | "k = 1" | "k = 2" by linarith
  then show "worker_buses ! Suc k = snd (Subscribe (component_topics ! k) (worker_buses ! k))"
    by cases (simp_all add: worker_buses_def component_topics_def Let_def numeral_2_eq_2)
qed

lemma worker_bus_inv: "k \<le> 3 \<Longrightarrow> bus_inv (worker_buses ! k)"
  by (induction k) (simp_all add: worker_bus_step New_bus_inv Subscribe_inv)

lemma worker_bus_own:
  "k \<le> 3 \<Longrightarrow> own_subscriptions (map (\<lambda>j. if j < k then Running (worker_sub j) else NotStarted) [0..<8]) (worker_buses ! k)"
proof (induction k)
  case 0
  show ?case by (auto simp: own_subscriptions_def worker_bus_step component_topics_def notifier_topics_def New_bus_def subs_of_def)
next
  case (Suc k)
  let ?ls = "\<lambda>k. map (\<lambda>j. if j < k then Running (worker_sub j) else NotStarted) [0..<8]"
  have "?ls (Suc k) = (?ls k)[k := Running (worker_sub k)]"
    using Suc.prems by (intro nth_equalityI) (auto simp: nth_list_update)
  moreover have "own_subscriptions ((?ls k)[k := Running (fst (Subscribe (component_topics ! k) (worker_buses ! k)))])
      (snd (Subscribe (component_topics ! k) (worker_buses ! k)))"
    using Suc by (intro own_start worker_bus_inv) simp_all
  ultimately show ?case using Suc.prems by (simp add: worker_sub_def worker_bus_step)
qed

lemma sick_system_inv: "system_inv sick_system"
proof -
  have "(replicate (length component_topics) NotStarted)[0 := Running (worker_sub 0), 1 := Running (worker_sub 1),
       2 := Running (worker_sub 2)] = map (\<lambda>j. if j < 3 then Running (worker_sub j) else NotStarted) [0..<8]"
    by (simp add: component_topics_def notifier_topics_def upt_rec numeral_2_eq_2)
  with own_subscriptions_subs [OF worker_bus_own [of 3]]
  have "own_subscriptions (sy_loops sick_system) (w_bus (sy_world sick_system))" by (simp add: sick_system_def)
  moreover have "world_inv (sy_world sick_system)"
    using world_bus [OF demo_world_inv deliver_inv [OF worker_bus_inv [of 3]]] by (simp add: sick_system_def)
  ultimately show ?thesis by (simp add: system_inv_def sick_system_def New_notifier_inv)
qed

lemma worker_chan:
  "k \<le> 3 \<Longrightarrow> bs_next (worker_buses ! k) = k"
  "k \<le> 3 \<Longrightarrow> a < k \<Longrightarrow> bs_chans (worker_buses ! k) a = make_chan 64"
proof -
  show n: "k \<le> 3 \<Longrightarrow> bs_next (worker_buses ! k) = k" for k
    by (induction k) (simp_all add: worker_bus_step Subscribe_sel New_bus_def)
  show "k \<le> 3 \<Longrightarrow> a < k \<Longrightarrow> bs_chans (worker_buses ! k) a = make_chan 64"
    by (induction k) (auto simp: worker_bus_step Subscribe_sel n less_Suc_eq)
qed

lemma sick_system_waits:
  defines "w \<equiv> sy_world sick_system"
  shows "inbox w (sub_ch (worker_sub 0)) = \<lparr>ev_Topic = TopicImageUpdated, ev_Payload = ImageUpdatedPayload sick_update\<rparr> # []"
    and "k \<in> {1, 2} \<Longrightarrow> inbox w (sub_ch (worker_sub k)) = [] \<and> ch_cap (bs_chans (w_bus w) (sub_ch (worker_sub k))) = 64"
proof -
  let ?b = "worker_buses ! 3"
  have mem: "worker_sub j \<in> set (subs_of ?b (component_topics ! j))" if "j < 3" for j
    using loop_subscribed [OF worker_bus_own [of 3], of j "worker_sub j"] that by simp
  have ch: "bs_chans ?b (sub_ch (worker_sub j)) = make_chan 64" if "j < 3" for j
    using that by (simp add: worker_sub_def Subscribe_sel worker_chan)
  show "inbox w (sub_ch (worker_sub 0)) = \<lparr>ev_Topic = TopicImageUpdated, ev_Payload = ImageUpdatedPayload sick_update\<rparr> # []"
    using mem [of 0] ch [of 0]
    by (simp add: w_def sick_system_def inbox_def deliver_own worker_topics offer_def make_chan_def)
  assume "k \<in> {1, 2}"
  then have "k < 3" "TopicImageUpdated \<noteq> component_topics ! k"
    by (auto simp: worker_topics worker_topics(2) [unfolded One_nat_def] TopicImageUpdated_def TopicUpdateApplied_def TopicContainerUnhealthy_def)
  with deliver_other [OF worker_bus_inv [of 3] mem [of k]] ch [of k]
  show "inbox w (sub_ch (worker_sub k)) = [] \<and> ch_cap (bs_chans (w_bus w) (sub_ch (worker_sub k))) = 64"
    by (simp add: w_def sick_system_def inbox_def make_chan_def)
qed

lemma sick_Recreate:
  "\<exists>d1 d2. Recreate sick_docker ''c1'' ref demo_start = ((''n-web'', None), d1) \<and>
    checkHealth sick_docker ''n-web'' d1 = Inr False \<and>
    Recreate sick_docker ''n-web'' ref' d1 = ((''n-web'', None), d2)"
  by (simp add: Recreate_def checkHealth_def)
    (simp add: sick_docker_def demo_docker_def demo_start_def demo_container_def recreate_spec_def TrimPrefix_def)

theorem bad_update_is_undone_witness:
  "\<exists>s' c. run_steps (system_step sick_host) sick_system [ExecutorTurn Arrived (\<lambda>_. 1) (replicate 16 0),
      MonitorTurn Arrived, WatchTick 8 0, RollbackTurn Arrived (\<lambda>_. 9)] = Inr s' \<and>
    state_of (w_store (sy_world s')) ''n-web'' = Some c \<and> CurrentDigest c = ''sha256:old'' \<and>
    restore sick_docker (unhealthy_payload 10 c) demo_start =
      Recreate sick_docker ''n-web'' ''web:1@sha256:ffffffffff'' demo_start"
proof -
  let ?w = "sy_world sick_system" and ?e = "sr_executor (ho_server sick_host)" and ?p = sick_update
  let ?now = "\<lambda>_ :: nat. 1 :: time"
  have l: "sy_loops sick_system ! 0 = Running (worker_sub 0)" "sy_loops sick_system ! 1 = Running (worker_sub 1)"
    "sy_loops sick_system ! 2 = Running (worker_sub 2)"
    by (simp_all add: sick_system_def component_topics_def)
  have wt: "inbox ?w (sub_ch (worker_sub 1)) = []" "inbox ?w (sub_ch (worker_sub 2)) = []"
    "ch_cap (bs_chans (w_bus ?w) (sub_ch (worker_sub 1))) = 64" "ch_cap (bs_chans (w_bus ?w) (sub_ch (worker_sub 2))) = 64"
    using sick_system_waits(2) by blast+
  have e: "e_docker ?e = sr_docker (ho_server sick_host)" "e_jobRegistry ?e" "e_history ?e"
    by (simp_all add: sick_host_def demo_exec_def)
  have p: "iu_ContainerID ?p = ''c1''" "iu_Image ?p = ''web:1''" "iu_NewDigest ?p = ''sha256:ffffffffff''"
    by (simp_all add: sick_update_def demo_update_def)
  have t: "Get (iu_ContainerID ?p) (w_store ?w) = Some 0" "st_heap (w_store ?w) 0 = demo_state0"
    by (simp_all add: p sick_system_def demo_world_def demo_Get demo_state0_def)
  have wd: "watchEnabled (cs_Labels demo_state0)"
    "evaluate (effective_strategy (cs_Labels demo_state0)) (iu_Image ?p) (cs_Image demo_state0)"
    "map_get (cs_Labels demo_state0) labelComposeUpdate \<noteq> ''auto'' \<or> FromLabels (cs_Labels demo_state0) = None"
    by (simp_all add: demo_policy)
  have r: "hs_faults (w_hist ?w) = []" "length (replicate 16 (0 :: byte)) = 16" "?now 0 \<noteq> zero_time"
    "\<forall>r \<in> set (hs_rows (w_hist ?w)). r_deploy_id r \<noteq> Some (newUUID (replicate 16 0))"
    by (simp_all add: sick_system_def demo_world_def demo_hist_def zero_time_def second_ns_def)
  have d: "CurrentDigest demo_state0 = ''sha256:old''" "''sha256:old'' \<noteq> []" "16 \<le> length (iu_NewDigest ?p)"
    by (simp_all add: demo_state0_eq p)
  have dk: "sr_docker (ho_server sick_host) = sick_docker" "w_docker ?w = demo_start"
    by (simp_all add: sick_host_def sick_system_def demo_world_def)
  have n: "''n-web'' \<noteq> []" by simp
  obtain d1 d2 where rc:
    "Recreate (sr_docker (ho_server sick_host)) (iu_ContainerID ?p) (imageRef (iu_Image ?p) (iu_NewDigest ?p)) (w_docker ?w) = ((''n-web'', None), d1)"
    "checkHealth (sr_docker (ho_server sick_host)) ''n-web'' d1 = Inr False"
    "Recreate (sr_docker (ho_server sick_host)) ''n-web'' (iu_Image ?p @ ''@'' @ ''sha256:old'') d1 = ((''n-web'', None), d2)"
    using sick_Recreate unfolding dk p(1) by blast
  have k: "length (mn_watches (sy_monitor sick_system)) = 0" by (simp add: sick_system_def New_monitor_def)
  have i: "cs_Image demo_state0 @ ''@'' @ iu_NewDigest ?p = ''web:1@sha256:ffffffffff''"
    by (simp add: demo_state0_eq p)
  from bad_update_is_undone [where t = 8 and now' = "\<lambda>_. 9" and t' = 10 and d' = demo_start and now = ?now,
    OF sick_system_inv l sick_system_waits(1) wt e t wd r d rc n n]
  show ?thesis unfolding k i dk(1) by blast
qed

end
