(* ===== verification/Routes.thy ===== *)
theory Routes
  imports Viewer Webhook
begin

text \<open>
  Which handler a request is given to: the patterns that \<open>New\<close> of \<open>internal/api/api.go\<close> and \<open>RegisterRoutes\<close>
  of \<open>internal/webhook/webhook.go\<close> register, and the multiplexer of \<open>net/http\<close> they are registered with.
  Paths have no escaped characters.  The three long-lived handlers (browsers, log viewers, agents) are only
  found here, which is what \<open>Opens\<close> says: \<open>handle_request\<close> of \<open>Process\<close> then runs them, and they change the notifier, the
  list of viewers or the hub (\<open>open_stream\<close>).
\<close>

section \<open>Patterns\<close>

datatype segment = Lit string | Wild string | Rest

text \<open>\<open>Rest\<close> is the nameless wildcard that a trailing slash stands for.\<close>

fun pattern_segments :: "string list \<Rightarrow> segment list" where
  "pattern_segments [] = []"
| "pattern_segments [s] = [if s = [] then Rest else if hd s = CHR ''{'' then Wild (butlast (tl s)) else Lit s]"
| "pattern_segments (s # ss) = (if hd s = CHR ''{'' then Wild (butlast (tl s)) else Lit s) # pattern_segments ss"

definition parse_pattern :: "string \<Rightarrow> string \<times> segment list" where
  "parse_pattern s =
     (let (before, after, found) = Cut s CHR '' '';
          (m, p) = (if found then (before, after) else ([], s))
      in (m, pattern_segments (Split (tl p) CHR ''/'')))"

datatype endpoint =
    ToHealthz | ToContainers | ToUpdate | ToRollback | ToHistory | ToAgents | ToAgentDispatch | ToAgentConnect
  | ToEvents | ToDeployStatus | ToDeployLogs | ToGetServices | ToCreateService | ToGetService | ToPatchService
  | ToPush | ToDockerHub | ToFiles

definition RegisterRoutes :: "(string \<times> endpoint) list" where
  "RegisterRoutes = [(''/webhook/push'', ToPush), (''/webhook/dockerhub'', ToDockerHub)]"

definition New_routes :: "(string \<times> endpoint) list" where
  "New_routes =
     [(''/healthz'', ToHealthz),
      (''/api/containers'', ToContainers),
      (''/api/update/'', ToUpdate),
      (''/api/rollback/'', ToRollback),
      (''/api/history'', ToHistory),
      (''/api/agents'', ToAgents),
      (''/api/agents/'', ToAgentDispatch),
      (''/agent/connect'', ToAgentConnect),
      (''/api/events'', ToEvents),
      (''/api/deploys/'', ToDeployStatus),
      (''GET /api/deploys/{deploy_id}/logs'', ToDeployLogs),
      (''GET /api/services'', ToGetServices),
      (''POST /api/services'', ToCreateService),
      (''GET /api/services/{name}'', ToGetService),
      (''PATCH /api/services/{name}/config'', ToPatchService)]
     @ RegisterRoutes @ [(''/'', ToFiles)]"

section \<open>The multiplexer\<close>

type_synonym 'h branch = "segment list \<times> 'h"

definition descend :: "(segment \<Rightarrow> bool) \<Rightarrow> 'h branch list \<Rightarrow> 'h branch list" where
  "descend P ps = map (\<lambda>(segs, h). (tl segs, h)) (filter (\<lambda>(segs, h). segs \<noteq> [] \<and> P (hd segs)) ps)"

definition leaf :: "segment list \<Rightarrow> 'h branch list \<Rightarrow> 'h option" where
  "leaf segs ps = map_option snd (find (\<lambda>p. fst p = segs) ps)"

definition is_wild :: "segment \<Rightarrow> bool" where
  "is_wild g = (case g of Wild n \<Rightarrow> True | _ \<Rightarrow> False)"

text \<open>A literal segment is tried before a wildcard, a wildcard before the rest, with backtracking; the
  segments that wildcards have matched are collected.\<close>

fun match_path :: "'h branch list \<Rightarrow> string list \<Rightarrow> (string list \<times> 'h) option" where
  "match_path ps [] = map_option (Pair []) (leaf [] ps)"
| "match_path ps (s # ss) =
     (case match_path (descend (\<lambda>g. g = Lit s) ps) ss of
        Some m \<Rightarrow> Some m
      | None \<Rightarrow>
          (case (if s = [] then None else match_path (descend is_wild ps) ss) of
             Some (vs, h) \<Rightarrow> Some (s # vs, h)
           | None \<Rightarrow> map_option (Pair []) (leaf [Rest] ps)))"

type_synonym target = "segment list \<times> endpoint"

definition route_patterns :: "(string \<times> target branch) list" where
  "route_patterns = map (\<lambda>(s, e). let (m, segs) = parse_pattern s in (m, segs, segs, e)) New_routes"

definition mux_branches :: "string \<Rightarrow> target branch list" where
  "mux_branches m = map snd (filter (\<lambda>t. fst t = m) route_patterns)"

definition path_segments :: "string \<Rightarrow> string list" where
  "path_segments p = (if p = [] then [] else Split (tl p) CHR ''/'')"

text \<open>Patterns with the request's method come first, those for GET also serve HEAD, then those without one.\<close>

definition match_request :: "string \<Rightarrow> string \<Rightarrow> (string list \<times> target) option" where
  "match_request m p =
     (let ss = path_segments p in
      case match_path (mux_branches m) ss of
        Some t \<Rightarrow> Some t
      | None \<Rightarrow>
          (case (if m = ''HEAD'' then match_path (mux_branches ''GET'') ss else None) of
             Some t \<Rightarrow> Some t
           | None \<Rightarrow> match_path (mux_branches []) ss))"

definition ends_slash :: "string \<Rightarrow> bool" where
  "ends_slash p \<longleftrightarrow> p \<noteq> [] \<and> List.last p = CHR ''/''"

definition exactMatch :: "(string list \<times> target) option \<Rightarrow> string \<Rightarrow> bool" where
  "exactMatch n p =
     (case n of
        None \<Rightarrow> False
      | Some (vs, segs, e) \<Rightarrow>
          if List.last segs \<noteq> Rest then True
          else if p \<noteq> [] \<and> \<not> ends_slash p then False
          else length segs = count_list p CHR ''/'')"

text \<open>\<open>path.Clean\<close> of a rooted path.\<close>

fun clean_segments :: "string list \<Rightarrow> string list \<Rightarrow> string list" where
  "clean_segments acc [] = rev acc"
| "clean_segments acc (s # ss) =
     (if s = [] \<or> s = ''.'' then clean_segments acc ss
      else if s = ''..'' then clean_segments (tl acc) ss
      else clean_segments (s # acc) ss)"

definition path_Clean :: "string \<Rightarrow> string" where
  "path_Clean p =
     (let ss = clean_segments [] (Split (tl p) CHR ''/'')
      in if ss = [] then ''/'' else concat (map (\<lambda>s. CHR ''/'' # s) ss))"

definition cleanPath :: "string \<Rightarrow> string" where
  "cleanPath p =
     (if p = [] then ''/''
      else
        let p = (if hd p \<noteq> CHR ''/'' then CHR ''/'' # p else p); np = path_Clean p
        in if ends_slash p \<and> np \<noteq> ''/'' then np @ ''/'' else np)"

datatype routed = Moved string | Handled endpoint "(string, string) fmap" | Unmatched

definition wild_names :: "segment list \<Rightarrow> string list" where
  "wild_names segs = concat (map (\<lambda>g. case g of Wild n \<Rightarrow> [n] | _ \<Rightarrow> []) segs)"

definition findHandler :: "string \<Rightarrow> string \<Rightarrow> routed" where
  "findHandler m escapedPath =
     (let p = (if m = ''CONNECT'' then escapedPath else cleanPath escapedPath);
          n = match_request m p
      in if \<not> exactMatch n p \<and> \<not> ends_slash p \<and> exactMatch (match_request m (p @ ''/'')) (p @ ''/'')
         then Moved (cleanPath escapedPath @ ''/'')
         else if p \<noteq> escapedPath then Moved p
         else (case n of
                 None \<Rightarrow> Unmatched
               | Some (vs, segs, e) \<Rightarrow> Handled e (fmap_of_list (zip (wild_names segs) vs))))"

section \<open>The routes, path by path\<close>

text \<open>What the multiplexer makes of the table, as a cascade of tests on the path's segments.\<close>

definition plain_target :: "string list \<Rightarrow> target" where
  "plain_target ss =
     (if ss = [''healthz''] then (map Lit ss, ToHealthz)
      else if ss = [''agent'', ''connect''] then (map Lit ss, ToAgentConnect)
      else if ss = [''webhook'', ''push''] then (map Lit ss, ToPush)
      else if ss = [''webhook'', ''dockerhub''] then (map Lit ss, ToDockerHub)
      else if ss = [''api'', ''containers''] then (map Lit ss, ToContainers)
      else if ss = [''api'', ''history''] then (map Lit ss, ToHistory)
      else if ss = [''api'', ''agents''] then (map Lit ss, ToAgents)
      else if ss = [''api'', ''events''] then (map Lit ss, ToEvents)
      else if length ss \<ge> 3 \<and> take 2 ss = [''api'', ''update''] then ([Lit ''api'', Lit ''update'', Rest], ToUpdate)
      else if length ss \<ge> 3 \<and> take 2 ss = [''api'', ''rollback''] then ([Lit ''api'', Lit ''rollback'', Rest], ToRollback)
      else if length ss \<ge> 3 \<and> take 2 ss = [''api'', ''agents''] then ([Lit ''api'', Lit ''agents'', Rest], ToAgentDispatch)
      else if length ss \<ge> 3 \<and> take 2 ss = [''api'', ''deploys''] then ([Lit ''api'', Lit ''deploys'', Rest], ToDeployStatus)
      else ([Rest], ToFiles))"

definition get_target :: "string list \<Rightarrow> (string list \<times> target) option" where
  "get_target ss =
     (if ss = [''api'', ''services''] then Some ([], map Lit ss, ToGetServices)
      else if length ss = 3 \<and> take 2 ss = [''api'', ''services''] \<and> ss ! 2 \<noteq> []
      then Some ([ss ! 2], [Lit ''api'', Lit ''services'', Wild ''name''], ToGetService)
      else if length ss = 4 \<and> take 2 ss = [''api'', ''deploys''] \<and> ss ! 2 \<noteq> [] \<and> ss ! 3 = ''logs''
      then Some ([ss ! 2], [Lit ''api'', Lit ''deploys'', Wild ''deploy_id'', Lit ''logs''], ToDeployLogs)
      else None)"

definition target_of :: "string \<Rightarrow> string list \<Rightarrow> string list \<times> target" where
  "target_of m ss =
     (if m \<in> {''GET'', ''HEAD''} \<and> get_target ss \<noteq> None then the (get_target ss)
      else if m = ''POST'' \<and> ss = [''api'', ''services''] then ([], map Lit ss, ToCreateService)
      else if m = ''PATCH'' \<and> length ss = 4 \<and> take 2 ss = [''api'', ''services''] \<and> ss ! 2 \<noteq> [] \<and> ss ! 3 = ''config''
      then ([ss ! 2], [Lit ''api'', Lit ''services'', Wild ''name'', Lit ''config''], ToPatchService)
      else ([], plain_target ss))"

lemma route_patterns_eq:
  "route_patterns =
     [([], [Lit ''healthz''], [Lit ''healthz''], ToHealthz),
      ([], [Lit ''api'', Lit ''containers''], [Lit ''api'', Lit ''containers''], ToContainers),
      ([], [Lit ''api'', Lit ''update'', Rest], [Lit ''api'', Lit ''update'', Rest], ToUpdate),
      ([], [Lit ''api'', Lit ''rollback'', Rest], [Lit ''api'', Lit ''rollback'', Rest], ToRollback),
      ([], [Lit ''api'', Lit ''history''], [Lit ''api'', Lit ''history''], ToHistory),
      ([], [Lit ''api'', Lit ''agents''], [Lit ''api'', Lit ''agents''], ToAgents),
      ([], [Lit ''api'', Lit ''agents'', Rest], [Lit ''api'', Lit ''agents'', Rest], ToAgentDispatch),
      ([], [Lit ''agent'', Lit ''connect''], [Lit ''agent'', Lit ''connect''], ToAgentConnect),
      ([], [Lit ''api'', Lit ''events''], [Lit ''api'', Lit ''events''], ToEvents),
      ([], [Lit ''api'', Lit ''deploys'', Rest], [Lit ''api'', Lit ''deploys'', Rest], ToDeployStatus),
      (''GET'', [Lit ''api'', Lit ''deploys'', Wild ''deploy_id'', Lit ''logs''],
        [Lit ''api'', Lit ''deploys'', Wild ''deploy_id'', Lit ''logs''], ToDeployLogs),
      (''GET'', [Lit ''api'', Lit ''services''], [Lit ''api'', Lit ''services''], ToGetServices),
      (''POST'', [Lit ''api'', Lit ''services''], [Lit ''api'', Lit ''services''], ToCreateService),
      (''GET'', [Lit ''api'', Lit ''services'', Wild ''name''], [Lit ''api'', Lit ''services'', Wild ''name''], ToGetService),
      (''PATCH'', [Lit ''api'', Lit ''services'', Wild ''name'', Lit ''config''],
        [Lit ''api'', Lit ''services'', Wild ''name'', Lit ''config''], ToPatchService),
      ([], [Lit ''webhook'', Lit ''push''], [Lit ''webhook'', Lit ''push''], ToPush),
      ([], [Lit ''webhook'', Lit ''dockerhub''], [Lit ''webhook'', Lit ''dockerhub''], ToDockerHub),
      ([], [Rest], [Rest], ToFiles)]"
  by code_simp

lemma descend_simps [simp]:
  "descend P [] = []"
  "descend P (([], h) # ps) = descend P ps"
  "descend P ((g # segs, h) # ps) = (if P g then [(segs, h)] else []) @ descend P ps"
  by (simp_all add: descend_def)

lemma leaf_simps [simp]:
  "leaf segs [] = None" "leaf segs ((segs', h) # ps) = (if segs' = segs then Some h else leaf segs ps)"
  by (simp_all add: leaf_def)

lemma is_wild_simps [simp]: "is_wild (Wild n)" "\<not> is_wild (Lit s)" "\<not> is_wild Rest"
  by (simp_all add: is_wild_def)

lemma match_path_Nil [simp]: "match_path [] ss = None"
  by (induction ss) simp_all

lemma match_GET: "match_path (mux_branches ''GET'') ss = get_target ss"
  by (simp add: mux_branches_def route_patterns_eq)
    (cases ss; cases "tl ss"; cases "tl (tl ss)"; cases "tl (tl (tl ss))"; cases "tl (tl (tl (tl ss)))";
      auto simp: get_target_def)

lemma match_POST:
  "match_path (mux_branches ''POST'') ss =
     (if ss = [''api'', ''services''] then Some ([], map Lit ss, ToCreateService) else None)"
  by (simp add: mux_branches_def route_patterns_eq) (cases ss; cases "tl ss"; cases "tl (tl ss)"; auto)

lemma match_PATCH:
  "match_path (mux_branches ''PATCH'') ss =
     (if length ss = 4 \<and> take 2 ss = [''api'', ''services''] \<and> ss ! 2 \<noteq> [] \<and> ss ! 3 = ''config''
      then Some ([ss ! 2], [Lit ''api'', Lit ''services'', Wild ''name'', Lit ''config''], ToPatchService) else None)"
  by (simp add: mux_branches_def route_patterns_eq)
    (cases ss; cases "tl ss"; cases "tl (tl ss)"; cases "tl (tl (tl ss))"; cases "tl (tl (tl (tl ss)))"; auto)

lemma match_other: "m \<notin> {[], ''GET'', ''POST'', ''PATCH''} \<Longrightarrow> mux_branches m = []"
  by (auto simp: mux_branches_def route_patterns_eq)

lemma match_leaves:
  "match_path [([], h)] ss = (if ss = [] then Some ([], h) else None)"
  "match_path [([Rest], h)] ss = (if ss = [] then None else Some ([], h))"
  "match_path [([], h), ([Rest], h')] ss = Some ([], if ss = [] then h else h')"
  by (cases ss; simp)+

definition api_branches :: "target branch list" where
  "api_branches = map (\<lambda>(segs, e). (segs, Lit ''api'' # segs, e))
     [([Lit ''containers''], ToContainers), ([Lit ''update'', Rest], ToUpdate), ([Lit ''rollback'', Rest], ToRollback),
      ([Lit ''history''], ToHistory), ([Lit ''agents''], ToAgents), ([Lit ''agents'', Rest], ToAgentDispatch),
      ([Lit ''events''], ToEvents), ([Lit ''deploys'', Rest], ToDeployStatus)]"

lemma plain_branches:
  "descend (\<lambda>g. g = Lit ''api'') (mux_branches []) = api_branches"
  "descend (\<lambda>g. g = Lit ''healthz'') (mux_branches []) = [([], [Lit ''healthz''], ToHealthz)]"
  "descend (\<lambda>g. g = Lit ''agent'') (mux_branches []) = [([Lit ''connect''], [Lit ''agent'', Lit ''connect''], ToAgentConnect)]"
  "descend (\<lambda>g. g = Lit ''webhook'') (mux_branches []) =
     [([Lit ''push''], [Lit ''webhook'', Lit ''push''], ToPush), ([Lit ''dockerhub''], [Lit ''webhook'', Lit ''dockerhub''], ToDockerHub)]"
  "descend is_wild (mux_branches []) = []"
  "leaf [Rest] (mux_branches []) = Some ([Rest], ToFiles)"
  by (simp_all add: mux_branches_def route_patterns_eq api_branches_def)

lemma other_branches:
  "a \<notin> {''api'', ''healthz'', ''agent'', ''webhook''} \<Longrightarrow> descend (\<lambda>g. g = Lit a) (mux_branches []) = []"
  by (auto simp: mux_branches_def route_patterns_eq)

lemma api_children:
  "descend (\<lambda>g. g = Lit b) api_branches =
     (if b = ''containers'' then [([], [Lit ''api'', Lit b], ToContainers)]
      else if b = ''update'' then [([Rest], [Lit ''api'', Lit b, Rest], ToUpdate)]
      else if b = ''rollback'' then [([Rest], [Lit ''api'', Lit b, Rest], ToRollback)]
      else if b = ''history'' then [([], [Lit ''api'', Lit b], ToHistory)]
      else if b = ''agents'' then [([], [Lit ''api'', Lit b], ToAgents), ([Rest], [Lit ''api'', Lit b, Rest], ToAgentDispatch)]
      else if b = ''events'' then [([], [Lit ''api'', Lit b], ToEvents)]
      else if b = ''deploys'' then [([Rest], [Lit ''api'', Lit b, Rest], ToDeployStatus)]
      else [])"
  "descend is_wild api_branches = []" "leaf [] api_branches = None" "leaf [Rest] api_branches = None"
  by (auto simp: api_branches_def)

lemma match_api:
  "match_path api_branches ss =
    (if snd (plain_target (''api'' # ss)) = ToFiles then None else Some ([], plain_target (''api'' # ss)))"
proof (cases ss)
  case Nil
  then show ?thesis by (simp add: api_children plain_target_def)
next
  case (Cons b rest)
  then show ?thesis
    by (cases rest) (simp_all add: api_children plain_target_def match_leaves)
qed

lemma match_plain:
  assumes "ss \<noteq> []" shows "match_path (mux_branches []) ss = Some ([], plain_target ss)"
proof -
  obtain a rest where ss: "ss = a # rest" using assms by (cases ss) auto
  consider "a = ''api''" | "a = ''healthz''" | "a = ''agent''" | "a = ''webhook''"
    | "a \<notin> {''api'', ''healthz'', ''agent'', ''webhook''}" by blast
  then show ?thesis
  proof cases
    case 1
    have "snd (plain_target (''api'' # rest)) = ToFiles \<Longrightarrow> plain_target (''api'' # rest) = ([Rest], ToFiles)"
      by (auto simp: plain_target_def split: if_splits)
    with 1 ss show ?thesis by (auto simp: plain_branches match_api)
  next
    case 2
    then show ?thesis by (simp add: ss plain_branches match_leaves plain_target_def)
  next
    case 3
    then show ?thesis by (cases rest) (auto simp: ss plain_branches match_leaves plain_target_def)
  next
    case 4
    then show ?thesis by (cases rest) (auto simp: ss plain_branches match_leaves plain_target_def)
  next
    case 5
    then show ?thesis by (simp add: ss plain_branches other_branches plain_target_def)
  qed
qed

lemma match_request_eq:
  assumes "path_segments p \<noteq> []"
  shows "match_request m p = Some (target_of m (path_segments p))"
proof -
  note pl = match_plain [OF assms]
  consider "m = ''GET''" | "m = ''POST''" | "m = ''PATCH''" | "m = ''HEAD''" | "m = []"
    | "m \<notin> {[], ''GET'', ''POST'', ''PATCH'', ''HEAD''}" by blast
  then show ?thesis
  proof cases
    case 6
    then have "mux_branches m = []" by (intro match_other) simp
    with 6 pl show ?thesis by (simp add: match_request_def target_of_def)
  qed (auto simp: match_request_def target_of_def pl match_GET match_POST match_PATCH match_other Let_def
      split: option.split)
qed

section \<open>Redirections\<close>

lemma length_Split: "length (Split s c) = Suc (count_list s c)"
  by (induction s) (auto split: list.split)

lemma Split_trailing: "Split (s @ [c]) c = Split s c @ [[]]"
  by (induction s) (auto split: list.split)

lemma cleanPath_rooted: "\<exists>q. cleanPath p = CHR ''/'' # q"
proof -
  have "\<exists>q. path_Clean s = CHR ''/'' # q" for s
    by (auto simp: path_Clean_def Let_def neq_Nil_conv)
  then obtain f where "path_Clean s = CHR ''/'' # f s" for s by metis
  then show ?thesis by (simp add: cleanPath_def Let_def)
qed

text \<open>For a path that starts with a slash, what the test for an exact match says in terms of segments.\<close>

lemma exactMatch_rooted:
  assumes "p = CHR ''/'' # q"
  shows "exactMatch (match_request m p) p \<longleftrightarrow>
    (let segs = fst (snd (target_of m (path_segments p)))
     in List.last segs \<noteq> Rest \<or> ends_slash p \<and> length segs = length (path_segments p))"
proof -
  have "path_segments p \<noteq> []" by (simp add: path_segments_def assms)
  then show ?thesis
    by (cases "target_of m (path_segments p)")
      (auto simp: match_request_eq exactMatch_def path_segments_def assms length_Split Let_def)
qed

definition slash_missing :: "string list set" where
  "slash_missing = {[''api'', ''update''], [''api'', ''rollback''], [''api'', ''deploys'']}"

lemma target_snoc: "target_of m (ss @ [[]]) = ([], plain_target (ss @ [[]]))"
  by (auto simp: target_of_def get_target_def nth_append)

lemma last_segment: "p = CHR ''/'' # q \<Longrightarrow> ends_slash p \<Longrightarrow> List.last (path_segments p) = []"
  by (cases q rule: rev_cases) (auto simp: ends_slash_def path_segments_def Split_trailing split: if_splits)

lemma path_segments_slash: "p = CHR ''/'' # q \<Longrightarrow> path_segments (p @ ''/'') = path_segments p @ [[]]"
  by (simp add: path_segments_def Split_trailing)

lemma plain_target_missing:
  "ss \<in> slash_missing \<Longrightarrow> target_of m ss = ([], [Rest], ToFiles)"
  unfolding slash_missing_def by (elim insertE emptyE) (simp_all add: target_of_def get_target_def plain_target_def)

lemma exact_with_slash:
  "List.last (fst (plain_target (ss @ [[]]))) \<noteq> Rest \<or> length (fst (plain_target (ss @ [[]]))) = Suc (length ss) \<longleftrightarrow>
   ss \<in> slash_missing \<or> ss = [''api'', ''agents''] \<or> ss = []"
proof -
  consider "ss = []" | a where "ss = [a]" | a b where "ss = [a, b]" | a b c r where "ss = a # b # c # r"
    by (metis list.exhaust)
  then show ?thesis
  proof cases
    case (3 a b)
    consider "a = ''api''" "b \<in> {''update'', ''rollback'', ''deploys'', ''agents''}"
      | "a = ''api''" "b \<notin> {''update'', ''rollback'', ''deploys'', ''agents''}" | "a \<noteq> ''api''" by blast
    then show ?thesis by cases (auto simp: 3 plain_target_def slash_missing_def)
  next
    case (4 a b c r)
    have "fst (plain_target (ss @ [[]])) \<in> {[Rest], [Lit a, Lit b, Rest]}" by (auto simp: 4 plain_target_def)
    then have "List.last (fst (plain_target (ss @ [[]]))) = Rest \<and> length (fst (plain_target (ss @ [[]]))) \<le> 3" by auto
    then show ?thesis by (simp add: 4 slash_missing_def)
  qed (simp_all add: plain_target_def slash_missing_def)
qed

lemma redirected:
  assumes p: "p = CHR ''/'' # q"
  shows "\<not> exactMatch (match_request m p) p \<and> \<not> ends_slash p \<and> exactMatch (match_request m (p @ ''/'')) (p @ ''/'') \<longleftrightarrow>
    path_segments p \<in> slash_missing"
proof -
  let ?ss = "path_segments p"
  have ne: "?ss \<noteq> []" by (simp add: path_segments_def p)
  have sl: "exactMatch (match_request m (p @ ''/'')) (p @ ''/'') \<longleftrightarrow> ?ss \<in> slash_missing \<or> ?ss = [''api'', ''agents'']"
    using exactMatch_rooted [of "p @ ''/''" "q @ ''/''" m] exact_with_slash [of ?ss] ne p
    unfolding path_segments_slash [OF p] target_snoc by (simp add: p ends_slash_def)
  have "\<not> ends_slash p \<and> \<not> exactMatch (match_request m p) p" if "?ss \<in> slash_missing"
  proof
    show "\<not> ends_slash p" using last_segment [OF p] that by (auto simp: slash_missing_def)
    then show "\<not> exactMatch (match_request m p) p"
      using exactMatch_rooted [OF p, of m] plain_target_missing [OF that] by simp
  qed
  moreover have "exactMatch (match_request m p) p" if "?ss = [''api'', ''agents'']"
    using exactMatch_rooted [OF p, of m] that by (simp add: target_of_def get_target_def plain_target_def)
  ultimately show ?thesis using sl by blast
qed

lemma join_Split: "concat (map (\<lambda>p. c # p) (Split s c)) = c # s"
  by (induction s) (auto split: list.splits)

lemma findHandler_eq:
  assumes "m \<noteq> ''CONNECT''"
  shows "findHandler m p =
    (let c = cleanPath p; (vs, segs, e) = target_of m (path_segments c) in
     if c \<in> {''/api/update'', ''/api/rollback'', ''/api/deploys''} then Moved (c @ ''/'')
     else if c \<noteq> p then Moved c
     else Handled e (fmap_of_list (zip (wild_names segs) vs)))"
proof -
  obtain q where c: "cleanPath p = CHR ''/'' # q" using cleanPath_rooted by blast
  have ne: "path_segments (cleanPath p) \<noteq> []" by (simp add: path_segments_def c)
  have "cleanPath p = concat (map (\<lambda>s. CHR ''/'' # s) (path_segments (cleanPath p)))"
    by (simp add: path_segments_def c join_Split)
  then have "path_segments (cleanPath p) \<in> slash_missing \<longleftrightarrow> cleanPath p \<in> {''/api/update'', ''/api/rollback'', ''/api/deploys''}"
    by (auto simp: slash_missing_def path_segments_def)
  then show ?thesis unfolding findHandler_def Let_def if_not_P [OF assms] redirected [OF c]
    unfolding match_request_eq [OF ne] by (simp split: prod.split)
qed

section \<open>Requests to their handlers\<close>

record server_request =
  hr_Method :: string
  hr_Path :: string
  hr_Query :: "(string, string) fmap"
  hr_Body :: string
  hr_ReadError :: "nat option"
  hr_Signature :: string

definition api_view :: "server_request \<Rightarrow> (string, string) fmap \<Rightarrow> api_request" where
  "api_view r vals = \<lparr>aq_Method = hr_Method r, aq_Path = hr_Path r, aq_Query = hr_Query r, aq_PathValue = vals,
     aq_Body = hr_Body r\<rparr>"

definition hook_view :: "server_request \<Rightarrow> request" where
  "hook_view r = \<lparr>rq_Method = hr_Method r, rq_Body = hr_Body r, rq_ReadError = hr_ReadError r, rq_Signature = hr_Signature r\<rparr>"

text \<open>What a handler takes from outside: the registry's answers, clocks, random bytes, orders of maps.\<close>

record surroundings =
  su_head :: "string \<Rightarrow> error + string"
  su_now :: "nat \<Rightarrow> time"
  su_job_time :: time
  su_rand :: "byte list"
  su_order1 :: "string list"
  su_order2 :: "string list"
  su_datetime :: string
  su_nano :: string

text \<open>\<open>Opens\<close> is not an answer yet: the handler found keeps the connection, and is still to be run.  \<open>Streams\<close> is the
  answer of such a handler that has begun.\<close>

datatype answer =
    Redirected string
  | Replied reply
  | Answered response
  | Opens endpoint "(string, string) fmap"
  | Streams endpoint "(string, string) fmap"
  | FrontEnd string
  | NotFound

text \<open>The handlers that answer at once are run; the other three are run by \<open>open_stream\<close>.\<close>

definition handle_endpoint ::
  "api \<Rightarrow> webhook \<Rightarrow> surroundings \<Rightarrow> server_request \<Rightarrow> endpoint \<Rightarrow> (string, string) fmap \<Rightarrow> 'd world \<Rightarrow> agent_hub \<Rightarrow>
     panic + answer \<times> 'd world \<times> agent_hub" where
  "handle_endpoint x h su r e vals w a =
     (let q = api_view r vals in
      case e of
        ToHealthz \<Rightarrow> Inr (Replied (handleHealthz x (su_now su 0) w), w, a)
      | ToContainers \<Rightarrow> Inr (Replied (handleContainers (su_order1 su) q w), w, a)
      | ToUpdate \<Rightarrow> map_sum id (\<lambda>(rp, w). (Replied rp, w, a)) (handleUpdate (su_head su) (su_now su 0) q w)
      | ToRollback \<Rightarrow> map_sum id (\<lambda>(rp, w). (Replied rp, w, a)) (handleRollback (su_now su 0) q w)
      | ToHistory \<Rightarrow> (let (rp, w) = handleHistory x q w in Inr (Replied rp, w, a))
      | ToAgents \<Rightarrow> Inr (Replied (handleAgents (su_order1 su) q a), w, a)
      | ToAgentDispatch \<Rightarrow> map_sum id (\<lambda>(rp, a). (Replied rp, w, a)) (handleAgentDispatch x (su_nano su) q a)
      | ToAgentConnect \<Rightarrow> Inr (Opens e vals, w, a)
      | ToEvents \<Rightarrow> Inr (Opens e vals, w, a)
      | ToDeployStatus \<Rightarrow> Inr (Replied (handleDeployStatus x q w), w, a)
      | ToDeployLogs \<Rightarrow> Inr (Opens e vals, w, a)
      | ToGetServices \<Rightarrow> Inr (Replied (handleGetServices (su_order1 su) w), w, a)
      | ToCreateService \<Rightarrow> (let (rp, w) = handleCreateService x (su_datetime su) q w in Inr (Replied rp, w, a))
      | ToGetService \<Rightarrow> Inr (Replied (handleGetService q w), w, a)
      | ToPatchService \<Rightarrow> (let (rp, w) = handlePatchServiceConfig x (su_datetime su) q w in Inr (Replied rp, w, a))
      | ToPush \<Rightarrow> map_sum id (\<lambda>(rs, w). (Answered rs, w, a))
          (handlePush h (su_now su) (su_job_time su) (su_rand su) (su_order1 su) (su_order2 su) (hook_view r) w)
      | ToDockerHub \<Rightarrow> map_sum id (\<lambda>(rs, w). (Answered rs, w, a))
          (handleDockerHub h (su_now su) (su_order1 su) (hook_view r) w)
      | ToFiles \<Rightarrow> Inr (FrontEnd (hr_Path r), w, a))"

definition serve ::
  "api \<Rightarrow> webhook \<Rightarrow> surroundings \<Rightarrow> server_request \<Rightarrow> 'd world \<Rightarrow> agent_hub \<Rightarrow>
     panic + answer \<times> 'd world \<times> agent_hub" where
  "serve x h su r w a =
     (case findHandler (hr_Method r) (hr_Path r) of
        Moved p \<Rightarrow> Inr (Redirected p, w, a)
      | Unmatched \<Rightarrow> Inr (NotFound, w, a)
      | Handled e vals \<Rightarrow> handle_endpoint x h su r e vals w a)"

lemma handleAgentDispatch_safe:
  assumes "hub_inv a"
  shows "\<exists>rp a'. handleAgentDispatch x nano q a = Inr (rp, a') \<and> hub_inv a'"
proof (cases "ax_dispatch x (aq_Body q)")
  case None
  with assms show ?thesis by (simp add: handleAgentDispatch_def Let_def)
next
  case (Some c)
  obtain e a' where "Dispatch (SplitN (TrimPrefix (aq_Path q) ''/api/agents/'') CHR ''/'' 2 ! 0)
      (agent_command nano (fst c) (snd c)) a = Inr (e, a')" "hub_inv a'"
    using Dispatch_safe [OF assms] by blast
  with Some assms show ?thesis by (cases c; cases e) (simp_all add: handleAgentDispatch_def Let_def)
qed

lemma map_sum_Inr: "map_sum f g x = Inr y \<longleftrightarrow> (\<exists>z. x = Inr z \<and> y = g z)"
  by (cases x) auto

lemma api_step_reply:
  assumes "world_inv w"
  shows "\<exists>rp w'. handleUpdate ask now q w = Inr (rp, w') \<and> world_inv w'"
    and "\<exists>rp w'. handleRollback now q w = Inr (rp, w') \<and> world_inv w'"
proof -
  show "\<exists>rp w'. handleUpdate ask now q w = Inr (rp, w') \<and> world_inv w'"
    using api_step_safe [OF assms, of _ "CallUpdate ask now q"]
    by (cases "handleUpdate ask now q w") (auto simp: api_step_def)
  show "\<exists>rp w'. handleRollback now q w = Inr (rp, w') \<and> world_inv w'"
    using api_step_safe [OF assms, of _ "CallRollback now q"]
    by (cases "handleRollback now q w") (auto simp: api_step_def)
qed

lemma handle_endpoint_safe:
  assumes w: "world_inv w" and a: "hub_inv a"
  shows "\<exists>ans w' a'. handle_endpoint x h su r e vals w a = Inr (ans, w', a') \<and> world_inv w' \<and> hub_inv a'"
proof (cases e)
  case ToUpdate
  obtain rp w' where "handleUpdate (su_head su) (su_now su 0) (api_view r vals) w = Inr (rp, w')" "world_inv w'"
    using api_step_reply(1) [OF w] by blast
  with a ToUpdate show ?thesis by (simp add: handle_endpoint_def)
next
  case ToRollback
  obtain rp w' where "handleRollback (su_now su 0) (api_view r vals) w = Inr (rp, w')" "world_inv w'"
    using api_step_reply(2) [OF w] by blast
  with a ToRollback show ?thesis by (simp add: handle_endpoint_def)
next
  case ToHistory
  with a handleHistory_inv [OF w, of x "api_view r vals"] show ?thesis
    by (cases "handleHistory x (api_view r vals) w") (simp add: handle_endpoint_def)
next
  case ToCreateService
  with a handleCreateService_inv [OF w, of x "su_datetime su" "api_view r vals"] show ?thesis
    by (cases "handleCreateService x (su_datetime su) (api_view r vals) w") (simp add: handle_endpoint_def)
next
  case ToPatchService
  with a handlePatchServiceConfig_inv [OF w, of x "su_datetime su" "api_view r vals"] show ?thesis
    by (cases "handlePatchServiceConfig x (su_datetime su) (api_view r vals) w") (simp add: handle_endpoint_def)
next
  case ToAgentDispatch
  obtain rp a' where "handleAgentDispatch x (su_nano su) (api_view r vals) a = Inr (rp, a')" "hub_inv a'"
    using handleAgentDispatch_safe [OF a] by blast
  with w ToAgentDispatch show ?thesis by (simp add: handle_endpoint_def)
next
  case ToPush
  obtain rs w' where "handlePush h (su_now su) (su_job_time su) (su_rand su) (su_order1 su) (su_order2 su) (hook_view r) w =
      Inr (rs, w')" "world_inv w'"
    using handlePush_safe [OF w] by blast
  with a ToPush show ?thesis by (simp add: handle_endpoint_def)
next
  case ToDockerHub
  obtain rs w' where "handleDockerHub h (su_now su) (su_order1 su) (hook_view r) w = Inr (rs, w')" "world_inv w'"
    using handleDockerHub_safe [OF w] by blast
  with a ToDockerHub show ?thesis by (simp add: handle_endpoint_def)
qed (use assms in \<open>simp_all add: handle_endpoint_def\<close>)

lemma serve_safe:
  assumes "world_inv w" "hub_inv a"
  shows "\<exists>ans w' a'. serve x h su r w a = Inr (ans, w', a') \<and> world_inv w' \<and> hub_inv a'"
proof (cases "findHandler (hr_Method r) (hr_Path r)")
  case (Handled e vals)
  with handle_endpoint_safe [OF assms, of x h su r e vals] show ?thesis by (simp add: serve_def)
qed (use assms in \<open>simp_all add: serve_def\<close>)

lemma handle_endpoint_found: "handle_endpoint x h su r e vals w a = Inr (ans, w', a') \<Longrightarrow> ans \<noteq> NotFound"
  by (cases e) (auto simp: handle_endpoint_def map_sum_Inr Let_def split: prod.splits)

text \<open>What a request that is neither POST nor PATCH leaves alone: everything but the position in the script
  of the database's failures.\<close>

definition untouched :: "'d world \<Rightarrow> 'd world \<Rightarrow> bool" where
  "untouched w w' \<longleftrightarrow> w' = w\<lparr>w_hist := (w_hist w)\<lparr>hs_faults := hs_faults (w_hist w')\<rparr>\<rparr>"

lemma untouched_refl [simp]: "untouched w w"
  by (simp add: untouched_def)

lemma handleHistory_untouched: "handleHistory x q w = (rp, w') \<Longrightarrow> untouched w w'"
  by (auto simp: handleHistory_def untouched_def Let_def Count_def List_history_def dest!: statementD
      split: if_splits prod.splits sum.splits option.splits)

lemma handle_endpoint_untouched:
  assumes "hr_Method r \<notin> {''POST'', ''PATCH''}" "e \<notin> {ToCreateService, ToPatchService}"
    and "handle_endpoint x h su r e vals w a = Inr (ans, w', a')"
  shows "untouched w w' \<and> a' = a"
proof (cases e)
  case ToHistory
  with assms(3) show ?thesis
    by (cases "handleHistory x (api_view r vals) w") (auto simp: handle_endpoint_def intro: handleHistory_untouched)
qed (use assms in \<open>auto simp: handle_endpoint_def api_view_def hook_view_def handleUpdate_def handleRollback_def
    handleAgentDispatch_def handlePush_def handleDockerHub_def\<close>)

lemma no_empty_route: "match_request m [] = None"
proof -
  have "leaf [] (mux_branches k) = None" for k
    by (auto simp: leaf_def mux_branches_def route_patterns_eq find_None_iff)
  then show ?thesis by (simp add: match_request_def path_segments_def Let_def)
qed

lemma handled_target:
  assumes "findHandler m p = Handled e vals"
  shows "\<exists>ss. e = snd (snd (target_of m ss))"
proof -
  obtain p' vs segs where "match_request m p' = Some (vs, segs, e)"
    using assms by (auto simp: findHandler_def Let_def split: if_splits option.splits)
  then have "target_of m (path_segments p') = (vs, segs, e)"
    using match_request_eq [of p' m] no_empty_route [of m] by (cases "p' = []") (auto simp: path_segments_def)
  then show ?thesis by (intro exI [of _ "path_segments p'"]) simp
qed

lemma target_methods:
  "m \<noteq> ''POST'' \<Longrightarrow> snd (snd (target_of m ss)) \<noteq> ToCreateService"
  "m \<noteq> ''PATCH'' \<Longrightarrow> snd (snd (target_of m ss)) \<noteq> ToPatchService"
  by (auto simp: target_of_def get_target_def plain_target_def split: if_splits)


lemma serve_untouched:
  assumes "hr_Method r \<notin> {''POST'', ''PATCH''}" and "serve x h su r w a = Inr (ans, w', a')"
  shows "untouched w w' \<and> a' = a"
proof (cases "findHandler (hr_Method r) (hr_Path r)")
  case (Handled e vals)
  obtain ss where "e = snd (snd (target_of (hr_Method r) ss))" using handled_target [OF Handled] by blast
  then have "e \<notin> {ToCreateService, ToPatchService}" using assms(1) target_methods [of "hr_Method r" ss] by auto
  from handle_endpoint_untouched [OF assms(1) this] assms(2) Handled show ?thesis by (simp add: serve_def)
qed (use assms(2) in \<open>auto simp: serve_def\<close>)

text \<open>The paths of the handlers that keep the connection.\<close>

lemma handled_segments:
  assumes "findHandler m p = Handled e vals"
  shows "\<exists>vs segs. target_of m (path_segments p) = (vs, segs, e) \<and> vals = fmap_of_list (zip (wild_names segs) vs)"
proof -
  obtain vs segs where t: "match_request m p = Some (vs, segs, e)" "vals = fmap_of_list (zip (wild_names segs) vs)"
    using assms by (auto simp: findHandler_def Let_def split: if_splits option.splits)
  then have "path_segments p \<noteq> []" using no_empty_route [of m] by (auto simp: path_segments_def)
  from match_request_eq [OF this, of m] t(1) have "target_of m (path_segments p) = (vs, segs, e)" by simp
  with t(2) show ?thesis by blast
qed

lemma stream_paths:
  assumes "findHandler m p = Handled e vals"
  shows "e = ToEvents \<Longrightarrow> path_segments p = [''api'', ''events'']"
    and "e = ToAgentConnect \<Longrightarrow> path_segments p = [''agent'', ''connect'']"
    and "e = ToDeployLogs \<Longrightarrow> path_segments p = [''api'', ''deploys'', map_get vals ''deploy_id'', ''logs'']"
proof -
  obtain vs segs where t: "target_of m (path_segments p) = (vs, segs, e)" "vals = fmap_of_list (zip (wild_names segs) vs)"
    using handled_segments [OF assms] by blast
  show "path_segments p = [''api'', ''events'']" if "e = ToEvents"
    using t(1) that by (auto simp: target_of_def get_target_def plain_target_def split: if_splits)
  show "path_segments p = [''agent'', ''connect'']" if "e = ToAgentConnect"
    using t(1) that by (auto simp: target_of_def get_target_def plain_target_def split: if_splits)
  assume "e = ToDeployLogs"
  with t(1) have g: "get_target (path_segments p) = Some (vs, segs, ToDeployLogs)"
    by (auto simp: target_of_def plain_target_def split: if_splits)
  let ?ss = "path_segments p"
  from g have l: "length ?ss = 4" "take 2 ?ss = [''api'', ''deploys'']" "?ss ! 3 = ''logs''"
    and v: "vs = [?ss ! 2]" "segs = [Lit ''api'', Lit ''deploys'', Wild ''deploy_id'', Lit ''logs'']"
    by (auto simp: get_target_def split: if_splits)
  from l obtain i where i: "?ss = [''api'', ''deploys'', i, ''logs'']"
    by (auto simp: length_Suc_conv eval_nat_numeral)
  moreover have "map_get vals ''deploy_id'' = i"
    unfolding t(2) v by (simp add: i wild_names_def map_get_def)
  ultimately show "?ss = [''api'', ''deploys'', map_get vals ''deploy_id'', ''logs'']" by simp
qed

section \<open>An example\<close>

definition demo_web_request :: "string \<Rightarrow> string \<Rightarrow> server_request" where
  "demo_web_request m p = \<lparr>hr_Method = m, hr_Path = p, hr_Query = fmempty, hr_Body = ''{}'', hr_ReadError = None,
     hr_Signature = []\<rparr>"

definition demo_around :: surroundings where
  "demo_around = \<lparr>su_head = (\<lambda>_. Inr ''sha256:0123456789''), su_now = (\<lambda>_. 3), su_job_time = 3, su_rand = replicate 16 0,
     su_order1 = [''c1''], su_order2 = [''c1''], su_datetime = ''now'', su_nano = ''77''\<rparr>"

section \<open>Properties\<close>

text \<open>C30: The multiplexer gives every request the handler that its path names.  For every method and path,
  matching the route_patterns patterns with their precedence comes to the cascade of tests on
  the path's segments \<open>target_of\<close>: a request for a log or a service by its name reaches the handler with the name
  as its path value, everything else under \<open>/api/deploys/\<close> the status handler, and what no pattern
  names the static files; a path that is not clean is redirected to its clean form, and the three
  prefixes without their slash to the one with it.\<close>

theorem routes_by_path:
  assumes "m \<noteq> ''CONNECT''"
  shows "findHandler m p =
    (let c = cleanPath p; (vs, segs, e) = target_of m (path_segments c) in
     if c \<in> {''/api/update'', ''/api/rollback'', ''/api/deploys''} then Moved (c @ ''/'')
     else if c \<noteq> p then Moved c
     else Handled e (fmap_of_list (zip (wild_names segs) vs)))"
  by (rule findHandler_eq [OF assms])

theorem routes_by_path_witness:
  "findHandler ''GET'' ''/api/deploys/7/logs'' = Handled ToDeployLogs (fmap_of_list [(''deploy_id'', ''7'')]) \<and>
   findHandler ''POST'' ''/api//update'' = Moved ''/api/update/''"
proof -
  have m: "''GET'' \<noteq> ''CONNECT''" "''POST'' \<noteq> ''CONNECT''" by simp_all
  have c: "cleanPath ''/api/deploys/7/logs'' = ''/api/deploys/7/logs''" "cleanPath ''/api//update'' = ''/api/update''"
    by code_simp+
  have t: "target_of ''GET'' (path_segments ''/api/deploys/7/logs'') =
      ([''7''], [Lit ''api'', Lit ''deploys'', Wild ''deploy_id'', Lit ''logs''], ToDeployLogs)"
    by code_simp
  show ?thesis unfolding routes_by_path [OF m(1)] routes_by_path [OF m(2)] c t Let_def
    by (simp add: wild_names_def split: prod.split)
qed

text \<open>Every HTTP request is answered: whatever its method, path and body, and whatever the registry, clocks and
  database do meanwhile, some handler takes it, no handler panics, and the state that the server's
  components share stays well formed.\<close>

theorem requests_are_answered:
  assumes "world_inv w" and "hub_inv a"
  shows "\<exists>ans w' a'. serve x h su r w a = Inr (ans, w', a') \<and> world_inv w' \<and> hub_inv a' \<and>
    (hr_Method r \<noteq> ''CONNECT'' \<longrightarrow> ans \<noteq> NotFound)"
proof -
  have found: "findHandler (hr_Method r) (hr_Path r) \<noteq> Unmatched" if "hr_Method r \<noteq> ''CONNECT''"
  proof -
    have "path_segments (cleanPath (hr_Path r)) \<noteq> []"
      using cleanPath_rooted [of "hr_Path r"] by (auto simp: path_segments_def)
    note m = match_request_eq [OF this, of "hr_Method r"]
    show ?thesis unfolding findHandler_def Let_def if_not_P [OF that] m by (simp split: prod.split)
  qed
  obtain ans w' a' where s: "serve x h su r w a = Inr (ans, w', a')" "world_inv w'" "hub_inv a'"
    using serve_safe [OF assms] by blast
  then have "hr_Method r \<noteq> ''CONNECT'' \<longrightarrow> ans \<noteq> NotFound"
    using found by (auto simp: serve_def dest: handle_endpoint_found split: routed.splits)
  with s show ?thesis by blast
qed

theorem requests_are_answered_witness:
  "\<exists>ans w' a'. serve demo_api demo_hook demo_around (demo_web_request ''PUT'' ''/nowhere'') demo_world demo_hub = Inr (ans, w', a') \<and>
    world_inv w' \<and> ans \<noteq> NotFound"
  using requests_are_answered [OF demo_world_inv demo_hub_inv, of demo_api demo_hook demo_around "demo_web_request ''PUT'' ''/nowhere''"]
  by (auto simp: demo_web_request_def)

end
