(* ===== verification/Process.thy ===== *)
theory Process
  imports System Routes
begin

text \<open>
  The whole process: the running server of \<open>System\<close> and the HTTP server in front of it.  Whatever
  reaches a component from outside comes as a request (\<open>Routes\<close>), and the three handlers that do not
  answer at once, browsers (\<open>handleSSE\<close>), viewers of a log (\<open>handleDeployLogs\<close>) and agents
  (\<open>internal/agentserver\<close>), go on as goroutines of their own that take their turns with all others.
\<close>

section \<open>State and steps\<close>

text \<open>What the other end of a connection does while it is opened: whether the response can be flushed, what
  the upgrade to a websocket fails with, and an agent's first message.\<close>

record peer =
  pe_flusher :: bool
  pe_accept :: "error option"
  pe_first :: "error + register_msg"

text \<open>
  The streams that are open: each browser's channel with the text written to it, each viewer's job, and
  each agent's connection with whether its write loop still runs.  \<open>pr_answers\<close> are the answers to the
  requests, in order.
\<close>

record 'd process =
  pr_system :: "'d system"
  pr_hub :: agent_hub
  pr_browsers :: "(addr \<times> string) list"
  pr_viewers :: "(addr \<times> viewer) list"
  pr_sessions :: "(addr \<times> bool) list"
  pr_answers :: "answer list"

definition start_process :: "'d host \<Rightarrow> string \<Rightarrow> hist \<Rightarrow> manager \<Rightarrow> fs \<Rightarrow> 'd \<Rightarrow> panic + 'd process" where
  "start_process h token hist m files d =
     map_sum id (\<lambda>s. \<lparr>pr_system = s, pr_hub = New_hub token, pr_browsers = [], pr_viewers = [], pr_sessions = [],
       pr_answers = []\<rparr>) (start_system h hist m files d)"

datatype 'd process_op =
    HttpRequest peer surroundings server_request
  | BrowserTurn nat bool
  | ViewerTurn nat "error option"
  | SessionWrites nat write_event
  | SessionEnds nat
  | Inside "'d system_op"

text \<open>What \<open>Inside\<close> stands for: turns of the components and what happens to the Docker daemon.\<close>

definition inside :: "'d system_op \<Rightarrow> bool" where
  "inside e \<longleftrightarrow>
     (case e of
        BrowserJoins \<Rightarrow> False | BrowserLeaves c \<Rightarrow> False | BrowserReads c \<Rightarrow> False | ViewerReads a \<Rightarrow> False
      | WebhookCall c \<Rightarrow> False | ApiCall c \<Rightarrow> False | _ \<Rightarrow> True)"

definition remove_at :: "nat \<Rightarrow> 'a list \<Rightarrow> 'a list" where
  "remove_at k xs = take k xs @ drop (Suc k) xs"

text \<open>The beginnings of the three streams, and what the request is answered with.\<close>

definition open_stream ::
  "api \<Rightarrow> peer \<Rightarrow> time \<Rightarrow> server_request \<Rightarrow> endpoint \<Rightarrow> (string, string) fmap \<Rightarrow> 'd process \<Rightarrow> answer \<times> 'd process" where
  "open_stream x pe now r e vals p =
     (let s = pr_system p in
      case e of
        ToEvents \<Rightarrow>
          (case open_sse (pe_flusher pe) (sy_notifier s) of
             (Inl rp, n) \<Rightarrow> (Replied rp, p)
           | (Inr c, n) \<Rightarrow>
               (Streams e vals, p\<lparr>pr_system := s\<lparr>sy_notifier := n\<rparr>, pr_browsers := pr_browsers p @ [(c, [])]\<rparr>))
      | ToDeployLogs \<Rightarrow>
          (case open_viewer x (pe_accept pe) (api_view r vals) (sy_world s) of
             Inl (Some rp) \<Rightarrow> (Replied rp, p)
           | Inl None \<Rightarrow> (Streams e vals, p)
           | Inr v \<Rightarrow> (Streams e vals, p\<lparr>pr_viewers := pr_viewers p @ [v]\<rparr>))
      | ToAgentConnect \<Rightarrow>
          (case begin_session now (pe_accept pe) (pe_first pe) (pr_hub p) of
             (Inl reason, a) \<Rightarrow> (Streams e vals, p\<lparr>pr_hub := a\<rparr>)
           | (Inr c, a) \<Rightarrow> (Streams e vals, p\<lparr>pr_hub := a, pr_sessions := pr_sessions p @ [(c, True)]\<rparr>))
      | _ \<Rightarrow> (Streams e vals, p))"

definition hand_over :: "api \<Rightarrow> peer \<Rightarrow> time \<Rightarrow> server_request \<Rightarrow> answer \<Rightarrow> 'd process \<Rightarrow> answer \<times> 'd process" where
  "hand_over x pe now r ans p = (case ans of Opens e vals \<Rightarrow> open_stream x pe now r e vals p | _ \<Rightarrow> (ans, p))"

definition handle_request :: "'d host \<Rightarrow> peer \<Rightarrow> surroundings \<Rightarrow> server_request \<Rightarrow> 'd process \<Rightarrow> panic + answer \<times> 'd process" where
  "handle_request h pe su r p =
     (let s = pr_system p; x = sr_api (ho_server h) in
      case serve x (sr_webhook (ho_server h)) su r (sy_world s) (pr_hub p) of
        Inl y \<Rightarrow> Inl y
      | Inr (ans, w, a) \<Rightarrow>
          Inr (hand_over x pe (su_now su 0) r ans (p\<lparr>pr_system := s\<lparr>sy_world := w\<rparr>, pr_hub := a\<rparr>)))"

text \<open>A turn of a stream that does not exist is none.  A browser's handler that returns runs its cleanup; an
  agent's session that ends is unregistered.\<close>

definition process_step :: "'d host \<Rightarrow> 'd process \<Rightarrow> 'd process_op \<Rightarrow> panic + 'd process" where
  "process_step h p e =
     (let s = pr_system p in
      case e of
        HttpRequest pe su r \<Rightarrow>
          (case handle_request h pe su r p of
             Inl y \<Rightarrow> Inl y
           | Inr (ans, p) \<Rightarrow> Inr (p\<lparr>pr_answers := pr_answers p @ [ans]\<rparr>))
      | BrowserTurn k ctx_done \<Rightarrow>
          if k < length (pr_browsers p) then
            let (c, shown) = pr_browsers p ! k; ((text, go), n) = sse_turn ctx_done c (sy_notifier s) in
            if go then Inr (p\<lparr>pr_system := s\<lparr>sy_notifier := n\<rparr>, pr_browsers := (pr_browsers p)[k := (c, shown @ text)]\<rparr>)
            else
              (case close_sse c n of
                 Inl y \<Rightarrow> Inl y
               | Inr n \<Rightarrow> Inr (p\<lparr>pr_system := s\<lparr>sy_notifier := n\<rparr>, pr_browsers := remove_at k (pr_browsers p)\<rparr>))
          else Inr p
      | ViewerTurn k res \<Rightarrow>
          if k < length (pr_viewers p) then
            let (a, v) = pr_viewers p ! k; w = sy_world s; (v, j) = viewer_turn res v (jr_heap (w_jobs w) a);
                jobs = (w_jobs w)\<lparr>jr_heap := (jr_heap (w_jobs w))(a := j)\<rparr>
            in Inr (p\<lparr>pr_system := s\<lparr>sy_world := w\<lparr>w_jobs := jobs\<rparr>\<rparr>, pr_viewers := (pr_viewers p)[k := (a, v)]\<rparr>)
          else Inr p
      | SessionWrites k ev \<Rightarrow>
          if k < length (pr_sessions p) \<and> snd (pr_sessions p ! k) then
            let a = fst (pr_sessions p ! k); ac = ah_heap (pr_hub p) a; (sent, go, ch) = write_step ev (ac_send ac)
            in Inr (p\<lparr>pr_hub := (pr_hub p)\<lparr>ah_heap := (ah_heap (pr_hub p))(a := ac\<lparr>ac_send := ch\<rparr>)\<rparr>,
                 pr_sessions := (pr_sessions p)[k := (a, go)]\<rparr>)
          else Inr p
      | SessionEnds k \<Rightarrow>
          Inr (if k < length (pr_sessions p)
            then p\<lparr>pr_hub := end_session (fst (pr_sessions p ! k)) (pr_hub p), pr_sessions := remove_at k (pr_sessions p)\<rparr>
            else p)
      | Inside op \<Rightarrow> if inside op then map_sum id (\<lambda>s. p\<lparr>pr_system := s\<rparr>) (system_step h s op) else Inr p)"

section \<open>The process as a run of the server\<close>

definition endpoint_moves ::
  "surroundings \<Rightarrow> server_request \<Rightarrow> endpoint \<Rightarrow> (string, string) fmap \<Rightarrow> 'd system_op list" where
  "endpoint_moves su r e vals =
     (let q = api_view r vals; hook = (\<lambda>k. WebhookCall (k, su_now su, su_job_time su, su_rand su, su_order1 su,
            (if k = PushHook then su_order2 su else []), hook_view r))
      in case e of
           ToUpdate \<Rightarrow> [ApiCall (CallUpdate (su_head su) (su_now su 0) q)]
         | ToRollback \<Rightarrow> [ApiCall (CallRollback (su_now su 0) q)]
         | ToHistory \<Rightarrow> [ApiCall (CallHistory q)]
         | ToCreateService \<Rightarrow> [ApiCall (CallCreate (su_datetime su) q)]
         | ToPatchService \<Rightarrow> [ApiCall (CallPatch (su_datetime su) q)]
         | ToPush \<Rightarrow> [hook PushHook]
         | ToDockerHub \<Rightarrow> [hook HubHook]
         | _ \<Rightarrow> [])"

definition request_moves :: "surroundings \<Rightarrow> server_request \<Rightarrow> 'd system_op list" where
  "request_moves su r =
     (case findHandler (hr_Method r) (hr_Path r) of Handled e vals \<Rightarrow> endpoint_moves su r e vals | _ \<Rightarrow> [])"

definition stream_moves :: "peer \<Rightarrow> server_request \<Rightarrow> 'd system_op list" where
  "stream_moves pe r =
     (case findHandler (hr_Method r) (hr_Path r) of
        Handled e vals \<Rightarrow> (if e = ToEvents \<and> pe_flusher pe then [BrowserJoins] else [])
      | _ \<Rightarrow> [])"

definition process_moves :: "'d process \<Rightarrow> 'd process_op \<Rightarrow> 'd system_op list" where
  "process_moves p e =
     (case e of
        HttpRequest pe su r \<Rightarrow> request_moves su r @ stream_moves pe r
      | BrowserTurn k ctx_done \<Rightarrow>
          if k < length (pr_browsers p)
          then [(if ctx_done then BrowserLeaves else BrowserReads) (fst (pr_browsers p ! k))] else []
      | ViewerTurn k res \<Rightarrow>
          if k < length (pr_viewers p) \<and> vw_open (snd (pr_viewers p ! k)) \<and> vw_replay (snd (pr_viewers p ! k)) = []
          then [ViewerReads (fst (pr_viewers p ! k))] else []
      | Inside op \<Rightarrow> if inside op then [op] else []
      | _ \<Rightarrow> [])"

definition process_inv :: "'d process \<Rightarrow> bool" where
  "process_inv p \<longleftrightarrow> system_inv (pr_system p) \<and> hub_inv (pr_hub p) \<and> distinct (map fst (pr_browsers p)) \<and>
     (\<forall>b \<in> set (pr_browsers p). connected (fst b) (sy_notifier (pr_system p)))"

lemma process_invD:
  assumes "process_inv p"
  shows "system_inv (pr_system p)" "hub_inv (pr_hub p)" "distinct (map fst (pr_browsers p))"
    "b \<in> set (pr_browsers p) \<Longrightarrow> connected (fst b) (sy_notifier (pr_system p))"
    "world_inv (sy_world (pr_system p))" "notifier_inv (sy_notifier (pr_system p))"
  using assms by (auto simp: process_inv_def system_inv_def)

text \<open>A step of the server of which nothing is asked.\<close>

lemma system_step_inv: "system_inv s \<Longrightarrow> system_step h s e = Inr s' \<Longrightarrow> system_inv s'"
  using system_step_sound [of s "\<lambda>_. True" False h e] sends_closed_panics [of s e h]
  by (auto simp: sound_def clean_anything brings_anything)

lemma map_sum_cong: "x = map_sum f g y \<Longrightarrow> map_sum f' g' x = map_sum (f' \<circ> f) (g' \<circ> g) y"
  by (simp add: sum.map_comp)

lemma endpoint_run:
  assumes "hub_inv a"
  shows "run_steps (system_step h) s (endpoint_moves su r e vals) =
    map_sum id (\<lambda>(ans, w, a). s\<lparr>sy_world := w\<rparr>)
      (handle_endpoint (sr_api (ho_server h)) (sr_webhook (ho_server h)) su r e vals (sy_world s) a)"
proof (cases e)
  case ToAgentDispatch
  obtain rp a' where "handleAgentDispatch (sr_api (ho_server h)) (su_nano su) (api_view r vals) a = Inr (rp, a')"
    using handleAgentDispatch_safe [OF assms] by blast
  with ToAgentDispatch show ?thesis by (simp add: endpoint_moves_def handle_endpoint_def)
qed (auto simp: endpoint_moves_def handle_endpoint_def system_step_def on_world_def api_step_def hook_step_def Let_def
    map_sum_def split: sum.splits prod.splits)

lemma serve_run:
  assumes "hub_inv a"
  shows "run_steps (system_step h) s (request_moves su r) =
    map_sum id (\<lambda>(ans, w, a). s\<lparr>sy_world := w\<rparr>)
      (serve (sr_api (ho_server h)) (sr_webhook (ho_server h)) su r (sy_world s) a)"
  using endpoint_run [OF assms, of h s su r] by (simp add: request_moves_def serve_def split: routed.split)

lemma serve_streams:
  assumes "serve x hk su r w a = Inr (ans, w', a')" and "ans = Opens e vals"
  shows "findHandler (hr_Method r) (hr_Path r) = Handled e vals" "e \<in> {ToEvents, ToDeployLogs, ToAgentConnect}"
  using assms by (auto simp: serve_def handle_endpoint_def map_sum_Inr Let_def split: routed.splits endpoint.splits prod.splits)

lemma serve_events:
  assumes "serve x hk su r w a = Inr (ans, w', a')" and "findHandler (hr_Method r) (hr_Path r) = Handled ToEvents vals"
  shows "ans = Opens ToEvents vals"
  using assms by (simp add: serve_def handle_endpoint_def)

lemma stream_run:
  assumes "serve x hk su r w a = Inr (ans, w', a')"
  shows "run_steps (system_step h) (pr_system p) (stream_moves pe r) =
    Inr (pr_system (snd (hand_over x pe now r ans p)))"
proof (cases "\<exists>vals. ans = Opens ToEvents vals")
  case True
  then obtain vals where "ans = Opens ToEvents vals" "findHandler (hr_Method r) (hr_Path r) = Handled ToEvents vals"
    using serve_streams(1) [OF assms] by blast
  then show ?thesis
    by (simp add: hand_over_def stream_moves_def open_stream_def open_sse_def system_step_def Let_def split: prod.split)
next
  case False
  then have "run_steps (system_step h) (pr_system p) (stream_moves pe r) = Inr (pr_system p)"
    using serve_events [OF assms] by (auto simp: stream_moves_def split: routed.split)
  moreover have "pr_system (snd (open_stream x pe now r e vals p)) = pr_system p" if "ans = Opens e vals" for e vals
    using False that serve_streams(2) [OF assms that]
    by (auto simp: open_stream_def Let_def split: sum.split option.split prod.split)
  ultimately show ?thesis by (simp add: hand_over_def split: answer.split)
qed

lemma request_run:
  assumes "process_inv p"
  shows "run_steps (system_step h) (pr_system p) (request_moves su r @ stream_moves pe r) =
    map_sum id (\<lambda>r. pr_system (snd r)) (handle_request h pe su r p)"
proof -
  let ?x = "sr_api (ho_server h)" let ?s = "pr_system p"
  obtain ans w a where s: "serve ?x (sr_webhook (ho_server h)) su r (sy_world ?s) (pr_hub p) = Inr (ans, w, a)"
    using serve_safe [OF process_invD(5,2) [OF assms]] by blast
  let ?p = "p\<lparr>pr_system := ?s\<lparr>sy_world := w\<rparr>, pr_hub := a\<rparr>"
  show ?thesis
    using serve_run [OF process_invD(2) [OF assms], of h ?s su r] stream_run [OF s, of h ?p pe "su_now su 0"]
    by (simp add: handle_request_def s run_steps_append Let_def)
qed

lemma sse_done [simp]: "sse_turn True c n = (([], False), n)"
  by (simp add: sse_turn_def)

lemma sse_goes_on:
  assumes "connected c n" "notifier_inv n"
  shows "\<exists>t. sse_turn False c n = ((t, True), snd (read_client c n))"
proof -
  have "\<not> ch_closed (nt_chans n c)" using assms by (simp add: notifier_inv_def)
  then show ?thesis by (auto simp: sse_turn_def read_client_def receive_def Let_def split: list.split)
qed

lemma viewer_turn_read:
  "snd (viewer_turn res v j) = (if vw_open v \<and> vw_replay v = [] then snd (recv_log j) else j)"
  by (auto simp: viewer_turn_def split: list.split prod.split received.split)

lemma job_at_RecvLog: "job_at a RecvLog r = Inr (r\<lparr>jr_heap := (jr_heap r)(a := snd (recv_log (jr_heap r a)))\<rparr>)"
  by (simp add: job_at_def)

lemma process_sim:
  assumes "process_inv p"
  shows "run_steps (system_step h) (pr_system p) (process_moves p e) = map_sum id pr_system (process_step h p e)"
proof (cases e)
  case (HttpRequest pe su r)
  with request_run [OF assms, of h su r pe] show ?thesis
    by (auto simp: process_step_def process_moves_def map_sum_def split: sum.splits prod.splits)
next
  case (BrowserTurn k ctx_done)
  show ?thesis
  proof (cases "k < length (pr_browsers p)")
    case True
    obtain c shown where k: "pr_browsers p ! k = (c, shown)" by fastforce
    with True process_invD(4) [OF assms, of "(c, shown)"] have c: "connected c (sy_notifier (pr_system p))"
      by (metis fst_conv nth_mem)
    obtain shown' where t: "sse_turn False c (sy_notifier (pr_system p)) = ((shown', True), snd (read_client c (sy_notifier (pr_system p))))"
      using sse_goes_on [OF c process_invD(6) [OF assms]] by blast
    show ?thesis using True
      by (cases ctx_done)
        (simp_all add: BrowserTurn k t c process_step_def process_moves_def system_step_def close_sse_def Let_def split: sum.split)
  qed (simp add: BrowserTurn process_step_def process_moves_def)
next
  case (ViewerTurn k res)
  show ?thesis
  proof (cases "k < length (pr_viewers p)")
    case True
    obtain a v where v: "pr_viewers p ! k = (a, v)" by fastforce
    let ?s = "pr_system p" let ?w = "sy_world ?s"
    obtain v' j' where t: "viewer_turn res v (jr_heap (w_jobs ?w) a) = (v', j')" by fastforce
    with viewer_turn_read [of res v "jr_heap (w_jobs ?w) a"] True v ViewerTurn show ?thesis
      by (auto simp: process_step_def process_moves_def system_step_def on_world_def job_at_RecvLog Let_def)
  qed (simp add: ViewerTurn process_step_def process_moves_def)
next
  case (Inside op)
  then show ?thesis by (simp add: process_step_def process_moves_def sum.map_comp comp_def map_sum_def split: sum.split)
qed (auto simp: process_step_def process_moves_def Let_def split: prod.split)

section \<open>What a step keeps\<close>

lemma system_run_inv: "system_inv s \<Longrightarrow> run_steps (system_step h) s es = Inr s' \<Longrightarrow> system_inv s'"
  by (induction es arbitrary: s) (auto split: sum.splits intro: system_step_inv)

lemma client_loop_clients: "client_loop msg cs n = Inr n' \<Longrightarrow> nt_clients n' = nt_clients n"
  by (induction cs arbitrary: n) (auto split: sum.splits)

lemma runTopic_clients:
  "runTopic marshal t sel order l n b = Inr (l', n', b') \<Longrightarrow> nt_clients n' = nt_clients n"
  by (auto simp: runTopic_def dispatch_event_def dest: client_loop_clients split: sum.splits prod.splits option.splits)

text \<open>Nothing inside the server connects or disconnects a browser.\<close>

lemma inside_clients:
  assumes "inside op" "system_step h s op = Inr s'"
  shows "nt_clients (sy_notifier s') = nt_clients (sy_notifier s)"
  using assms
  by (cases op) (auto simp: inside_def system_step_def on_world_def Let_def dest: runTopic_clients
      split: sum.splits prod.splits if_splits option.splits)

lemma remove_at_set: "x \<in> set (remove_at k xs) \<Longrightarrow> x \<in> set xs"
  by (auto simp: remove_at_def dest: in_set_takeD in_set_dropD)

lemma remove_at_distinct:
  assumes "distinct (map f xs)" "k < length xs"
  shows "distinct (map f (remove_at k xs))" "x \<in> set (remove_at k xs) \<Longrightarrow> f x \<noteq> f (xs ! k)"
proof -
  have xs: "xs = take k xs @ xs ! k # drop (Suc k) xs" by (rule id_take_nth_drop [OF assms(2)])
  then have d: "distinct (map f (take k xs) @ f (xs ! k) # map f (drop (Suc k) xs))"
    using assms(1) by (metis list.simps(9) map_append)
  then show "distinct (map f (remove_at k xs))" by (auto simp: remove_at_def)
  assume "x \<in> set (remove_at k xs)"
  then have "f x \<in> set (map f (take k xs)) \<union> set (map f (drop (Suc k) xs))" by (auto simp: remove_at_def)
  moreover have "f (xs ! k) \<notin> set (map f (take k xs)) \<union> set (map f (drop (Suc k) xs))" using d by simp
  ultimately show "f x \<noteq> f (xs ! k)" by metis
qed

definition browsers_ok :: "(addr \<times> string) list \<Rightarrow> notifier \<Rightarrow> bool" where
  "browsers_ok bs n \<longleftrightarrow> distinct (map fst bs) \<and> (\<forall>b \<in> set bs. connected (fst b) n)"

lemma process_inv_eq:
  "process_inv p \<longleftrightarrow> system_inv (pr_system p) \<and> hub_inv (pr_hub p) \<and> browsers_ok (pr_browsers p) (sy_notifier (pr_system p))"
  by (simp add: process_inv_def browsers_ok_def)

lemma browsers_ok_clients: "nt_clients n' = nt_clients n \<Longrightarrow> browsers_ok bs n' = browsers_ok bs n"
  by (simp add: browsers_ok_def connected_def)

lemma browser_joins:
  assumes "browsers_ok bs n" "notifier_inv n" "AddSSEClient n = (c, n')"
  shows "browsers_ok (bs @ [(c, [])]) n'"
proof -
  have n': "c = nt_next n" "connected d n' \<longleftrightarrow> d = c \<or> connected d n" for d
    using assms(3) by (auto simp: AddSSEClient_def connected_def Let_def split: if_splits)
  have "\<not> connected c n" using assms(2) n'(1) by (auto simp: notifier_inv_def)
  then show ?thesis using assms(1) n'(2) by (auto simp: browsers_ok_def)
qed

lemma browser_leaves:
  assumes "browsers_ok bs n" "k < length bs" "remove_client (fst (bs ! k)) n = Inr n'"
  shows "browsers_ok (remove_at k bs) n'"
proof -
  have "connected d n' \<longleftrightarrow> d \<noteq> fst (bs ! k) \<and> connected d n" for d
    using assms(3) by (auto simp: remove_client_def connected_def split: sum.splits if_splits)
  with assms(1) remove_at_distinct [of fst bs k] assms(2) show ?thesis
    by (auto simp: browsers_ok_def dest: remove_at_set)
qed

text \<open>The open streams.\<close>

definition streams_ok :: "'d process \<Rightarrow> bool" where
  "streams_ok p \<longleftrightarrow> hub_inv (pr_hub p) \<and> browsers_ok (pr_browsers p) (sy_notifier (pr_system p))"

lemma hand_over_keeps:
  assumes "streams_ok p" "notifier_inv (sy_notifier (pr_system p))"
  shows "streams_ok (snd (hand_over x pe now r ans p))"
proof (cases ans)
  case (Opens e vals)
  have "hub_inv (snd (begin_session now (pe_accept pe) (pe_first pe) (pr_hub p)))"
    using assms(1) by (intro begin_session_inv) (simp add: streams_ok_def)
  with Opens assms browser_joins [of "pr_browsers p" "sy_notifier (pr_system p)"] show ?thesis
    by (cases e) (auto simp: hand_over_def open_stream_def open_sse_def streams_ok_def Let_def
      split: sum.split option.split prod.split)
qed (use assms(1) in \<open>simp_all add: hand_over_def\<close>)

lemma handle_request_keeps:
  assumes "process_inv p" "handle_request h pe su r p = Inr (ans, p')"
  shows "streams_ok p'"
proof -
  let ?s = "pr_system p"
  obtain b w a where s: "serve (sr_api (ho_server h)) (sr_webhook (ho_server h)) su r (sy_world ?s) (pr_hub p) = Inr (b, w, a)"
    "hub_inv a" using serve_safe [OF process_invD(5,2) [OF assms(1)]] by blast
  let ?p = "p\<lparr>pr_system := ?s\<lparr>sy_world := w\<rparr>, pr_hub := a\<rparr>"
  have "hand_over (sr_api (ho_server h)) pe (su_now su 0) r b ?p = (ans, p')"
    using assms(2) s(1) by (simp add: handle_request_def)
  moreover have "streams_ok ?p" "notifier_inv (sy_notifier (pr_system ?p))"
    using assms(1) s(2) by (simp_all add: process_inv_eq system_inv_def streams_ok_def)
  ultimately show ?thesis using hand_over_keeps [of ?p] by (metis snd_conv)
qed

lemma process_step_keeps:
  assumes "process_inv p" "process_step h p e = Inr p'"
  shows "streams_ok p'"
proof -
  have i: "hub_inv (pr_hub p)" "browsers_ok (pr_browsers p) (sy_notifier (pr_system p))"
    using assms(1) by (simp_all add: process_inv_eq)
  show ?thesis
  proof (cases e)
    case (HttpRequest pe su r)
    with assms(2) obtain ans q where q: "handle_request h pe su r p = Inr (ans, q)" "p' = q\<lparr>pr_answers := pr_answers q @ [ans]\<rparr>"
      by (auto simp: streams_ok_def process_step_def Let_def split: sum.splits)
    with handle_request_keeps [OF assms(1) q(1)] show ?thesis by (simp add: streams_ok_def)
  next
    case (BrowserTurn k ctx_done)
    show ?thesis
    proof (cases "k < length (pr_browsers p)")
      case True
      obtain c shown where k: "pr_browsers p ! k = (c, shown)" by fastforce
      have c: "connected c (sy_notifier (pr_system p))"
        using process_invD(4) [OF assms(1), of "(c, shown)"] True k by (metis fst_conv nth_mem)
      obtain t where t: "sse_turn False c (sy_notifier (pr_system p)) = ((t, True), snd (read_client c (sy_notifier (pr_system p))))"
        using sse_goes_on [OF c process_invD(6) [OF assms(1)]] by blast
      show ?thesis
      proof (cases ctx_done)
        case True
        with assms(2) BrowserTurn \<open>k < _\<close> k i browser_leaves [OF i(2) \<open>k < _\<close>] show ?thesis
          by (auto simp: streams_ok_def process_step_def close_sse_def Let_def split: sum.splits)
      next
        case False
        have "nt_clients (snd (read_client c n)) = nt_clients n" for n
          by (simp add: read_client_def split: prod.split)
        moreover have "map fst ((pr_browsers p)[k := (c, shown @ t)]) = map fst (pr_browsers p)"
          using k by (metis fst_conv list_update_id map_update)
        ultimately have "browsers_ok ((pr_browsers p)[k := (c, shown @ t)]) (snd (read_client c (sy_notifier (pr_system p))))"
          using i(2) by (subst browsers_ok_clients) (auto simp: browsers_ok_def dest!: set_update_subset_insert [THEN subsetD] intro: c)
        with False assms(2) BrowserTurn \<open>k < _\<close> k t i(1) show ?thesis by (auto simp: streams_ok_def process_step_def Let_def)
      qed
    qed (use assms(2) BrowserTurn i in \<open>auto simp: streams_ok_def process_step_def\<close>)
  next
    case (ViewerTurn k res)
    with assms(2) i show ?thesis by (auto simp: streams_ok_def process_step_def Let_def split: if_splits prod.splits)
  next
    case (SessionWrites k ev)
    let ?a = "fst (pr_sessions p ! k)"
    have "hub_step (pr_hub p) (Written ?a ev) = Inr ((pr_hub p)\<lparr>ah_heap := (ah_heap (pr_hub p))(?a := (ah_heap (pr_hub p) ?a)
        \<lparr>ac_send := snd (snd (write_step ev (ac_send (ah_heap (pr_hub p) ?a))))\<rparr>)\<rparr>)" by (simp add: hub_step_def)
    from hub.step_inv [OF i(1) this] assms(2) i SessionWrites show ?thesis
      by (auto simp: streams_ok_def process_step_def Let_def split: if_splits prod.splits)
  next
    case (SessionEnds k)
    with assms(2) i end_session_inv [OF i(1)] show ?thesis by (auto simp: streams_ok_def process_step_def)
  next
    case (Inside op)
    show ?thesis
    proof (cases "inside op")
      case True
      with assms(2) Inside obtain s where s: "system_step h (pr_system p) op = Inr s" "p' = p\<lparr>pr_system := s\<rparr>"
        by (auto simp: process_step_def map_sum_Inr)
      from i browsers_ok_clients [OF inside_clients [OF True s(1)]] s(2) show ?thesis by (simp add: streams_ok_def)
    qed (use assms(2) i Inside in \<open>auto simp: streams_ok_def process_step_def\<close>)
  qed
qed

lemma process_step_inv: "process_inv p \<Longrightarrow> process_step h p e = Inr p' \<Longrightarrow> process_inv p'"
  using process_sim [of p h e] process_step_keeps [of p h e p'] system_run_inv [of "pr_system p" h "process_moves p e" "pr_system p'"]
  by (simp add: process_inv_eq streams_ok_def)

interpretation process: machine_simulation "process_step h" "system_step h" pr_system process_moves process_inv for h
  by unfold_locales (rule process_sim process_step_inv; assumption)+

lemma start_process_inv:
  assumes "start_process h token hist m files d = Inr p" "hist_inv hist" "manager_inv m"
  shows "process_inv p" "start_system h hist m files d = Inr (pr_system p)" "pr_hub p = New_hub token"
    "pr_browsers p = []" "pr_viewers p = []" "pr_sessions p = []" "pr_answers p = []"
proof -
  have p: "\<exists>s. start_system h hist m files d = Inr s \<and> p = \<lparr>pr_system = s, pr_hub = New_hub token, pr_browsers = [],
      pr_viewers = [], pr_sessions = [], pr_answers = []\<rparr>"
    using assms(1) by (auto simp: start_process_def map_sum_Inr)
  then show s: "start_system h hist m files d = Inr (pr_system p)" "pr_hub p = New_hub token"
    "pr_browsers p = []" "pr_viewers p = []" "pr_sessions p = []" "pr_answers p = []" by auto
  have "config_clean (\<lambda>_. True) m" by (simp add: config_clean_def known_def)
  from start_system_inv(1) [OF s(1) assms(2,3) this] s New_hub_inv show "process_inv p" by (simp add: process_inv_def)
qed

section \<open>What requests bring\<close>

text \<open>The digests that a step brings in from outside: those of the calls a request comes to.\<close>

definition process_brings :: "(string \<Rightarrow> bool) \<Rightarrow> 'd host \<Rightarrow> 'd process_op \<Rightarrow> bool" where
  "process_brings good h e \<longleftrightarrow>
     (case e of
        HttpRequest pe su r \<Rightarrow> (\<forall>op \<in> set (request_moves su r). brings good h op)
      | Inside op \<Rightarrow> brings good h op
      | _ \<Rightarrow> True)"

lemma process_moves_bring:
  "process_brings good h e \<Longrightarrow> \<forall>op \<in> set (process_moves p e). brings good h op"
  by (cases e) (auto simp: process_brings_def process_moves_def stream_moves_def brings_def split: routed.splits)

text \<open>Only a turn of a loop sees the process being told to stop.\<close>

definition process_stops :: "'d process_op \<Rightarrow> bool" where
  "process_stops e = (case e of Inside op \<Rightarrow> stops op | _ \<Rightarrow> False)"

lemma endpoint_moves_stop: "op \<in> set (endpoint_moves su r e vals) \<Longrightarrow> \<not> stops op"
  by (cases e) (auto simp: endpoint_moves_def stops_def Let_def)

lemma process_moves_stop: "\<not> process_stops e \<Longrightarrow> \<forall>op \<in> set (process_moves p e). \<not> stops op"
  by (cases e, auto simp: process_stops_def process_moves_def request_moves_def stream_moves_def
      dest: endpoint_moves_stop split: routed.splits if_splits, auto simp: stops_def)

definition is_request :: "'d process_op \<Rightarrow> bool" where
  "is_request e \<longleftrightarrow> (case e of HttpRequest pe su r \<Rightarrow> True | _ \<Rightarrow> False)"

lemma hand_over_answers [simp]: "pr_answers (snd (hand_over x pe now r ans p)) = pr_answers p"
  by (auto simp: hand_over_def open_stream_def Let_def split: answer.split endpoint.split sum.split option.split prod.split)

lemma hand_over_found: "ans \<noteq> NotFound \<Longrightarrow> fst (hand_over x pe now r ans p) \<noteq> NotFound"
  by (auto simp: hand_over_def open_stream_def Let_def split: answer.split endpoint.split sum.split option.split prod.split)

lemma handle_request_answer:
  assumes "process_inv p" "handle_request h pe su r p = Inr (ans, p')"
  shows "pr_answers p' = pr_answers p" "hr_Method r \<noteq> ''CONNECT'' \<Longrightarrow> ans \<noteq> NotFound"
proof -
  let ?x = "sr_api (ho_server h)"
  obtain b w a where s: "serve ?x (sr_webhook (ho_server h)) su r (sy_world (pr_system p)) (pr_hub p) = Inr (b, w, a)"
    "hr_Method r \<noteq> ''CONNECT'' \<longrightarrow> b \<noteq> NotFound"
    using requests_are_answered [OF process_invD(5,2) [OF assms(1)]] by blast
  let ?p = "p\<lparr>pr_system := (pr_system p)\<lparr>sy_world := w\<rparr>, pr_hub := a\<rparr>"
  have h: "hand_over ?x pe (su_now su 0) r b ?p = (ans, p')" using assms(2) s(1) by (simp add: handle_request_def)
  show "pr_answers p' = pr_answers p" using hand_over_answers [of ?x pe "su_now su 0" r b ?p] h by simp
  show "hr_Method r \<noteq> ''CONNECT'' \<Longrightarrow> ans \<noteq> NotFound"
    using hand_over_found [of b ?x pe "su_now su 0" r ?p] h s(2) by simp
qed

lemma process_step_answers:
  assumes "process_inv p" "process_step h p e = Inr p'"
  shows "\<exists>new. pr_answers p' = pr_answers p @ new \<and> length new = (if is_request e then 1 else 0) \<and>
    ((\<forall>pe su r. e = HttpRequest pe su r \<longrightarrow> hr_Method r \<noteq> ''CONNECT'') \<longrightarrow> NotFound \<notin> set new)"
proof (cases e)
  case (HttpRequest pe su r)
  with assms(2) obtain ans q where q: "handle_request h pe su r p = Inr (ans, q)" "p' = q\<lparr>pr_answers := pr_answers q @ [ans]\<rparr>"
    by (auto simp: process_step_def Let_def split: sum.splits)
  with handle_request_answer [OF assms(1) q(1)] HttpRequest show ?thesis
    by (intro exI [of _ "[ans]"]) (auto simp: is_request_def)
qed (use assms(2) in \<open>auto simp: process_step_def is_request_def Let_def map_sum_Inr
    split: if_splits prod.splits sum.splits\<close>)

lemma process_run_answers:
  assumes "process_inv p" "run_steps (process_step h) p steps = Inr p'"
  shows "\<exists>new. pr_answers p' = pr_answers p @ new \<and> length new = length (filter is_request steps) \<and>
    ((\<forall>pe su r. HttpRequest pe su r \<in> set steps \<longrightarrow> hr_Method r \<noteq> ''CONNECT'') \<longrightarrow> NotFound \<notin> set new)"
  using assms
proof (induction steps arbitrary: p)
  case (Cons e es)
  obtain q where q: "process_step h p e = Inr q" "run_steps (process_step h) q es = Inr p'"
    using Cons.prems(2) by (rule run_steps_ConsE)
  obtain n1 where n1: "pr_answers q = pr_answers p @ n1" "length n1 = (if is_request e then 1 else 0)"
    "(\<forall>pe su r. e = HttpRequest pe su r \<longrightarrow> hr_Method r \<noteq> ''CONNECT'') \<longrightarrow> NotFound \<notin> set n1"
    using process_step_answers [OF Cons.prems(1) q(1)] by blast
  obtain n2 where n2: "pr_answers p' = pr_answers q @ n2" "length n2 = length (filter is_request es)"
    "(\<forall>pe su r. HttpRequest pe su r \<in> set es \<longrightarrow> hr_Method r \<noteq> ''CONNECT'') \<longrightarrow> NotFound \<notin> set n2"
    using Cons.IH [OF process_step_inv [OF Cons.prems(1) q(1)] q(2)] by blast
  show ?case using n1 n2 by (intro exI [of _ "n1 @ n2"]) auto
qed simp

section \<open>Who is registered\<close>

lemma Dispatch_agents: "hub_inv a \<Longrightarrow> Dispatch host cmd a = Inr (r, a') \<Longrightarrow> ah_agents a' = ah_agents a \<and> ah_token a' = ah_token a"
  by (auto simp: Dispatch_cases split: option.splits if_splits)

lemma serve_agents:
  assumes "serve x hk su r w a = Inr (ans, w', a')" "hub_inv a"
  shows "ah_agents a' = ah_agents a \<and> ah_token a' = ah_token a"
proof (cases "findHandler (hr_Method r) (hr_Path r)")
  case (Handled e vals)
  show ?thesis
  proof (cases "e = ToAgentDispatch")
    case True
    with Handled assms(1) obtain rp where "handleAgentDispatch x (su_nano su) (api_view r vals) a = Inr (rp, a')"
      by (auto simp: serve_def handle_endpoint_def map_sum_Inr)
    then show ?thesis using Dispatch_agents [OF assms(2)]
      by (auto simp: handleAgentDispatch_def Let_def split: if_splits option.splits sum.splits prod.splits)
  next
    case False
    with Handled assms(1) show ?thesis
      by (cases e) (auto simp: serve_def handle_endpoint_def map_sum_Inr Let_def split: prod.splits)
  qed
qed (use assms(1) in \<open>auto simp: serve_def\<close>)

text \<open>How an agent can come to be registered: by a request for the path, with the token in its first message.\<close>

definition registers :: "string \<Rightarrow> string \<Rightarrow> 'd process_op \<Rightarrow> bool" where
  "registers token host e \<longleftrightarrow>
     (\<exists>pe su r reg. e = HttpRequest pe su r \<and> path_segments (hr_Path r) = [''agent'', ''connect''] \<and>
        pe_accept pe = None \<and> pe_first pe = Inr reg \<and> rm_Type reg = TypeRegister \<and> rm_Hostname reg = host \<and>
        rm_Token reg = token)"

lemma begin_session_agent:
  assumes "begin_session now u f a = (c, a')" "ah_token a \<noteq> []" "agent_at a' host \<noteq> None"
  shows "agent_at a host \<noteq> None \<or> (u = None \<and> (\<exists>reg. f = Inr reg \<and> rm_Type reg = TypeRegister \<and> rm_Hostname reg = host \<and>
    rm_Token reg = ah_token a))"
  using assms by (auto simp: begin_session_def Let_def agents.lookup_insert split: option.splits sum.splits if_splits)

lemma begin_session_token: "begin_session now u f a = (c, a') \<Longrightarrow> ah_token a' = ah_token a"
  by (auto simp: begin_session_def Let_def split: option.splits sum.splits if_splits)

lemma handle_request_agents:
  assumes "process_inv p" "handle_request h pe su r p = Inr (ans, p')" "ah_token (pr_hub p) \<noteq> []"
  shows "ah_token (pr_hub p') = ah_token (pr_hub p) \<and>
    (agent_at (pr_hub p') host \<noteq> None \<longrightarrow>
       agent_at (pr_hub p) host \<noteq> None \<or> registers (ah_token (pr_hub p)) host (HttpRequest pe su r))"
proof -
  let ?x = "sr_api (ho_server h)"
  obtain b w a where s: "serve ?x (sr_webhook (ho_server h)) su r (sy_world (pr_system p)) (pr_hub p) = Inr (b, w, a)"
    using serve_safe [OF process_invD(5,2) [OF assms(1)]] by blast
  let ?p = "p\<lparr>pr_system := (pr_system p)\<lparr>sy_world := w\<rparr>, pr_hub := a\<rparr>"
  have h: "hand_over ?x pe (su_now su 0) r b ?p = (ans, p')" using assms(2) s(1) by (simp add: handle_request_def)
  have a: "agent_at a = agent_at (pr_hub p)" "ah_token a = ah_token (pr_hub p)"
    using serve_agents [OF s process_invD(2) [OF assms(1)]] by (simp_all add: agent_at_def fun_eq_iff)
  show ?thesis
  proof (cases "\<exists>vals. b = Opens ToAgentConnect vals")
    case True
    then obtain vals where b: "b = Opens ToAgentConnect vals" by blast
    obtain c a' where c: "begin_session (su_now su 0) (pe_accept pe) (pe_first pe) a = (c, a')" by fastforce
    have "path_segments (hr_Path r) = [''agent'', ''connect'']" using stream_paths(2) [OF serve_streams(1) [OF s b]] by blast
    moreover have "pr_hub p' = a'" using h b c by (auto simp: hand_over_def open_stream_def split: sum.splits)
    ultimately show ?thesis
      using begin_session_agent [OF c, of host] begin_session_token [OF c] assms(3) a by (auto simp: registers_def)
  next
    case False
    then have "pr_hub (snd (hand_over ?x pe (su_now su 0) r b ?p)) = a"
      using serve_streams(2) [OF s]
      by (auto simp: hand_over_def open_stream_def Let_def split: answer.splits sum.split option.split prod.split endpoint.splits)
    with h a show ?thesis by simp
  qed
qed

lemma process_step_agents:
  assumes "process_inv p" "process_step h p e = Inr p'" "ah_token (pr_hub p) \<noteq> []"
  shows "ah_token (pr_hub p') = ah_token (pr_hub p) \<and>
    (agent_at (pr_hub p') host \<noteq> None \<longrightarrow> agent_at (pr_hub p) host \<noteq> None \<or> registers (ah_token (pr_hub p)) host e)"
proof (cases e)
  case (HttpRequest pe su r)
  with assms(2) obtain ans q where q: "handle_request h pe su r p = Inr (ans, q)" "p' = q\<lparr>pr_answers := pr_answers q @ [ans]\<rparr>"
    by (auto simp: process_step_def Let_def split: sum.splits)
  with handle_request_agents [OF assms(1) q(1) assms(3)] HttpRequest show ?thesis by simp
next
  case (SessionEnds k)
  with assms(2) show ?thesis by (auto simp: process_step_def end_session_def agents.lookup_remove split: if_splits)
qed (use assms(2) in \<open>auto simp: process_step_def Let_def map_sum_Inr split: if_splits prod.splits sum.splits\<close>)

section \<open>An example\<close>

definition demo_peer :: peer where
  "demo_peer = \<lparr>pe_flusher = True, pe_accept = None, pe_first = Inr demo_register\<rparr>"

text \<open>The loops subscribe, a browser and an agent connect, an update is asked for and carried out, and the browser is
  shown what happened.\<close>

definition demo_day :: "demo_daemon process_op list" where
  "demo_day = [Inside (ExecutorTurn Arrived (\<lambda>_. 1) []), Inside (NotifierTurn 0 Arrived []),
     HttpRequest demo_peer demo_around (demo_web_request ''GET'' ''/api/events''),
     HttpRequest demo_peer demo_around (demo_web_request ''GET'' ''/agent/connect''),
     HttpRequest demo_peer demo_around (demo_web_request ''POST'' ''/api/update/0123456789ab''),
     Inside (ExecutorTurn Arrived (\<lambda>_. 3) (replicate 16 0)), Inside (NotifierTurn 0 Arrived [0]), BrowserTurn 0 False,
     SessionWrites 0 (Tick None), SessionEnds 0, BrowserTurn 0 True]"

lemma demo_routes:
  "findHandler ''GET'' ''/api/events'' = Handled ToEvents fmempty"
  "findHandler ''GET'' ''/agent/connect'' = Handled ToAgentConnect fmempty"
  "findHandler ''POST'' ''/api/update/0123456789ab'' = Handled ToUpdate fmempty"
proof -
  have m: "''GET'' \<noteq> ''CONNECT''" "''POST'' \<noteq> ''CONNECT''" by simp_all
  have c: "cleanPath ''/api/events'' = ''/api/events''" "cleanPath ''/agent/connect'' = ''/agent/connect''"
    "cleanPath ''/api/update/0123456789ab'' = ''/api/update/0123456789ab''" by code_simp+
  have t: "target_of ''GET'' (path_segments ''/api/events'') = ([], [Lit ''api'', Lit ''events''], ToEvents)"
    "target_of ''GET'' (path_segments ''/agent/connect'') = ([], [Lit ''agent'', Lit ''connect''], ToAgentConnect)"
    "target_of ''POST'' (path_segments ''/api/update/0123456789ab'') = ([], [Lit ''api'', Lit ''update'', Rest], ToUpdate)"
    by code_simp+
  show "findHandler ''GET'' ''/api/events'' = Handled ToEvents fmempty"
    "findHandler ''GET'' ''/agent/connect'' = Handled ToAgentConnect fmempty"
    "findHandler ''POST'' ''/api/update/0123456789ab'' = Handled ToUpdate fmempty"
    unfolding findHandler_eq [OF m(1)] findHandler_eq [OF m(2)] c t Let_def by (simp_all add: wild_names_def split: prod.split)
qed

lemma demo_push_route: "findHandler ''POST'' ''/webhook/push'' = Handled ToPush fmempty"
proof -
  have m: "''POST'' \<noteq> ''CONNECT''" by simp
  have c: "cleanPath ''/webhook/push'' = ''/webhook/push''" by code_simp
  have t: "target_of ''POST'' (path_segments ''/webhook/push'') = ([], [Lit ''webhook'', Lit ''push''], ToPush)" by code_simp
  show ?thesis unfolding findHandler_eq [OF m] c t Let_def by (simp add: wild_names_def split: prod.split)
qed

lemma demo_day_brings:
  "good ''sha256:0123456789'' \<Longrightarrow> \<forall>e \<in> set demo_day. process_brings good h e \<and> \<not> process_stops e"
  by (simp add: demo_day_def process_brings_def brings_def request_moves_def demo_web_request_def demo_routes
      endpoint_moves_def call_brings_def head_brings_def demo_around_def process_stops_def stops_def)

text \<open>A push is accepted as well.\<close>

definition demo_push_request :: "demo_daemon process_op" where
  "demo_push_request = HttpRequest demo_peer demo_around (demo_web_request ''POST'' ''/webhook/push'')"

lemma demo_push_brings:
  "hook_digests (sr_webhook (ho_server demo_run_host)) PushHook (hook_view (demo_web_request ''POST'' ''/webhook/push'')) =
     [''sha256:0123456789'']"
  by (simp add: hook_digests_def readAndVerify_def read_limited_def hook_view_def demo_web_request_def demo_run_host_def
      demo_server_def demo_decode_def maxBodyBytes_def)

lemma demo_push_request_brings:
  "good ''sha256:0123456789'' \<Longrightarrow> process_brings good demo_run_host demo_push_request \<and> \<not> process_stops demo_push_request"
proof -
  have r: "hr_Method (demo_web_request ''POST'' ''/webhook/push'') = ''POST''"
    "hr_Path (demo_web_request ''POST'' ''/webhook/push'') = ''/webhook/push''"
    by (simp_all add: demo_web_request_def)
  show "good ''sha256:0123456789'' \<Longrightarrow> process_brings good demo_run_host demo_push_request \<and> \<not> process_stops demo_push_request"
    by (simp add: demo_push_request_def process_brings_def request_moves_def r demo_push_route endpoint_moves_def brings_def
        demo_push_brings process_stops_def)
qed

lemma demo_process_starts:
  "\<exists>p. start_process demo_run_host ''t0ken'' demo_hist demo_manager demo_fs demo_start = Inr p"
  using demo_system_starts by (auto simp: start_process_def)

text \<open>A process on digests that are long enough goes on until it is told to stop.\<close>

lemma process_runs:
  assumes "start_process h token hist m files d = Inr p" and "hist_inv hist" and "manager_inv m"
    and "config_clean (\<lambda>d. 16 \<le> length d) m"
    and "\<forall>e \<in> set steps. process_brings (\<lambda>d. 16 \<le> length d) h e \<and> \<not> process_stops e"
  shows "\<exists>p'. run_steps (process_step h) p steps = Inr p'"
proof -
  note p = start_process_inv [OF assms(1-3)]
  let ?moves = "observe process_moves (process_step h) p steps"
  have "system_inv (pr_system p) \<and> system_clean (\<lambda>d. 16 \<le> length d) True (pr_system p)"
    using start_system_inv [OF p(2) assms(2-4)] by blast
  moreover have "\<forall>op \<in> set ?moves. brings (\<lambda>d. 16 \<le> length d) h op \<and> \<not> stops op"
    using assms(5) by (intro observe_set ballI allI) (blast dest: process_moves_bring process_moves_stop)
  ultimately obtain s where "run_steps (system_step h) (pr_system p) ?moves = Inr s"
    using digests.flow_run [of "pr_system p" "\<lambda>d. 16 \<le> length d" True ?moves h] by (auto split: sum.splits)
  then show ?thesis
    using process.sim_run [OF p(1), of h steps] by (auto simp: map_sum_Inr)
qed

section \<open>Properties\<close>



text \<open>HTTP adds no behaviour of its own.  Every run of the process, whatever requests it serves and streams
  it keeps open, is for the components a run of the server in which each request is at most one
  call of a handler and each turn of a stream at most one receive or cleanup; the two runs
  pass through the same states of the components, and one panics exactly when the other does.\<close>

theorem process_refines_server:
  assumes "start_process h token hist m files d = Inr p" and "hist_inv hist" and "manager_inv m"
  shows "start_system h hist m files d = Inr (pr_system p) \<and>
    run_steps (system_step h) (pr_system p) (observe process_moves (process_step h) p steps) =
      map_sum id pr_system (run_steps (process_step h) p steps) \<and>
    length (observe process_moves (process_step h) p steps) \<le> length steps"
proof -
  note p = start_process_inv [OF assms]
  have "length (process_moves q e) \<le> 1" for q and e :: "'d process_op"
    by (auto simp: process_moves_def request_moves_def stream_moves_def endpoint_moves_def Let_def
        split: process_op.split routed.split endpoint.split)
  then have "length (observe process_moves (process_step h) p steps) \<le> length steps"
    by (rule observe_length)
  with p(2) process.sim_run [OF p(1), of h steps] show ?thesis by simp
qed

theorem process_refines_server_witness:
  "\<exists>p. start_process demo_run_host ''t0ken'' demo_hist demo_manager demo_fs demo_start = Inr p \<and>
    start_system demo_run_host demo_hist demo_manager demo_fs demo_start = Inr (pr_system p) \<and>
    length (observe process_moves (process_step demo_run_host) p demo_day) \<le> 11"
proof -
  obtain p where p: "start_process demo_run_host ''t0ken'' demo_hist demo_manager demo_fs demo_start = Inr p"
    using demo_process_starts by blast
  have "length demo_day = 11" by (simp add: demo_day_def)
  with process_refines_server [OF p demo_hist_inv demo_manager_inv, of demo_day] p show ?thesis by auto
qed

text \<open>C32: Only POST and PATCH change what the server manages.  A request of any other method leaves the containers,
  services, jobs, bus, files, loops and the Docker daemon as they are, and of the history at most uses up scripted
  failures of statements.  All else it can do is open a stream: a request for \<open>/api/events\<close> adds one browser to the
  notifier, one for the log of a job one viewer, and one for \<open>/agent/connect\<close> that is upgraded and sends
  a register message with the right token registers an agent.  (The later turns of a stream are not part of the
  request.)\<close>

theorem reading_changes_nothing:
  fixes p p' :: "'d process"
  assumes "hr_Method r \<notin> {''POST'', ''PATCH''}" and "handle_request h pe su r p = Inr (ans, p')"
  defines "s \<equiv> pr_system p" and "a \<equiv> pr_hub p"
  shows "\<exists>faults n a' bs vs ses.
    p' = p\<lparr>pr_system := s\<lparr>sy_world := (sy_world s)\<lparr>w_hist := (w_hist (sy_world s))\<lparr>hs_faults := faults\<rparr>\<rparr>, sy_notifier := n\<rparr>,
      pr_hub := a', pr_browsers := pr_browsers p @ bs, pr_viewers := pr_viewers p @ vs, pr_sessions := pr_sessions p @ ses\<rparr> \<and>
    (n = sy_notifier s \<and> bs = [] \<or>
      path_segments (hr_Path r) = [''api'', ''events''] \<and> pe_flusher pe \<and>
        (\<exists>c. AddSSEClient (sy_notifier s) = (c, n) \<and> bs = [(c, [])])) \<and>
    (vs = [] \<or>
      (\<exists>i job. path_segments (hr_Path r) = [''api'', ''deploys'', i, ''logs''] \<and> pe_accept pe = None \<and>
        GetJob i (w_jobs (sy_world s)) = Some job \<and> map fst vs = [job])) \<and>
    (a' = a \<and> ses = [] \<or>
      path_segments (hr_Path r) = [''agent'', ''connect''] \<and> pe_accept pe = None \<and> ses = [(ah_next a, True)] \<and>
        (\<exists>reg. pe_first pe = Inr reg \<and> rm_Type reg = TypeRegister \<and> (ah_token a = [] \<or> rm_Token reg = ah_token a) \<and>
           agent_at a' = (agent_at a)(rm_Hostname reg \<mapsto> ah_next a)))"
proof -
  let ?x = "sr_api (ho_server h)" let ?path = "path_segments (hr_Path r)"
  obtain b w a1 where sv: "serve ?x (sr_webhook (ho_server h)) su r (sy_world s) a = Inr (b, w, a1)"
    and p': "hand_over ?x pe (su_now su 0) r b (p\<lparr>pr_system := s\<lparr>sy_world := w\<rparr>, pr_hub := a1\<rparr>) = (ans, p')"
    using assms(2) by (auto simp: handle_request_def Let_def s_def a_def split: sum.splits)
  define faults where "faults = hs_faults (w_hist w)"
  have w: "w = (sy_world s)\<lparr>w_hist := (w_hist (sy_world s))\<lparr>hs_faults := faults\<rparr>\<rparr>" "a1 = a"
    using serve_untouched [OF assms(1) sv] by (simp_all add: untouched_def faults_def)
  let ?p = "p\<lparr>pr_system := s\<lparr>sy_world := w\<rparr>, pr_hub := a\<rparr>"
  have jobs: "w_jobs w = w_jobs (sy_world s)" by (subst w(1)) simp
  have same: ?thesis if "p' = ?p"
    using that by (intro exI [of _ faults] exI [of _ "sy_notifier s"] exI [of _ a] exI [of _ "[]"]) (simp add: w(1))
  show ?thesis
  proof (cases "\<exists>e vals. b = Opens e vals")
    case False
    with p' w(2) have "p' = ?p" by (auto simp: hand_over_def split: answer.splits)
    then show ?thesis by (rule same)
  next
    case True
    then obtain e vals where b: "b = Opens e vals" by blast
    note e = serve_streams [OF sv b]
    note o = p' [unfolded b w(2), simplified hand_over_def answer.case]
    from e(2) consider "e = ToEvents" | "e = ToDeployLogs" | "e = ToAgentConnect" by blast
    then show ?thesis
    proof cases
      case 1
      show ?thesis
      proof (cases "pe_flusher pe")
        case True
        obtain c n where c: "AddSSEClient (sy_notifier s) = (c, n)" by fastforce
        with o 1 True have "p' = ?p\<lparr>pr_system := (pr_system ?p)\<lparr>sy_notifier := n\<rparr>, pr_browsers := pr_browsers p @ [(c, [])]\<rparr>"
          by (simp add: open_stream_def open_sse_def)
        with c True stream_paths(1) [OF e(1) 1] show ?thesis
          by (intro exI [of _ faults] exI [of _ n] exI [of _ a] exI [of _ "[(c, [])]"] exI [of _ "[]"]) (simp add: w(1))
      next
        case False
        with o 1 have "p' = ?p" by (simp add: open_stream_def open_sse_def)
        then show ?thesis by (rule same)
      qed
    next
      case 2
      show ?thesis
      proof (cases "open_viewer ?x (pe_accept pe) (api_view r vals) w")
        case (Inl y)
        with o 2 have "p' = ?p" by (auto simp: open_stream_def split: option.splits)
        then show ?thesis by (rule same)
      next
        case (Inr v)
        with o 2 have "p' = ?p\<lparr>pr_viewers := pr_viewers p @ [v]\<rparr>" by (simp add: open_stream_def)
        moreover have "GetJob (map_get vals ''deploy_id'') (w_jobs (sy_world s)) = Some (fst v)" "pe_accept pe = None"
          using Inr by (auto simp: open_viewer_def api_view_def jobs Let_def split: if_splits option.splits)
        ultimately show ?thesis using stream_paths(3) [OF e(1) 2]
          by (intro exI [of _ faults] exI [of _ "sy_notifier s"] exI [of _ a] exI [of _ "[]"] exI [of _ "[v]"]) (simp add: w(1))
      qed
    next
      case 3
      obtain c a2 where c: "begin_session (su_now su 0) (pe_accept pe) (pe_first pe) a = (c, a2)" by fastforce
      show ?thesis
      proof (cases c)
        case (Inl y)
        with c have "a2 = a" by (auto simp: begin_session_def Let_def split: option.splits sum.splits if_splits)
        with o 3 c Inl have "p' = ?p" by (simp add: open_stream_def)
        then show ?thesis by (rule same)
      next
        case (Inr i)
        with o 3 c have "p' = ?p\<lparr>pr_hub := a2, pr_sessions := pr_sessions p @ [(i, True)]\<rparr>" by (simp add: open_stream_def)
        moreover from c Inr obtain reg where "pe_accept pe = None" "pe_first pe = Inr reg" "rm_Type reg = TypeRegister"
          "ah_token a = [] \<or> rm_Token reg = ah_token a" "i = ah_next a"
          "agent_at a2 = (agent_at a)(rm_Hostname reg \<mapsto> ah_next a)"
          by (auto simp: begin_session_def agents.lookup_insert fun_eq_iff Let_def split: option.splits sum.splits if_splits)
        ultimately show ?thesis using stream_paths(2) [OF e(1) 3]
          by (intro exI [of _ faults] exI [of _ "sy_notifier s"] exI [of _ a2] exI [of _ "[]"] exI [of _ "[]"]
              exI [of _ "[(i, True)]"]) (simp add: w(1))
      qed
    qed
  qed
qed

theorem reading_changes_nothing_witness:
  "\<exists>p p' ans. start_process demo_run_host ''t0ken'' demo_hist demo_manager demo_fs demo_start = Inr p \<and>
    handle_request demo_run_host demo_peer demo_around (demo_web_request ''GET'' ''/agent/connect'') p = Inr (ans, p') \<and>
    agent_at (pr_hub p') ''host'' = Some 0 \<and> pr_browsers p' = pr_browsers p \<and> pr_viewers p' = pr_viewers p \<and>
    w_store (sy_world (pr_system p')) = w_store (sy_world (pr_system p)) \<and>
    w_docker (sy_world (pr_system p')) = w_docker (sy_world (pr_system p))"
proof -
  let ?r = "demo_web_request ''GET'' ''/agent/connect''"
  obtain p where p: "start_process demo_run_host ''t0ken'' demo_hist demo_manager demo_fs demo_start = Inr p"
    using demo_process_starts by blast
  note i = start_process_inv [OF p demo_hist_inv demo_manager_inv]
  have s: "hr_Method ?r = ''GET''" "hr_Path ?r = ''/agent/connect''" by (simp_all add: demo_web_request_def)
  then have g: "hr_Method ?r \<notin> {''POST'', ''PATCH''}" "path_segments (hr_Path ?r) = [''agent'', ''connect'']"
    by (simp_all add: path_segments_def)
  obtain ans p' where p': "handle_request demo_run_host demo_peer demo_around ?r p = Inr (ans, p')"
    "agent_at (pr_hub p') ''host'' = Some 0"
    by (simp add: handle_request_def serve_def s demo_routes handle_endpoint_def hand_over_def open_stream_def
        demo_peer_def i(3) begin_session_def New_hub_def demo_register_def agents.lookup_insert Let_def)
  from reading_changes_nothing [OF g(1) p'(1)] have "pr_browsers p' = pr_browsers p \<and> pr_viewers p' = pr_viewers p \<and>
    w_store (sy_world (pr_system p')) = w_store (sy_world (pr_system p)) \<and>
    w_docker (sy_world (pr_system p')) = w_docker (sy_world (pr_system p))"
    unfolding g(2) by auto
  with p p' show ?thesis by blast
qed

text \<open>C36: With a token configured, nobody gets onto the list of agents without it: whatever the process does, an agent
  is only registered under a host name for which some request for \<open>/agent/connect\<close> was upgraded and then sent
  a register message with that name and the token.  No other path of the server registers
  agents.\<close>

theorem agents_need_token:
  assumes "start_process h token hist m files d = Inr p" and "hist_inv hist" and "manager_inv m" and "token \<noteq> []"
    and "run_steps (process_step h) p steps = Inr p'" and "agent_at (pr_hub p') host = Some a"
  shows "\<exists>pe su r reg. HttpRequest pe su r \<in> set steps \<and> path_segments (hr_Path r) = [''agent'', ''connect''] \<and>
    pe_accept pe = None \<and> pe_first pe = Inr reg \<and> rm_Type reg = TypeRegister \<and> rm_Hostname reg = host \<and> rm_Token reg = token"
proof -
  note p = start_process_inv [OF assms(1-3)]
  have "agent_at (pr_hub p') host \<noteq> None \<longrightarrow> agent_at (pr_hub q) host \<noteq> None \<or> (\<exists>e \<in> set steps. registers token host e)"
    if "run_steps (process_step h) q steps = Inr p'" "process_inv q" "ah_token (pr_hub q) = token" for q
    using that
  proof (induction steps arbitrary: q)
    case (Cons e es)
    obtain q1 where q1: "process_step h q e = Inr q1" "run_steps (process_step h) q1 es = Inr p'"
      using Cons.prems(1) by (rule run_steps_ConsE)
    from process_step_agents [OF Cons.prems(2) q1(1), of host] Cons.prems(3) assms(4)
    have t: "ah_token (pr_hub q1) = token"
      "agent_at (pr_hub q1) host \<noteq> None \<longrightarrow> agent_at (pr_hub q) host \<noteq> None \<or> registers token host e" by simp_all
    from Cons.IH [OF q1(2) process_step_inv [OF Cons.prems(2) q1(1)] t(1)] t(2) show ?case by auto
  qed simp
  from this [OF assms(5) p(1)] obtain e where "e \<in> set steps" "registers token host e"
    using assms(6) p(3) by (auto simp: New_hub_def agent_at_def)
  then show ?thesis by (auto simp: registers_def)
qed

lemma demo_registers: "registers ''t0ken'' ''host'' (HttpRequest demo_peer demo_around (demo_web_request ''GET'' ''/agent/connect''))"
  by (simp add: registers_def demo_peer_def demo_web_request_def demo_register_def path_segments_def)

theorem agents_need_token_witness:
  "\<exists>p p'. start_process demo_run_host ''t0ken'' demo_hist demo_manager demo_fs demo_start = Inr p \<and>
    run_steps (process_step demo_run_host) p [HttpRequest demo_peer demo_around (demo_web_request ''GET'' ''/agent/connect'')] = Inr p' \<and>
    agent_at (pr_hub p') ''host'' = Some 0 \<and> (\<exists>reg. pe_first demo_peer = Inr reg \<and> rm_Token reg = ''t0ken'')"
proof -
  let ?r = "demo_web_request ''GET'' ''/agent/connect''"
  obtain p where p: "start_process demo_run_host ''t0ken'' demo_hist demo_manager demo_fs demo_start = Inr p"
    using demo_process_starts by blast
  note i = start_process_inv [OF p demo_hist_inv demo_manager_inv]
  have s: "hr_Method ?r = ''GET''" "hr_Path ?r = ''/agent/connect''" by (simp_all add: demo_web_request_def)
  obtain p' where p': "run_steps (process_step demo_run_host) p [HttpRequest demo_peer demo_around ?r] = Inr p'"
    "agent_at (pr_hub p') ''host'' = Some 0"
    by (simp add: process_step_def handle_request_def serve_def s demo_routes handle_endpoint_def hand_over_def open_stream_def
        demo_peer_def i(3) begin_session_def New_hub_def demo_register_def agents.lookup_insert Let_def)
  from agents_need_token [OF p demo_hist_inv demo_manager_inv _ p'] have "\<exists>reg. pe_first demo_peer = Inr reg \<and> rm_Token reg = ''t0ken''"
    by auto
  with p p' show ?thesis by blast
qed

end
