(* ===== verification/Database.thy ===== *)
theory Database
  imports Service_Config
begin

text \<open>
  Opening the database file that the services table and the history share, \<open>Open\<close> of
  \<open>internal/db/db.go\<close>: the directory of the file is made, the file opened and the services table created if
  there is none.  \<open>filepath.Dir\<close> and \<open>filepath.Clean\<close> are written out as they are on Unix; what the operating
  system and the driver answer is in \<open>db_io\<close>.  The handle (\<open>SetMaxOpenConns\<close>, \<open>Close\<close>) has no state here.
\<close>

section \<open>Paths\<close>

text \<open>\<open>filepath.Clean\<close>: the elements kept so far are in reverse order.\<close>

fun clean_elements :: "bool \<Rightarrow> string list \<Rightarrow> string list \<Rightarrow> string list" where
  "clean_elements rooted out [] = rev out"
| "clean_elements rooted out (s # ss) =
     (if s = [] \<or> s = ''.'' then clean_elements rooted out ss
      else if s = ''..'' then
        (if out \<noteq> [] \<and> hd out \<noteq> ''..'' then clean_elements rooted (tl out) ss
         else if rooted then clean_elements rooted out ss
         else clean_elements rooted (s # out) ss)
      else clean_elements rooted (s # out) ss)"

fun join_slash :: "string list \<Rightarrow> string" where
  "join_slash [] = []"
| "join_slash [s] = s"
| "join_slash (s # ss) = s @ CHR ''/'' # join_slash ss"

definition filepath_Clean :: "string \<Rightarrow> string" where
  "filepath_Clean path =
     (if path = [] then ''.''
      else
        let rooted = (hd path = CHR ''/''); out = join_slash (clean_elements rooted [] (Split path CHR ''/''))
        in if rooted then CHR ''/'' # out else if out = [] then ''.'' else out)"

definition filepath_Dir :: "string \<Rightarrow> string" where
  "filepath_Dir path = filepath_Clean (slice_to path (LastIndex path CHR ''/'' + 1))"

section \<open>The database\<close>

text \<open>What is on disk: the services table, if there is one, and the history.  \<open>db_faults\<close> scripts the statements
  of the configuration manager, as \<open>hs_faults\<close> those of the history.\<close>

record database =
  db_services :: "svc_row list option"
  db_faults :: "error option list"
  db_history :: hist

record db_io =
  di_mkdir :: "string \<Rightarrow> error option"
  di_open :: "string \<Rightarrow> error option"
  di_schema :: "error option"

text \<open>\<open>CREATE TABLE IF NOT EXISTS\<close>.\<close>

definition create_services :: "svc_row list option \<Rightarrow> svc_row list" where
  "create_services t = (case t of None \<Rightarrow> [] | Some rows \<Rightarrow> rows)"

definition Open_db :: "db_io \<Rightarrow> string \<Rightarrow> database \<Rightarrow> error + database" where
  "Open_db io path db =
     (case di_mkdir io (filepath_Dir path) of
        Some e \<Rightarrow> Inl (''db: create dir: '' @ e)
      | None \<Rightarrow>
          (case di_open io path of
             Some e \<Rightarrow> Inl (''db: open: '' @ e)
           | None \<Rightarrow>
               (case di_schema io of
                  Some e \<Rightarrow> Inl (''db: apply schema: '' @ e)
                | None \<Rightarrow> Inr (db\<lparr>db_services := Some (create_services (db_services db))\<rparr>))))"

text \<open>A database the program has written, or an earlier version of it: the services table satisfies its
  constraints, the history has its first columns and its ids grow.\<close>

definition services_ok :: "svc_row list \<Rightarrow> bool" where
  "services_ok rows \<longleftrightarrow> distinct (List.map sr_name rows) \<and> (\<forall>r \<in> set rows. row_checks (sr_trigger_mode r) (sr_poller_interval r))"

definition history_ok :: "hist \<Rightarrow> bool" where
  "history_ok h \<longleftrightarrow> sorted_wrt (<) (List.map r_id (hs_rows h)) \<and> (\<forall>r \<in> set (hs_rows h). r_id r \<le> hs_seq h) \<and>
     (hs_columns h = [] \<and> hs_rows h = [] \<or> set baseColumns \<subseteq> set (hs_columns h))"

definition database_ok :: "database \<Rightarrow> bool" where
  "database_ok db \<longleftrightarrow> services_ok (create_services (db_services db)) \<and> history_ok (db_history db)"

lemma Open_db_ok:
  "Open_db io path db = Inr db' \<Longrightarrow>
     db' = db\<lparr>db_services := Some (create_services (db_services db))\<rparr> \<and> (database_ok db \<longrightarrow> database_ok db')"
  by (auto simp: Open_db_def database_ok_def create_services_def split: option.splits)

lemma Open_db_default: "Open_db io ''./data/dockwatch.db'' db = (case di_mkdir io ''data'' of
    Some e \<Rightarrow> Inl (''db: create dir: '' @ e)
  | None \<Rightarrow>
      (case di_open io ''./data/dockwatch.db'' of
         Some e \<Rightarrow> Inl (''db: open: '' @ e)
       | None \<Rightarrow>
           (case di_schema io of
              Some e \<Rightarrow> Inl (''db: apply schema: '' @ e)
            | None \<Rightarrow> Inr (db\<lparr>db_services := Some (create_services (db_services db))\<rparr>))))"
proof -
  have "filepath_Dir ''./data/dockwatch.db'' = ''data''" by code_simp
  then show ?thesis by (simp add: Open_db_def)
qed

section \<open>The tables when their owners start\<close>

lemma NewManager_loaded:
  assumes "services_ok rows" "NewManager io rows faults = (r, m)"
  shows "manager_inv m" "mg_rows m = rows" "r = None \<Longrightarrow> cache_fresh io m" "faults = [] \<Longrightarrow> r = None"
proof -
  let ?m = "\<lparr>mg_rows = rows, mg_faults = faults, mg_services = fmempty\<rparr>"
  have i: "manager_inv ?m" using assms(1) by (simp add: manager_inv_def services_ok_def)
  show "manager_inv m" "mg_rows m = rows" "r = None \<Longrightarrow> cache_fresh io m"
    using Reload_inv [OF i, of io] Reload_rows [of io ?m] Reload_fresh [of io ?m] assms(2)
    by (simp_all add: NewManager_def)
  show "faults = [] \<Longrightarrow> r = None" using assms(2) by (auto simp: NewManager_def Reload_def db_fault_def)
qed

text \<open>What every statement of \<open>history.New\<close> keeps, whether it fails or not: it adds columns to the table, and the
  rows get the defaults of those columns and are otherwise as they were.\<close>

definition rows_kept :: "hist \<Rightarrow> hist \<Rightarrow> bool" where
  "rows_kept h h' \<longleftrightarrow> (\<exists>added. set added \<subseteq> set migrations - set (hs_columns h) \<and>
     hs_rows h' = List.map (fold column_default added) (hs_rows h))"

definition history_kept :: "hist \<Rightarrow> hist \<Rightarrow> bool" where
  "history_kept h h' \<longleftrightarrow> (\<exists>added. set added \<subseteq> set migrations - set (hs_columns h) \<and> hs_columns h' = hs_columns h @ added \<and>
     hs_rows h' = List.map (fold column_default added) (hs_rows h)) \<and> hs_seq h' = hs_seq h \<and> hs_histDir h' = hs_histDir h"

lemma rows_kept_ids: "rows_kept h h' \<Longrightarrow> List.map r_id (hs_rows h') = List.map r_id (hs_rows h)"
  by (auto simp: rows_kept_def fold_column_default_id)

lemma history_keptD:
  assumes "history_kept h h'"
  shows "set (hs_columns h) \<subseteq> set (hs_columns h')" "rows_kept h h'" "hs_seq h' = hs_seq h" "hs_histDir h' = hs_histDir h"
    "set migrations \<subseteq> set (hs_columns h) \<Longrightarrow> hs_rows h' = hs_rows h"
proof -
  obtain added where a: "set added \<subseteq> set migrations - set (hs_columns h)" "hs_columns h' = hs_columns h @ added"
    "hs_rows h' = List.map (fold column_default added) (hs_rows h)"
    and r: "hs_seq h' = hs_seq h" "hs_histDir h' = hs_histDir h" using assms by (auto simp: history_kept_def)
  from a r show "set (hs_columns h) \<subseteq> set (hs_columns h')" "rows_kept h h'" "hs_seq h' = hs_seq h" "hs_histDir h' = hs_histDir h"
    by (auto simp: rows_kept_def)
  show "hs_rows h' = hs_rows h" if "set migrations \<subseteq> set (hs_columns h)"
  proof -
    have "added = []" using a(1) that by (cases added) auto
    with a(3) show ?thesis by simp
  qed
qed

lemma history_kept_refl [simp]: "history_kept h h"
  by (simp add: history_kept_def)

lemma history_kept_trans [trans]:
  assumes "history_kept a b" "history_kept b c" shows "history_kept a c"
proof -
  obtain x y where "set x \<subseteq> set migrations - set (hs_columns a)" "hs_columns b = hs_columns a @ x"
    "hs_rows b = List.map (fold column_default x) (hs_rows a)"
    "set y \<subseteq> set migrations - set (hs_columns b)" "hs_columns c = hs_columns b @ y"
    "hs_rows c = List.map (fold column_default y) (hs_rows b)" using assms by (auto simp: history_kept_def)
  moreover from this have "set (x @ y) \<subseteq> set migrations - set (hs_columns a)" by auto
  ultimately show ?thesis using assms unfolding history_kept_def
    by (intro conjI exI [of _ "x @ y"]) (simp_all add: comp_def)
qed

lemma kept_statement: "statement cols h = (r, h') \<Longrightarrow> history_kept h h'"
  by (auto simp: history_kept_def dest!: statementD)

lemma kept_alter:
  assumes "col \<in> set migrations" "alter_add col h = (r, h')"
  shows "history_kept h h'" "r = None \<Longrightarrow> col \<in> set (hs_columns h')"
proof -
  obtain r0 h0 where 0: "statement [] h = (r0, h0)" by fastforce
  note k = kept_statement [OF 0] statementD [OF 0]
  show "history_kept h h'"
  proof (cases "r0 = None \<and> col \<notin> set (hs_columns h0)")
    case True
    then have "history_kept h0 h'" using assms 0
      by (auto simp: alter_add_def history_kept_def intro!: exI [of _ "[col]"])
    with k(1) show ?thesis by (rule history_kept_trans)
  next
    case False
    with assms(2) 0 have "h' = h0" by (auto simp: alter_add_def split: option.splits if_splits)
    with k(1) show ?thesis by simp
  qed
  show "r = None \<Longrightarrow> col \<in> set (hs_columns h')"
    using assms(2) 0 by (auto simp: alter_add_def split: option.splits if_splits)
qed

lemma kept_migrate_loop:
  assumes "set cols \<subseteq> set migrations" "set existing \<subseteq> set (hs_columns h)" "migrate_loop existing cols h = (r, h')"
  shows "history_kept h h' \<and> (r = None \<longrightarrow> set cols \<subseteq> set (hs_columns h'))"
  using assms
proof (induction cols arbitrary: h)
  case (Cons col cols)
  show ?case
  proof (cases "col \<in> set existing")
    case True
    with Cons.prems have "migrate_loop existing cols h = (r, h')" "set cols \<subseteq> set migrations" by simp_all
    from Cons.IH [OF this(2) Cons.prems(2) this(1)] True Cons.prems(2) show ?thesis
      by (auto dest: history_keptD(1))
  next
    case False
    obtain r1 h1 where a: "alter_add col h = (r1, h1)" by fastforce
    note k = kept_alter [OF _ a]
    show ?thesis
    proof (cases r1)
      case None
      have "set existing \<subseteq> set (hs_columns h1)" using k(1) Cons.prems(1,2) by (auto dest: history_keptD(1))
      moreover have "migrate_loop existing cols h1 = (r, h')" using Cons.prems(3) False a None by simp
      ultimately have "history_kept h1 h' \<and> (r = None \<longrightarrow> set cols \<subseteq> set (hs_columns h'))"
        using Cons.IH [of h1] Cons.prems(1) by simp
      moreover have "history_kept h h1" "col \<in> set (hs_columns h1)" using k None Cons.prems(1) by simp_all
      ultimately have "history_kept h h'" "col \<in> set (hs_columns h')" "r = None \<longrightarrow> set cols \<subseteq> set (hs_columns h')"
        using history_kept_trans [of h h1 h'] by (blast, blast dest: history_keptD(1), blast)
      then show ?thesis by simp
    qed (use Cons.prems False a k(1) in auto)
  qed
qed simp

lemma kept_migrations:
  assumes "runMigrations h = (r, h')"
  shows "history_kept h h' \<and> (r = None \<longrightarrow> set migrations \<subseteq> set (hs_columns h'))"
proof -
  obtain r0 h0 where 0: "statement [] h = (r0, h0)" by fastforce
  show ?thesis
  proof (cases r0)
    case None
    obtain r1 h1 where 1: "migrate_loop (hs_columns h0) migrations h0 = (r1, h1)" by fastforce
    have k: "history_kept h0 h1 \<and> (r1 = None \<longrightarrow> set migrations \<subseteq> set (hs_columns h1))"
      by (rule kept_migrate_loop [OF _ _ 1]) auto
    have k1: "history_kept h h1" using kept_statement [OF 0] k history_kept_trans by blast
    show ?thesis
    proof (cases r1)
      case None
      obtain r2 h2 where 2: "statement [''status''] h1 = (r2, h2)" by fastforce
      obtain r3 h3 where 3: "statement [''deploy_id''] h2 = (r3, h3)" by fastforce
      have "history_kept h h2" "history_kept h h3" "history_kept h1 h2" "history_kept h1 h3"
        using k1 kept_statement [OF 2] kept_statement [OF 3] history_kept_trans by blast+
      with k None assms 0 1 2 3 \<open>r0 = None\<close> show ?thesis
        by (auto simp: runMigrations_def columnNames_def dest: history_keptD(1) split: option.splits)
    qed (use assms 0 1 k1 None in \<open>auto simp: runMigrations_def columnNames_def\<close>)
  qed (use assms 0 kept_statement [OF 0] in \<open>auto simp: runMigrations_def columnNames_def\<close>)
qed

lemma New_history_kept:
  assumes "history_ok h" "New_history h = (r, h')"
  shows "history_ok h' \<and> rows_kept h h' \<and> hs_histDir h' = hs_histDir h \<and>
    (r = None \<longrightarrow> hist_inv h') \<and> (hist_inv h \<longrightarrow> hs_rows h' = hs_rows h)"
proof -
  obtain r0 h0 where 0: "statement [] h = (r0, h0)" by fastforce
  note f = statementD [OF 0]
  show ?thesis
  proof (cases r0)
    case None
    let ?h = "if hs_columns h0 = [] then h0\<lparr>hs_columns := baseColumns, hs_rows := []\<rparr> else h0"
    obtain r1 h1 where 1: "runMigrations ?h = (r1, h1)" by fastforce
    have k: "history_kept ?h h1" "r1 = None \<longrightarrow> set migrations \<subseteq> set (hs_columns h1)"
      using kept_migrations [OF 1] by blast+
    have b: "set baseColumns \<subseteq> set (hs_columns ?h)" "hs_rows ?h = hs_rows h" "hs_columns h = [] \<or> hs_columns ?h = hs_columns h"
      "hs_seq ?h = hs_seq h" "hs_histDir ?h = hs_histDir h" "hs_columns h = [] \<longrightarrow> hs_rows h = []"
      using assms(1) f by (auto simp: history_ok_def baseColumns_def)
    note kd = history_keptD [OF k(1)]
    have rk: "rows_kept h h1"
    proof (cases "hs_columns h = []")
      case True
      with b(2,6) kd(2) show ?thesis by (auto simp: rows_kept_def intro: exI [of _ "[]"])
    next
      case False
      with b(2,3) kd(2) show ?thesis by (simp add: rows_kept_def)
    qed
    have ids: "(\<forall>x \<in> set (hs_rows h1). r_id x \<le> hs_seq h1) \<longleftrightarrow> (\<forall>i \<in> set (List.map r_id (hs_rows h1)). i \<le> hs_seq h1)" by simp
    have o: "history_ok h1" "rows_kept h h1" "hs_histDir h1 = hs_histDir h"
      using kd(1,3,4) b assms(1) rk unfolding history_ok_def ids rows_kept_ids [OF rk] by auto
    have i: "r1 = None \<longrightarrow> hist_inv h1"
      using o(1) kd(1) b(1) k(2) by (auto simp: hist_inv_def history_ok_def selectCols_def)
    have "hs_rows h1 = hs_rows h" if "hist_inv h"
    proof -
      have "set migrations \<subseteq> set (hs_columns h)" "hs_columns h \<noteq> []"
        using that by (auto simp: hist_inv_def selectCols_def baseColumns_def)
      with kd(5) b(2,3) show ?thesis by simp
    qed
    moreover have "h' = h1" "r = None \<longrightarrow> r1 = None"
      using assms(2) 0 1 None by (auto simp: New_history_def Let_def split: option.splits)
    ultimately show ?thesis using o i by simp
  next
    case (Some e)
    then have "h' = h0" "\<not> r = None" using assms(2) 0 by (auto simp: New_history_def)
    with f assms(1) show ?thesis by (simp add: history_ok_def rows_kept_def) (auto intro: exI [of _ "[]"])
  qed
qed

lemma New_history_prefix: "New_history h = (Some e, h') \<Longrightarrow> prefix ''history: '' e"
  by (auto simp: New_history_def Let_def split: option.splits prod.splits)

lemma New_history_runs:
  assumes "hs_faults h = []"
  shows "fst (New_history h) = None"
proof -
  have "runMigrations h0 = (None, migrated h0)" if "hs_faults h0 = []" for h0
    using that by (rule runMigrations_ok)
  with assms show ?thesis by (simp add: New_history_def statement_ok Let_def)
qed

lemma inv_history_ok: "hist_inv h \<Longrightarrow> history_ok h"
  by (simp add: hist_inv_def history_ok_def selectCols_def)

lemma inv_services_ok: "manager_inv m \<Longrightarrow> services_ok (mg_rows m)"
  by (simp add: manager_inv_def services_ok_def)

end
