(* ===== verification/Startup.thy ===== *)
theory Startup
  imports Process Database
begin

text \<open>
  The beginning of \<open>main\<close> of \<open>cmd/dockwatch/main.go\<close>: from the environment to the running process, with every
  exit on the way, and what is left of one process when another is started on its database.  The
  loggers, which nothing reads, are left out, as is the closing of handles on return.
\<close>

section \<open>Starting\<close>

text \<open>
  What the program finds outside: the environment, the constructor of the SDK's client, the operating
  system below the database, the cron parser, what GitHub answers, and \<open>mc_host\<close>, the codecs and clocks of the
  components' arguments (its clients, secrets and schedule are replaced by those of the configuration).
\<close>

record 'd machine =
  mc_env :: environment
  mc_parseDuration :: "string \<Rightarrow> int option"
  mc_newClient :: "string option \<Rightarrow> error + 'd sdk"
  mc_db_io :: db_io
  mc_cron_ok :: "string \<Rightarrow> bool"
  mc_github :: github
  mc_host :: "'d host"

definition main_host :: "'d machine \<Rightarrow> config \<Rightarrow> 'd scoped \<Rightarrow> 'd host" where
  "main_host mc cfg docker =
     (let s = ho_server (mc_host mc) in
      (mc_host mc)\<lparr>
        ho_server := \<lparr>
          sr_executor = (sr_executor s)\<lparr>e_docker := docker,
            e_gh := Some ((mc_github mc)\<lparr>gh_token := cf_GitHubToken cfg\<rparr>),
            e_history := True, e_jobRegistry := True\<rparr>,
          sr_docker = docker,
          sr_webhook = (sr_webhook s)\<lparr>wh_secret := cf_WebhookSecret cfg, wh_jobRegistry := True, wh_history := True\<rparr>,
          sr_api = (sr_api s)\<lparr>ax_jobRegistry := True, ax_history := True\<rparr>\<rparr>,
        ho_parseDuration := mc_parseDuration mc,
        ho_schedule_ok := mc_cron_ok mc (cf_RegistryCron cfg)\<rparr>)"

lemma main_host_sel [simp]:
  "ho_time (main_host mc cfg docker) = ho_time (mc_host mc)" "sr_docker (ho_server (main_host mc cfg docker)) = docker"
  by (simp_all add: main_host_def Let_def)

text \<open>\<open>Exits\<close> is \<open>os.Exit(1)\<close> after a log line with a message and an error, and what is then on disk.\<close>

datatype 'd started = Exits string error database | Panics panic | Serves "'d host" "'d process"

definition main_start :: "'d machine \<Rightarrow> fs \<Rightarrow> 'd \<Rightarrow> database \<Rightarrow> 'd started" where
  "main_start mc files d db =
     (let cfg = Load_config (mc_parseDuration mc) (mc_env mc) in
      case New_client (mc_newClient mc) (cf_DockerHost cfg) (cf_DryRun cfg) (Some (main_credsFor cfg)) of
        Inl e \<Rightarrow> Exits ''failed to init docker client'' e db
      | Inr docker \<Rightarrow>
          (case Open_db (mc_db_io mc) (cf_HistoryDBPath cfg) db of
             Inl e \<Rightarrow> Exits ''failed to open shared db'' e db
           | Inr db \<Rightarrow>
               (case New_history ((db_history db)\<lparr>hs_histDir := cf_HistoryDir cfg\<rparr>) of
                  (Some e, hist) \<Rightarrow> Exits ''failed to open history store'' e (db\<lparr>db_history := hist\<rparr>)
                | (None, hist) \<Rightarrow>
                    (case NewManager (ho_time (mc_host mc)) (create_services (db_services db)) (db_faults db) of
                       (Some e, m) \<Rightarrow> Exits ''failed to load service configs'' e
                         (db\<lparr>db_faults := mg_faults m, db_history := hist\<rparr>)
                     | (None, m) \<Rightarrow>
                         let h = main_host mc cfg docker in
                         case start_process h (cf_AgentToken cfg) hist m files d of
                           Inl p \<Rightarrow> Panics p
                         | Inr p \<Rightarrow> Serves h p))))"

text \<open>What a process leaves on disk, whenever it ends; the scripts of failures end with it.\<close>

definition database_of :: "'d process \<Rightarrow> database" where
  "database_of p =
     (let w = sy_world (pr_system p) in
      \<lparr>db_services = Some (mg_rows (w_config w)), db_faults = [], db_history = (w_hist w)\<lparr>hs_faults := []\<rparr>\<rparr>)"

text \<open>Every call on the way to the running process succeeds.\<close>

definition nothing_fails :: "'d machine \<Rightarrow> database \<Rightarrow> bool" where
  "nothing_fails mc db \<longleftrightarrow>
     (let cfg = Load_config (mc_parseDuration mc) (mc_env mc); path = cf_HistoryDBPath cfg; io = mc_db_io mc in
      \<not> isl (mc_newClient mc (if cf_DockerHost cfg \<noteq> [] then Some (cf_DockerHost cfg) else None)) \<and>
      di_mkdir io (filepath_Dir path) = None \<and> di_open io path = None \<and> di_schema io = None \<and>
      hs_faults (db_history db) = [] \<and> db_faults db = [])"

text \<open>Which call failed, with the message that is logged for it and the error it was given: the constructor of the
  client, one of the three steps of opening the database, the migration of the history or the load of the services.\<close>

definition failed_call :: "'d machine \<Rightarrow> database \<Rightarrow> string \<Rightarrow> error \<Rightarrow> bool" where
  "failed_call mc db msg e \<longleftrightarrow>
     (let cfg = Load_config (mc_parseDuration mc) (mc_env mc); path = cf_HistoryDBPath cfg; io = mc_db_io mc in
      (msg = ''failed to init docker client'' \<and>
         (\<exists>x. mc_newClient mc (if cf_DockerHost cfg \<noteq> [] then Some (cf_DockerHost cfg) else None) = Inl x \<and>
            e = ''dockerclient: init: '' @ x)) \<or>
      (msg = ''failed to open shared db'' \<and>
         (\<exists>x. (di_mkdir io (filepath_Dir path) = Some x \<and> e = ''db: create dir: '' @ x) \<or>
            (di_open io path = Some x \<and> e = ''db: open: '' @ x) \<or>
            (di_schema io = Some x \<and> e = ''db: apply schema: '' @ x))) \<or>
      (msg = ''failed to open history store'' \<and> prefix ''history: '' e \<and> hs_faults (db_history db) \<noteq> [] \<and>
         fst (New_history ((db_history db)\<lparr>hs_histDir := cf_HistoryDir cfg\<rparr>)) = Some e) \<or>
      (msg = ''failed to load service configs'' \<and>
         (\<exists>x rest. db_faults db = Some x # rest \<and> e = ''serviceconfig: query: '' @ x)))"

text \<open>What Docker lists at the start, if it can be asked: ids are distinct and not shorter than Docker's short form.\<close>

definition listed_ok :: "'d scoped \<Rightarrow> 'd \<Rightarrow> bool" where
  "listed_ok docker d \<longleftrightarrow>
     (case sc_List docker d of
        Inl e \<Rightarrow> True
      | Inr cs \<Rightarrow> (\<forall>c \<in> set cs. 12 \<le> length (sm_ID c)) \<and> distinct (map sm_ID cs))"

definition machine_lists_ok :: "'d machine \<Rightarrow> 'd \<Rightarrow> bool" where
  "machine_lists_ok mc d \<longleftrightarrow>
     (let cfg = Load_config (mc_parseDuration mc) (mc_env mc) in
      case New_client (mc_newClient mc) (cf_DockerHost cfg) (cf_DryRun cfg) (Some (main_credsFor cfg)) of
        Inl e \<Rightarrow> True
      | Inr docker \<Rightarrow> listed_ok docker d)"

section \<open>What the process starts with\<close>

lemma start_process_world:
  assumes "start_process h token hist m files d = Inr p"
  shows "\<exists>w. start_world (sr_docker (ho_server h)) [] hist m files d = Inr w \<and> sy_world (pr_system p) = w \<and>
    w_hist w = hist \<and> w_config w = m \<and> w_jobs w = NewRegistry \<and> w_fs w = files \<and> w_docker w = d"
  using assms by (auto simp: start_process_def map_sum_Inr start_system_def start_world_def split: sum.splits)

lemma started_rings_empty:
  assumes "start_world docker [] hist m files d = Inr w" "state_of (w_store w) i = Some c"
  shows "cs_digestHistory c = []"
proof -
  obtain st where st: "seed_store docker d New_store = Inr st" "w_store w = st"
    using assms(1) by (auto simp: start_world_def split: sum.splits)
  have "store_clean (\<lambda>_. False) New_store"
    by (simp add: store_clean_def New_store_def no_state_def ring_clean_def digests_def)
  with st(1) have "store_clean (\<lambda>_. False) st"
    by (auto simp: seed_store_def split: sum.splits intro: seed_loop_clean)
  with assms(2) st(2) show ?thesis
    by (auto simp: store_clean_def ring_clean_def digests_def state_of_def)
qed

text \<open>The containers listed are what the store is seeded with.\<close>

lemma start_process_runs:
  assumes "listed_ok (sr_docker (ho_server h)) d" "hist_inv hist" "manager_inv m"
  shows "\<exists>p. start_process h token hist m files d = Inr p \<and>
    (\<forall>i. state_of (w_store (sy_world (pr_system p))) i =
      (case sc_List (sr_docker (ho_server h)) d of
         Inl e \<Rightarrow> None
       | Inr cs \<Rightarrow> map_option seeded (find (\<lambda>c. sm_ID c = i) cs)))"
proof (cases "sc_List (sr_docker (ho_server h)) d")
  case (Inl e)
  then show ?thesis
    by (simp add: start_process_def start_system_def start_world_def seed_store_def state_of_New)
next
  case (Inr cs)
  with assms(1) have "\<forall>c \<in> set cs. 12 \<le> length (sm_ID c)" "distinct (map sm_ID cs)" by (simp_all add: listed_ok_def)
  from start_world_eq [OF this Inr assms(2,3), of "[]" files] Inr show ?thesis
    by (auto simp: start_process_def start_system_def)
qed

text \<open>The steps before the process, with the database they leave.\<close>

lemma main_start_stages:
  fixes mc db
  defines "cfg \<equiv> Load_config (mc_parseDuration mc) (mc_env mc)"
  assumes "database_ok db"
  obtains (exits) msg e db' where "\<And>files d. main_start mc files d db = Exits msg e db'" "\<not> nothing_fails mc db" "database_ok db'"
      "create_services (db_services db') = create_services (db_services db)"
      "rows_kept (db_history db) (db_history db')" "failed_call mc db msg e"
    | (starts) cli hist m where "mc_newClient mc (if cf_DockerHost cfg \<noteq> [] then Some (cf_DockerHost cfg) else None) = Inr cli"
      "hist_inv hist" "manager_inv m" "cache_fresh (ho_time (mc_host mc)) m" "mg_rows m = create_services (db_services db)"
      "rows_kept (db_history db) hist"
      "hist_inv (db_history db) \<longrightarrow> hs_rows hist = hs_rows (db_history db)"
      "\<And>files d. main_start mc files d db =
        (let h = main_host mc cfg (Client cli (cf_DryRun cfg) (Some (main_credsFor cfg))) in
         case start_process h (cf_AgentToken cfg) hist m files d of Inl p \<Rightarrow> Panics p | Inr p \<Rightarrow> Serves h p)"
proof -
  let ?hist = "\<lambda>db. (db_history db)\<lparr>hs_histDir := cf_HistoryDir cfg\<rparr>"
  let ?mg = "NewManager (ho_time (mc_host mc)) (create_services (db_services db)) (db_faults db)"
  note M = main_start_def Let_def New_client_def cfg_def [symmetric]
  have ok: "services_ok (create_services (db_services db))" "history_ok (?hist db)"
    using assms(2) by (simp_all add: database_ok_def history_ok_def)
  have hv: "hist_inv (?hist db) = hist_inv (db_history db)" "rows_kept (?hist db) = rows_kept (db_history db)"
    by (simp_all add: hist_inv_def rows_kept_def fun_eq_iff)
  have kept: "rows_kept h h" for h by (auto simp: rows_kept_def intro: exI [of _ "[]"])
  note F = failed_call_def Let_def cfg_def [symmetric]
  show thesis
  proof (cases "mc_newClient mc (if cf_DockerHost cfg \<noteq> [] then Some (cf_DockerHost cfg) else None)")
    case (Inl e)
    show thesis by (rule exits [of "''failed to init docker client''" "''dockerclient: init: '' @ e" db]) (use Inl assms(2) kept in \<open>simp_all add: M F nothing_fails_def\<close>)
  next
    case client: (Inr cli)
    show thesis
    proof (cases "Open_db (mc_db_io mc) (cf_HistoryDBPath cfg) db")
      case (Inl e)
      then have "\<not> nothing_fails mc db"
        by (auto simp: nothing_fails_def Let_def cfg_def [symmetric] Open_db_def)
      moreover from Inl have "failed_call mc db ''failed to open shared db'' e"
        by (auto simp: F Open_db_def split: option.splits)
      ultimately show thesis
        by (intro exits [of "''failed to open shared db''" e db]) (use client Inl assms(2) kept in \<open>simp_all add: M\<close>)
    next
      case opened: (Inr db1)
      have d: "db1 = db\<lparr>db_services := Some (create_services (db_services db))\<rparr>" using Open_db_ok [OF opened] by blast
      obtain r hist where hi: "New_history (?hist db) = (r, hist)" by fastforce
      note hk = New_history_kept [OF ok(2) hi]
      obtain q m where m: "?mg = (q, m)" by fastforce
      note mk = NewManager_loaded [OF ok(1) m]
      have cs: "create_services (Some rows) = rows" for rows by (simp add: create_services_def)
      consider e where "r = Some e" | e where "r = None" "q = Some e" | "r = None" "q = None" by (cases r; cases q) auto
      then show thesis
      proof cases
        case 1
        then have "hs_faults (db_history db) \<noteq> []" using New_history_runs [of "?hist db"] hi by auto
        moreover from this have "\<not> nothing_fails mc db" by (simp add: nothing_fails_def Let_def)
        moreover have "prefix ''history: '' e" using New_history_prefix [of "?hist db" e hist] hi 1 by simp
        ultimately show thesis
          by (intro exits [of "''failed to open history store''" e "db1\<lparr>db_history := hist\<rparr>"])
            (use 1 client opened hi hk hv ok in \<open>simp_all add: M F d cs database_ok_def\<close>)
      next
        case 2
        then have "\<not> nothing_fails mc db" using mk(4) by (auto simp: nothing_fails_def Let_def)
        moreover have "\<exists>x rest. db_faults db = Some x # rest \<and> e = ''serviceconfig: query: '' @ x"
          using m 2 by (auto simp: NewManager_def Reload_def db_fault_def split: list.splits option.splits)
        ultimately show thesis
          by (intro exits [of "''failed to load service configs''" e "db1\<lparr>db_faults := mg_faults m, db_history := hist\<rparr>"])
            (use 2 client opened hi hk hv ok m in \<open>simp_all add: M F d cs database_ok_def\<close>)
      next
        case 3
        show thesis
          by (rule starts) (use 3 client opened hi hk hv m mk in \<open>simp_all add: M d cs\<close>)
      qed
    qed
  qed
qed

text \<open>A process that serves, and where nothing fails one does.\<close>

lemma main_start_serves:
  assumes "database_ok db" "main_start mc files d db = Serves h p"
  shows "\<exists>hist m token. start_process h token hist m files d = Inr p \<and> hist_inv hist \<and> manager_inv m \<and>
    cache_fresh (ho_time h) m \<and> mg_rows m = create_services (db_services db) \<and>
    (hist_inv (db_history db) \<longrightarrow> hs_rows hist = hs_rows (db_history db))"
proof (rule main_start_stages [OF assms(1), of mc])
  let ?cfg = "Load_config (mc_parseDuration mc) (mc_env mc)"
  fix cli hist m
  let ?h = "main_host mc ?cfg (Client cli (cf_DryRun ?cfg) (Some (main_credsFor ?cfg)))"
  assume i: "hist_inv hist" "manager_inv m" "cache_fresh (ho_time (mc_host mc)) m" "mg_rows m = create_services (db_services db)"
      "hist_inv (db_history db) \<longrightarrow> hs_rows hist = hs_rows (db_history db)"
    and s: "\<And>files d. main_start mc files d db =
      (let h = ?h in case start_process h (cf_AgentToken ?cfg) hist m files d of Inl p \<Rightarrow> Panics p | Inr p \<Rightarrow> Serves h p)"
  have "start_process ?h (cf_AgentToken ?cfg) hist m files d = Inr p" "h = ?h"
    using s [of files d] assms(2) by (simp_all add: Let_def split: sum.splits)
  with i show ?thesis by (intro exI [of _ hist] exI [of _ m] exI [of _ "cf_AgentToken ?cfg"]) simp
qed (use assms(2) in simp)

lemma main_start_runs:
  fixes mc :: "'d machine"
  assumes "database_ok db" "machine_lists_ok mc d"
  obtains (exits) msg e db' where "main_start mc files d db = Exits msg e db'" "\<not> nothing_fails mc db" "database_ok db'"
      "create_services (db_services db') = create_services (db_services db)"
      "rows_kept (db_history db) (db_history db')" "failed_call mc db msg e"
    | (serves) h p where "main_start mc files d db = Serves h p" "process_inv p"
      "cache_fresh (ho_time h) (w_config (sy_world (pr_system p)))"
      "\<forall>i. state_of (w_store (sy_world (pr_system p))) i =
        (case sc_List (sr_docker (ho_server h)) d of Inl e \<Rightarrow> None | Inr cs \<Rightarrow> map_option seeded (find (\<lambda>c. sm_ID c = i) cs))"
proof (rule main_start_stages [OF assms(1), of mc])
  fix msg e db'
  assume "\<And>files d. main_start mc files d db = Exits msg e db'" "\<not> nothing_fails mc db" "database_ok db'"
    "create_services (db_services db') = create_services (db_services db)"
    "rows_kept (db_history db) (db_history db')" "failed_call mc db msg e"
  then show thesis by (rule exits)
next
  let ?cfg = "Load_config (mc_parseDuration mc) (mc_env mc)"
  fix cli :: "'d sdk" and hist m
  let ?h = "main_host mc ?cfg (Client cli (cf_DryRun ?cfg) (Some (main_credsFor ?cfg)))"
  assume c: "mc_newClient mc (if cf_DockerHost ?cfg \<noteq> [] then Some (cf_DockerHost ?cfg) else None) = Inr cli"
    and i: "hist_inv hist" "manager_inv m" "cache_fresh (ho_time (mc_host mc)) m"
    and s: "\<And>files d. main_start mc files d db =
      (let h = ?h in case start_process h (cf_AgentToken ?cfg) hist m files d of Inl p \<Rightarrow> Panics p | Inr p \<Rightarrow> Serves h p)"
  have "listed_ok (sr_docker (ho_server ?h)) d"
    using assms(2) c by (simp add: machine_lists_ok_def New_client_def Let_def)
  from start_process_runs [OF this i(1,2)] obtain p where p: "start_process ?h (cf_AgentToken ?cfg) hist m files d = Inr p"
    "\<forall>i. state_of (w_store (sy_world (pr_system p))) i =
      (case sc_List (sr_docker (ho_server ?h)) d of Inl e \<Rightarrow> None | Inr cs \<Rightarrow> map_option seeded (find (\<lambda>c. sm_ID c = i) cs))"
    by blast
  have "w_config (sy_world (pr_system p)) = m" using start_process_world [OF p(1)] by auto
  then show thesis
    by (intro serves [OF _ start_process_inv(1) [OF p(1) i(1,2)] _ p(2)]) (simp_all add: s p(1) Let_def i(3))
qed

lemma database_of_ok: "process_inv p \<Longrightarrow> database_ok (database_of p)"
  by (auto simp: database_ok_def database_of_def create_services_def Let_def world_inv_def
      dest!: process_invD(5) intro: inv_history_ok inv_services_ok)

lemma nothing_previous:
  assumes "world_inv w" "\<forall>i c. state_of (w_store w) i = Some c \<longrightarrow> cs_digestHistory c = []" "aq_Method r = ''POST''"
  shows "\<exists>msg code. code \<in> {404, 409} \<and> handleRollback now r w = Inr (api_error msg code, w)"
  using assms(2,3)
  by (auto simp: handleRollback_eq [OF assms(1)] PreviousDigest_def split: option.split)

section \<open>Properties\<close>

text \<open>C8: The server starts or says why it does not.  On any database it has written before, in whatever version,
  and whatever fails on the way: if it exits, the message and the error it logs are those of the call that failed
  (\<open>failed_call\<close>), the database is as well formed as before, the rows of the services are as they were, and those of
  the history too but for the defaults of columns that were added; otherwise all its components
  start in a well-formed state, with every container that Docker lists tracked under its name, image
  and labels, and with the cache of the services equal to their table.  It never panics.\<close>

theorem main_starts:
  assumes "database_ok db" and "machine_lists_ok mc d"
  shows "case main_start mc files d db of
      Exits msg e db' \<Rightarrow> failed_call mc db msg e \<and> \<not> nothing_fails mc db \<and> database_ok db' \<and>
        create_services (db_services db') = create_services (db_services db) \<and>
        (\<exists>added. set added \<subseteq> set migrations - set (hs_columns (db_history db)) \<and>
           hs_rows (db_history db') = map (fold column_default added) (hs_rows (db_history db)))
    | Panics x \<Rightarrow> False
    | Serves h p \<Rightarrow> process_inv p \<and> cache_fresh (ho_time h) (w_config (sy_world (pr_system p))) \<and>
        (\<forall>i. state_of (w_store (sy_world (pr_system p))) i =
          (case sc_List (sr_docker (ho_server h)) d of
             Inl e \<Rightarrow> None
           | Inr cs \<Rightarrow> map_option seeded (find (\<lambda>c. sm_ID c = i) cs)))"
  by (rule main_start_runs [OF assms, of files]) (simp_all add: rows_kept_def)

definition demo_listing :: "demo_daemon sdk" where
  "demo_listing = demo_sdk\<lparr>sdk_ContainerList := (\<lambda>f d. Inr [demo_listed])\<rparr>"

definition demo_machine :: "demo_daemon machine" where
  "demo_machine = \<lparr>mc_env = fmupd ''DOCKWATCH_AGENT_TOKEN'' ''t0ken'' fmempty, mc_parseDuration = (\<lambda>_. None),
     mc_newClient = (\<lambda>host. Inr demo_listing), mc_db_io = \<lparr>di_mkdir = (\<lambda>_. None), di_open = (\<lambda>_. None), di_schema = None\<rparr>,
     mc_cron_ok = (\<lambda>_. True), mc_github = \<lparr>gh_http = (\<lambda>_ _. None), gh_decode = (\<lambda>_. None), gh_token = []\<rparr>,
     mc_host = demo_run_host\<rparr>"

text \<open>A database without a services table, and with the history of an early version in which one deploy is on record.\<close>

definition demo_database :: database where
  "demo_database = \<lparr>db_services = None, db_faults = [],
     db_history = \<lparr>hs_columns = baseColumns, hs_rows = [\<lparr>r_id = 1, r_app_name = ''web'', r_service = ''web'', r_old_image = ''web:1'',
       r_new_image = ''web:2'', r_backup_path = [], r_created_at = ''t0'', r_status = [], r_trigger_source = [], r_image_tag = [],
       r_deploy_id = None, r_duration_ms = None, r_ended_at = None, r_reason = None\<rparr>], hs_seq = 1, hs_histDir = [], hs_faults = []\<rparr>\<rparr>"

lemma demo_machine_ok:
  "database_ok demo_database" "machine_lists_ok demo_machine d" "nothing_fails demo_machine demo_database"
proof -
  show "database_ok demo_database"
    by (simp add: database_ok_def demo_database_def create_services_def services_ok_def history_ok_def)
  show "machine_lists_ok demo_machine d"
    by (simp add: machine_lists_ok_def New_client_def demo_machine_def Let_def listed_ok_def Client_def ListContainers_def
        demo_listing_def demo_host_list(2) demo_listed_def)
  show "nothing_fails demo_machine demo_database"
    by (simp add: nothing_fails_def demo_machine_def demo_database_def Let_def)
qed

theorem main_starts_witness:
  "\<exists>h p. main_start demo_machine demo_fs demo_start demo_database = Serves h p \<and> process_inv p"
  using main_starts [OF demo_machine_ok(1,2), of demo_start demo_fs] demo_machine_ok(3)
  by (simp split: started.splits)


text \<open>C9: A restart keeps what is in the database and forgets the rest.  Stop the process after any run, whatever it was
  doing, and start the program again on the database it left: if nothing fails it serves again, with
  every row of the history (a deploy that was running stays marked as running) and of the services,
  each found under its name in the cache.  But jobs, agents and all recorded digests are gone: any
  request to roll a container back is refused until it has been updated again.\<close>

theorem restart_keeps_database:
  assumes "database_ok db" and "main_start mc files d db = Serves h p" and "run_steps (process_step h) p steps = Inr p'"
    and "nothing_fails mc2 (database_of p')" and "machine_lists_ok mc2 d2"
  shows "\<exists>h2 p2. main_start mc2 files2 d2 (database_of p') = Serves h2 p2 \<and>
    (let w = sy_world (pr_system p'); w2 = sy_world (pr_system p2) in
      hs_rows (w_hist w2) = hs_rows (w_hist w) \<and> mg_rows (w_config w2) = mg_rows (w_config w) \<and>
      (\<forall>n. Get_service n (w_config w2) = map_option (row_config (ho_time h2)) (find (\<lambda>r. sr_name r = n) (mg_rows (w_config w)))) \<and>
      w_jobs w2 = NewRegistry \<and> ah_agents (pr_hub p2) = fmempty \<and>
      (\<forall>now r. aq_Method r = ''POST'' \<longrightarrow>
        (\<exists>msg code. code \<in> {404, 409} \<and> handleRollback now r w2 = Inr (api_error msg code, w2))))"
proof -
  obtain hist m token where s: "start_process h token hist m files d = Inr p" "hist_inv hist" "manager_inv m"
    using main_start_serves [OF assms(1,2)] by blast
  have i: "process_inv p'" by (rule process.sim_inv_run [OF start_process_inv(1) [OF s] assms(3)])
  note db = database_of_ok [OF i]
  obtain h2 p2 where 2: "main_start mc2 files2 d2 (database_of p') = Serves h2 p2"
    by (rule main_start_runs [OF db assms(5), of files2]) (use assms(4) in auto)
  obtain hist2 m2 token2 where s2: "start_process h2 token2 hist2 m2 files2 d2 = Inr p2" "hist_inv hist2" "manager_inv m2"
    "cache_fresh (ho_time h2) m2" "mg_rows m2 = create_services (db_services (database_of p'))"
    "hist_inv (db_history (database_of p')) \<longrightarrow> hs_rows hist2 = hs_rows (db_history (database_of p'))"
    using main_start_serves [OF db 2] by blast
  obtain w2 where w2: "start_world (sr_docker (ho_server h2)) [] hist2 m2 files2 d2 = Inr w2" "sy_world (pr_system p2) = w2"
    "w_hist w2 = hist2" "w_config w2 = m2" "w_jobs w2 = NewRegistry"
    using start_process_world [OF s2(1)] by blast
  have rows: "mg_rows m2 = mg_rows (w_config (sy_world (pr_system p')))" "hs_rows hist2 = hs_rows (w_hist (sy_world (pr_system p')))"
    using s2(5,6) process_invD(5) [OF i] by (simp_all add: database_of_def create_services_def Let_def world_inv_def)
  have "Get_service n m2 = map_option (row_config (ho_time h2)) (find (\<lambda>r. sr_name r = n) (mg_rows m2))" for n
    using s2(3,4) by (simp add: Get_service_def cache_fresh_def manager_inv_def load_rows_lookup split: option.splits)
  moreover have "world_inv w2" using process_invD(5) [OF start_process_inv(1) [OF s2(1-3)]] w2(2) by simp
  moreover have "\<forall>i c. state_of (w_store w2) i = Some c \<longrightarrow> cs_digestHistory c = []"
    using started_rings_empty [OF w2(1)] by blast
  ultimately show ?thesis
    using 2 w2 rows nothing_previous [of w2] start_process_inv(3) [OF s2(1-3)]
    by (intro exI [of _ h2] exI [of _ p2]) (simp add: Let_def New_hub_def)
qed

theorem restart_keeps_database_witness:
  "\<exists>h p p' h2 p2. main_start demo_machine demo_fs demo_start demo_database = Serves h p \<and>
    run_steps (process_step h) p demo_day = Inr p' \<and>
    main_start demo_machine (w_fs (sy_world (pr_system p'))) (w_docker (sy_world (pr_system p'))) (database_of p') = Serves h2 p2 \<and>
    hs_rows (w_hist (sy_world (pr_system p2))) = hs_rows (w_hist (sy_world (pr_system p')))"
proof -
  obtain h p where s: "main_start demo_machine demo_fs demo_start demo_database = Serves h p"
    by (rule main_start_runs [OF demo_machine_ok(1,2), of demo_fs demo_start]) (use demo_machine_ok(3) in auto)
  obtain hist m token where st: "start_process h token hist m demo_fs demo_start = Inr p" "hist_inv hist" "manager_inv m"
    "cache_fresh (ho_time h) m" "mg_rows m = create_services (db_services demo_database)"
    using main_start_serves [OF demo_machine_ok(1) s] by blast
  have "config_clean (\<lambda>d. 16 \<le> length d) m"
    using st(4,5) by (simp add: config_clean_def cache_fresh_def demo_database_def create_services_def)
  moreover have "\<forall>e \<in> set demo_day. process_brings (\<lambda>d. 16 \<le> length d) h e \<and> \<not> process_stops e"
    by (rule demo_day_brings) simp
  ultimately obtain p' where r: "run_steps (process_step h) p demo_day = Inr p'" using process_runs [OF st(1-3)] by blast
  have "nothing_fails demo_machine (database_of p')"
    by (simp add: nothing_fails_def demo_machine_def database_of_def Let_def)
  from restart_keeps_database [OF demo_machine_ok(1) s r this demo_machine_ok(2), of "w_fs (sy_world (pr_system p'))"] s r
  show ?thesis by (fastforce simp: Let_def)
qed

end
