(* ===== verification/Shutdown.thy ===== *)
theory Shutdown
  imports Process
begin

text \<open>
  The end of \<open>main\<close> of \<open>cmd/dockwatch/main.go\<close>: after a signal the context that all components were given is
  cancelled, and \<open>main\<close> waits for their goroutines.  A loop whose context is cancelled may still be given
  waiting events, as \<open>select\<close> chooses among what is ready; it returns when its turn is that of
  \<open>ctx.Done()\<close>.  The watches of the health monitor are not waited for.
  The loop of the watcher is in \<open>Event_Stream\<close>; the goroutine of the HTTP server ends inside \<open>net/http\<close>.
\<close>

section \<open>Turns of a cancelled context\<close>

text \<open>Whether a step is a turn of loop \<open>k\<close> in which it sees that its context is done.\<close>

definition cancelled_turns :: "nat \<Rightarrow> 'd system \<Rightarrow> 'd system_op \<Rightarrow> unit list" where
  "cancelled_turns k s e =
     (case e of
        ExecutorTurn sel now rand \<Rightarrow> if k = 0 \<and> sel = Cancelled then [()] else []
      | MonitorTurn sel \<Rightarrow> if k = 1 \<and> sel = Cancelled then [()] else []
      | RollbackTurn sel now \<Rightarrow> if k = 2 \<and> sel = Cancelled then [()] else []
      | NotifierTurn j sel order \<Rightarrow>
          if k = 3 + j \<and> j < length notifier_topics \<and> sel = Cancelled \<and> range_order order (nt_clients (sy_notifier s)) then [()] else []
      | _ \<Rightarrow> [])"

definition poller_cancelled :: "'d system \<Rightarrow> 'd system_op \<Rightarrow> unit list" where
  "poller_cancelled s e = (if e = PollerTurn PollCancelled then [()] else [])"

text \<open>How many such turns a loop is away from its return: one to subscribe, one to return.\<close>

definition turns_left :: "loop \<Rightarrow> nat" where
  "turns_left l = (case l of NotStarted \<Rightarrow> 2 | Running sub \<Rightarrow> 1 | Returned \<Rightarrow> 0)"

definition polls_left :: "poll_state \<Rightarrow> nat" where
  "polls_left st = (case st of PollNotStarted \<Rightarrow> 2 | PollRunning \<Rightarrow> 1 | PollReturned \<Rightarrow> 0)"

lemma loop_select_left:
  "loop_select t sel l b = Inr (ev, l', b') \<Longrightarrow>
     turns_left l' \<le> turns_left l - (if sel = Cancelled then 1 else 0)"
  by (cases l; cases sel) (auto simp: loop_select_def turns_left_def Let_def split: sum.splits prod.splits received.splits)

lemma loops_left:
  "Run_executor e sel now rand l w = Inr (l', w') \<Longrightarrow> turns_left l' \<le> turns_left l - (if sel = Cancelled then 1 else 0)"
  "Run_monitor pd sel l m w = Inr (l', m', w') \<Longrightarrow> turns_left l' \<le> turns_left l - (if sel = Cancelled then 1 else 0)"
  "Run_rollback docker sel now l w = Inr (l', w') \<Longrightarrow> turns_left l' \<le> turns_left l - (if sel = Cancelled then 1 else 0)"
  "runTopic marshal t sel order l n b = Inr (l', n', b') \<Longrightarrow> turns_left l' \<le> turns_left l - (if sel = Cancelled then 1 else 0)"
  unfolding Run_executor_def Run_monitor_def Run_rollback_def runTopic_def Let_def
  by (auto dest: loop_select_left split: sum.splits prod.splits option.splits payload.splits)

lemma left_update:
  assumes "turns_left l' \<le> turns_left (ls ! j) - c" "j < length ls"
  shows "turns_left (ls[j := l'] ! k) \<le> turns_left (ls ! k) - (if k = j then c else 0)"
  using assms by (cases "k = j") auto

lemma step_left:
  assumes "system_step h s e = Inr s'" "length (sy_loops s) = 8"
  shows "length (sy_loops s') = 8"
    "turns_left (sy_loops s' ! k) \<le> turns_left (sy_loops s ! k) - length (cancelled_turns k s e)"
    "polls_left (sy_polling s') \<le> polls_left (sy_polling s) - length (poller_cancelled s e)"
proof -
  have n: "length notifier_topics = 5" by (simp add: notifier_topics_def)
  show "length (sy_loops s') = 8"
    using assms by (cases e) (auto simp: system_step_def on_world_def Let_def split: sum.splits prod.splits if_splits option.splits)
  show "polls_left (sy_polling s') \<le> polls_left (sy_polling s) - length (poller_cancelled s e)"
    using assms
    by (cases e) (auto simp: system_step_def on_world_def poller_cancelled_def Run_poller_def polls_left_def Let_def
        split: sum.splits prod.splits if_splits option.splits poll_state.splits poll_case.splits)
  show "turns_left (sy_loops s' ! k) \<le> turns_left (sy_loops s ! k) - length (cancelled_turns k s e)"
  proof (cases e)
    case (ExecutorTurn sel now rand)
    then obtain l w where r: "Run_executor (sr_executor (ho_server h)) sel now rand (sy_loops s ! 0) (sy_world s) = Inr (l, w)"
      "sy_loops s' = (sy_loops s)[0 := l]"
      using assms(1) by (auto simp: system_step_def Let_def split: sum.splits prod.splits)
    with left_update [OF loops_left(1) [OF r(1)], where k = k] r(2) assms(2) ExecutorTurn show ?thesis
      by (auto simp: cancelled_turns_def)
  next
    case (MonitorTurn sel)
    then obtain l m w where r: "Run_monitor (ho_parseDuration h) sel (sy_loops s ! 1) (sy_monitor s) (sy_world s) = Inr (l, m, w)"
      "sy_loops s' = (sy_loops s)[1 := l]"
      using assms(1) by (auto simp: system_step_def Let_def split: sum.splits prod.splits)
    with left_update [OF loops_left(2) [OF r(1)], where k = k] r(2) assms(2) MonitorTurn show ?thesis
      by (auto simp: cancelled_turns_def)
  next
    case (RollbackTurn sel now)
    then obtain l w where r: "Run_rollback (sr_docker (ho_server h)) sel now (sy_loops s ! 2) (sy_world s) = Inr (l, w)"
      "sy_loops s' = (sy_loops s)[2 := l]"
      using assms(1) by (auto simp: system_step_def Let_def split: sum.splits prod.splits)
    with left_update [OF loops_left(3) [OF r(1)], where k = k] r(2) assms(2) RollbackTurn show ?thesis
      by (auto simp: cancelled_turns_def)
  next
    case (NotifierTurn j sel order)
    show ?thesis
    proof (cases "j < 5 \<and> range_order order (nt_clients (sy_notifier s))")
      case True
      then obtain l m b where r: "runTopic (ho_marshal h) (notifier_topics ! j) sel order (sy_loops s ! (3 + j)) (sy_notifier s)
          (w_bus (sy_world s)) = Inr (l, m, b)" "sy_loops s' = (sy_loops s)[3 + j := l]"
        using assms(1) n NotifierTurn by (auto simp: system_step_def Let_def split: sum.splits prod.splits)
      with left_update [OF loops_left(4) [OF r(1)], where k = k] r(2) assms(2) NotifierTurn True show ?thesis
        by (auto simp: cancelled_turns_def)
    next
      case False
      with assms n NotifierTurn show ?thesis by (auto simp: system_step_def cancelled_turns_def)
    qed
  qed (use assms(1) in \<open>auto simp: system_step_def on_world_def cancelled_turns_def Let_def
      split: sum.splits prod.splits if_splits option.splits\<close>)
qed

lemma run_left:
  assumes "run_steps (system_step h) s steps = Inr s'" "length (sy_loops s) = 8"
  shows "length (sy_loops s') = 8 \<and>
    turns_left (sy_loops s' ! k) \<le> turns_left (sy_loops s ! k) - length (observe (cancelled_turns k) (system_step h) s steps) \<and>
    polls_left (sy_polling s') \<le> polls_left (sy_polling s) - length (observe poller_cancelled (system_step h) s steps)"
  using assms
proof (induction steps arbitrary: s)
  case (Cons e es)
  obtain s1 where s1: "system_step h s e = Inr s1" "run_steps (system_step h) s1 es = Inr s'"
    using Cons.prems(1) by (rule run_steps_ConsE)
  note l = step_left [OF s1(1) Cons.prems(2)]
  from Cons.IH [OF s1(2) l(1)] l(2) [of k] l(3) show ?case by (simp add: s1(1)) arith
qed simp

lemma turns_left_0: "turns_left l = 0 \<longleftrightarrow> l = Returned"
  by (simp add: turns_left_def split: loop.split)

lemma polls_left_0: "polls_left st = 0 \<longleftrightarrow> st = PollReturned"
  by (simp add: polls_left_def split: poll_state.split)

text \<open>After its return a loop takes no further turns.\<close>

definition stopped :: "'d system \<Rightarrow> bool" where
  "stopped s \<longleftrightarrow> sy_loops s = replicate 8 Returned \<and> sy_polling s = PollReturned"

lemma stopped_turns:
  assumes "stopped s"
  shows "system_step h s (ExecutorTurn sel now rand) = Inr s" "system_step h s (MonitorTurn sel) = Inr s"
    "system_step h s (RollbackTurn sel now) = Inr s" "system_step h s (NotifierTurn j sel order) = Inr s"
    "system_step h s (PollerTurn c) = Inr s"
proof -
  have l: "sy_loops s = replicate 8 Returned" "sy_polling s = PollReturned" using assms by (simp_all add: stopped_def)
  have u: "(replicate 8 Returned)[k := Returned] = replicate 8 Returned" for k by (metis list_update_id list_update_beyond not_le nth_replicate length_replicate)
  have n: "length notifier_topics = 5" by (simp add: notifier_topics_def)
  have s: "s\<lparr>sy_world := sy_world s, sy_loops := replicate 8 Returned\<rparr> = s" "(sy_world s)\<lparr>w_bus := w_bus (sy_world s)\<rparr> = sy_world s"
    by (simp_all flip: l(1))
  show "system_step h s (ExecutorTurn sel now rand) = Inr s" "system_step h s (MonitorTurn sel) = Inr s"
    "system_step h s (RollbackTurn sel now) = Inr s" "system_step h s (NotifierTurn j sel order) = Inr s"
    "system_step h s (PollerTurn c) = Inr s"
    using s by (simp_all add: system_step_def l u n Run_executor_def Run_monitor_def Run_rollback_def runTopic_def Run_poller_def
        loop_select_def Let_def)
qed

text \<open>What can go wrong meanwhile.\<close>

lemma run_steps_InlE:
  assumes "run_steps step s es = Inl x"
  obtains es1 e es2 s1 where "es = es1 @ e # es2" "run_steps step s es1 = Inr s1" "step s1 e = Inl x"
  using assms
proof (induction es arbitrary: s thesis)
  case (Cons e es)
  show ?case
  proof (cases "step s e")
    case (Inl y)
    with Cons.prems(2) show ?thesis by (intro Cons.prems(1) [of "[]" e es s]) simp_all
  next
    case (Inr s')
    with Cons.prems(2) have "run_steps step s' es = Inl x" by simp
    from this show ?thesis
    proof (rule Cons.IH [rotated])
      fix es1 f es2 s1 assume "es = es1 @ f # es2" "run_steps step s' es1 = Inr s1" "step s1 f = Inl x"
      with Inr show ?thesis by (intro Cons.prems(1) [of "e # es1" f es2 s1]) simp_all
    qed
  qed
qed simp

lemma shutdown_panics:
  assumes "system_inv s \<and> system_clean (\<lambda>d. 16 \<le> length d) True s" and "\<forall>e \<in> set steps. brings (\<lambda>d. 16 \<le> length d) h e"
    and "run_steps (system_step h) s steps = Inl x"
  shows "x = SendOnClosedChannel \<and>
    (\<exists>before k again rest s1. steps = before @ SendHappens k again # rest \<and> (\<exists>e \<in> set before. stops e) \<and>
       run_steps (system_step h) s before = Inr s1 \<and> k < length (sy_late s1) \<and>
       ch_closed (bs_chans (w_bus (sy_world s1)) (fst (sy_late s1 ! k))))"
proof -
  let ?good = "\<lambda>d. 16 \<le> length (d :: string)"
  obtain before e rest s1 where st: "steps = before @ e # rest" "run_steps (system_step h) s before = Inr s1"
    "system_step h s1 e = Inl x" using assms(3) by (rule run_steps_InlE)
  have "system_inv s \<and> system_clean ?good False s" using assms(1)
    by (simp add: system_clean_def clean_def flows_def bus_clean_def)
  from digests.flow_run [OF this, of before h] st(1,2) assms(2) have i: "system_inv s1" "system_clean ?good False s1" by simp_all
  have c: "sends_closed s1 e"
  proof (rule ccontr)
    assume "\<not> sends_closed s1 e"
    from system_step_sound [OF i _ _ this, of h] st assms(2) show False by (auto simp: sound_def)
  qed
  have "\<exists>e \<in> set before. stops e"
  proof (rule ccontr)
    assume "\<not> ?thesis"
    then have "\<forall>e \<in> set before. brings ?good h e \<and> (True \<longrightarrow> \<not> stops e)" using st(1) assms(2) by auto
    from digests.flow_run [OF assms(1) this] st(2) have "system_clean ?good True s1" by simp
    from sends_closed_down [OF c this] show False by simp
  qed
  moreover from c st(1) obtain k again where "steps = before @ SendHappens k again # rest" "k < length (sy_late s1)"
    "ch_closed (bs_chans (w_bus (sy_world s1)) (fst (sy_late s1 ! k)))" by (auto simp: sends_closed_def)
  moreover have "x = SendOnClosedChannel" using sends_closed_panics [OF c, of h] st(3) by simp
  ultimately show ?thesis using st(2) by blast
qed

section \<open>Properties\<close>


text \<open>Everything starts, and is cancelled at once.\<close>

definition demo_stop :: "demo_daemon system_op list" where
  "demo_stop = concat (replicate 2 ([ExecutorTurn Cancelled (\<lambda>_. 1) [], MonitorTurn Cancelled, RollbackTurn Cancelled (\<lambda>_. 1),
     PollerTurn PollCancelled] @ map (\<lambda>j. NotifierTurn j Cancelled []) [0..<5]))"

text \<open>While no browser is connected, the turns in a run can be read off its steps.\<close>

lemma cancelled_count:
  assumes "run_steps (system_step h) s steps = Inr s'" "\<forall>e \<in> set steps. inside e" "nt_clients (sy_notifier s) = fmempty"
  shows "observe (cancelled_turns k) (system_step h) s steps = concat (map (cancelled_turns k s) steps)"
proof -
  have "observe (cancelled_turns k) (system_step h) q steps = concat (map (cancelled_turns k s) steps)"
    if "run_steps (system_step h) q steps = Inr s'" "nt_clients (sy_notifier q) = fmempty" for q
    using that assms(2)
  proof (induction steps arbitrary: q)
    case (Cons e es)
    obtain q1 where q1: "system_step h q e = Inr q1" "run_steps (system_step h) q1 es = Inr s'"
      using Cons.prems(1) by (rule run_steps_ConsE)
    have "cancelled_turns k q e = cancelled_turns k s e"
      using Cons.prems(2) assms(3) by (simp add: cancelled_turns_def split: system_op.split)
    moreover have "nt_clients (sy_notifier q1) = fmempty"
      using inside_clients [OF _ q1(1)] Cons.prems(2,3) by simp
    ultimately show ?case using Cons.IH [OF q1(2)] Cons.prems(3) q1(1) by simp
  qed simp
  from this [OF assms(1,3)] show ?thesis .
qed

lemma poller_count:
  "run_steps (system_step h) s steps = Inr s' \<Longrightarrow>
     observe poller_cancelled (system_step h) s steps = concat (map (poller_cancelled s) steps)"
proof (induction steps arbitrary: s)
  case (Cons e es)
  obtain q where q: "system_step h s e = Inr q" "run_steps (system_step h) q es = Inr s'"
    using Cons.prems by (rule run_steps_ConsE)
  have "poller_cancelled q = poller_cancelled s" by (simp add: fun_eq_iff poller_cancelled_def)
  with Cons.IH [OF q(2)] q(1) show ?case by simp
qed simp

lemma demo_stop_eq: "demo_stop = (let turns = [ExecutorTurn Cancelled (\<lambda>_. 1) [], MonitorTurn Cancelled, RollbackTurn Cancelled (\<lambda>_. 1),
     PollerTurn PollCancelled, NotifierTurn 0 Cancelled [], NotifierTurn 1 Cancelled [], NotifierTurn 2 Cancelled [],
     NotifierTurn 3 Cancelled [], NotifierTurn 4 Cancelled []] in turns @ turns)"
  by (simp add: demo_stop_def eval_nat_numeral)


end
