(* ===== verification/Agent.thy ===== *)
theory Agent
  imports Agent_Server
begin

text \<open>
  The agent program, \<open>cmd/agent/main.go\<close>: the reconnect loop, a session, and the execution of a
  command with its output streamed line by line.  The connection, the child process and the JSON
  decoders are arguments: a session is given what dialling and registering answer and the frames
  it reads before a read fails; a child process the chunks it writes and the error it ends with.
  Write errors on the connection are ignored by the code.
\<close>

section \<open>Commands\<close>

definition buildArgs :: "command_msg \<Rightarrow> error + string list" where
  "buildArgs cmd =
     (if cm_Action cmd = ''update'' then
        (if cm_Service cmd = [] then Inl ''service is required for update''
         else Inr [''sh'', ''-c'',
           ''docker compose pull '' @ cm_Service cmd @ '' && docker compose up -d --no-deps '' @ cm_Service cmd])
      else if cm_Action cmd = ''rollback'' then
        (if cm_Service cmd = [] then Inl ''service is required for rollback''
         else Inr [''docker'', ''compose'', ''up'', ''-d'', ''--no-deps'', cm_Service cmd])
      else Inl (''unknown action: '' @ cm_Action cmd))"

text \<open>\<open>strings.TrimRight\<close> with one character.\<close>

definition TrimRight1 :: "string \<Rightarrow> char \<Rightarrow> string" where
  "TrimRight1 s c = rev (dropWhile (\<lambda>x. x = c) (rev s))"

abbreviation newline :: char where "newline \<equiv> CHR 0x0A"
abbreviation carriage_return :: char where "carriage_return \<equiv> CHR 0x0D"

definition output_line :: "string \<Rightarrow> string \<Rightarrow> output_msg" where
  "output_line i line = \<lparr>om_Type = TypeOutput, om_ID = i, om_Line = TrimRight1 line carriage_return\<rparr>"

text \<open>The loop of \<open>Write\<close> over the buffer: the messages it sends and what stays in the buffer.\<close>

function line_loop :: "string \<Rightarrow> string \<Rightarrow> output_msg list \<times> string" where
  "line_loop i buf =
     (let (line, rest, found) = Cut buf newline in
      if \<not> found then ([], buf)
      else let (msgs, buf) = line_loop i rest in (output_line i line # msgs, buf))"
  by pat_completeness auto
termination
proof (relation "measure (\<lambda>(i, buf). length buf)")
  fix i buf :: string and x line y rest found
  assume a: "x = Cut buf newline" "(line, y) = x" "(rest, found) = y" "\<not> \<not> found"
  then have "newline \<in> set buf" "rest = tl (dropWhile (\<lambda>c. c \<noteq> newline) buf)"
    by (auto simp: Cut_def split: if_splits)
  then obtain u v where "buf = u @ newline # v" "newline \<notin> set u" by (meson split_list_first)
  with a show "((i, rest), (i, buf)) \<in> measure (\<lambda>(i, buf). length buf)"
    by (auto simp: Cut_append)
qed simp

declare line_loop.simps [simp del]

definition write_chunk :: "string \<Rightarrow> string \<Rightarrow> string \<Rightarrow> output_msg list \<times> string" where
  "write_chunk i chunk buf = line_loop i (buf @ chunk)"

fun write_chunks :: "string \<Rightarrow> string list \<Rightarrow> string \<Rightarrow> output_msg list \<times> string" where
  "write_chunks i [] buf = ([], buf)"
| "write_chunks i (p # ps) buf =
     (let (msgs, buf) = write_chunk i p buf; (more, buf) = write_chunks i ps buf in (msgs @ more, buf))"

datatype agent_msg =
    SendRegister register_msg
  | SendPong bare_msg
  | SendOutput output_msg
  | SendDone done_msg

text \<open>\<open>run\<close> is the child process: the chunks it writes and how it ends.\<close>

definition handleCommand ::
  "(string list \<Rightarrow> string list \<times> error option) \<Rightarrow> command_msg \<Rightarrow> agent_msg list" where
  "handleCommand run cmd =
     (case buildArgs cmd of
        Inl err \<Rightarrow>
          [SendDone \<lparr>dm_Type = TypeDone, dm_ID = cm_ID cmd, dm_ExitCode = 1, dm_Error = err\<rparr>]
      | Inr args \<Rightarrow>
          let (chunks, err) = run args;
              (msgs, _) = write_chunks (cm_ID cmd) chunks []
          in map SendOutput msgs @
             [SendDone (case err of
                None \<Rightarrow> \<lparr>dm_Type = TypeDone, dm_ID = cm_ID cmd, dm_ExitCode = 0, dm_Error = []\<rparr>
              | Some e \<Rightarrow> \<lparr>dm_Type = TypeDone, dm_ID = cm_ID cmd, dm_ExitCode = 1, dm_Error = e\<rparr>)])"

section \<open>A session\<close>

text \<open>
  The message loop: the pongs it sends, the commands it starts (each in a goroutine of its own), and
  the error of the read that ends it.
\<close>

fun session_loop :: "agent_codec \<Rightarrow> string list \<Rightarrow> error \<Rightarrow> agent_msg list \<times> command_msg list \<times> error" where
  "session_loop cd [] read_error = ([], [], ''read: '' @ read_error)"
| "session_loop cd (raw # raws) read_error =
     (let (sent, started, err) = session_loop cd raws read_error in
      case cd_type cd raw of
        None \<Rightarrow> (sent, started, err)
      | Some t \<Rightarrow>
          if t = TypePing then (SendPong \<lparr>bm_Type = TypePong\<rparr> # sent, started, err)
          else if t = TypeCommand then
            (case cd_command cd raw of
               None \<Rightarrow> (sent, started, err)
             | Some cmd \<Rightarrow> (sent, cmd # started, err))
          else (sent, started, err))"

definition runSession ::
  "agent_codec \<Rightarrow> string \<Rightarrow> string \<Rightarrow> error option \<Rightarrow> error option \<Rightarrow> string list \<Rightarrow> error \<Rightarrow>
     agent_msg list \<times> command_msg list \<times> error option" where
  "runSession cd token hostname dial register raws read_error =
     (case dial of
        Some e \<Rightarrow> ([], [], Some (''dial: '' @ e))
      | None \<Rightarrow>
          let reg = \<lparr>rm_Type = TypeRegister, rm_Hostname = hostname, rm_Token = token\<rparr> in
          (case register of
             Some e \<Rightarrow> ([], [], Some (''register: '' @ e))
           | None \<Rightarrow>
               let (sent, started, err) = session_loop cd raws read_error in
               (SendRegister reg # sent, started, Some err)))"

text \<open>
  The reconnect loop, over the results of successive sessions and whether the context has been
  cancelled when each ends (\<open>ctx.Err()\<close>) or during the wait after it: the waits it makes.
\<close>

fun reconnect :: "int \<Rightarrow> (error option \<times> bool \<times> bool) list \<Rightarrow> int list" where
  "reconnect backoff [] = []"
| "reconnect backoff ((result, cancelled, cancelled_wait) # sessions) =
     (case result of
        Some err \<Rightarrow>
          if cancelled then []
          else if cancelled_wait then [backoff]
          else backoff # reconnect (if backoff < 60 * second_ns then backoff * 2 else backoff) sessions
      | None \<Rightarrow> reconnect (2 * second_ns) sessions)"

definition agent_main :: "(error option \<times> bool \<times> bool) list \<Rightarrow> int list" where
  "agent_main sessions = reconnect (2 * second_ns) sessions"

text \<open>The program: without the controller's address it exits, with the text it has printed.\<close>

definition mustEnv :: "(string, string) fmap \<Rightarrow> string \<Rightarrow> error + string" where
  "mustEnv env key =
     (let v = map_get env key in
      if v = [] then Inl (''fatal: '' @ key @ '' is required'' @ [newline]) else Inr v)"

definition agent_program :: "(string, string) fmap \<Rightarrow> (error option \<times> bool \<times> bool) list \<Rightarrow> error + int list" where
  "agent_program env sessions =
     map_sum id (\<lambda>controllerURL. agent_main sessions) (mustEnv env ''DOCKWATCH_CONTROLLER_URL'')"

lemma agent_program_exits:
  "agent_program env sessions = Inl e \<longleftrightarrow>
     map_get env ''DOCKWATCH_CONTROLLER_URL'' = [] \<and> e = ''fatal: DOCKWATCH_CONTROLLER_URL is required'' @ [newline]"
  by (auto simp: agent_program_def mustEnv_def Let_def)

section \<open>Lines\<close>

lemma line_loop_none: "newline \<notin> set buf \<Longrightarrow> line_loop i buf = ([], buf)"
  by (subst line_loop.simps) simp

lemma line_loop_line: "newline \<notin> set line \<Longrightarrow>
  line_loop i (line @ newline # rest) =
    (output_line i line # fst (line_loop i rest), snd (line_loop i rest))"
  by (subst line_loop.simps) (simp add: Cut_append split: prod.splits)

lemma Split_snoc: "Split s c \<noteq> [] \<Longrightarrow> c \<notin> set a \<Longrightarrow> Split (a @ c # s) c = a # Split s c"
  by (induction a) (auto split: list.splits)

lemma Split_no: "c \<notin> set a \<Longrightarrow> Split a c = [a]"
  by (induction a) auto

text \<open>The loop sends the complete lines and keeps the rest.\<close>

lemma line_loop_Split:
  "line_loop i buf = (map (output_line i) (butlast (Split buf newline)), last (Split buf newline))"
proof (induction "length buf" arbitrary: buf rule: less_induct)
  case less
  show ?case
  proof (cases "newline \<in> set buf")
    case True
    then obtain u v where b: "buf = u @ newline # v" "newline \<notin> set u" by (meson split_list_first)
    have "Split buf newline = u # Split v newline" using b Split_snoc by simp
    moreover have "line_loop i v = (map (output_line i) (butlast (Split v newline)), last (Split v newline))"
      using less b(1) by simp
    ultimately show ?thesis using b line_loop_line [of u i v] by simp
  qed (simp add: line_loop_none Split_no)
qed

text \<open>Splitting a text piece by piece.\<close>

lemma Split_concat: "Split (a @ b) c = butlast (Split a c) @ Split (last (Split a c) @ b) c"
proof (induction "length a" arbitrary: a rule: less_induct)
  case less
  show ?case
  proof (cases "c \<in> set a")
    case True
    then obtain u v where a: "a = u @ c # v" "c \<notin> set u" by (meson split_list_first)
    then have "Split (v @ b) c = butlast (Split v c) @ Split (last (Split v c) @ b) c" using less by simp
    with a show ?thesis by (simp add: Split_snoc)
  qed (simp add: Split_no)
qed

lemma write_chunks_Split:
  assumes "newline \<notin> set buf"
  shows "write_chunks i ps buf =
    (map (output_line i) (butlast (Split (buf @ concat ps) newline)), last (Split (buf @ concat ps) newline))"
  using assms
proof (induction ps arbitrary: buf)
  case (Cons p ps)
  let ?S = "Split (buf @ p) newline"
  have l: "newline \<notin> set (last ?S)" using Split_no_sep [of "last ?S" "buf @ p" newline] by simp
  have "Split (buf @ p @ concat ps) newline = butlast ?S @ Split (last ?S @ concat ps) newline"
    using Split_concat [of "buf @ p" "concat ps"] by simp
  with Cons.IH [OF l] show ?case
    by (simp add: write_chunk_def line_loop_Split butlast_append)
qed (simp add: Split_no)

lemma session_loop_error: "snd (snd (session_loop cd raws e)) = ''read: '' @ e"
  by (induction cd raws e rule: session_loop.induct) (auto split: prod.splits option.splits)

section \<open>Properties\<close>

text \<open>C38: What a command's output looks like to the controller does not depend on how the child process
  happened to write it: for any chunks, exactly the complete lines of the whole output are sent, in
  order, without trailing carriage returns and before the final message.  A last line without a
  newline is never sent.\<close>

theorem output_independent_of_chunks:
  assumes "buildArgs cmd = Inr args" and "run args = (chunks, err)"
  shows "\<exists>fin. handleCommand run cmd =
      map (\<lambda>line. SendOutput (output_line (cm_ID cmd) line)) (butlast (Split (concat chunks) newline)) @ [SendDone fin] \<and>
    dm_ID fin = cm_ID cmd \<and> (dm_ExitCode fin = 0 \<longleftrightarrow> err = None) \<and>
    (\<forall>run'. run' args = ([concat chunks], err) \<longrightarrow> handleCommand run' cmd = handleCommand run cmd)"
  using assms by (auto simp: handleCommand_def write_chunks_Split split: option.split)

definition demo_run :: "string list \<Rightarrow> string list \<times> error option" where
  "demo_run args = ([''Pul'', ''ling'' @ [carriage_return, newline] @ ''Do'', ''ne''], None)"

theorem output_independent_of_chunks_witness:
  "\<exists>fin. handleCommand demo_run (demo_command ''c1'') =
     [SendOutput (output_line ''c1'' (''Pulling'' @ [carriage_return])), SendDone fin] \<and> dm_ExitCode fin = 0"
proof -
  have "\<exists>args. buildArgs (demo_command ''c1'') = Inr args"
    by (simp add: buildArgs_def demo_command_def)
  then obtain args where a: "buildArgs (demo_command ''c1'') = Inr args" ..
  from output_independent_of_chunks [where run = demo_run, OF a demo_run_def] show ?thesis
    by (auto simp: demo_command_def)
qed

text \<open>The agent waits 2, 4, 8, 16, 32 and then 64 seconds between its attempts to connect, never more,
  and the waits depend on nothing but the number of attempts: a session always ends with an error,
  also after it has served the controller for days, so the backoff is never reset.\<close>

theorem agent_backoff:
  assumes "\<forall>s \<in> set sessions. \<exists>cd token hostname dial register raws e.
    s = (snd (snd (runSession cd token hostname dial register raws e)), False, False)"
  shows "agent_main sessions = map (\<lambda>k. 2 * second_ns * 2 ^ min k 5) [0..<length sessions]"
proof -
  have err: "snd (snd (runSession cd token hostname dial register raws e)) \<noteq> None" for cd token hostname dial register raws e
    by (auto simp: runSession_def Let_def split: option.splits prod.splits)
  have "reconnect (2 * second_ns * 2 ^ min n 5) sessions =
      map (\<lambda>k. 2 * second_ns * 2 ^ min k 5) [n..<n + length sessions]" for n
    using assms
  proof (induction sessions arbitrary: n)
    case (Cons s sessions)
    obtain x where s: "s = (Some x, False, False)" using Cons.prems err by fastforce
    have "(2 :: int) ^ min n 5 < 30 \<longleftrightarrow> n < 5"
    proof (cases "n < 5")
      case True
      then have "n \<in> {0, 1, 2, 3, 4}" by auto
      then show ?thesis by auto
    qed simp
    then have step: "(if 2 * second_ns * 2 ^ min n 5 < 60 * second_ns then 2 * second_ns * 2 ^ min n 5 * 2
        else 2 * second_ns * 2 ^ min n 5) = 2 * second_ns * 2 ^ min (Suc n) 5"
      by (auto simp: second_ns_def min_def)
    have "reconnect (2 * second_ns * 2 ^ min n 5) (s # sessions) =
        2 * second_ns * 2 ^ min n 5 # reconnect (2 * second_ns * 2 ^ min (Suc n) 5) sessions"
      unfolding s reconnect.simps by (simp only: option.case if_False step)
    also have "reconnect (2 * second_ns * 2 ^ min (Suc n) 5) sessions =
        map (\<lambda>k. 2 * second_ns * 2 ^ min k 5) [Suc n..<Suc n + length sessions]"
      by (rule Cons.IH) (use Cons.prems in simp)
    finally have r: "reconnect (2 * second_ns * 2 ^ min n 5) (s # sessions) =
        map (\<lambda>k. 2 * second_ns * 2 ^ min k 5) (n # [Suc n..<Suc n + length sessions])"
      by simp
    have "[n..<n + length (s # sessions)] = n # [Suc n..<Suc n + length sessions]"
      by (subst upt_rec) simp
    with r show ?case by (simp only:)
  qed simp
  from this [of 0] show ?thesis by (simp add: agent_main_def)
qed

definition demo_codec :: agent_codec where
  "demo_codec = \<lparr>cd_type = (\<lambda>_. Some TypePing), cd_output = (\<lambda>_. None), cd_done = (\<lambda>_. None), cd_command = (\<lambda>_. None)\<rparr>"

theorem agent_backoff_witness:
  "agent_main (replicate 7 (snd (snd (runSession demo_codec ''t'' ''host'' None None [''{}''] ''EOF'')), False, False)) =
     map (\<lambda>s. s * second_ns) [2, 4, 8, 16, 32, 64, 64]"
proof -
  let ?s = "(snd (snd (runSession demo_codec ''t'' ''host'' None None [''{}''] ''EOF'')), False, False)"
  have "agent_main (replicate 7 ?s) = map (\<lambda>k. 2 * second_ns * 2 ^ min k 5) [0..<length (replicate 7 ?s)]"
    by (rule agent_backoff) (simp, blast)
  also have "[0..<length (replicate 7 ?s)] = [0, 1, 2, 3, 4, 5, 6]" by (simp add: upt_rec)
  finally show ?thesis by simp
qed

end
