(* ===== verification/Fleet.thy ===== *)
theory Fleet
  imports Agent "HOL-Library.Sublist"
begin

text \<open>
  The controller and an agent over one connection: the hub with its write and read loops
  (\<open>internal/agentserver/server.go\<close>), the websocket as two queues of encoded messages, and the agent's
  session with a goroutine for every command (\<open>cmd/agent/main.go\<close>).  A goroutine's messages are written one
  at a time, so those of concurrent commands interleave on the wire.
\<close>

section \<open>The connection\<close>

text \<open>Encoders and decoders (\<open>wsjson\<close>).\<close>

record wire =
  wi_codec :: agent_codec
  wi_frame :: "frame \<Rightarrow> string"
  wi_msg :: "agent_msg \<Rightarrow> string"

text \<open>Under way to the agent and to the controller, the goroutines with the messages they have still to
  send, and what the controller has logged.\<close>

record link =
  lk_hub :: agent_hub
  lk_down :: "string list"
  lk_handlers :: "(string \<times> agent_msg list) list"
  lk_up :: "string list"
  lk_log :: "agent_log list"

datatype link_op = AtHub hub_op | AgentReads | HandlerSends nat | ControllerReads

definition on_wire :: "addr \<Rightarrow> agent_hub \<Rightarrow> hub_op \<Rightarrow> frame list" where
  "on_wire a h op =
     (case op of
        Written b ev \<Rightarrow> if b = a then fst (write_step ev (ac_send (ah_heap h a))) else []
      | _ \<Rightarrow> [])"

definition link_step ::
  "wire \<Rightarrow> (command_msg \<Rightarrow> string list \<Rightarrow> string list \<times> error option) \<Rightarrow> string \<Rightarrow> addr \<Rightarrow> link \<Rightarrow> link_op \<Rightarrow>
     panic + link" where
  "link_step W proc host a s e =
     (case e of
        AtHub op \<Rightarrow>
          (case hub_step (lk_hub s) op of
             Inl x \<Rightarrow> Inl x
           | Inr h \<Rightarrow> Inr (s\<lparr>lk_hub := h, lk_down := lk_down s @ map (wi_frame W) (on_wire a (lk_hub s) op)\<rparr>))
      | AgentReads \<Rightarrow>
          (case lk_down s of
             [] \<Rightarrow> Inr s
           | raw # raws \<Rightarrow>
               let (sent, started, _) = session_loop (wi_codec W) [raw] [] in
               Inr (s\<lparr>lk_down := raws,
                     lk_handlers := lk_handlers s @ map (\<lambda>c. (cm_ID c, handleCommand (proc c) c)) started,
                     lk_up := lk_up s @ map (wi_msg W) sent\<rparr>))
      | HandlerSends k \<Rightarrow>
          if k < length (lk_handlers s) then
            (case lk_handlers s ! k of
               (i, []) \<Rightarrow> Inr s
             | (i, m # ms) \<Rightarrow> Inr (s\<lparr>lk_handlers := (lk_handlers s)[k := (i, ms)], lk_up := lk_up s @ [wi_msg W m]\<rparr>))
          else Inr s
      | ControllerReads \<Rightarrow>
          (case lk_up s of
             [] \<Rightarrow> Inr s
           | raw # raws \<Rightarrow> Inr (s\<lparr>lk_up := raws, lk_log := lk_log s @ readLoop (wi_codec W) host [raw]\<rparr>)))"

definition dispatched :: "addr \<Rightarrow> link \<Rightarrow> link_op \<Rightarrow> command_msg list" where
  "dispatched a s e = (case e of AtHub op \<Rightarrow> accepted a (lk_hub s) op | _ \<Rightarrow> [])"

lemma link_step_safe:
  "hub_inv (lk_hub s) \<Longrightarrow> \<exists>s'. link_step W proc host a s e = Inr s' \<and> hub_inv (lk_hub s')"
proof (cases e)
  case (AtHub op)
  assume "hub_inv (lk_hub s)"
  with AtHub hub_step_safe [of "lk_hub s" op] show ?thesis by (auto simp: link_step_def)
qed (auto simp: link_step_def split: list.split prod.split)

interpretation link: safe_machine "link_step W proc host a" "\<lambda>s. hub_inv (lk_hub s)" for W proc host a
  by unfold_locales (rule link_step_safe)

section \<open>Reports\<close>

text \<open>What the controller should log for a message, and for a command.\<close>

fun logged :: "string \<Rightarrow> agent_msg \<Rightarrow> agent_log list" where
  "logged host (SendOutput m) = [OutputLog host (om_ID m) (om_Line m)]"
| "logged host (SendDone m) = [DoneLog host (dm_ID m) (dm_ExitCode m) (dm_Error m)]"
| "logged host _ = []"

fun log_id :: "agent_log \<Rightarrow> string" where
  "log_id (OutputLog host i line) = i"
| "log_id (DoneLog host i code err) = i"

definition logs :: "string \<Rightarrow> agent_msg list \<Rightarrow> agent_log list" where
  "logs host ms = concat (map (logged host) ms)"

definition about :: "string \<Rightarrow> agent_log list \<Rightarrow> agent_log list" where
  "about i ls = filter (\<lambda>l. log_id l = i) ls"

definition report :: "string \<Rightarrow> (string list \<Rightarrow> string list \<times> error option) \<Rightarrow> command_msg \<Rightarrow> agent_log list" where
  "report host run c = logs host (handleCommand run c)"

text \<open>The wire keeps the messages that are sent on it.\<close>

definition wire_keeps :: "wire \<Rightarrow> (command_msg \<Rightarrow> string list \<Rightarrow> string list \<times> error option) \<Rightarrow> command_msg set \<Rightarrow> bool" where
  "wire_keeps W proc C \<longleftrightarrow>
     (\<forall>b. cd_type (wi_codec W) (wi_frame W (PingFrame b)) = Some (bm_Type b)) \<and>
     (\<forall>b. cd_type (wi_codec W) (wi_msg W (SendPong b)) = Some (bm_Type b)) \<and>
     (\<forall>c \<in> C. cd_type (wi_codec W) (wi_frame W (CommandFrame c)) = Some (cm_Type c) \<and>
        cd_command (wi_codec W) (wi_frame W (CommandFrame c)) = Some c) \<and>
     (\<forall>c \<in> C. \<forall>m \<in> set (handleCommand (proc c) c). case m of
        SendOutput x \<Rightarrow> cd_type (wi_codec W) (wi_msg W m) = Some (om_Type x) \<and> cd_output (wi_codec W) (wi_msg W m) = Some x
      | SendDone x \<Rightarrow> cd_type (wi_codec W) (wi_msg W m) = Some (dm_Type x) \<and> cd_done (wi_codec W) (wi_msg W m) = Some x
      | _ \<Rightarrow> True)"

lemma logs_simps [simp]:
  "logs host [] = []" "logs host (m # ms) = logged host m @ logs host ms" "logs host (ms @ ms') = logs host ms @ logs host ms'"
  by (simp_all add: logs_def)

lemma about_simps [simp]:
  "about i [] = []" "about i (ls @ ls') = about i ls @ about i ls'"
  by (simp_all add: about_def)

lemma about_other: "\<forall>l \<in> set ls. log_id l \<noteq> i \<Longrightarrow> about i ls = []"
  by (simp add: about_def)

lemma about_all: "\<forall>l \<in> set ls. log_id l = i \<Longrightarrow> about i ls = ls"
  by (simp add: about_def)

lemma commands_append [simp]: "commands (fs @ gs) = commands fs @ commands gs"
proof (induction fs)
  case (Cons f fs)
  then show ?case by (cases f) simp_all
qed simp

lemma handleCommand_msg:
  assumes "m \<in> set (handleCommand run c)"
  shows "(\<exists>x. m = SendOutput x \<and> om_Type x = TypeOutput \<and> om_ID x = cm_ID c) \<or>
    (\<exists>x. m = SendDone x \<and> dm_Type x = TypeDone \<and> dm_ID x = cm_ID c)"
proof (cases "buildArgs c")
  case (Inr args)
  obtain chunks err where "run args = (chunks, err)" by fastforce
  with Inr assms show ?thesis
    by (auto simp: handleCommand_def write_chunks_Split output_line_def split: option.splits)
qed (use assms in \<open>simp add: handleCommand_def\<close>)

lemma logged_id: "m \<in> set (handleCommand run c) \<Longrightarrow> l \<in> set (logged host m) \<Longrightarrow> log_id l = cm_ID c"
  using handleCommand_msg [of m run c] by auto

lemma readLoop_logged:
  assumes "wire_keeps W proc C" "c \<in> C" "m \<in> set (handleCommand (proc c) c)"
  shows "readLoop (wi_codec W) host [wi_msg W m] = logged host m"
proof -
  have "case m of
        SendOutput x \<Rightarrow> cd_type (wi_codec W) (wi_msg W m) = Some (om_Type x) \<and> cd_output (wi_codec W) (wi_msg W m) = Some x
      | SendDone x \<Rightarrow> cd_type (wi_codec W) (wi_msg W m) = Some (dm_Type x) \<and> cd_done (wi_codec W) (wi_msg W m) = Some x
      | _ \<Rightarrow> True"
    using assms unfolding wire_keeps_def by blast
  with handleCommand_msg [OF assms(3)] show ?thesis by (auto simp: TypePong_def TypeOutput_def TypeDone_def)
qed

lemma readLoop_pong:
  "wire_keeps W proc C \<Longrightarrow> bm_Type b = TypePong \<Longrightarrow> readLoop (wi_codec W) host [wi_msg W (SendPong b)] = []"
  by (simp add: wire_keeps_def)


section \<open>What is where\<close>

text \<open>
  \<open>st\<close> are the commands the agent has started, \<open>fs\<close> the frames on their way down, \<open>ms\<close> the messages on
  their way up.  For each started command what has been logged about it, what is under way and
  what its goroutine has still to send make up its report.
\<close>

definition link_holds ::
  "wire \<Rightarrow> (command_msg \<Rightarrow> string list \<Rightarrow> string list \<times> error option) \<Rightarrow> string \<Rightarrow> addr \<Rightarrow> command_msg list \<Rightarrow> link \<Rightarrow>
     command_msg list \<Rightarrow> frame list \<Rightarrow> agent_msg list \<Rightarrow> bool" where
  "link_holds W proc host a D s st fs ms \<longleftrightarrow>
     hub_inv (lk_hub s) \<and> a < ah_next (lk_hub s) \<and>
     D = st @ commands fs @ ch_buf (ac_send (ah_heap (lk_hub s) a)) \<and>
     lk_down s = map (wi_frame W) fs \<and> (\<forall>b. PingFrame b \<in> set fs \<longrightarrow> bm_Type b = TypePing) \<and>
     lk_up s = map (wi_msg W) ms \<and>
     (\<forall>m \<in> set ms. (\<exists>b. m = SendPong b \<and> bm_Type b = TypePong) \<or> (\<exists>c \<in> set st. m \<in> set (handleCommand (proc c) c))) \<and>
     map fst (lk_handlers s) = map cm_ID st \<and>
     (\<forall>j < length st. set (snd (lk_handlers s ! j)) \<subseteq> set (handleCommand (proc (st ! j)) (st ! j)) \<and>
        about (cm_ID (st ! j)) (lk_log s @ logs host ms) @ logs host (snd (lk_handlers s ! j)) = report host (proc (st ! j)) (st ! j)) \<and>
     (\<forall>l \<in> set (lk_log s). log_id l \<in> cm_ID ` set st)"

lemma link_holdsD:
  assumes "link_holds W proc host a D s st fs ms"
  shows "hub_inv (lk_hub s)" "a < ah_next (lk_hub s)" "D = st @ commands fs @ ch_buf (ac_send (ah_heap (lk_hub s) a))"
    "lk_down s = map (wi_frame W) fs" "PingFrame b \<in> set fs \<Longrightarrow> bm_Type b = TypePing" "lk_up s = map (wi_msg W) ms"
    "m \<in> set ms \<Longrightarrow> (\<exists>b. m = SendPong b \<and> bm_Type b = TypePong) \<or> (\<exists>c \<in> set st. m \<in> set (handleCommand (proc c) c))"
    "map fst (lk_handlers s) = map cm_ID st" "length (lk_handlers s) = length st"
    "j < length st \<Longrightarrow> set (snd (lk_handlers s ! j)) \<subseteq> set (handleCommand (proc (st ! j)) (st ! j))"
    "j < length st \<Longrightarrow> about (cm_ID (st ! j)) (lk_log s @ logs host ms) @ logs host (snd (lk_handlers s ! j)) =
       report host (proc (st ! j)) (st ! j)"
    "l \<in> set (lk_log s) \<Longrightarrow> log_id l \<in> cm_ID ` set st"
  using assms unfolding link_holds_def by (blast intro: map_eq_imp_length_eq)+

text \<open>Nothing is logged or under way about a command that has not been started.\<close>

lemma not_started:
  assumes "link_holds W proc host a D s st fs ms" "i \<notin> cm_ID ` set st"
  shows "about i (lk_log s @ logs host ms) = []"
proof (rule about_other, rule ballI)
  fix l assume "l \<in> set (lk_log s @ logs host ms)"
  then consider "l \<in> set (lk_log s)" | m where "m \<in> set ms" "l \<in> set (logged host m)"
    by (auto simp: logs_def)
  then have "log_id l \<in> cm_ID ` set st"
  proof cases
    case (2 m)
    with link_holdsD(7) [OF assms(1) 2(1)] show ?thesis by (auto dest: logged_id)
  qed (rule link_holdsD(12) [OF assms(1)])
  with assms(2) show "log_id l \<noteq> i" by blast
qed

lemma ping_frame: "PingFrame b \<in> set (fst (write_step ev ch)) \<Longrightarrow> bm_Type b = TypePing"
  by (cases ev) (auto simp: write_step_def split: option.splits prod.splits received.splits)

lemma hub_turn:
  assumes h: "link_holds W proc host a D s st fs ms" and "\<forall>x. op \<noteq> Written a (Take (Some x))"
    and "hub_step (lk_hub s) op = Inr h'"
  shows "link_holds W proc host a (D @ accepted a (lk_hub s) op)
    (s\<lparr>lk_hub := h', lk_down := lk_down s @ map (wi_frame W) (on_wire a (lk_hub s) op)\<rparr>) st (fs @ on_wire a (lk_hub s) op) ms"
proof -
  note d = link_holdsD [OF h]
  have "hub_inv h'" using hub_step_safe [OF d(1), of op] assms(3) by auto
  moreover have "ch_buf (ac_send (ah_heap (lk_hub s) a)) @ accepted a (lk_hub s) op =
      commands (on_wire a (lk_hub s) op) @ ch_buf (ac_send (ah_heap h' a))" "a < ah_next h'"
    using hub_step_queue [OF d(1,2) assms(3,2)] by (auto simp: on_wire_def written_def split: hub_op.splits if_splits)
  moreover have "bm_Type b = TypePing" if "PingFrame b \<in> set (on_wire a (lk_hub s) op)" for b
    using that by (cases op) (auto simp: on_wire_def ping_frame split: if_splits)
  ultimately show ?thesis using h by (auto simp: link_holds_def)
qed


lemma agent_turn:
  assumes h: "link_holds W proc host a D s st fs ms" and k: "wire_keeps W proc (set D)"
    and t: "\<forall>c \<in> set D. cm_Type c = TypeCommand" and u: "distinct (map cm_ID D)"
    and "link_step W proc host a s AgentReads = Inr s'"
  shows "\<exists>st fs ms. link_holds W proc host a D s' st fs ms"
proof (cases fs)
  case Nil
  with assms(5) link_holdsD(4) [OF h] h show ?thesis by (auto simp: link_step_def)
next
  case (Cons f gs)
  note d = link_holdsD [OF h]
  show ?thesis
  proof (cases f)
    case (PingFrame b)
    then have "cd_type (wi_codec W) (wi_frame W f) = Some TypePing" using k d(5) [of b] Cons by (simp add: wire_keeps_def)
    then have "s' = s\<lparr>lk_down := map (wi_frame W) gs, lk_up := map (wi_msg W) (ms @ [SendPong \<lparr>bm_Type = TypePong\<rparr>])\<rparr>"
      using assms(5) d(4,6) Cons by (simp add: link_step_def)
    with h Cons PingFrame have "link_holds W proc host a D s' st gs (ms @ [SendPong \<lparr>bm_Type = TypePong\<rparr>])"
      by (auto simp: link_holds_def)
    then show ?thesis by blast
  next
    case (CommandFrame c)
    have D: "D = st @ c # commands gs @ ch_buf (ac_send (ah_heap (lk_hub s) a))" using d(3) Cons CommandFrame by simp
    have c: "c \<in> set D" "cm_ID c \<notin> cm_ID ` set st" using D u by auto
    have "cd_type (wi_codec W) (wi_frame W f) = Some TypeCommand" "cd_command (wi_codec W) (wi_frame W f) = Some c"
      using k c(1) t CommandFrame by (simp_all add: wire_keeps_def)
    then have s': "s' = s\<lparr>lk_down := map (wi_frame W) gs, lk_handlers := lk_handlers s @ [(cm_ID c, handleCommand (proc c) c)]\<rparr>"
      using assms(5) d(4) Cons by (simp add: link_step_def TypeCommand_def TypePing_def)
    have "about (cm_ID c) (lk_log s @ logs host ms) = []" by (rule not_started [OF h c(2)])
    then have "link_holds W proc host a D s' (st @ [c]) gs ms"
      using h D Cons d(9) by (auto simp: link_holds_def s' nth_append less_Suc_eq report_def)
    then show ?thesis by blast
  qed
qed

lemma handler_turn:
  assumes h: "link_holds W proc host a D s st fs ms" and u: "distinct (map cm_ID D)"
    and "link_step W proc host a s (HandlerSends k) = Inr s'"
  shows "\<exists>ms. link_holds W proc host a D s' st fs ms"
proof (cases "k < length st \<and> snd (lk_handlers s ! k) \<noteq> []")
  case True
  note d = link_holdsD [OF h]
  obtain i m rest where hk: "lk_handlers s ! k = (i, m # rest)" using True by (metis list.exhaust prod.exhaust snd_conv)
  have i: "i = cm_ID (st ! k)" using d(8,9) True hk by (metis fst_conv nth_map)
  have s': "s' = s\<lparr>lk_handlers := (lk_handlers s)[k := (i, rest)], lk_up := map (wi_msg W) (ms @ [m])\<rparr>"
    using assms(3) hk True d(6,9) by (simp add: link_step_def)
  have m: "m \<in> set (handleCommand (proc (st ! k)) (st ! k))" using d(10) [of k] True hk by simp
  have own: "about (cm_ID (st ! j)) (logged host m) = (if j = k then logged host m else [])" if "j < length st" for j
  proof (cases "j = k")
    case False
    have "distinct (map cm_ID st)" using u d(3) by simp
    then have "cm_ID (st ! j) \<noteq> cm_ID (st ! k)" using False that True by (simp add: distinct_conv_nth)
    then show ?thesis using False logged_id [OF m] by (auto intro!: about_other)
  qed (use logged_id [OF m] in \<open>auto intro!: about_all\<close>)
  have "map fst ((lk_handlers s)[k := (i, rest)]) = map cm_ID st"
    using d(8) i True by (metis fst_conv list_update_id map_update nth_map)
  moreover have "about (cm_ID (st ! j)) (lk_log s @ logs host (ms @ [m])) @ logs host (snd ((lk_handlers s)[k := (i, rest)] ! j)) =
      report host (proc (st ! j)) (st ! j)" if "j < length st" for j
    using d(11) [OF that] own [OF that] hk d(9) that by (cases "j = k") simp_all
  moreover have "set (snd ((lk_handlers s)[k := (i, rest)] ! j)) \<subseteq> set (handleCommand (proc (st ! j)) (st ! j))"
    if "j < length st" for j
    using d(10) [OF that] hk d(9) that by (cases "j = k") auto
  ultimately have "link_holds W proc host a D s' st fs (ms @ [m])"
    using h m True by (auto simp: link_holds_def s')
  then show ?thesis by blast
next
  case False
  with assms(3) link_holdsD(9) [OF h] have "s' = s"
    by (auto simp: link_step_def split: if_splits prod.splits list.splits)
  with h show ?thesis by blast
qed

lemma controller_turn:
  assumes h: "link_holds W proc host a D s st fs ms" and k: "wire_keeps W proc (set D)"
    and "link_step W proc host a s ControllerReads = Inr s'"
  shows "\<exists>ms. link_holds W proc host a D s' st fs ms"
proof (cases ms)
  case Nil
  with assms(3) link_holdsD(6) [OF h] h show ?thesis by (auto simp: link_step_def)
next
  case (Cons m rest)
  note d = link_holdsD [OF h]
  have sub: "set st \<subseteq> set D" using d(3) by auto
  have r: "readLoop (wi_codec W) host [wi_msg W m] = logged host m \<and> (\<forall>l \<in> set (logged host m). log_id l \<in> cm_ID ` set st)"
  proof (cases "\<exists>b. m = SendPong b \<and> bm_Type b = TypePong")
    case True
    with readLoop_pong [OF k] show ?thesis by auto
  next
    case False
    with d(7) [of m] Cons obtain c where c: "c \<in> set st" "m \<in> set (handleCommand (proc c) c)" by auto
    with readLoop_logged [OF k _ c(2)] sub logged_id [OF c(2)] show ?thesis by blast
  qed
  have s': "s' = s\<lparr>lk_up := map (wi_msg W) rest, lk_log := lk_log s @ logged host m\<rparr>"
    using assms(3) d(6) Cons r by (simp add: link_step_def)
  have "link_holds W proc host a D s' st fs rest" using h r Cons by (auto simp: link_holds_def s')
  then show ?thesis by blast
qed


lemma link_turn:
  assumes h: "link_holds W proc host a D s st fs ms" and k: "wire_keeps W proc (set (D @ dispatched a s e))"
    and t: "\<forall>c \<in> set (D @ dispatched a s e). cm_Type c = TypeCommand" and u: "distinct (map cm_ID (D @ dispatched a s e))"
    and "\<forall>x. e \<noteq> AtHub (Written a (Take (Some x)))" "link_step W proc host a s e = Inr s'"
  shows "\<exists>st fs ms. link_holds W proc host a (D @ dispatched a s e) s' st fs ms"
proof (cases e)
  case (AtHub op)
  then obtain h' where "hub_step (lk_hub s) op = Inr h'"
    "s' = s\<lparr>lk_hub := h', lk_down := lk_down s @ map (wi_frame W) (on_wire a (lk_hub s) op)\<rparr>"
    using assms(6) by (auto simp: link_step_def split: sum.splits)
  with hub_turn [OF h, of op] AtHub assms(5) show ?thesis by (auto simp: dispatched_def)
next
  case AgentReads
  with agent_turn [OF h, of s'] k t u assms(6) show ?thesis by (simp add: dispatched_def)
next
  case (HandlerSends j)
  with handler_turn [OF h, of j s'] u assms(6) show ?thesis by (auto simp: dispatched_def)
next
  case ControllerReads
  with controller_turn [OF h, of s'] k assms(6) show ?thesis by (auto simp: dispatched_def)
qed

lemma wire_keeps_subset: "wire_keeps W proc C \<Longrightarrow> B \<subseteq> C \<Longrightarrow> wire_keeps W proc B"
  by (auto simp: wire_keeps_def)

lemma link_run:
  assumes "link_holds W proc host a D s st fs ms" and "run_steps (link_step W proc host a) s ops = Inr s'"
    and "E = D @ observe (dispatched a) (link_step W proc host a) s ops" "wire_keeps W proc (set E)"
      "\<forall>c \<in> set E. cm_Type c = TypeCommand" "distinct (map cm_ID E)"
    and "\<forall>x. AtHub (Written a (Take (Some x))) \<notin> set ops"
  shows "\<exists>st fs ms. link_holds W proc host a E s' st fs ms"
  using assms
proof (induction ops arbitrary: s D st fs ms)
  case (Cons e ops)
  obtain s1 where s1: "link_step W proc host a s e = Inr s1" "run_steps (link_step W proc host a) s1 ops = Inr s'"
    using Cons.prems(2) by (rule run_steps_ConsE)
  let ?D = "D @ dispatched a s e"
  have E: "E = ?D @ observe (dispatched a) (link_step W proc host a) s1 ops" using Cons.prems(3) s1(1) by simp
  then have sub: "set ?D \<subseteq> set E" by auto
  have k: "wire_keeps W proc (set ?D)" by (rule wire_keeps_subset [OF Cons.prems(4) sub])
  have t: "\<forall>c \<in> set ?D. cm_Type c = TypeCommand" using Cons.prems(5) sub by blast
  have u: "distinct (map cm_ID ?D)" using Cons.prems(6) unfolding E by (simp only: map_append distinct_append)
  have ok: "\<forall>x. e \<noteq> AtHub (Written a (Take (Some x)))" "\<forall>x. AtHub (Written a (Take (Some x))) \<notin> set ops"
    using Cons.prems(7) by auto
  from link_turn [OF Cons.prems(1) k t u ok(1) s1(1)] obtain st1 fs1 ms1 where
    "link_holds W proc host a ?D s1 st1 fs1 ms1" by blast
  from Cons.IH [OF this s1(2) E Cons.prems(4-6) ok(2)] show ?case .
qed auto

text \<open>Nothing is waiting or under way.\<close>

definition link_idle :: "addr \<Rightarrow> link \<Rightarrow> bool" where
  "link_idle a s \<longleftrightarrow> ch_buf (ac_send (ah_heap (lk_hub s) a)) = [] \<and> lk_down s = [] \<and> lk_up s = [] \<and>
     (\<forall>x \<in> set (lk_handlers s). snd x = [])"

section \<open>An example\<close>

text \<open>A wire for one command and what its execution sends.\<close>

definition demo_report :: "agent_msg list" where
  "demo_report = [SendOutput (output_line ''c1'' (''Pulling'' @ [carriage_return])),
     SendDone \<lparr>dm_Type = TypeDone, dm_ID = ''c1'', dm_ExitCode = 0, dm_Error = []\<rparr>]"

definition demo_wire :: wire where
  "demo_wire =
     \<lparr>wi_codec = \<lparr>cd_type = (\<lambda>raw. if raw = ''c'' then Some TypeCommand else if raw = ''o'' then Some TypeOutput
          else if raw = ''d'' then Some TypeDone else Some (tl raw)),
        cd_output = (\<lambda>_. Some (output_line ''c1'' (''Pulling'' @ [carriage_return]))),
        cd_done = (\<lambda>_. Some \<lparr>dm_Type = TypeDone, dm_ID = ''c1'', dm_ExitCode = 0, dm_Error = []\<rparr>),
        cd_command = (\<lambda>_. Some (demo_command ''c1''))\<rparr>,
      wi_frame = (\<lambda>f. case f of PingFrame b \<Rightarrow> CHR ''p'' # bm_Type b | CommandFrame c \<Rightarrow> ''c''),
      wi_msg = (\<lambda>m. case m of SendOutput x \<Rightarrow> ''o'' | SendDone x \<Rightarrow> ''d'' | SendPong b \<Rightarrow> CHR ''p'' # bm_Type b | _ \<Rightarrow> ''r'')\<rparr>"

definition demo_link :: link where
  "demo_link = \<lparr>lk_hub = demo_hub, lk_down = [], lk_handlers = [], lk_up = [], lk_log = []\<rparr>"

definition demo_link_ops :: "link_op list" where
  "demo_link_ops = [AtHub (Send ''host'' (demo_command ''c1'')), AtHub (Written 0 (Tick None)), AtHub (Written 0 (Take None)),
     AgentReads, AgentReads, HandlerSends 0, ControllerReads, ControllerReads, HandlerSends 0, ControllerReads]"

lemma demo_handled: "handleCommand demo_run (demo_command ''c1'') = demo_report"
proof -
  have "\<exists>args. buildArgs (demo_command ''c1'') = Inr args" by (simp add: buildArgs_def demo_command_def)
  moreover have "cm_ID (demo_command ''c1'') = ''c1''" by (simp add: demo_command_def)
  ultimately show ?thesis
    by (auto simp: handleCommand_def demo_run_def write_chunks_Split demo_report_def)
qed

lemma demo_wire_keeps: "wire_keeps demo_wire (\<lambda>_. demo_run) {demo_command ''c1''}"
proof -
  have "cm_Type (demo_command ''c1'') = TypeCommand" by (simp add: demo_command_def)
  then show ?thesis unfolding wire_keeps_def by (simp add: demo_handled) (simp add: demo_wire_def demo_report_def output_line_def)
qed

lemma demo_link_run:
  "observe (dispatched 0) (link_step demo_wire (\<lambda>_. demo_run) ''host'' 0) demo_link demo_link_ops = [demo_command ''c1'']"
  "\<exists>s'. run_steps (link_step demo_wire (\<lambda>_. demo_run) ''host'' 0) demo_link demo_link_ops = Inr s' \<and>
     link_idle 0 s'"
proof -
  let ?step = "link_step demo_wire (\<lambda>_. demo_run) ''host'' 0" and ?c = "demo_command ''c1''"
  have h: "agent_at demo_hub ''host'' = Some 0" "ch_buf (ac_send (ah_heap demo_hub 0)) = []"
    by (simp_all add: demo_hub_def begin_session_def demo_register_def New_hub_def Let_def agents.lookup_insert)
  have cap: "ch_cap (ac_send (ah_heap demo_hub 0)) = 32"
    by (simp add: demo_hub_def begin_session_def demo_register_def New_hub_def Let_def)
  obtain h1 where h1: "Dispatch ''host'' ?c demo_hub = Inr (None, h1)" "ch_buf (ac_send (ah_heap h1 0)) = [?c]"
    using h cap by (simp add: Dispatch_cases [OF demo_hub_inv] offer_def)
  define h2 where "h2 = h1\<lparr>ah_heap := (ah_heap h1)(0 := (ah_heap h1 0)\<lparr>ac_send := ac_send (ah_heap h1 0)\<rparr>)\<rparr>"
  have q2: "ch_buf (ac_send (ah_heap h2 0)) = [?c]" by (simp add: h2_def h1(2))
  obtain h3 where h3: "hub_step h2 (Written 0 (Take None)) = Inr h3" "ch_buf (ac_send (ah_heap h3 0)) = []"
    "on_wire 0 h2 (Written 0 (Take None)) = [CommandFrame ?c]"
    by (simp add: hub_step_def on_wire_def write_step_def receive_def q2)
  have hub: "hub_step demo_hub (Send ''host'' ?c) = Inr h1" "on_wire 0 demo_hub (Send ''host'' ?c) = []"
    "accepted 0 demo_hub (Send ''host'' ?c) = [?c]"
    "hub_step h1 (Written 0 (Tick None)) = Inr h2" "on_wire 0 h1 (Written 0 (Tick None)) = [PingFrame \<lparr>bm_Type = TypePing\<rparr>]"
    "accepted 0 h1 (Written 0 (Tick None)) = []" "accepted 0 h2 (Written 0 (Take None)) = []"
    using h1(1) h(1) by (simp_all add: hub_step_def accepted_def on_wire_def write_step_def h2_def)
  let ?down = "[''pping'', ''c'']"
  let ?L = "\<lambda>d js u l. \<lparr>lk_hub = h3, lk_down = d, lk_handlers = js, lk_up = u, lk_log = l\<rparr>"
  have w: "wi_frame demo_wire (PingFrame \<lparr>bm_Type = TypePing\<rparr>) = ''pping''" "wi_frame demo_wire (CommandFrame ?c) = ''c''"
    by (simp_all add: demo_wire_def TypePing_def)
  have session: "session_loop (wi_codec demo_wire) [''pping''] [] = ([SendPong \<lparr>bm_Type = TypePong\<rparr>], [], ''read: '')"
    "session_loop (wi_codec demo_wire) [''c''] [] = ([], [?c], ''read: '')"
    by (simp_all add: demo_wire_def TypePing_def TypeCommand_def)
  obtain m1 m2 where dr: "demo_report = [m1, m2]" by (simp add: demo_report_def)
  obtain l1 l2 l3 where reads: "readLoop (wi_codec demo_wire) ''host'' [wi_msg demo_wire (SendPong \<lparr>bm_Type = TypePong\<rparr>)] = l1"
    "readLoop (wi_codec demo_wire) ''host'' [wi_msg demo_wire m1] = l2"
    "readLoop (wi_codec demo_wire) ''host'' [wi_msg demo_wire m2] = l3" by blast
  have id: "cm_ID ?c = ''c1''" by (simp add: demo_command_def)
  let ?rest = "[AgentReads, AgentReads, HandlerSends 0, ControllerReads, ControllerReads, HandlerSends 0, ControllerReads]"
  have r: "run_steps ?step (?L ?down [] [] []) ?rest = Inr (?L [] [(''c1'', [])] [] ((l1 @ l2) @ l3))"
    "observe (dispatched 0) ?step (?L ?down [] [] []) ?rest = []"
    by (simp_all add: link_step_def dispatched_def session reads demo_handled id dr
        del: session_loop.simps readLoop.simps)
  show "observe (dispatched 0) ?step demo_link demo_link_ops = [?c]"
    using r(2) hub h3 by (simp add: demo_link_ops_def demo_link_def link_step_def dispatched_def w)
  show "\<exists>s'. run_steps ?step demo_link demo_link_ops = Inr s' \<and> link_idle 0 s'"
    using r(1) hub h3 by (simp add: demo_link_ops_def demo_link_def link_step_def w link_idle_def)
qed


section \<open>Properties\<close>

text \<open>C37: A command that the controller accepts for an agent is run once and reported in full.  On a connection
  that works, with command ids that differ, the agent starts the commands in the order of their dispatch; however
  their goroutines interleave, what the controller logs about a command is at any time a
  beginning of the report that its execution makes (its complete lines, then its exit), and is all of
  it when nothing is under way; and nothing on the way panics.\<close>

theorem commands_are_reported:
  assumes "hub_inv (lk_hub s)" and "a < ah_next (lk_hub s)"
    and fresh: "link_idle a s" "lk_handlers s = []" "lk_log s = []"
    and "\<forall>x. AtHub (Written a (Take (Some x))) \<notin> set ops"
    and D: "D = observe (dispatched a) (link_step W proc host a) s ops" "distinct (map cm_ID D)"
      "\<forall>c \<in> set D. cm_Type c = TypeCommand" "wire_keeps W proc (set D)"
  shows "\<exists>s'. run_steps (link_step W proc host a) s ops = Inr s' \<and>
    prefix (map fst (lk_handlers s')) (map cm_ID D) \<and>
    (\<forall>c \<in> set D. prefix (about (cm_ID c) (lk_log s')) (report host (proc c) c)) \<and>
    (link_idle a s' \<longrightarrow> (\<forall>c \<in> set D. about (cm_ID c) (lk_log s') = report host (proc c) c))"
proof -
  obtain s' where s': "run_steps (link_step W proc host a) s ops = Inr s'" using link.run_safe [OF assms(1)] by blast
  have "link_holds W proc host a [] s [] [] []"
    using assms(1,2) fresh by (simp add: link_holds_def link_idle_def)
  from link_run [OF this s' _ D(4,3,2) assms(6)] D(1) obtain st fs ms where
    h: "link_holds W proc host a D s' st fs ms" by auto
  note d = link_holdsD [OF h]
  have about: "prefix (about (cm_ID c) (lk_log s')) (report host (proc c) c) \<and>
      (link_idle a s' \<longrightarrow> about (cm_ID c) (lk_log s') = report host (proc c) c)" if "c \<in> set D" for c
  proof (cases "c \<in> set st")
    case True
    then obtain j where j: "j < length st" "st ! j = c" by (auto simp: in_set_conv_nth)
    have "snd (lk_handlers s' ! j) = [] \<and> ms = []" if "link_idle a s'"
      using that j(1) d(6,9) by (auto simp: link_idle_def)
    with d(11) [OF j(1), symmetric] j(2) show ?thesis by auto
  next
    case False
    have "about (cm_ID c) (lk_log s' @ logs host ms) = []"
    proof (rule not_started [OF h])
      show "cm_ID c \<notin> cm_ID ` set st" using D(2) False that d(3) by (auto simp: distinct_map dest: inj_onD)
    qed
    moreover have "\<not> link_idle a s'" using False that d(3,4) by (auto simp: link_idle_def)
    ultimately show ?thesis by simp
  qed
  have "prefix (map fst (lk_handlers s')) (map cm_ID D)" using d(3,8) by (auto simp: prefix_def)
  with about s' show ?thesis by blast
qed

theorem commands_are_reported_witness:
  "\<exists>s'. run_steps (link_step demo_wire (\<lambda>_. demo_run) ''host'' 0) demo_link demo_link_ops = Inr s' \<and>
    about ''c1'' (lk_log s') = [OutputLog ''host'' ''c1'' ''Pulling'', DoneLog ''host'' ''c1'' 0 []]"
proof -
  obtain s' where s': "run_steps (link_step demo_wire (\<lambda>_. demo_run) ''host'' 0) demo_link demo_link_ops = Inr s'" "link_idle 0 s'"
    using demo_link_run(2) by blast
  have "ch_buf (ac_send (ah_heap demo_hub 0)) = []" "(0 :: addr) < ah_next demo_hub"
    by (simp_all add: demo_hub_def begin_session_def demo_register_def New_hub_def Let_def)
  then have f: "hub_inv (lk_hub demo_link)" "0 < ah_next (lk_hub demo_link)" "link_idle 0 demo_link"
    "lk_handlers demo_link = []" "lk_log demo_link = []"
    "\<forall>x. AtHub (Written 0 (Take (Some x))) \<notin> set demo_link_ops"
    by (simp_all add: demo_link_def demo_hub_inv link_idle_def demo_link_ops_def)
  have c: "distinct (map cm_ID [demo_command ''c1''])" "\<forall>c \<in> set [demo_command ''c1'']. cm_Type c = TypeCommand"
    "wire_keeps demo_wire (\<lambda>_. demo_run) (set [demo_command ''c1''])"
    using demo_wire_keeps by (simp_all add: demo_command_def)
  have "cm_ID (demo_command ''c1'') = ''c1''" by (simp add: demo_command_def)
  with commands_are_reported [OF f demo_link_run(1) [symmetric] c] s'
  have "about ''c1'' (lk_log s') = report ''host'' demo_run (demo_command ''c1'')" by auto
  also have "\<dots> = [OutputLog ''host'' ''c1'' ''Pulling'', DoneLog ''host'' ''c1'' 0 []]"
    by (simp add: report_def demo_handled demo_report_def output_line_def TrimRight1_def)
  finally show ?thesis using s'(1) by blast
qed

end
