(* ===== verification/Spec2Isabelle.thy ===== *)
theory Spec2Isabelle
  imports Lifecycle Startup Shutdown Fleet
begin

text \<open>
  Dockwatch watches labelled Docker containers, learns of new images from four sources (Docker's event
  stream, registry polling, CI webhooks, manual requests), applies the update a container's strategy
  allows, observes the new container's health and rolls a bad update back.  The server
  (\<open>cmd/dockwatch\<close>) is a set of goroutines around an event bus and a few shared stores; agents
  (\<open>cmd/agent\<close>) on other hosts run updates on its command.

  An update flows through it like this.  The watcher, the poller, the webhook handler or the API
  publish \<open>image.updated\<close> on the bus; the executor takes the event, evaluates the container's strategy,
  pulls and recreates the container (or edits its compose file and runs compose), records the deploy in
  a job and in the history, moves the container's state to its new id and publishes \<open>update.applied\<close>;
  the health monitor then polls the container and publishes \<open>container.unhealthy\<close> if it fails, on
  which the rollback engine recreates the container with the digest it ran before.  The notifier passes
  every event on to browsers.

  Which theory models what.

  Foundations.  \<open>Prelude\<close>: panics, Go maps as finite maps, ranging over a map in an order that is an
  argument, sequences of steps and what is observed along them.  \<open>Go_Strings\<close>, \<open>Go_Chan\<close>, \<open>Sha256\<close>: the
  parts of the standard library the code calls: \<open>strings\<close>/\<open>strconv\<close> routines on byte strings,
  buffered channels with close, HMAC-SHA256 on 32-bit words.  \<open>Interfaces\<close>: the contracts as locales
  (\<open>safe_machine\<close>, \<open>flow_machine\<close> and its instance \<open>checked_machine\<close>, \<open>fifo_machine\<close>, \<open>keyed_registry\<close>,
  \<open>machine_simulation\<close> and others), each interpreted
  on the model in the theory of the component that provides it.  \<open>World\<close>: the state the
  components of the server share.

  Values.  \<open>Image_Ref\<close>: the parsers and printers of image references
  (\<open>executor.go\<close>, \<open>registry.go\<close>, \<open>scoped.go\<close>, \<open>compose/updater.go\<close>, \<open>history.go\<close>).  \<open>Semver\<close>: strategies and version
  comparison (\<open>executor.go\<close>).

  Stores.  \<open>Bus\<close> (\<open>internal/bus\<close>), \<open>Store\<close> (\<open>internal/store\<close>: a map to shared states, hence a heap),
  \<open>Deploy_Job\<close> and \<open>Deploy_Registry\<close> (\<open>internal/deploy\<close>), \<open>History\<close> (\<open>internal/history\<close>: the table as a list of
  rows), \<open>Service_Config\<close> (\<open>internal/serviceconfig\<close>, and the services table of \<open>internal/db\<close>), \<open>Database\<close> (opening the
  file that holds both tables, \<open>Open\<close> of \<open>internal/db\<close>, and what their owners make of an older one).

  Gateways.  \<open>Docker_Client\<close> and \<open>Event_Stream\<close> (\<open>internal/dockerclient\<close>; the second also the loop of the
  watcher's \<open>Run\<close>), \<open>Auth\<close> (\<open>encodeAuth\<close> there, with the JSON and base 64 encoders it calls), \<open>Registry_Client\<close> (\<open>internal/registry\<close>), \<open>Github\<close> (\<open>internal/github\<close>), \<open>Compose\<close>
  (\<open>internal/compose\<close>).

  Workers.  \<open>Executor\<close>, \<open>Rollback\<close>, \<open>Watcher\<close>, \<open>Healthmon\<close>, \<open>Poller\<close>, \<open>Webhook\<close>, \<open>Notifier\<close>: the packages
  of those names; \<open>Carrier\<close> is what executor and rollback engine have in common, moving a
  container's state to its new id.

  Front.  \<open>Api\<close> and \<open>Viewer\<close> (\<open>internal/api\<close>: request handlers, and the two streams), \<open>Agent_Server\<close>
  (\<open>internal/agentserver\<close>, \<open>internal/agentproto\<close>), \<open>Agent\<close> (\<open>cmd/agent\<close>), \<open>Config\<close> (\<open>config\<close>, and the credentials of
  \<open>cmd/dockwatch/main.go\<close>), \<open>Server\<close> (the rest of \<open>main.go\<close>: seeding, subscriptions, and all handlers
  as steps on the shared state), \<open>Routes\<close> (the table of patterns of \<open>New\<close> and \<open>RegisterRoutes\<close>, the
  multiplexer of \<open>net/http\<close>, and with them every request as a call of its handler).

  Whole.  \<open>Loops\<close>: \<open>Run\<close> of executor, rollback engine, health monitor and poller, and \<open>runTopic\<close> of
  the notifier, one action of the loop at a time.  \<open>Digests\<close>: what each handler does with digests, stated once for any
  predicate on them (locale \<open>handler_flow\<close>).  \<open>System\<close>: the running server as one machine, in which a handler is
  given only what its loop has received; its inputs are requests, registries, the daemon, timers and the
  scheduler.  \<open>Lifecycle\<close>: an update and its rollback through that machine.  \<open>Process\<close>: the HTTP server in
  front of it, with requests in place of calls of handlers, and the open streams of browsers, log viewers
  and agents as goroutines; its runs are runs of \<open>System\<close>.  \<open>Startup\<close>: \<open>main\<close> up to
  that process, from the environment and the database on disk, with every exit on the way, and a second
  process on the database the first one left.  \<open>Shutdown\<close>: the end, once the context is cancelled.  \<open>Fleet\<close>: the
  controller and an agent over one connection, with the agent's goroutines interleaved.  This theory holds further
  properties that span components.

  How the code is modelled.  A Go struct is a record, with a short prefix on the field names; a struct
  that is shared through pointers lives in a heap from addresses to values.  A handler is a function
  from the world to the world, or to \<open>Inl\<close> of the panic it ends in; an \<open>error\<close> result is its text in
  \<open>Inl\<close> of a sum or in an option.  Byte strings are \<open>string\<close>, \<open>int\<close> is unbounded with \<open>wrap64\<close> written out
  where it overflows (the interval of a service in nanoseconds), hashes and ids are computed on words.
  Goroutines are steps: a component's transition relation or step function takes one operation, and the
  theorems about interleavings quantify over all sequences of operations.  Code under a lock is one
  step, and so is the body of a handler, whose own calls of the shared components are under their locks.  Where the
  code works without the lock the pieces are separate: \<open>Publish\<close> reads the subscribers under the lock and sends after
  it, so in \<open>System\<close> any send of a publication may happen later (\<open>SendWaits\<close>, \<open>SendHappens\<close>), after its
  channel was closed even; and the operations of \<open>internal/serviceconfig\<close> are a statement, a query and the replacement
  of the cache, which \<open>Service_Config\<close> interleaves in its section on calls that overlap (in \<open>System\<close> a call of
  them is part of its handler's step).

  Parameters, because their code is not part of the repository: the Docker SDK and daemon (any state
  \<open>'d\<close> and any functions on it: an operation may fail or change the daemon in any way), HTTP exchanges and JSON
  decoding, yaml.v3 (parse and print), \<open>database/sql\<close> (faults as a script of failures before each statement),
  the clock, randomness, and the order of ranging over a map.  A theorem that relies on how one of them behaves
  says so in its hypotheses, and its witness instantiates them.  Of a value that depends on a parameter, a hypothesis
  speaks of the request or answer at hand only: \<open>brings\<close>, of the digests in an accepted push, is about the body of that
  push and what it decodes to.

  Bounds.  There is no fuel.  Loops are structural recursions, or have a measure (the line writer's
  buffer, the trimming of words).  Goroutines that run for ever are not
  functions but steps: one call is one action of the loop, and a run of the server is a list of them.

  What the groups of lemmas show.  \<open>*_inv\<close>: every operation keeps its component's invariant.  \<open>*_safe\<close>: no
  handler panics under it; \<open>server_never_panics\<close> puts them together for all components called with anything,
  \<open>server_survives\<close> for the running system and \<open>process_survives\<close> for the process with its HTTP server, where the one
  exception, a short digest, has to come from outside.  Both are about runs in which no loop has seen its context
  cancelled (\<open>stops\<close>): after that a send that comes late can hit a closed channel, which
  \<open>shutdown_completes\<close> states as the one way in which the end can go wrong.
  \<open>unhealthy_container_crashes_server\<close> and \<open>hub_push_breaks_rollback\<close> show that it can.  \<open>main_starts\<close>,
  \<open>shutdown_completes\<close> and \<open>restart_keeps_database\<close> are about the life of the process: that it starts or says which call
  failed, that its loops end, and what is left for the next one (the tables, but none of the digests that
  rollbacks need).
  \<open>*_flow\<close>, \<open>*_follows\<close>: no component makes up a digest or touches the subscriptions of another
  (\<open>digests_have_sources\<close>, \<open>subscriptions_are_owned\<close>).  \<open>*_order\<close>, \<open>*_stream\<close>: what goes through a queue arrives in
  order and once (bus, browsers, agents, job logs), from one locale, and \<open>docker_events_in_order\<close> that the watcher
  has handled the accepted Docker events one after the other.  The properties of
  the components themselves state what an operation leaves behind on every branch: outcome of a deploy,
  compose update, rollback, sweep, push, request, a file that is only partly written among them.  A third group shows where the code does not do what it
  means to do: histories lost when the watcher is faster than the executor, jobs that stay queued,
  agents dropped on reconnection, updates that are not retried, a cache of the services that stays behind its table.

  Not modelled: the life of the HTTP server and of its connections (\<open>net/http\<close>; of it only the choice of a handler is), the redirects
  that its client follows inside one \<open>Do\<close>, escaped
  characters in paths, the static front end, the operating system and SQLite below the database, the times at
  which the cron schedule and tickers fire (they decide only when a modelled step happens), the inside of the SDK's
  client, log output other than what can panic in it, the delivery of signals, tests,
  Docker files and shell scripts.

  What an extension would add: the connections of \<open>Fleet\<close> as the websockets of \<open>Process\<close>, and the requests that are
  still being served when the context is cancelled (\<open>Shutdown\<close> covers the loops on the bus and the poller's; that of
  the watcher is in \<open>Event_Stream\<close>).
\<close>

section \<open>An update, its failure, and the rollback\<close>

text \<open>
  The health monitor's event for an update that the executor has applied, in the world \<open>w\<close>.
\<close>

definition health_failure :: "time \<Rightarrow> image_updated \<Rightarrow> string \<Rightarrow> 'd world \<Rightarrow> container_unhealthy" where
  "health_failure now p newID w =
     failed_payload now
       \<lparr>ua_ContainerID = newID, ua_ContainerName = iu_ContainerName p, ua_Image = iu_Image p,
        ua_OldDigest = iu_OldDigest p, ua_NewDigest = iu_NewDigest p, ua_AppliedAt = now\<rparr>
       (w_store w)"

lemma health_failure_sel [simp]:
  "cu_ContainerID (health_failure now p i w) = i" "cu_Image (health_failure now p i w) = iu_Image p"
  "cu_AppliedDigest (health_failure now p i w) = iu_NewDigest p"
  "cu_ContainerName (health_failure now p i w) = iu_ContainerName p"
  by (simp_all add: health_failure_def failed_payload_def)

lemma health_failure_prev:
  "cu_PrevDigest (health_failure now p i w) =
     (case state_of (w_store w) i of Some c \<Rightarrow> PreviousDigest c | None \<Rightarrow> [])"
  by (simp add: health_failure_def failed_payload_def Get_def state_of_def split: option.splits)

text \<open>The store after an update, seen from the new id.\<close>

lemma updated_store:
  assumes "store_inv s" "Get old s = Some ca" "new \<noteq> []"
  shows "\<exists>c. state_of (carry_state now old img d ca new s) new = Some c \<and> CurrentDigest c = d \<and>
    PreviousDigest c = CurrentDigest (st_heap s ca)"
proof -
  have "carry_state now old img d ca new s = executor_carry now old img d new s"
    using assms(2) by (simp add: executor_carry_def)
  with exec_carrier.carried_digests [OF assms(1) Get_state [OF assms(2)] assms(3), of now img d]
  show ?thesis by auto
qed

section \<open>An example\<close>

definition demo_good :: string where "demo_good = ''sha256:0123456789''"
definition demo_bad :: string where "demo_bad = ''sha256:ffffffffff''"

definition demo_tracked :: "demo_daemon world" where
  "demo_tracked = demo_world\<lparr>w_store := push_at 0 ''web:1'' demo_good 9 demo_store\<rparr>"

definition demo_bad_update :: image_updated where
  "demo_bad_update = demo_update\<lparr>iu_NewDigest := demo_bad\<rparr>"

lemma demo_digests: "16 \<le> length demo_good" "16 \<le> length demo_bad"
  by (simp_all add: demo_good_def demo_bad_def)

lemma demo_bad_update_sel:
  "iu_ContainerID demo_bad_update = ''c1''" "iu_NewDigest demo_bad_update = demo_bad"
  "iu_Image demo_bad_update = ''web:1''"
  by (simp_all add: demo_bad_update_def demo_update_def)

lemma demo_tracked_inv: "world_inv demo_tracked"
  unfolding demo_tracked_def by (intro world_inv_upd(2) demo_world_inv push_at_inv demo_store_inv)

lemma demo_tracked_sel:
  "Get ''c1'' (w_store demo_tracked) = Some 0"
  "CurrentDigest (st_heap (w_store demo_tracked) 0) = demo_good"
  "w_docker demo_tracked = demo_start"
  using demo_Get by (simp_all add: demo_tracked_def push_at_def Get_def demo_world_def)

definition demo_untracked :: "demo_daemon world" where
  "demo_untracked = demo_world\<lparr>w_store := snd (Upsert ''c1'' ''web'' ''web:1'' fmempty New_store)\<rparr>"

lemma demo_untracked_inv: "world_inv demo_untracked"
  unfolding demo_untracked_def by (intro world_inv_upd(2) demo_world_inv Upsert_inv New_store_inv)

lemma demo_untracked_sel:
  "Get ''c1'' (w_store demo_untracked) = Some 0"
  "cs_digestHistory (st_heap (w_store demo_untracked) 0) = []"
  by (simp_all add: demo_untracked_def Upsert_def New_store_def Get_def)

section \<open>Properties\<close>

text \<open>The first update of a container cannot be rolled back.  The digest a container starts with
  is never recorded, so after the update the ring has one entry and the failure report names no
  previous digest; the rollback engine then does nothing.\<close>

theorem first_update_has_no_rollback:
  assumes "world_inv w" and "Get (iu_ContainerID p) (w_store w) = Some ca" and "i1 \<noteq> []"
    and "cs_digestHistory (st_heap (w_store w) ca) = []" and "16 \<le> length (iu_NewDigest p)"
    and w1: "w1 = w\<lparr>w_store := carry_state t1 (iu_ContainerID p) (iu_Image p) (iu_NewDigest p) ca i1 (w_store w)\<rparr>"
  shows "handle_rollback docker now (health_failure t2 p i1 w1) w1 = Inr w1"
proof -
  obtain c1 where "state_of (w_store w1) i1 = Some c1" "PreviousDigest c1 = []"
    using updated_store [OF world_invD(2) [OF assms(1)] assms(2,3), of t1 "iu_Image p" "iu_NewDigest p"] assms(4)
    by (auto simp: w1 CurrentDigest_def)
  then show ?thesis using assms(5)
    by (simp add: handle_rollback_def checked_slice_to_def health_failure_prev)
qed

theorem first_update_has_no_rollback_witness:
  "\<exists>w1. CurrentDigest (st_heap (w_store w1) 0) = demo_bad \<and>
     handle_rollback (demo_docker True) (\<lambda>_. 0) (health_failure 1 demo_bad_update ''n-web'' w1) w1 = Inr w1"
proof -
  define w1 where "w1 = demo_untracked\<lparr>w_store := carry_state 0 (iu_ContainerID demo_bad_update)
      (iu_Image demo_bad_update) (iu_NewDigest demo_bad_update) 0 ''n-web'' (w_store demo_untracked)\<rparr>"
  have g: "Get (iu_ContainerID demo_bad_update) (w_store demo_untracked) = Some 0"
    "16 \<le> length (iu_NewDigest demo_bad_update)" "''n-web'' \<noteq> []"
    by (simp_all add: demo_bad_update_sel demo_untracked_sel demo_digests)
  have "handle_rollback (demo_docker True) (\<lambda>_. 0) (health_failure 1 demo_bad_update ''n-web'' w1) w1 = Inr w1"
    by (rule first_update_has_no_rollback [OF demo_untracked_inv g(1,3) demo_untracked_sel(2) g(2) w1_def])
  moreover have "CurrentDigest (st_heap (w_store w1) 0) = demo_bad"
    using g(1) by (simp add: w1_def carry_state_def Rekey_def Get_def push_at_def demo_bad_update_sel)
  ultimately show ?thesis by blast
qed

text \<open>The digest history is lost when the watcher is faster than the executor.  Recreating a
  container makes the daemon emit \<open>destroy\<close> for the old id and \<open>start\<close> for the new one; if the
  watcher handles both before the executor moves the state, the executor pushes the new digest to a
  state nothing refers to any more, and no rollback of this update is possible.\<close>

theorem watcher_race_loses_history:
  assumes "world_inv w" and "Get (iu_ContainerID p) (w_store w) = Some ca"
    and "state_of (w_store w) i1 = None" and "i1 \<noteq> []" and "i1 \<noteq> iu_ContainerID p"
    and "sc_Inspect docker i1 (w_docker w) = Inr info" and "16 \<le> length (iu_NewDigest p)"
    and ev: "dv_Type ev1 = ''container''" "dv_Action ev1 = ''destroy''" "dv_ID ev1 = iu_ContainerID p"
      "dv_Type ev2 = ''container''" "dv_Action ev2 = ''start''" "dv_ID ev2 = i1"
  shows "\<exists>w1 c. run_steps (watch_step docker) w [(o1, n1, ev1), (o2, n2, ev2)] = Inr w1 \<and>
    (let w2 = w1\<lparr>w_store := carry_state t1 (iu_ContainerID p) (iu_Image p) (iu_NewDigest p) ca i1 (w_store w1)\<rparr> in
     state_of (w_store w2) i1 = Some c \<and> digests c = [] \<and>
     handle_rollback docker now (health_failure t2 p i1 w2) w2 = Inr w2)"
proof -
  let ?old = "iu_ContainerID p"
  note inv = world_invD(2) [OF assms(1)]
  define s1 where "s1 = Remove ?old (w_store w)"
  have s1: "store_inv s1" "st_heap s1 = st_heap (w_store w)" "st_next s1 = st_next (w_store w)"
    "state_of s1 i1 = None" "Get ?old s1 = None"
    using Remove_inv [OF inv] assms(3) by (simp_all add: s1_def state_of_Remove Get_None) (simp_all add: Remove_def)
  have "\<exists>name img labels. handleEvent docker o2 n2 ev2 (w\<lparr>w_store := s1\<rparr>) =
      Inr (w\<lparr>w_store := snd (Upsert i1 name img labels s1)\<rparr>)"
    using assms(6) ev(4-6)
    by (cases "ir_Config info") (auto simp: handleEvent_def handleContainerEvent_def Let_def)
  then obtain name img labels where st: "handleEvent docker o2 n2 ev2 (w\<lparr>w_store := s1\<rparr>) =
      Inr (w\<lparr>w_store := snd (Upsert i1 name img labels s1)\<rparr>)" by blast
  define s2 where "s2 = snd (Upsert i1 name img labels s1)"
  have new: "fmlookup (st_containers s1) i1 = None" using s1(4) by (simp add: state_of_def)
  have s2: "store_inv s2" "fmlookup (st_containers s2) i1 = Some (st_next s1)" "Get ?old s2 = None"
    "digests (st_heap s2 (st_next s1)) = []"
    using Upsert_inv [OF s1(1)] new s1(5) assms(5)
    by (simp_all add: s2_def Get_def) (simp_all add: Upsert_def digests_def)
  have "ca < st_next s1" using store_invD(1) [OF inv, of ?old ca] assms(2) s1(3) by (simp add: Get_def)
  then have ne: "st_next s1 \<noteq> ca" by simp
  define s3 where "s3 = carry_state t1 ?old (iu_Image p) (iu_NewDigest p) ca i1 s2"
  have "s3 = push_at ca (iu_Image p) (iu_NewDigest p) t1 s2"
    using s2(3) assms(4) by (simp add: s3_def carry_state_def Rekey_def Get_def)
  then have s3: "state_of s3 i1 = Some (st_heap s2 (st_next s1))"
    using s2(1,2) ne by (simp add: state_of_push_at) (simp add: state_of_def)
  let ?w1 = "w\<lparr>w_store := s2\<rparr>"
  have "run_steps (watch_step docker) w [(o1, n1, ev1), (o2, n2, ev2)] = Inr ?w1"
    using ev(1-3) st by (simp add: watch_step_def handleEvent_def handleContainerEvent_def s1_def s2_def)
  moreover have "handle_rollback docker now (health_failure t2 p i1 (w\<lparr>w_store := s3\<rparr>)) (w\<lparr>w_store := s3\<rparr>) = Inr (w\<lparr>w_store := s3\<rparr>)"
    using assms(7) s2(4)
    by (simp add: handle_rollback_def checked_slice_to_def health_failure_prev s3 PreviousDigest_digests)
  ultimately show ?thesis using s3 s2(4) by (auto simp: s3_def Let_def)
qed

theorem watcher_race_loses_history_witness:
  "\<exists>w2 c. state_of (w_store w2) ''n-web'' = Some c \<and> digests c = [] \<and>
     handle_rollback (demo_docker True) (\<lambda>_. 0) (health_failure 1 demo_bad_update ''n-web'' w2) w2 = Inr w2"
proof -
  let ?w = "demo_tracked\<lparr>w_docker := fmupd ''n-web'' demo_container fmempty\<rparr>"
  let ?e1 = "\<lparr>dv_Type = ''container'', dv_Action = ''destroy'', dv_ID = ''c1'', dv_Name = ''web'', dv_Image = []\<rparr>"
  let ?e2 = "\<lparr>dv_Type = ''container'', dv_Action = ''start'', dv_ID = ''n-web'', dv_Name = ''web'', dv_Image = []\<rparr>"
  have inv: "world_inv ?w" by (simp add: demo_tracked_inv)
  have m: "st_containers (w_store demo_tracked) = fmupd ''c1'' 0 fmempty"
    by (simp add: demo_tracked_def demo_store_def push_at_def Upsert_def New_store_def)
  have a: "Get (iu_ContainerID demo_bad_update) (w_store ?w) = Some 0" "state_of (w_store ?w) ''n-web'' = None"
    "''n-web'' \<noteq> []" "''n-web'' \<noteq> iu_ContainerID demo_bad_update"
    "sc_Inspect (demo_docker True) ''n-web'' (w_docker ?w) = Inr demo_container"
    "16 \<le> length (iu_NewDigest demo_bad_update)"
    by (simp_all add: demo_bad_update_sel demo_tracked_sel demo_digests state_of_def m demo_docker_def)
  have e: "dv_Type ?e1 = ''container''" "dv_Action ?e1 = ''destroy''" "dv_ID ?e1 = iu_ContainerID demo_bad_update"
    "dv_Type ?e2 = ''container''" "dv_Action ?e2 = ''start''" "dv_ID ?e2 = ''n-web''"
    by (simp_all add: demo_bad_update_sel)
  from watcher_race_loses_history [OF inv a e, of "[]" "\<lambda>_. 0" "[]" "\<lambda>_. 0" 0 "\<lambda>_. 0" 1]
  show ?thesis unfolding Let_def by blast
qed

section \<open>The job a webhook queues\<close>

text \<open>A queued job, not referred to by the events that follow.\<close>

definition left_queued :: "string \<Rightarrow> job_registry \<Rightarrow> bool" where
  "left_queued i r \<longleftrightarrow> (\<exists>a < jr_next r. GetJob i r = Some a \<and> job_outcome (jr_heap r a) = (StatusQueued, None))"

lemma left_queued_frame: "left_queued i r \<Longrightarrow> jobs_frame k n r r' \<Longrightarrow> i \<noteq> k \<Longrightarrow> left_queued i r'"
  unfolding left_queued_def jobs_frame_def by (metis order.strict_trans2)

lemma handlePush_accepted:
  assumes "world_inv w" "handlePush h now t rand o1 o2 r w = Inr (\<lparr>rs_Status = 202, rs_Body = QueuedJob i name\<rparr>, w1)"
    "wh_jobRegistry h"
  shows "world_inv w1 \<and> left_queued i (w_jobs w1) \<and> IsRunning name (w_jobs w1)"
proof -
  obtain p body where "wh_push h body = Some p" "readAndVerify h r = Inr body"
    "poll_container o1 (pp_Image p) w = None" "rq_Method r = ''POST''" "\<not> (pp_Image p = [] \<or> pp_Tag p = [])"
    using assms(2)
    by (auto simp: handlePush_def http_error_def readAndVerify_def reject_poll_def
        split: if_splits sum.splits option.splits)
  note b = this
  obtain w0 where w0: "dispatch_push now o2 (pp_Image p) (pp_Tag p) (pp_Digest p) w = Inr w0" "world_inv w0"
    using dispatch_push_safe [OF assms(1)] by blast
  have "newUUID rand = i" "pp_Image p @ '':'' @ pp_Tag p = name"
    and w1: "w1 = w0\<lparr>w_jobs := registered (push_job t rand p) (w_jobs w0)\<rparr>"
    using assms(2) b w0(1) by (simp_all add: handlePush_def queue_job_eq [OF assms(3)])
  moreover have "dj_ID (push_job t rand p) = newUUID rand"
    "dj_ContainerName (push_job t rand p) = pp_Image p @ '':'' @ pp_Tag p"
    "job_outcome (push_job t rand p) = (StatusQueued, None)"
    by (simp_all add: push_job_def NewJob_def job_outcome_def)
  moreover have "world_inv w1"
    using queue_job_inv [OF w0(2), of h t rand p] by (simp add: queue_job_eq [OF assms(3)] w1)
  ultimately show ?thesis by (auto simp: left_queued_def IsRunning_def registered_sel)
qed

text \<open>The job id a webhook returns is never acted on.  The job is registered under the name
  \<open>image:tag\<close> and the executor creates jobs of its own; whatever updates it handles afterwards,
  the returned job stays queued, and \<open>image:tag\<close> counts as a running deploy as long as no
  container has that name.\<close>

theorem webhook_job_stays_queued:
  assumes "world_inv w" and "wh_jobRegistry h"
    and "handlePush h now t rand o1 o2 r w = Inr (\<lparr>rs_Status = 202, rs_Body = QueuedJob i name\<rparr>, w1)"
    and "\<forall>(now, rand, p) \<in> set events. newUUID rand \<noteq> i \<and> iu_ContainerName p \<noteq> name"
  shows "\<exists>w2 a. run_steps (exec_step e) w1 events = Inr w2 \<and> GetJob i (w_jobs w2) = Some a \<and>
    dj_status (jr_heap (w_jobs w2) a) = StatusQueued \<and> IsRunning name (w_jobs w2)"
proof -
  have "\<exists>w2. run_steps (exec_step e) w1 events = Inr w2 \<and> left_queued i (w_jobs w2) \<and> IsRunning name (w_jobs w2)"
    if "world_inv w1" "left_queued i (w_jobs w1)" "IsRunning name (w_jobs w1)" for w1
    using that assms(4)
  proof (induction events arbitrary: w1)
    case (Cons ev events)
    obtain now rand p where ev: "ev = (now, rand, p)" by (cases ev)
    obtain w' where w': "handle e now rand p w1 = Inr w'" "world_inv w'"
      using handle_safe [OF Cons.prems(1)] by blast
    note fr = handle_jobs_frame [OF Cons.prems(1) w'(1)]
    have "left_queued i (w_jobs w')" "IsRunning name (w_jobs w')"
      using Cons.prems left_queued_frame [OF _ fr, of i] fr by (auto simp: ev IsRunning_def jobs_frame_def)
    from Cons.IH [OF w'(2) this] Cons.prems(4) w'(1) show ?case by (simp add: ev exec_step_def)
  qed simp
  from this [of w1] handlePush_accepted [OF assms(1,3,2)] show ?thesis
    by (auto simp: left_queued_def job_outcome_def)
qed

definition demo_open_hook :: webhook where
  "demo_open_hook = demo_hook\<lparr>wh_secret := []\<rparr>"

lemma demo_accepted:
  "\<exists>w1. handlePush demo_open_hook (\<lambda>_. 0) 1 (replicate 16 0) [''c1''] [''c1''] (demo_push []) demo_world =
     Inr (\<lparr>rs_Status = 202, rs_Body = QueuedJob (newUUID (replicate 16 0)) ''web:2''\<rparr>, w1)"
proof -
  obtain w0 where w0: "dispatch_push (\<lambda>_. 0) [''c1''] ''web'' ''2'' ''sha256:new'' demo_world = Inr w0"
    using dispatch_push_safe [OF demo_world_inv] by blast
  have "poll_container [''c1''] ''web'' demo_world = None"
    by (simp add: poll_container_def find_None_iff in_poll_mode_def Get_service_def demo_world_def demo_manager_def)
  moreover have h: "wh_jobRegistry demo_open_hook" "wh_secret demo_open_hook = []"
    "wh_push demo_open_hook body = Some \<lparr>pp_Image = ''web'', pp_Tag = ''2'', pp_Digest = ''sha256:new'', pp_Source = []\<rparr>"
    for body by (simp_all add: demo_open_hook_def demo_hook_def)
  ultimately show ?thesis using w0
    by (simp add: handlePush_def readAndVerify_def read_limited_def demo_push_def h queue_job_eq [OF h(1)])
qed

theorem webhook_job_stays_queued_witness:
  "\<exists>w1 w2 a. handlePush demo_open_hook (\<lambda>_. 0) 1 (replicate 16 0) [''c1''] [''c1''] (demo_push []) demo_world =
      Inr (\<lparr>rs_Status = 202, rs_Body = QueuedJob (newUUID (replicate 16 0)) ''web:2''\<rparr>, w1) \<and>
    run_steps (exec_step demo_exec) w1 [(\<lambda>_. 1, replicate 16 1, demo_update)] = Inr w2 \<and>
    GetJob (newUUID (replicate 16 0)) (w_jobs w2) = Some a \<and>
    dj_status (jr_heap (w_jobs w2) a) = StatusQueued \<and> IsRunning ''web:2'' (w_jobs w2)"
proof -
  obtain w1 where w1: "handlePush demo_open_hook (\<lambda>_. 0) 1 (replicate 16 0) [''c1''] [''c1''] (demo_push []) demo_world =
      Inr (\<lparr>rs_Status = 202, rs_Body = QueuedJob (newUUID (replicate 16 0)) ''web:2''\<rparr>, w1)"
    using demo_accepted by blast
  have "newUUID (replicate 16 1) \<noteq> newUUID (replicate 16 0)" by code_simp
  moreover have "iu_ContainerName demo_update \<noteq> ''web:2''" by (simp add: demo_update_def)
  ultimately have ev: "\<forall>(now, rand, p) \<in> set [(\<lambda>_ :: nat. 1 :: time, replicate 16 1, demo_update)].
      newUUID rand \<noteq> newUUID (replicate 16 0) \<and> iu_ContainerName p \<noteq> ''web:2''"
    by simp
  have "wh_jobRegistry demo_open_hook" by (simp add: demo_open_hook_def demo_hook_def)
  from webhook_job_stays_queued [OF demo_world_inv this w1 ev, of demo_exec] w1 show ?thesis by blast
qed

section \<open>A container that becomes unhealthy\<close>

text \<open>C12: A watched container that becomes unhealthy before it was ever updated brings the server down.  The
  store is seeded without digests, so the watcher's event carries an empty applied digest, and the
  rollback engine, when it takes the event, slices it before it looks whether there is anything to
  roll back to.\<close>

theorem unhealthy_container_crashes_server:
  assumes "\<forall>c \<in> set cs. 12 \<le> length (sm_ID c)" and "distinct (map sm_ID cs)" and "sc_List docker d = Inr cs"
    and "hist_inv h" and "manager_inv m" and "start_world docker topics h m files d = Inr w"
    and "c \<in> set cs" and "bus_listens (w_bus w) TopicContainerUnhealthy a"
    and ev: "dv_Type ev = ''container''" "dv_Action ev = ''health_status: unhealthy''" "dv_ID ev = sm_ID c"
  shows "\<exists>p w1. run_steps (server_step s) w [Watch order now ev] = Inr w1 \<and> world_inv w1 \<and>
    fst (bus_receive a (w_bus w1)) =
      Received \<lparr>ev_Topic = TopicContainerUnhealthy, ev_Payload = ContainerUnhealthyPayload p\<rparr> \<and>
    cu_ContainerID p = sm_ID c \<and> cu_AppliedDigest p = [] \<and>
    run_steps (server_step s) w [Watch order now ev, TakeEvent a, RollBack now' p] = Inl SliceOutOfRange"
proof -
  obtain w0 where w0: "start_world docker topics h m files d = Inr w0" "world_inv w0"
    "w_bus w0 = snd (run_topics topics New_bus)"
    "\<forall>i. state_of (w_store w0) i = map_option seeded (find (\<lambda>c. sm_ID c = i) cs)"
    using start_world_eq [OF assms(1-5)] by blast
  with assms(6) have w: "world_inv w" "w_bus w = snd (run_topics topics New_bus)"
    "state_of (w_store w) (sm_ID c) = map_option seeded (find (\<lambda>c'. sm_ID c' = sm_ID c) cs)"
    by simp_all
  have "find (\<lambda>c'. sm_ID c' = sm_ID c) cs \<noteq> None" using assms(7) by (auto simp: find_None_iff)
  then obtain c' where c': "find (\<lambda>c'. sm_ID c' = sm_ID c) cs = Some c'" by auto
  then have st: "state_of (w_store w) (sm_ID c) = Some (seeded c')" "sm_ID c' = sm_ID c"
    using w(3) by (auto simp: find_Some_iff)
  let ?p = "unhealthy_payload (now 0) (seeded c')"
  let ?w1 = "w\<lparr>w_bus := deliver TopicContainerUnhealthy (ContainerUnhealthyPayload ?p) (w_bus w)\<rparr>"
  have e: "ev = \<lparr>dv_Type = ''container'', dv_Action = ''health_status: unhealthy'', dv_ID = sm_ID c,
      dv_Name = dv_Name ev, dv_Image = dv_Image ev\<rparr>" using ev by simp
  have p: "cu_ContainerID ?p = sm_ID c" "cu_AppliedDigest ?p = []"
    using st(2) by (simp_all add: unhealthy_payload_def seeded_def CurrentDigest_def)
  have s1: "server_step s w (Watch order now ev) = Inr ?w1"
    by (subst e) (simp add: server_step_def watch_step_def handleEvent_unhealthy [OF w(1) st(1)])
  note i = started_inbox [OF w(2) world_invD(1) [OF w(1)] assms(8)]
  have "inbox ?w1 a = [\<lparr>ev_Topic = TopicContainerUnhealthy, ev_Payload = ContainerUnhealthyPayload ?p\<rparr>]"
    using i assms(8) by (simp add: inbox_def deliver_chan bus_listens_def offer_def)
  then have r: "fst (bus_receive a (w_bus ?w1)) =
      Received \<lparr>ev_Topic = TopicContainerUnhealthy, ev_Payload = ContainerUnhealthyPayload ?p\<rparr>"
    by (rule inbox_receive)
  have "run_steps (server_step s) w [Watch order now ev, TakeEvent a, RollBack now' ?p] = Inl SliceOutOfRange"
    by (simp add: s1) (simp add: server_step_def handle_rollback_short p(2))
  moreover have "world_inv ?w1" by (rule deliver_world_inv [OF w(1)])
  ultimately show ?thesis using s1 r p by auto
qed

definition demo_sick_event :: docker_event where
  "demo_sick_event = \<lparr>dv_Type = ''container'', dv_Action = ''health_status: unhealthy'', dv_ID = ''0123456789ab'',
     dv_Name = ''web'', dv_Image = ''web:1''\<rparr>"

theorem unhealthy_container_crashes_server_witness:
  "\<exists>w a p. start_world demo_host component_topics demo_hist demo_manager demo_fs demo_start = Inr w \<and>
    run_steps (server_step demo_server) w [Watch [] (\<lambda>_. 3) demo_sick_event, TakeEvent a, RollBack (\<lambda>_. 4) p] =
      Inl SliceOutOfRange"
proof -
  obtain w where w: "start_world demo_host component_topics demo_hist demo_manager demo_fs demo_start = Inr w"
    "w_bus w = snd (run_topics component_topics New_bus)"
    using start_world_eq [OF demo_host_list(2,3,1) demo_hist_inv demo_manager_inv] by blast
  have "subs_of (w_bus w) TopicContainerUnhealthy \<noteq> []"
    using run_topics_count [of component_topics New_bus TopicContainerUnhealthy]
    by (auto simp: w(2) component_topics_def notifier_topics_def)
  then obtain x xs where "subs_of (w_bus w) TopicContainerUnhealthy = x # xs"
    by (cases "subs_of (w_bus w) TopicContainerUnhealthy") auto
  then have a: "bus_listens (w_bus w) TopicContainerUnhealthy (sub_ch x)" by (simp add: bus_listens_def)
  have e: "dv_Type demo_sick_event = ''container''" "dv_Action demo_sick_event = ''health_status: unhealthy''"
    "dv_ID demo_sick_event = sm_ID demo_listed" "demo_listed \<in> set [demo_listed]"
    by (simp_all add: demo_sick_event_def demo_listed_def)
  from unhealthy_container_crashes_server
    [OF demo_host_list(2,3,1) demo_hist_inv demo_manager_inv w(1) e(4) a e(1-3), of demo_server "[]" "\<lambda>_. 3" "\<lambda>_. 4"] w(1)
  show ?thesis by blast
qed

text \<open>Every update that Docker Hub's own webhook announces carries an empty digest.  If the updated
  container turns out unhealthy, the monitor reports that digest as the applied one, and the rollback
  engine panics instead of rolling back.\<close>

theorem hub_push_breaks_rollback:
  fixes w w1 :: "'d world"
  assumes "world_inv w" and "handleDockerHub h now order r w = Inr (\<lparr>rs_Status = 200, rs_Body = NoBody\<rparr>, w1)"
  shows "\<exists>ps. w1 = w\<lparr>w_bus := deliver_updates ps (w_bus w)\<rparr> \<and>
    (\<forall>p \<in> set ps. iu_NewDigest p = [] \<and>
      (\<forall>docker now' t i. \<forall>w' :: 'd world.
         handle_rollback docker now' (health_failure t p i w') w' = Inl SliceOutOfRange))"
proof -
  have stamped: "iu_NewDigest p = []" if "p \<in> set (stamp now k full [] cs)" for p k full cs
    using that by (induction cs arbitrary: k) (auto simp: pushed_def)
  have "\<exists>img tag. dispatch_push now order img tag [] w = Inr w1"
    using assms(2) by (auto simp: handleDockerHub_def http_error_def split: if_splits option.splits sum.splits)
  then obtain img tag where "w1 = w\<lparr>w_bus := deliver_updates (stamp now 0 (img @ '':'' @ tag) []
      (push_select (w_config w) [] (map (st_heap (w_store w)) (containersForImage order img (w_store w))))) (w_bus w)\<rparr>"
    by (auto simp: dispatch_push_def push_loop_eq [OF assms(1)])
  then show ?thesis using stamped handle_rollback_short by fastforce
qed

definition demo_hub_hook :: webhook where
  "demo_hub_hook = demo_hook\<lparr>wh_hub := \<lambda>_. Some \<lparr>hb_RepoName = ''web'', hb_Tag = ''2''\<rparr>\<rparr>"

theorem hub_push_breaks_rollback_witness:
  "\<exists>ps w1. handleDockerHub demo_hub_hook (\<lambda>_. 0) [''c1''] (demo_push []) demo_world =
      Inr (\<lparr>rs_Status = 200, rs_Body = NoBody\<rparr>, w1) \<and> w1 = demo_world\<lparr>w_bus := deliver_updates ps (w_bus demo_world)\<rparr> \<and>
    (\<forall>p \<in> set ps. iu_NewDigest p = [])"
proof -
  obtain w1 where "dispatch_push (\<lambda>_. 0) [''c1''] ''web'' ''2'' [] demo_world = Inr w1"
    using dispatch_push_safe [OF demo_world_inv] by blast
  then have "handleDockerHub demo_hub_hook (\<lambda>_. 0) [''c1''] (demo_push []) demo_world =
      Inr (\<lparr>rs_Status = 200, rs_Body = NoBody\<rparr>, w1)"
    by (simp add: handleDockerHub_def demo_push_def demo_hub_hook_def read_limited_def)
  with hub_push_breaks_rollback [OF demo_world_inv this] show ?thesis by blast
qed

section \<open>From a push to the executor\<close>

lemma stamp_in:
  "c \<in> set cs \<Longrightarrow> \<exists>j. pushed (now j) full d c \<in> set (stamp now k full d cs)"
  by (induction cs arbitrary: k) auto

lemma length_stamp [simp]: "length (stamp now k full d cs) = length cs"
  by (induction cs arbitrary: k) auto

lemma length_push_select: "length (push_select m seen cs) \<le> length cs"
  by (induction m seen cs rule: push_select.induct) (auto split: option.split)

text \<open>An event that waits among others is the next one after as many receives as stand before it.\<close>

lemma waiting_event_is_taken:
  assumes "world_inv w" "inbox w a = map (\<lambda>q. \<lparr>ev_Topic = TopicImageUpdated, ev_Payload = ImageUpdatedPayload q\<rparr>) ps"
    and "q \<in> set ps"
  shows "\<exists>n w2. run_steps (server_step s) w (replicate n (TakeEvent a)) = Inr w2 \<and> world_inv w2 \<and>
    fst (bus_receive a (w_bus w2)) = Received \<lparr>ev_Topic = TopicImageUpdated, ev_Payload = ImageUpdatedPayload q\<rparr>"
proof -
  obtain n where n: "n < length ps" "ps ! n = q" using assms(3) by (metis in_set_conv_nth)
  obtain w2 where w2: "run_steps (server_step s) w (replicate n (TakeEvent a)) = Inr w2" "world_inv w2"
    using server.checked_run [OF assms(1), of "replicate n (TakeEvent a)" s] by (auto simp: digest_long_enough_def)
  have "inbox w2 a = drop n (inbox w a)" by (rule take_events [OF w2(1)])
  also have "\<dots> = inbox w a ! n # drop (Suc n) (inbox w a)"
    by (rule Cons_nth_drop_Suc [symmetric]) (use n(1) in \<open>simp add: assms(2)\<close>)
  finally have "inbox w2 a = \<lparr>ev_Topic = TopicImageUpdated, ev_Payload = ImageUpdatedPayload q\<rparr> # drop (Suc n) (inbox w a)"
    using n by (simp add: assms(2))
  from inbox_receive [OF this] w2 show ?thesis by blast
qed

text \<open>A container that a push concerns is not in poll mode if the push was accepted, so its event is published,
  or that of another container the push concerns with the same compose project and service.\<close>

lemma concerned_is_stamped:
  assumes "poll_container o1 img w = None" "range_order o1 (st_containers (w_store w))"
    "range_order o2 (st_containers (w_store w))" "push_concerns img w c"
  shows "\<exists>c' j. pushed (now j) full d c' \<in> set (stamp now 0 full d
      (push_select (w_config w) [] (map (st_heap (w_store w)) (containersForImage o2 img (w_store w))))) \<and>
    push_concerns img w c' \<and> compose_key (cs_Labels c') = compose_key (cs_Labels c) \<and>
    (compose_key (cs_Labels c) = None \<longrightarrow> c' = c)"
proof -
  let ?all = "map (st_heap (w_store w)) (containersForImage o2 img (w_store w))"
  let ?cs = "push_select (w_config w) [] ?all"
  have all: "x \<in> set ?all \<longleftrightarrow> push_concerns img w x" for x
    unfolding containersForImage_states [OF assms(3)] by (simp add: push_concerns_def)
  have event: "\<not> in_poll_mode (cs_Name x) (w_config w)" if "push_concerns img w x" for x
  proof
    assume m: "in_poll_mode (cs_Name x) (w_config w)"
    have "x \<in> set (map (st_heap (w_store w)) (containersForImage o1 img (w_store w)))"
      unfolding containersForImage_states [OF assms(2)] using that by (simp add: push_concerns_def)
    with assms(1) m show False by (auto simp: poll_container_def find_None_iff)
  qed
  have "\<exists>c' \<in> set ?cs. compose_key (cs_Labels c') = compose_key (cs_Labels c) \<and>
    (compose_key (cs_Labels c) = None \<longrightarrow> c' = c)"
  proof (cases "compose_key (cs_Labels c)")
    case None
    with push_select_plain [of c ?all] all assms(4) event show ?thesis by blast
  next
    case (Some x)
    have g: "\<forall>y \<in> set ?all. compose_key (cs_Labels y) = Some x \<longrightarrow> \<not> in_poll_mode (cs_Name y) (w_config w)"
      "x \<in> set (keys_of ?all)"
      unfolding in_keys_of using Some all assms(4) event by blast+
    have "x \<in> set (keys_of ?cs)" by (rule push_select_group) (simp, rule g(2), rule g(1))
    with Some show ?thesis by (auto simp: in_keys_of)
  qed
  then obtain c' where c': "c' \<in> set ?cs" "compose_key (cs_Labels c') = compose_key (cs_Labels c)"
    "compose_key (cs_Labels c) = None \<longrightarrow> c' = c" by (elim bexE conjE) (rule that; assumption)
  moreover have "push_concerns img w c'" using push_select_sound [OF c'(1)] all by blast
  moreover obtain j where "pushed (now j) full d c' \<in> set (stamp now 0 full d ?cs)" using stamp_in [OF c'(1)] by blast
  ultimately show ?thesis by (intro exI [of _ c'] exI [of _ j]) simp
qed

text \<open>C13: An accepted push reaches the executor with the reference and the digest its body carries, for every tracked
  container of the image, where the containers of one compose service are updated through one of them: if nothing
  waited in the executor's channel and at most 64 containers are tracked, then after finitely many of its receives
  the next one yields the event of the container (of one with its compose project and service), and nothing the
  server does on the way panics.\<close>

theorem push_reaches_executor:
  assumes "world_inv w" and "handlePush h now t rand o1 o2 r w = Inr (\<lparr>rs_Status = 202, rs_Body = QueuedJob i full\<rparr>, w1)"
    and "wh_jobRegistry h" and "range_order o1 (st_containers (w_store w))" and "range_order o2 (st_containers (w_store w))"
    and "bus_listens (w_bus w) TopicImageUpdated a" and "inbox w a = []" and "ch_cap (bs_chans (w_bus w) a) = 64"
    and "card (fmdom' (st_containers (w_store w))) \<le> 64"
  shows "\<exists>body p. readAndVerify h r = Inr body \<and> wh_push h body = Some p \<and> full = pp_Image p @ '':'' @ pp_Tag p \<and>
    (\<forall>c. push_concerns (pp_Image p) w c \<longrightarrow>
      (\<exists>n w2 q c'. run_steps (server_step s) w1 (replicate n (TakeEvent a)) = Inr w2 \<and> world_inv w2 \<and>
        fst (bus_receive a (w_bus w2)) =
          Received \<lparr>ev_Topic = TopicImageUpdated, ev_Payload = ImageUpdatedPayload q\<rparr> \<and>
        iu_ContainerID q = cs_ID c' \<and> iu_Image q = full \<and> iu_NewDigest q = pp_Digest p \<and>
        push_concerns (pp_Image p) w c' \<and> compose_key (cs_Labels c') = compose_key (cs_Labels c) \<and>
        (compose_key (cs_Labels c) = None \<longrightarrow> c' = c)))"
proof -
  obtain p body where b: "wh_push h body = Some p" "readAndVerify h r = Inr body"
    "poll_container o1 (pp_Image p) w = None" "rq_Method r = ''POST''" "\<not> (pp_Image p = [] \<or> pp_Tag p = [])"
    using assms(2)
    by (auto simp: handlePush_def http_error_def readAndVerify_def reject_poll_def
        split: if_splits sum.splits option.splits)
  define cs where "cs = push_select (w_config w) [] (map (st_heap (w_store w)) (containersForImage o2 (pp_Image p) (w_store w)))"
  let ?full = "pp_Image p @ '':'' @ pp_Tag p"
  let ?ps = "stamp now 0 ?full (pp_Digest p) cs"
  define w0 where "w0 = w\<lparr>w_bus := deliver_updates ?ps (w_bus w)\<rparr>"
  have d: "dispatch_push now o2 (pp_Image p) (pp_Tag p) (pp_Digest p) w = Inr w0"
    by (simp add: dispatch_push_def push_loop_eq [OF assms(1)] cs_def w0_def)
  have f: "?full = full" and w1: "w1 = w0\<lparr>w_jobs := registered (push_job t rand p) (w_jobs w0)\<rparr>"
    using assms(2) b d by (simp_all add: handlePush_def queue_job_eq [OF assms(3)])
  have inv: "world_inv w1"
    using queue_job_inv [OF deliver_updates_world [OF assms(1)], of h t rand p ?ps]
    by (simp add: queue_job_eq [OF assms(3)] w1 w0_def)
  have "length cs \<le> length (map (st_heap (w_store w)) (containersForImage o2 (pp_Image p) (w_store w)))"
    unfolding cs_def by (rule length_push_select)
  also have "\<dots> \<le> length (All o2 (w_store w))" by (simp add: containersForImage_def)
  also have "\<dots> = card (fmdom' (st_containers (w_store w)))" by (simp add: All_def length_range_values [OF assms(5)])
  finally have n64: "length ?ps \<le> ch_cap (bs_chans (w_bus w) a)" using assms(8,9) by simp
  have box: "inbox w1 a = map (\<lambda>q. \<lparr>ev_Topic = TopicImageUpdated, ev_Payload = ImageUpdatedPayload q\<rparr>) ?ps"
    using inbox_updates [OF assms(6) _ n64] assms(7) by (simp add: inbox_def w1 w0_def)
  have "\<exists>n w2 q c'. run_steps (server_step s) w1 (replicate n (TakeEvent a)) = Inr w2 \<and> world_inv w2 \<and>
        fst (bus_receive a (w_bus w2)) =
          Received \<lparr>ev_Topic = TopicImageUpdated, ev_Payload = ImageUpdatedPayload q\<rparr> \<and>
        iu_ContainerID q = cs_ID c' \<and> iu_Image q = full \<and> iu_NewDigest q = pp_Digest p \<and>
        push_concerns (pp_Image p) w c' \<and> compose_key (cs_Labels c') = compose_key (cs_Labels c) \<and>
        (compose_key (cs_Labels c) = None \<longrightarrow> c' = c)" if c: "push_concerns (pp_Image p) w c" for c
  proof -
    obtain c' j where j: "pushed (now j) ?full (pp_Digest p) c' \<in> set ?ps" and c': "push_concerns (pp_Image p) w c'"
      "compose_key (cs_Labels c') = compose_key (cs_Labels c)" "compose_key (cs_Labels c) = None \<longrightarrow> c' = c"
      using concerned_is_stamped [OF b(3) assms(4,5) c, of now ?full "pp_Digest p"] by (auto simp: cs_def)
    let ?q = "pushed (now j) ?full (pp_Digest p) c'"
    have "iu_ContainerID ?q = cs_ID c'" "iu_Image ?q = full" "iu_NewDigest ?q = pp_Digest p"
      using f by (simp_all add: pushed_def)
    moreover obtain n w2 where "run_steps (server_step s) w1 (replicate n (TakeEvent a)) = Inr w2" "world_inv w2"
      "fst (bus_receive a (w_bus w2)) = Received \<lparr>ev_Topic = TopicImageUpdated, ev_Payload = ImageUpdatedPayload ?q\<rparr>"
      using waiting_event_is_taken [OF inv box j, of s] by blast
    ultimately show ?thesis using c' by metis
  qed
  with b(1,2) f show ?thesis by blast
qed

theorem push_reaches_executor_witness:
  "\<exists>w1 n w2 q. handlePush demo_open_hook (\<lambda>_. 0) 1 (replicate 16 0) [''c1''] [''c1''] (demo_push []) demo_world =
      Inr (\<lparr>rs_Status = 202, rs_Body = QueuedJob (newUUID (replicate 16 0)) ''web:2''\<rparr>, w1) \<and>
    run_steps (server_step demo_server) w1 (replicate n (TakeEvent 0)) = Inr w2 \<and>
    fst (bus_receive 0 (w_bus w2)) =
      Received \<lparr>ev_Topic = TopicImageUpdated, ev_Payload = ImageUpdatedPayload q\<rparr> \<and> iu_ContainerID q = ''c1'' \<and>
    iu_NewDigest q = ''sha256:new''"
proof -
  obtain w1 where w1: "handlePush demo_open_hook (\<lambda>_. 0) 1 (replicate 16 0) [''c1''] [''c1''] (demo_push []) demo_world =
      Inr (\<lparr>rs_Status = 202, rs_Body = QueuedJob (newUUID (replicate 16 0)) ''web:2''\<rparr>, w1)"
    using demo_accepted by blast
  have l: "bus_listens (w_bus demo_world) TopicImageUpdated 0" "inbox demo_world 0 = []"
    "ch_cap (bs_chans (w_bus demo_world) 0) = 64"
    by (simp_all add: bus_listens_def inbox_def demo_world_def demo_bus_def Subscribe_sel New_bus_def)
  have k: "card (fmdom' (st_containers (w_store demo_world))) \<le> 64"
    by (simp add: demo_world_def demo_store_def push_at_def Upsert_def New_store_def)
  have j: "wh_jobRegistry demo_open_hook" by (simp add: demo_open_hook_def demo_hook_def)
  let ?p = "\<lparr>pp_Image = ''web'', pp_Tag = ''2'', pp_Digest = ''sha256:new'', pp_Source = []\<rparr>"
  have "wh_push demo_open_hook body = Some ?p" for body by (simp add: demo_open_hook_def demo_hook_def)
  with push_reaches_executor [OF demo_world_inv w1 j demo_hook_order demo_hook_order l k, of demo_server]
  have all: "\<forall>c. push_concerns ''web'' demo_world c \<longrightarrow>
      (\<exists>n w2 q c'. run_steps (server_step demo_server) w1 (replicate n (TakeEvent 0)) = Inr w2 \<and>
        fst (bus_receive 0 (w_bus w2)) =
          Received \<lparr>ev_Topic = TopicImageUpdated, ev_Payload = ImageUpdatedPayload q\<rparr> \<and>
        iu_ContainerID q = cs_ID c' \<and> iu_NewDigest q = ''sha256:new'' \<and> (compose_key (cs_Labels c) = None \<longrightarrow> c' = c))"
    by (simp add: all_conj_distrib) blast
  obtain C where C: "state_of (w_store demo_world) ''c1'' = Some C" "cs_Image C = ''web:1''" "cs_Labels C = fmempty"
    "cs_ID C = ''c1''"
    using demo_state by (simp add: demo_world_def)
  have "stored_name ''web:1'' = ''web''" by (simp add: stored_name_def LastIndex_def slice_to_def)
  then have "push_concerns ''web'' demo_world C" using C by (auto simp: push_concerns_def)
  moreover have "compose_key (cs_Labels C) = None" by (simp add: C(3) compose_key_def)
  ultimately obtain n w2 q where "run_steps (server_step demo_server) w1 (replicate n (TakeEvent 0)) = Inr w2"
    "fst (bus_receive 0 (w_bus w2)) = Received \<lparr>ev_Topic = TopicImageUpdated, ev_Payload = ImageUpdatedPayload q\<rparr>"
    "iu_ContainerID q = ''c1''" "iu_NewDigest q = ''sha256:new''"
    using all C(4) by metis
  with w1 show ?thesis by blast
qed

section \<open>From a request to an agent's shell\<close>

text \<open>C39: Whatever text a client of the API sends as the service of an agent's update, the agent hands it to a
  shell as part of a command line, unquoted and twice; the API asks for no credentials, and the image that is sent
  with it has no influence on what is run.\<close>

theorem agent_update_runs_shell_text:
  assumes "hub_inv s" and "agent_at s h = Some a" and "length (ch_buf (ac_send (ah_heap s a))) < 32"
    and "aq_Method r = ''POST''" and "aq_Path r = ''/api/agents/'' @ h @ ''/update''" and "CHR ''/'' \<notin> set h"
    and "ax_dispatch x (aq_Body r) = Some (service, img)" and "service \<noteq> []"
  shows "\<exists>s' cmd. handleAgentDispatch x nano r s = Inr (ok_reply (DispatchedAs (cm_ID cmd)), s') \<and>
    ch_buf (ac_send (ah_heap s' a)) = ch_buf (ac_send (ah_heap s a)) @ [cmd] \<and>
    (\<forall>other. buildArgs (cmd\<lparr>cm_Image := other\<rparr>) = Inr [''sh'', ''-c'',
      ''docker compose pull '' @ service @ '' && docker compose up -d --no-deps '' @ service])"
proof -
  have "TrimPrefix (aq_Path r) ''/api/agents/'' = h @ CHR ''/'' # ''update''" by (simp add: assms(5) TrimPrefix_def)
  then have p: "SplitN (TrimPrefix (aq_Path r) ''/api/agents/'') CHR ''/'' 2 = [h, ''update'']"
    using assms(6) by (simp add: numeral_2_eq_2 takeWhile_append)
  let ?cmd = "agent_command nano service img"
  have cap: "ch_cap (ac_send (ah_heap s a)) = 32" using assms(1,2) by (auto simp: hub_inv_def)
  have "handleAgentDispatch x nano r s = Inr (ok_reply (DispatchedAs (cm_ID ?cmd)),
      s\<lparr>ah_heap := (ah_heap s)(a := (ah_heap s a)\<lparr>ac_send := offer ?cmd (ac_send (ah_heap s a))\<rparr>)\<rparr>)"
    using assms(2,3,4,7,8) p by (simp add: handleAgentDispatch_def Dispatch_cases [OF assms(1)] Let_def)
  moreover have "ch_buf (offer ?cmd (ac_send (ah_heap s a))) = ch_buf (ac_send (ah_heap s a)) @ [?cmd]"
    using assms(3) cap by (simp add: offer_def)
  moreover have "buildArgs (?cmd\<lparr>cm_Image := other\<rparr>) = Inr [''sh'', ''-c'',
      ''docker compose pull '' @ service @ '' && docker compose up -d --no-deps '' @ service]" for other
    using assms(8) by (simp add: buildArgs_def agent_command_def)
  ultimately show ?thesis by auto
qed

theorem agent_update_runs_shell_text_witness:
  "\<exists>s' cmd. handleAgentDispatch (demo_api\<lparr>ax_dispatch := \<lambda>_. Some (''web; reboot #'', [])\<rparr>) ''77''
      (demo_request ''POST'' ''/api/agents/host/update'') demo_hub = Inr (ok_reply (DispatchedAs (cm_ID cmd)), s') \<and>
    ch_buf (ac_send (ah_heap s' 0)) = [cmd] \<and> buildArgs (cmd\<lparr>cm_Image := ''web:2''\<rparr>) = Inr [''sh'', ''-c'',
      ''docker compose pull web; reboot # && docker compose up -d --no-deps web; reboot #'']"
proof -
  let ?x = "demo_api\<lparr>ax_dispatch := \<lambda>_. Some (''web; reboot #'', [])\<rparr>" and ?r = "demo_request ''POST'' ''/api/agents/host/update''"
  have h: "aq_Method ?r = ''POST''" "aq_Path ?r = ''/api/agents/'' @ ''host'' @ ''/update''" "CHR ''/'' \<notin> set ''host''"
    "ax_dispatch ?x (aq_Body ?r) = Some (''web; reboot #'', [])" "''web; reboot #'' \<noteq> []"
    by (simp_all add: demo_request_def)
  have b: "agent_at demo_hub ''host'' = Some 0" "ch_buf (ac_send (ah_heap demo_hub 0)) = []"
    by (simp_all add: demo_hub_def begin_session_def demo_register_def New_hub_def Let_def agents.lookup_insert)
  have l: "length (ch_buf (ac_send (ah_heap demo_hub 0))) < 32" by (simp add: b(2))
  obtain s' cmd where "handleAgentDispatch ?x ''77'' ?r demo_hub = Inr (ok_reply (DispatchedAs (cm_ID cmd)), s')"
    "ch_buf (ac_send (ah_heap s' 0)) = ch_buf (ac_send (ah_heap demo_hub 0)) @ [cmd]"
    "\<forall>other. buildArgs (cmd\<lparr>cm_Image := other\<rparr>) = Inr [''sh'', ''-c'',
      ''docker compose pull '' @ ''web; reboot #'' @ '' && docker compose up -d --no-deps '' @ ''web; reboot #'']"
    using agent_update_runs_shell_text [OF demo_hub_inv b(1) l h, of "''77''"] by blast
  then show ?thesis using b(2) by (simp add: append_Cons)
qed

end
